(* ===== verification/Prelude.thy ===== *)
theory Prelude
  imports Main
begin

text \<open>
  Shared vocabulary of the development: the types every component uses (instants,
  identifiers, the errors a request can end in), JavaScript's insertion-ordered
  \<open>Map\<close> as an association list, the ``update the rows that match'' of a database
  table, and the generic facts about them. Two interfaces are stated here as locales:
  a map whose size is bounded by eviction (the rate limiter and the metadata cache are
  the providers), and a machine whose steps keep an invariant.
\<close>

section \<open>Types\<close>

text \<open>Instants are milliseconds since the epoch, as \<open>Date.getTime()\<close> returns them.\<close>
type_synonym millis = int

text \<open>
  Identifiers the database draws (\<open>gen_random_uuid()\<close>, a sequence). Only their
  distinctness matters, so they are numbers and a table's next one comes from a counter.
\<close>
type_synonym uuid = nat

text \<open>
  The exceptions a service throws, as NestJS names them, without their message texts.
  A quota refusal carries the numbers the client is shown.
\<close>
datatype quota_resource = QChecks | QProjects | QChannels

datatype http_error =
    BadRequest
  | Unauthorized
  | Forbidden
  | ReauthRequired
  | NotFound
  | Conflict
  | QuotaExceeded quota_resource nat nat "string option"
  | TooManyRequests nat
  | BadGateway
  | ServerError

fun status_of :: "http_error \<Rightarrow> nat" where
  "status_of BadRequest = 400"
| "status_of Unauthorized = 401"
| "status_of Forbidden = 403"
| "status_of ReauthRequired = 403"
| "status_of NotFound = 404"
| "status_of Conflict = 409"
| "status_of (QuotaExceeded _ _ _ _) = 402"
| "status_of (TooManyRequests _) = 429"
| "status_of BadGateway = 502"
| "status_of ServerError = 500"

section \<open>Rows of a table\<close>

text \<open>\<open>UPDATE \<dots> SET f WHERE p\<close>: the rows that satisfy \<open>p\<close> change, in place.\<close>

definition update_where :: "('a \<Rightarrow> bool) \<Rightarrow> ('a \<Rightarrow> 'a) \<Rightarrow> 'a list \<Rightarrow> 'a list" where
  "update_where p f rows = map (\<lambda>r. if p r then f r else r) rows"

lemma length_update_where [simp]: "length (update_where p f rows) = length rows"
  by (simp add: update_where_def)

lemma update_where_Nil [simp]: "update_where p f [] = []"
  by (simp add: update_where_def)

lemma update_where_Cons [simp]:
  "update_where p f (r # rows) = (if p r then f r else r) # update_where p f rows"
  by (simp add: update_where_def)

lemma update_where_append [simp]:
  "update_where p f (xs @ ys) = update_where p f xs @ update_where p f ys"
  by (simp add: update_where_def)

lemma update_where_id: "(\<And>r. r \<in> set rows \<Longrightarrow> \<not> p r) \<Longrightarrow> update_where p f rows = rows"
  by (induction rows) auto

lemma set_update_where:
  "r \<in> set (update_where p f rows) \<longleftrightarrow>
     (\<exists>q \<in> set rows. (p q \<and> r = f q) \<or> (\<not> p q \<and> r = q))"
  by (auto simp: update_where_def)

lemma update_where_memE:
  assumes "r \<in> set (update_where p f rows)"
  obtains (changed) q where "q \<in> set rows" "p q" "r = f q"
    | (kept) "r \<in> set rows" "\<not> p r"
  using assms by (auto simp: set_update_where)

lemma map_update_where:
  "(\<And>r. p r \<Longrightarrow> g (f r) = g r) \<Longrightarrow> map g (update_where p f rows) = map g rows"
  by (induction rows) auto

text \<open>The first row that satisfies a predicate, as \<open>findUnique\<close>/\<open>rows[0]\<close> give it.\<close>

lemma find_SomeD: "find p xs = Some x \<Longrightarrow> x \<in> set xs \<and> p x"
  by (induction xs) (auto split: if_splits)

lemma find_NoneD: "find p xs = None \<Longrightarrow> x \<in> set xs \<Longrightarrow> \<not> p x"
  by (auto simp: find_None_iff)

lemma find_unique:
  "distinct (map k xs) \<Longrightarrow> x \<in> set xs \<Longrightarrow> find (\<lambda>y. k y = k x) xs = Some x"
  by (induction xs) force+

lemma find_append: "find p (xs @ ys) = (case find p xs of None \<Rightarrow> find p ys | Some x \<Rightarrow> Some x)"
  by (induction xs) auto

lemma find_filter: "(\<And>x. p x \<Longrightarrow> q x) \<Longrightarrow> find p (filter q xs) = find p xs"
  by (induction xs) auto

lemma distinct_map_memD:
  "distinct (map k xs) \<Longrightarrow> x \<in> set xs \<Longrightarrow> y \<in> set xs \<Longrightarrow> k x = k y \<Longrightarrow> x = y"
  by (auto simp: distinct_map inj_on_def)

lemma filter_distinct_key:
  "distinct (map f xs) \<Longrightarrow> length (filter (\<lambda>x. f x = y) xs) = (if y \<in> f ` set xs then 1 else 0)"
  by (induction xs) auto

lemma distinct_mapD: "distinct (map f xs) \<Longrightarrow> distinct xs"
  by (simp add: distinct_map)

text \<open>\<open>ORDER BY key LIMIT n\<close> over the rows of a predicate.\<close>

definition select_batch :: "('a \<Rightarrow> bool) \<Rightarrow> ('a \<Rightarrow> 'k::linorder) \<Rightarrow> nat \<Rightarrow> 'a list \<Rightarrow> 'a list" where
  "select_batch p k n rows = take n (sort_key k (filter p rows))"

lemma select_batch_subset: "set (select_batch p k n rows) \<subseteq> {r \<in> set rows. p r}"
  by (auto simp: select_batch_def dest: in_set_takeD)

lemma select_batch_length [simp]:
  "length (select_batch p k n rows) = min n (length (filter p rows))"
  by (simp add: select_batch_def min.commute)

lemma select_batch_all:
  "length (filter p rows) \<le> n \<Longrightarrow> set (select_batch p k n rows) = {r \<in> set rows. p r}"
  by (simp add: select_batch_def)

lemma distinct_select_batch:
  assumes "distinct (map g rows)"
  shows "distinct (map g (select_batch p k n rows))"
proof -
  have "distinct (map g (filter p rows))"
    using assms by (simp add: distinct_map_filter)
  then have "distinct (map g (sort_key k (filter p rows)))"
    by (simp add: distinct_map)
  then show ?thesis
    by (simp add: select_batch_def take_map [symmetric])
qed

lemma filter_mem_length:
  assumes "distinct xs" "distinct ys" "set ys \<subseteq> set xs"
  shows "length (filter (\<lambda>x. x \<in> set ys) xs) = length ys"
proof -
  have "length (filter (\<lambda>x. x \<in> set ys) xs) = card (set (filter (\<lambda>x. x \<in> set ys) xs))"
    by (rule distinct_card [symmetric]) (simp add: assms(1))
  also have "set (filter (\<lambda>x. x \<in> set ys) xs) = set ys" using assms(3) by auto
  also have "card (set ys) = length ys" by (rule distinct_card [OF assms(2)])
  finally show ?thesis .
qed

lemma filter_split_length:
  "length (filter p xs) = length (filter (\<lambda>x. p x \<and> q x) xs) + length (filter (\<lambda>x. p x \<and> \<not> q x) xs)"
  by (induction xs) auto

lemma length_filter_le_length: "length (filter p xs) \<le> length xs"
  by (rule length_filter_le)

lemma filter_length_mono:
  "(\<And>x. x \<in> set xs \<Longrightarrow> p x \<Longrightarrow> q x) \<Longrightarrow> length (filter p xs) \<le> length (filter q xs)"
  by (induction xs) auto

lemma filter_update_where_length_zero:
  "(\<And>r. r \<in> set rows \<Longrightarrow> \<not> q r) \<Longrightarrow> filter q rows = []"
  by (simp add: filter_empty_conv)

section \<open>JavaScript's Map, in insertion order\<close>

type_synonym ('k, 'v) js_map = "('k \<times> 'v) list"

definition js_delete :: "'k \<Rightarrow> ('k, 'v) js_map \<Rightarrow> ('k, 'v) js_map" where
  "js_delete k m = filter (\<lambda>e. fst e \<noteq> k) m"

text \<open>\<open>set\<close> overwrites the value of a present key where it stands, and appends a new one.\<close>

definition js_set :: "'k \<Rightarrow> 'v \<Rightarrow> ('k, 'v) js_map \<Rightarrow> ('k, 'v) js_map" where
  "js_set k v m =
     (if k \<in> fst ` set m then map (\<lambda>e. if fst e = k then (k, v) else e) m else m @ [(k, v)])"

lemma map_of_js_delete [simp]:
  "map_of (js_delete k m) = (map_of m)(k := None)"
proof
  fix x
  show "map_of (js_delete k m) x = ((map_of m)(k := None)) x"
    by (induction m) (auto simp: js_delete_def)
qed

lemma map_of_overwrite:
  "k \<in> fst ` set m \<Longrightarrow>
     map_of (map (\<lambda>e. if fst e = k then (k, v) else e) m) = (map_of m)(k := Some v)"
proof (induction m)
  case Nil
  then show ?case by simp
next
  case (Cons e m)
  show ?case
  proof (cases "k \<in> fst ` set m")
    case True
    then show ?thesis using Cons.IH by (auto simp: fun_eq_iff)
  next
    case False
    then have "map (\<lambda>e. if fst e = k then (k, v) else e) m = m"
      by (intro map_idI) auto
    with Cons.prems False show ?thesis by (auto simp: fun_eq_iff)
  qed
qed

lemma map_of_snoc: "k \<notin> fst ` set m \<Longrightarrow> map_of (m @ [(k, v)]) = (map_of m)(k := Some v)"
  by (simp add: map_add_upd_left dom_map_of_conv_image_fst)

lemma map_of_js_set [simp]: "map_of (js_set k v m) = (map_of m)(k := Some v)"
  by (simp add: js_set_def map_of_overwrite map_of_snoc del: map_of_append)

lemma distinct_js_delete [simp]:
  "distinct (map fst m) \<Longrightarrow> distinct (map fst (js_delete k m))"
  by (simp add: js_delete_def distinct_map_filter)

lemma js_delete_keys [simp]: "fst ` set (js_delete k m) = fst ` set m - {k}"
  by (auto simp: js_delete_def)

lemma keys_overwrite:
  "map fst (map (\<lambda>e. if fst e = k then (k, v) else e) m) = map fst m"
  by (induction m) auto

lemma distinct_js_set [simp]: "distinct (map fst m) \<Longrightarrow> distinct (map fst (js_set k v m))"
  by (auto simp: js_set_def keys_overwrite simp del: map_map)

lemma js_set_keys [simp]: "fst ` set (js_set k v m) = insert k (fst ` set m)"
proof -
  have "fst ` set (map (\<lambda>e. if fst e = k then (k, v) else e) m) = fst ` set m"
    using arg_cong [OF keys_overwrite [of k v m], of set] by (simp only: set_map)
  then show ?thesis by (auto simp: js_set_def)
qed

lemma length_js_delete_le: "length (js_delete k m) \<le> length m"
  by (simp add: js_delete_def)

lemma length_js_set_le: "length (js_set k v m) \<le> Suc (length m)"
  by (simp add: js_set_def)

lemma length_js_set_present: "k \<in> fst ` set m \<Longrightarrow> length (js_set k v m) = length m"
  by (simp add: js_set_def)

lemma js_set_absent: "k \<notin> fst ` set m \<Longrightarrow> js_set k v m = m @ [(k, v)]"
  by (simp add: js_set_def)

lemma set_js_set: "set (js_set k v m) \<subseteq> insert (k, v) (set m)"
  by (auto simp: js_set_def)

lemma set_js_delete: "set (js_delete k m) \<subseteq> set m"
  by (auto simp: js_delete_def)

lemma map_of_None_keys: "map_of m k = None \<longleftrightarrow> k \<notin> fst ` set m"
  by (rule map_of_eq_None_iff)

section \<open>A map bounded by eviction\<close>

text \<open>
  What a client of a bounded in-memory table relies on: evicting only forgets entries, and
  it makes room. The two ways the code inserts (overwrite in place, or delete and
  re-insert at the end) then keep the table within its capacity.
\<close>

definition bounded :: "nat \<Rightarrow> ('k, 'v) js_map \<Rightarrow> bool" where
  "bounded cap m \<longleftrightarrow> distinct (map fst m) \<and> length m \<le> cap"

locale bounded_map =
  fixes cap :: nat
    and evict :: "('k, 'v) js_map \<Rightarrow> ('k, 'v) js_map"
  assumes evict_subset: "set (evict m) \<subseteq> set m"
    and evict_distinct: "distinct (map fst m) \<Longrightarrow> distinct (map fst (evict m))"
    and evict_room: "0 < cap \<Longrightarrow> length m \<le> cap \<Longrightarrow> length (evict m) < cap"
begin

lemma make_room:
  assumes "0 < cap" and "bounded cap m"
  shows "distinct (map fst (if cap \<le> length m then evict m else m))"
    and "length (if cap \<le> length m then evict m else m) < cap"
  using assms evict_distinct evict_room by (auto simp: bounded_def)

lemma bounded_store:
  assumes "0 < cap" and "bounded cap m"
  shows "bounded cap (js_set k v (if cap \<le> length m then evict m else m))"
  using make_room [OF assms] length_js_set_le [of k v "if cap \<le> length m then evict m else m"]
  by (simp add: bounded_def)

lemma bounded_reinsert:
  assumes "0 < cap" and "bounded cap m"
  shows "bounded cap (js_set k v (js_delete k (if cap \<le> length m then evict m else m)))"
  using make_room [OF assms]
    length_js_set_le [of k v "js_delete k (if cap \<le> length m then evict m else m)"]
    length_js_delete_le [of k "if cap \<le> length m then evict m else m"]
  unfolding bounded_def by (intro conjI distinct_js_set distinct_js_delete) simp_all

end

lemma bounded_Nil [simp]: "bounded cap []"
  by (simp add: bounded_def)

lemma bounded_delete: "bounded cap m \<Longrightarrow> bounded cap (js_delete k m)"
  by (auto simp: bounded_def intro: le_trans [OF length_js_delete_le])

lemma bounded_overwrite:
  "bounded cap m \<Longrightarrow> k \<in> fst ` set m \<Longrightarrow> bounded cap (js_set k v m)"
  by (simp add: bounded_def length_js_set_present)

section \<open>Machines that keep an invariant\<close>

text \<open>
  A component driven by events. One preservation law per event gives the invariant for
  every run; the events come from the environment in any order.
\<close>

locale machine =
  fixes step :: "'e \<Rightarrow> 's \<Rightarrow> 's"
    and inv :: "'s \<Rightarrow> bool"
  assumes step_keeps: "inv s \<Longrightarrow> inv (step e s)"
begin

lemma run_keeps: "inv s \<Longrightarrow> inv (fold step es s)"
  by (induction es arbitrary: s) (auto intro: step_keeps)

lemma run_prefix_keeps: "inv s \<Longrightarrow> inv (fold step (take n es) s)"
  by (rule run_keeps)

end

end
