(* ===== verification/JsText.thy ===== *)
theory JsText
  imports Prelude
begin

text \<open>
  The JavaScript string operations the source uses, on HOL's \<open>string\<close>: a character is a
  code unit up to 255 (ASCII and Latin-1). \<open>split\<close>, \<open>trim\<close>, \<open>toLowerCase\<close>, decimal
  numbers and the character classes of the source's regular expressions, with the lemmas
  about them that the parsers and printers share.
\<close>

section \<open>Character classes\<close>

abbreviation code :: "char \<Rightarrow> nat" where
  "code c \<equiv> of_char c"

text \<open>\<open>\s\<close> and what \<open>trim\<close> removes, among the code units up to 255.\<close>

definition is_space :: "char \<Rightarrow> bool" where
  "is_space c \<longleftrightarrow> 9 \<le> code c \<and> code c \<le> 13 \<or> code c = 32 \<or> code c = 160"

definition is_digit :: "char \<Rightarrow> bool" where
  "is_digit c \<longleftrightarrow> 48 \<le> code c \<and> code c \<le> 57"

definition is_lower :: "char \<Rightarrow> bool" where
  "is_lower c \<longleftrightarrow> 97 \<le> code c \<and> code c \<le> 122"

definition is_upper :: "char \<Rightarrow> bool" where
  "is_upper c \<longleftrightarrow> 65 \<le> code c \<and> code c \<le> 90"

text \<open>\<open>[0-9a-f]\<close>, and the same under the flag \<open>i\<close>.\<close>

definition is_hex_lower :: "char \<Rightarrow> bool" where
  "is_hex_lower c \<longleftrightarrow> is_digit c \<or> 97 \<le> code c \<and> code c \<le> 102"

definition is_hex :: "char \<Rightarrow> bool" where
  "is_hex c \<longleftrightarrow> is_hex_lower c \<or> 65 \<le> code c \<and> code c \<le> 70"

text \<open>\<open>.\<close> in a regular expression: anything but a line terminator.\<close>

definition is_dot :: "char \<Rightarrow> bool" where
  "is_dot c \<longleftrightarrow> code c \<noteq> 10 \<and> code c \<noteq> 13"

definition lower_char :: "char \<Rightarrow> char" where
  "lower_char c =
     (if is_upper c \<or> (192 \<le> code c \<and> code c \<le> 222 \<and> code c \<noteq> 215)
      then char_of (code c + 32) else c)"

definition to_lower :: "string \<Rightarrow> string" where
  "to_lower s = map lower_char s"

definition trim :: "string \<Rightarrow> string" where
  "trim s = rev (dropWhile is_space (rev (dropWhile is_space s)))"

section \<open>Splitting and joining\<close>

text \<open>\<open>s.split(c)\<close> for a single character: at least one part, and \<open>''\<close> has one empty part.\<close>

fun split_on :: "char \<Rightarrow> string \<Rightarrow> string list" where
  "split_on c [] = [[]]"
| "split_on c (x # s) =
     (if x = c then [] # split_on c s
      else (case split_on c s of [] \<Rightarrow> [[x]] | p # ps \<Rightarrow> (x # p) # ps))"

fun join :: "string \<Rightarrow> string list \<Rightarrow> string" where
  "join sep [] = []"
| "join sep [p] = p"
| "join sep (p # q # ps) = p @ sep @ join sep (q # ps)"

lemma split_on_nonempty [simp]: "split_on c s \<noteq> []"
  by (induction s) (auto split: list.splits)

lemma split_on_no_sep: "c \<notin> set s \<Longrightarrow> split_on c s = [s]"
  by (induction s) auto

lemma split_on_append_sep:
  "c \<notin> set p \<Longrightarrow> split_on c (p @ c # s) = p # split_on c s"
  by (induction p) auto

lemma split_on_join:
  assumes "ps \<noteq> []" and "\<forall>p \<in> set ps. c \<notin> set p"
  shows "split_on c (join [c] ps) = ps"
  using assms
proof (induction ps rule: induct_list012)
  case (3 p q ps)
  then show ?case by (simp add: split_on_append_sep)
qed (auto simp: split_on_no_sep)

lemma join_split_on: "join [c] (split_on c s) = s"
proof (induction s)
  case Nil
  then show ?case by simp
next
  case (Cons x s)
  obtain p ps where ps: "split_on c s = p # ps"
    by (cases "split_on c s") auto
  then show ?case using Cons by (cases ps) auto
qed

lemma split_on_parts_no_sep: "p \<in> set (split_on c s) \<Longrightarrow> c \<notin> set p"
  by (induction s arbitrary: p) (auto split: list.splits if_splits)

lemma set_split_on: "p \<in> set (split_on c s) \<Longrightarrow> set p \<subseteq> set s"
  by (induction s arbitrary: p) (fastforce split: list.splits if_splits)+

lemma set_join: "set (join sep ps) \<subseteq> (\<Union>p \<in> set ps. set p) \<union> set sep"
  by (induction ps rule: induct_list012) auto

lemma list_all_join:
  "\<forall>p \<in> set ps. list_all P p \<Longrightarrow> list_all P sep \<Longrightarrow> list_all P (join sep ps)"
  by (induction ps rule: induct_list012) auto

text \<open>\<open>s.split(/\s+/)\<close>: at every run of white space.\<close>

function split_spaces :: "string \<Rightarrow> string list" where
  "split_spaces s =
     (case dropWhile (\<lambda>c. \<not> is_space c) s of
        [] \<Rightarrow> [s]
      | _ # rest \<Rightarrow> takeWhile (\<lambda>c. \<not> is_space c) s # split_spaces (dropWhile is_space rest))"
  by pat_completeness auto
termination
proof (relation "measure length")
  fix s x rest
  assume "dropWhile (\<lambda>c. \<not> is_space c) s = x # rest"
  then have "length (x # rest) \<le> length s"
    using length_dropWhile_le [of "\<lambda>c. \<not> is_space c" s] by simp
  moreover have "length (dropWhile is_space rest) \<le> length rest"
    by (rule length_dropWhile_le)
  ultimately show "(dropWhile is_space rest, s) \<in> measure length" by simp
qed auto

declare split_spaces.simps [simp del]

lemma split_spaces_single: "list_all (\<lambda>c. \<not> is_space c) s \<Longrightarrow> split_spaces s = [s]"
  by (subst split_spaces.simps) (simp add: dropWhile_eq_Nil_conv [THEN iffD2] list_all_iff)

lemma split_spaces_step:
  assumes "list_all (\<lambda>c. \<not> is_space c) p" and "is_space x"
    and "s = [] \<or> \<not> is_space (hd s)"
  shows "split_spaces (p @ x # s) = p # split_spaces s"
proof -
  have "dropWhile (\<lambda>c. \<not> is_space c) (p @ x # s) = x # s"
    using assms by (simp add: dropWhile_append2 list_all_iff)
  moreover have "takeWhile (\<lambda>c. \<not> is_space c) (p @ x # s) = p"
    using assms by (simp add: takeWhile_append2 list_all_iff)
  moreover have "dropWhile is_space s = s"
    using assms(3) by (cases s) auto
  ultimately show ?thesis by (subst split_spaces.simps) simp
qed

definition plain_word :: "string \<Rightarrow> bool" where
  "plain_word p \<longleftrightarrow> p \<noteq> [] \<and> list_all (\<lambda>c. \<not> is_space c) p"

lemma join_Cons: "ps \<noteq> [] \<Longrightarrow> join sep (p # ps) = p @ sep @ join sep ps"
  by (cases ps) auto

lemma hd_join: "p \<noteq> [] \<Longrightarrow> hd (join sep (p # ps)) = hd p"
  by (cases ps) auto

lemma is_space_32 [simp]: "is_space CHR '' ''"
  by (simp add: is_space_def)

lemma split_spaces_join:
  assumes "ps \<noteq> []" and "\<forall>p \<in> set ps. plain_word p"
  shows "split_spaces (join '' '' ps) = ps"
  using assms
proof (induction ps)
  case (Cons p ps)
  show ?case
  proof (cases ps)
    case Nil
    then show ?thesis using Cons.prems by (simp add: plain_word_def split_spaces_single)
  next
    case (Cons q qs)
    then have "hd (join '' '' ps) = hd q" "q \<noteq> []" "\<not> is_space (hd q)"
      using Cons.prems by (auto simp: hd_join plain_word_def list_all_iff)
    then have "split_spaces (p @ CHR '' '' # join '' '' ps) = p # split_spaces (join '' '' ps)"
      using Cons.prems by (intro split_spaces_step) (auto simp: plain_word_def)
    with Cons Cons.IH Cons.prems show ?thesis by (simp add: join_Cons)
  qed
qed simp

lemma join_Nil_iff: "join sep ps = [] \<Longrightarrow> p \<in> set ps \<Longrightarrow> p = []"
  by (induction ps rule: induct_list012) auto

lemma join_nonempty: "ps \<noteq> [] \<Longrightarrow> \<forall>p \<in> set ps. p \<noteq> [] \<Longrightarrow> join sep ps \<noteq> []"
  using join_Nil_iff [of sep ps "hd ps"] by auto

lemma last_join: "ps \<noteq> [] \<Longrightarrow> last ps \<noteq> [] \<Longrightarrow> last (join sep ps) = last (last ps)"
proof (induction ps rule: induct_list012)
  case (3 p q ps)
  then have "join sep (q # ps) \<noteq> []"
    using join_Nil_iff [of sep "q # ps" "last (q # ps)"] last_in_set [of "q # ps"] by auto
  with 3 show ?case by simp
qed auto

lemma trim_plain:
  assumes "s \<noteq> []" "\<not> is_space (hd s)" "\<not> is_space (last s)"
  shows "trim s = s"
proof -
  have "dropWhile is_space s = s" using assms by (cases s) auto
  moreover have "dropWhile is_space (rev s) = rev s"
    using assms by (cases "rev s") (auto simp: hd_rev [symmetric])
  ultimately show ?thesis by (simp add: trim_def)
qed

lemma trim_join_words:
  assumes "ps \<noteq> []" and "\<forall>p \<in> set ps. plain_word p"
  shows "trim (join '' '' ps) = join '' '' ps"
proof (rule trim_plain)
  have ne: "\<forall>p \<in> set ps. p \<noteq> []" using assms by (auto simp: plain_word_def)
  show "join '' '' ps \<noteq> []" using assms(1) ne by (rule join_nonempty)
  obtain p qs where ps: "ps = p # qs" using assms(1) by (cases ps) auto
  with assms ne show "\<not> is_space (hd (join '' '' ps))"
    by (auto simp: hd_join plain_word_def list_all_iff)
  have l: "last ps \<in> set ps" using assms(1) by simp
  then have "last (join '' '' ps) = last (last ps)" using ne assms(1) by (simp add: last_join)
  moreover have "last (last ps) \<in> set (last ps)" using l ne by simp
  ultimately show "\<not> is_space (last (join '' '' ps))"
    using l assms(2) by (auto simp: plain_word_def list_all_iff)
qed

section \<open>Decimal numbers\<close>

text \<open>\<open>/^\d{lo,hi}$/\<close>\<close>

definition digits :: "nat \<Rightarrow> nat \<Rightarrow> string \<Rightarrow> bool" where
  "digits lo hi s \<longleftrightarrow> list_all is_digit s \<and> lo \<le> length s \<and> length s \<le> hi"

text \<open>\<open>Number(s)\<close> of a run of digits.\<close>

definition number_of :: "string \<Rightarrow> nat" where
  "number_of s = foldl (\<lambda>n c. 10 * n + (code c - 48)) 0 s"

text \<open>\<open>String(n)\<close> of a non-negative integer.\<close>

fun show_nat :: "nat \<Rightarrow> string" where
  "show_nat n =
     (if n < 10 then [char_of (48 + n)] else show_nat (n div 10) @ [char_of (48 + n mod 10)])"

declare show_nat.simps [simp del]

lemma code_char_of: "n < 256 \<Longrightarrow> code (char_of n) = n"
  by simp

lemma number_of_snoc [simp]: "number_of (s @ [c]) = 10 * number_of s + (code c - 48)"
  by (simp add: number_of_def)

lemma number_of_Nil [simp]: "number_of [] = 0"
  by (simp add: number_of_def)

lemma number_of_single [simp]: "number_of [c] = code c - 48"
  by (simp add: number_of_def)

lemma number_of_show_nat [simp]: "number_of (show_nat n) = n"
proof (induction n rule: show_nat.induct)
  case (1 n)
  show ?case
  proof (cases "n < 10")
    case True
    then show ?thesis by (subst show_nat.simps) simp
  next
    case False
    have "48 + n mod 10 < 256" by (rule le_less_trans [of _ 57]) auto
    then have "code (char_of (48 + n mod 10)) = 48 + n mod 10" by (rule code_char_of)
    then show ?thesis using 1 False by (subst show_nat.simps) simp
  qed
qed

lemma is_digit_char_of: "(d::nat) < 10 \<Longrightarrow> is_digit (char_of (48 + d))"
  by (simp add: is_digit_def code_char_of del: of_char_of)

lemma show_nat_digits: "list_all is_digit (show_nat n)"
proof (induction n rule: show_nat.induct)
  case (1 n)
  then show ?case by (subst show_nat.simps) (auto simp: is_digit_char_of)
qed

lemma show_nat_nonempty [simp]: "show_nat n \<noteq> []"
  by (subst show_nat.simps) simp

lemma length_show_nat: "0 < k \<Longrightarrow> n < 10 ^ k \<Longrightarrow> length (show_nat n) \<le> k"
proof (induction k arbitrary: n)
  case (Suc k)
  show ?case
  proof (cases "n < 10")
    case True
    then show ?thesis by (subst show_nat.simps) simp
  next
    case False
    with Suc.prems have "0 < k" "n div 10 < 10 ^ k"
      by (cases k, auto simp: less_mult_imp_div_less mult.commute)
    with Suc.IH False show ?thesis by (subst show_nat.simps) simp
  qed
qed simp

lemma digits_show_nat: "0 < k \<Longrightarrow> n < 10 ^ k \<Longrightarrow> digits 1 k (show_nat n)"
  using show_nat_digits length_show_nat [of k n] by (simp add: digits_def Suc_le_eq)

lemma number_of_bound: "list_all is_digit s \<Longrightarrow> number_of s < 10 ^ length s"
proof (induction s rule: rev_induct)
  case (snoc c s)
  then have "number_of s < 10 ^ length s" "code c - 48 < 10"
    by (auto simp: is_digit_def)
  then show ?case by simp
qed simp

lemma digits_bound: "digits lo hi s \<Longrightarrow> number_of s < 10 ^ hi"
proof -
  assume d: "digits lo hi s"
  then have "number_of s < 10 ^ length s" by (simp add: digits_def number_of_bound)
  also have "(10::nat) ^ length s \<le> 10 ^ hi" using d by (simp add: digits_def power_increasing)
  finally show ?thesis .
qed

lemma digit_chars:
  "char_of (48::nat) = CHR ''0''"
  "char_of (49::nat) = CHR ''1''"
  "char_of (50::nat) = CHR ''2''"
  "char_of (51::nat) = CHR ''3''"
  "char_of (52::nat) = CHR ''4''"
  "char_of (53::nat) = CHR ''5''"
  "char_of (54::nat) = CHR ''6''"
  "char_of (55::nat) = CHR ''7''"
  "char_of (56::nat) = CHR ''8''"
  "char_of (57::nat) = CHR ''9''"
  by code_simp+

end
