(* ===== verification/CronSyntax.thy ===== *)
theory CronSyntax
  imports JsText
begin

text \<open>
  \<^verbatim>\<open>packages/shared/src/cron.ts\<close>: the syntactic validation of cron expressions and
  time zones that the browser, the API and the server share. Below the definitions, the
  grammar of the expressions that are accepted (as a printer) and what is refused.
\<close>

section \<open>The code\<close>

definition MACROS :: "string list" where
  "MACROS = [''@yearly'', ''@annually'', ''@monthly'', ''@weekly'', ''@daily'', ''@midnight'', ''@hourly'']"

definition MONTH_NAMES :: "string list" where
  "MONTH_NAMES = [''jan'', ''feb'', ''mar'', ''apr'', ''may'', ''jun'', ''jul'', ''aug'', ''sep'', ''oct'', ''nov'', ''dec'']"

definition DAY_NAMES :: "string list" where
  "DAY_NAMES = [''sun'', ''mon'', ''tue'', ''wed'', ''thu'', ''fri'', ''sat'']"

record field_spec =
  fs_min :: nat
  fs_max :: nat
  names :: "string list option"
  allowQuestionMark :: bool
  allowLast :: bool
  allowNth :: bool

definition SECOND :: field_spec where
  "SECOND = \<lparr>fs_min = 0, fs_max = 59, names = None,
     allowQuestionMark = False, allowLast = False, allowNth = False\<rparr>"

definition MINUTE :: field_spec where
  "MINUTE = \<lparr>fs_min = 0, fs_max = 59, names = None,
     allowQuestionMark = False, allowLast = False, allowNth = False\<rparr>"

definition HOUR :: field_spec where
  "HOUR = \<lparr>fs_min = 0, fs_max = 23, names = None,
     allowQuestionMark = False, allowLast = False, allowNth = False\<rparr>"

definition DAY_OF_MONTH :: field_spec where
  "DAY_OF_MONTH = \<lparr>fs_min = 1, fs_max = 31, names = None,
     allowQuestionMark = True, allowLast = True, allowNth = False\<rparr>"

definition MONTH :: field_spec where
  "MONTH = \<lparr>fs_min = 1, fs_max = 12, names = Some MONTH_NAMES,
     allowQuestionMark = False, allowLast = False, allowNth = False\<rparr>"

definition DAY_OF_WEEK :: field_spec where
  "DAY_OF_WEEK = \<lparr>fs_min = 0, fs_max = 7, names = Some DAY_NAMES,
     allowQuestionMark = True, allowLast = True, allowNth = True\<rparr>"

definition FIVE_FIELDS :: "field_spec list" where
  "FIVE_FIELDS = [MINUTE, HOUR, DAY_OF_MONTH, MONTH, DAY_OF_WEEK]"

definition SIX_FIELDS :: "field_spec list" where
  "SIX_FIELDS = SECOND # FIVE_FIELDS"

fun index_of :: "'a \<Rightarrow> 'a list \<Rightarrow> nat option" where
  "index_of x [] = None"
| "index_of x (y # ys) = (if x = y then Some 0 else map_option Suc (index_of x ys))"

definition parse_digits :: "string \<Rightarrow> field_spec \<Rightarrow> nat option" where
  "parse_digits token spec =
     (if \<not> digits 1 2 token then None
      else let value = number_of token
           in if fs_min spec \<le> value \<and> value \<le> fs_max spec then Some value else None)"

definition parseValue :: "string \<Rightarrow> field_spec \<Rightarrow> nat option" where
  "parseValue token spec =
     (case names spec of
        None \<Rightarrow> parse_digits token spec
      | Some ns \<Rightarrow>
          (case index_of (to_lower token) ns of
             Some i \<Rightarrow> Some (if ns = MONTH_NAMES then i + 1 else i)
           | None \<Rightarrow> parse_digits token spec))"

text \<open>\<open>/^(.+)L$/i\<close> and \<open>/^(.+)#([1-5])$/\<close>: the group in front, when they match.\<close>

definition match_last :: "string \<Rightarrow> string option" where
  "match_last entry =
     (if 2 \<le> length entry \<and> (last entry = CHR ''L'' \<or> last entry = CHR ''l'')
         \<and> list_all is_dot (butlast entry)
      then Some (butlast entry) else None)"

definition match_nth :: "string \<Rightarrow> string option" where
  "match_nth entry =
     (if 3 \<le> length entry \<and> 49 \<le> code (last entry) \<and> code (last entry) \<le> 53
         \<and> last (butlast entry) = CHR ''#'' \<and> list_all is_dot (butlast (butlast entry))
      then Some (butlast (butlast entry)) else None)"

definition isValidRange :: "string \<Rightarrow> field_spec \<Rightarrow> bool" where
  "isValidRange rng spec =
     (if rng = ''*'' then True
      else (case split_on CHR ''-'' rng of
              [b] \<Rightarrow> parseValue b spec \<noteq> None
            | [b, c] \<Rightarrow> parseValue b spec \<noteq> None \<and> parseValue c spec \<noteq> None
            | _ \<Rightarrow> False))"

definition isValidEntry :: "field_spec \<Rightarrow> string \<Rightarrow> bool" where
  "isValidEntry spec entry =
     (if entry = [] then False
      else if entry = ''L'' \<or> entry = ''l'' then allowLast spec
      else (case match_last entry of
        Some pre \<Rightarrow> allowLast spec \<and> parseValue pre spec \<noteq> None
      | None \<Rightarrow> (case match_nth entry of
          Some pre \<Rightarrow> allowNth spec \<and> parseValue pre spec \<noteq> None
        | None \<Rightarrow> (case split_on CHR ''/'' entry of
            [rng] \<Rightarrow> isValidRange rng spec
          | [rng, step] \<Rightarrow>
              if \<not> digits 1 3 step then False
              else if number_of step < 1 then False
              else isValidRange rng spec
          | _ \<Rightarrow> False))))"

definition isValidField :: "string \<Rightarrow> field_spec \<Rightarrow> bool" where
  "isValidField field spec =
     (if field = [] then False
      else if field = ''?'' then allowQuestionMark spec
      else list_all (isValidEntry spec) (split_on CHR '','' field))"

definition isValidCronExpression :: "string \<Rightarrow> bool" where
  "isValidCronExpression expression =
     (let trimmed = trim expression
      in if trimmed = [] \<or> 200 < length trimmed then False
         else if hd trimmed = CHR ''@'' then to_lower trimmed \<in> set MACROS
         else let fields = split_spaces trimmed
              in if length fields = 6 then list_all2 isValidField fields SIX_FIELDS
                 else if length fields = 5 then list_all2 isValidField fields FIVE_FIELDS
                 else False)"

text \<open>
  The runtime's own table of zones (\<open>Intl.DateTimeFormat\<close>, which throws for a zone it
  does not know) is a parameter.
\<close>

definition tz_char :: "char \<Rightarrow> bool" where
  "tz_char c \<longleftrightarrow> is_upper c \<or> is_lower c \<or> is_digit c \<or> c \<in> set ''+_-/''"

definition isValidTimezone :: "(string \<Rightarrow> bool) \<Rightarrow> string \<Rightarrow> bool" where
  "isValidTimezone intl_knows timezone =
     (if \<not> (list_all tz_char timezone \<and> 1 \<le> length timezone \<and> length timezone \<le> 64) then False
      else intl_knows timezone)"

lemmas field_specs = SECOND_def MINUTE_def HOUR_def DAY_OF_MONTH_def MONTH_def DAY_OF_WEEK_def

section \<open>The expressions that are accepted\<close>

text \<open>
  The abstract syntax of what the module's comment lists: values (numbers, or the names
  of a month or a day), ranges, steps, lists of them, and the special forms.
\<close>

datatype atom = Num nat | Name nat

datatype cron_range = Star | Single atom | Between atom atom

datatype cron_entry =
    Plain cron_range
  | Every cron_range nat
  | LastDay
  | LastOf atom
  | Nth atom nat

datatype cron_field = Unspecified | Entries "cron_entry list"

fun print_atom :: "field_spec \<Rightarrow> atom \<Rightarrow> string" where
  "print_atom spec (Num n) = show_nat n"
| "print_atom spec (Name i) = (case names spec of None \<Rightarrow> [] | Some ns \<Rightarrow> ns ! i)"

fun print_range :: "field_spec \<Rightarrow> cron_range \<Rightarrow> string" where
  "print_range spec Star = ''*''"
| "print_range spec (Single a) = print_atom spec a"
| "print_range spec (Between a b) = print_atom spec a @ ''-'' @ print_atom spec b"

fun print_entry :: "field_spec \<Rightarrow> cron_entry \<Rightarrow> string" where
  "print_entry spec (Plain r) = print_range spec r"
| "print_entry spec (Every r n) = print_range spec r @ ''/'' @ show_nat n"
| "print_entry spec LastDay = ''L''"
| "print_entry spec (LastOf a) = print_atom spec a @ ''L''"
| "print_entry spec (Nth a n) = print_atom spec a @ ''#'' @ show_nat n"

fun print_field :: "field_spec \<Rightarrow> cron_field \<Rightarrow> string" where
  "print_field spec Unspecified = ''?''"
| "print_field spec (Entries es) = join '','' (map (print_entry spec) es)"

fun wf_atom :: "field_spec \<Rightarrow> atom \<Rightarrow> bool" where
  "wf_atom spec (Num n) = (fs_min spec \<le> n \<and> n \<le> fs_max spec)"
| "wf_atom spec (Name i) = (case names spec of None \<Rightarrow> False | Some ns \<Rightarrow> i < length ns)"

text \<open>
  The one name that ends in \<open>l\<close> is \<open>jul\<close>. Standing at the end of an entry it is read as
  the suffix \<open>L\<close>, so a well-formed entry does not end in it.
\<close>

definition is_jul :: "field_spec \<Rightarrow> atom \<Rightarrow> bool" where
  "is_jul spec a \<longleftrightarrow> names spec = Some MONTH_NAMES \<and> a = Name 6"

fun wf_range :: "field_spec \<Rightarrow> cron_range \<Rightarrow> bool" where
  "wf_range spec Star = True"
| "wf_range spec (Single a) = wf_atom spec a"
| "wf_range spec (Between a b) = (wf_atom spec a \<and> wf_atom spec b)"

fun range_ends_in_jul :: "field_spec \<Rightarrow> cron_range \<Rightarrow> bool" where
  "range_ends_in_jul spec Star = False"
| "range_ends_in_jul spec (Single a) = is_jul spec a"
| "range_ends_in_jul spec (Between a b) = is_jul spec b"

fun wf_entry :: "field_spec \<Rightarrow> cron_entry \<Rightarrow> bool" where
  "wf_entry spec (Plain r) = (wf_range spec r \<and> \<not> range_ends_in_jul spec r)"
| "wf_entry spec (Every r n) = (wf_range spec r \<and> 1 \<le> n \<and> n \<le> 999)"
| "wf_entry spec LastDay = allowLast spec"
| "wf_entry spec (LastOf a) = (allowLast spec \<and> wf_atom spec a)"
| "wf_entry spec (Nth a n) = (allowNth spec \<and> wf_atom spec a \<and> 1 \<le> n \<and> n \<le> 5)"

fun wf_field :: "field_spec \<Rightarrow> cron_field \<Rightarrow> bool" where
  "wf_field spec Unspecified = allowQuestionMark spec"
| "wf_field spec (Entries es) = (es \<noteq> [] \<and> list_all (wf_entry spec) es)"

definition print_cron :: "field_spec list \<Rightarrow> cron_field list \<Rightarrow> string" where
  "print_cron specs fs = join '' '' (map2 print_field specs fs)"

definition wf_cron :: "field_spec list \<Rightarrow> cron_field list \<Rightarrow> bool" where
  "wf_cron specs fs \<longleftrightarrow> list_all2 wf_field specs fs"

text \<open>The specs the code uses, and the characters their printed values are made of.\<close>

definition known_spec :: "field_spec \<Rightarrow> bool" where
  "known_spec spec \<longleftrightarrow> spec \<in> set SIX_FIELDS"

definition value_char :: "char \<Rightarrow> bool" where
  "value_char c \<longleftrightarrow> is_digit c \<or> is_lower c"

lemma known_spec_cases:
  assumes "known_spec spec"
  obtains "spec = SECOND" | "spec = MINUTE" | "spec = HOUR" | "spec = DAY_OF_MONTH"
    | "spec = MONTH" | "spec = DAY_OF_WEEK"
  using assms by (auto simp: known_spec_def SIX_FIELDS_def FIVE_FIELDS_def)

lemma known_spec_max: "known_spec spec \<Longrightarrow> fs_max spec \<le> 59"
  by (erule known_spec_cases) (simp_all add: field_specs)

lemma known_spec_names:
  "known_spec spec \<Longrightarrow> names spec = Some ns \<Longrightarrow> ns = MONTH_NAMES \<or> ns = DAY_NAMES"
  by (erule known_spec_cases) (auto simp: field_specs)

lemma is_lower_value [simp]: "is_lower c \<Longrightarrow> value_char c"
  by (simp add: value_char_def)

lemma name_chars:
  "s \<in> set MONTH_NAMES \<union> set DAY_NAMES \<Longrightarrow>
     s \<noteq> [] \<and> list_all is_lower s \<and> to_lower s = s \<and> (last s = CHR ''l'' \<longrightarrow> s = ''jul'')"
  by (auto simp: MONTH_NAMES_def DAY_NAMES_def is_lower_def to_lower_def lower_char_def
        is_upper_def)

lemma index_of_nth: "distinct ns \<Longrightarrow> i < length ns \<Longrightarrow> index_of (ns ! i) ns = Some i"
proof (induction ns arbitrary: i)
  case (Cons n ns)
  then show ?case by (cases i) auto
qed simp

lemma index_of_absent: "x \<notin> set ns \<Longrightarrow> index_of x ns = None"
  by (induction ns) auto

lemma index_of_Some: "index_of x ns = Some i \<Longrightarrow> i < length ns \<and> ns ! i = x"
  by (induction ns arbitrary: i) (auto split: if_splits)

lemma distinct_names: "distinct MONTH_NAMES" "distinct DAY_NAMES"
  by (simp_all add: MONTH_NAMES_def DAY_NAMES_def)

lemma jul_position: "i < length MONTH_NAMES \<Longrightarrow> MONTH_NAMES ! i = ''jul'' \<longleftrightarrow> i = 6"
  using nth_eq_iff_index_eq [OF distinct_names(1), of i 6] by (simp add: MONTH_NAMES_def)

lemma no_jul_day: "s \<in> set DAY_NAMES \<Longrightarrow> s \<noteq> ''jul''"
  by (auto simp: DAY_NAMES_def)

lemma month_not_day: "MONTH_NAMES \<noteq> DAY_NAMES"
  by (simp add: MONTH_NAMES_def DAY_NAMES_def)

text \<open>A printed value: what it is made of, how it ends, and that the code reads it.\<close>

lemma digit_not_lower: "is_digit c \<Longrightarrow> \<not> is_lower c"
  by (auto simp: is_digit_def is_lower_def)

lemma lower_digits: "list_all is_digit s \<Longrightarrow> to_lower s = s"
  by (induction s) (auto simp: to_lower_def lower_char_def is_digit_def is_upper_def)

lemma show_nat_not_name: "show_nat n \<notin> set MONTH_NAMES \<union> set DAY_NAMES"
proof
  assume "show_nat n \<in> set MONTH_NAMES \<union> set DAY_NAMES"
  then have "list_all is_lower (show_nat n)" "show_nat n \<noteq> []" using name_chars by auto
  with show_nat_digits [of n] show False
    by (cases "show_nat n") (auto dest: digit_not_lower)
qed

lemma last_show_nat: "is_digit (last (show_nat n))"
  using show_nat_digits [of n] by (simp add: list_all_iff)

lemma print_atom_chars:
  assumes "known_spec spec" "wf_atom spec a"
  shows "print_atom spec a \<noteq> []" and "list_all value_char (print_atom spec a)"
proof -
  have "print_atom spec a \<noteq> [] \<and> list_all value_char (print_atom spec a)"
  proof (cases a)
    case (Num n)
    then show ?thesis using show_nat_digits [of n] by (auto simp: list_all_iff value_char_def)
  next
    case (Name i)
    with assms obtain ns where ns: "names spec = Some ns" "i < length ns"
      by (auto split: option.splits)
    then have "ns ! i \<in> set MONTH_NAMES \<union> set DAY_NAMES"
      using known_spec_names [OF assms(1)] nth_mem [of i ns] by auto
    from name_chars [OF this] Name ns show ?thesis by (auto simp: list_all_iff)
  qed
  then show "print_atom spec a \<noteq> []" "list_all value_char (print_atom spec a)" by auto
qed

lemma print_atom_last_l:
  assumes "known_spec spec" "wf_atom spec a" "last (print_atom spec a) = CHR ''l''"
  shows "is_jul spec a"
proof (cases a)
  case (Num n)
  with assms last_show_nat [of n] show ?thesis by (simp add: is_digit_def)
next
  case (Name i)
  with assms obtain ns where ns: "names spec = Some ns" "i < length ns"
    by (auto split: option.splits)
  then have mem: "ns ! i \<in> set ns" and cs: "ns = MONTH_NAMES \<or> ns = DAY_NAMES"
    using known_spec_names [OF assms(1)] by auto
  then have "ns ! i = ''jul''" using name_chars [of "ns ! i"] assms(3) Name ns by auto
  with mem cs no_jul_day have "ns = MONTH_NAMES" "i = 6"
    using jul_position ns by auto
  with Name ns show ?thesis by (simp add: is_jul_def)
qed

lemma parse_print_atom:
  assumes "known_spec spec" "wf_atom spec a"
  shows "parseValue (print_atom spec a) spec \<noteq> None"
proof (cases a)
  case (Num n)
  then have n: "fs_min spec \<le> n" "n \<le> fs_max spec" using assms by auto
  then have "digits 1 2 (show_nat n)"
    using known_spec_max [OF assms(1)] by (intro digits_show_nat) auto
  moreover have "index_of (to_lower (show_nat n)) ns = None" if "names spec = Some ns" for ns
    using known_spec_names [OF assms(1) that] show_nat_not_name [of n]
    by (auto intro!: index_of_absent simp: lower_digits [OF show_nat_digits])
  ultimately show ?thesis
    using Num n by (auto simp: parseValue_def parse_digits_def split: option.splits)
next
  case (Name i)
  with assms obtain ns where ns: "names spec = Some ns" "i < length ns"
    by (auto split: option.splits)
  then have "ns ! i \<in> set MONTH_NAMES \<union> set DAY_NAMES" and "distinct ns"
    using known_spec_names [OF assms(1)] distinct_names nth_mem [of i ns] by auto
  then have "index_of (to_lower (ns ! i)) ns = Some i"
    using name_chars ns by (simp add: index_of_nth)
  then show ?thesis using Name ns by (simp add: parseValue_def)
qed

section \<open>Entries, fields and expressions\<close>

definition range_char :: "char \<Rightarrow> bool" where
  "range_char c \<longleftrightarrow> value_char c \<or> c = CHR ''-'' \<or> c = CHR ''*''"

lemma not_value_char:
  "\<not> value_char CHR ''-''" "\<not> value_char CHR ''*''"
  by (simp_all add: value_char_def is_digit_def is_lower_def)

lemma not_range_char:
  "\<not> range_char CHR ''/''" "\<not> range_char CHR '',''" "\<not> range_char CHR ''#''"
  "\<not> range_char CHR ''L''" "\<not> range_char CHR ''?''"
  by (simp_all add: range_char_def value_char_def is_digit_def is_lower_def)

lemma range_char_dot: "range_char c \<Longrightarrow> is_dot c"
  by (auto simp: range_char_def value_char_def is_digit_def is_lower_def is_dot_def)

lemma value_char_dot: "value_char c \<Longrightarrow> is_dot c"
  by (simp add: range_char_dot range_char_def)

lemma range_char_not_space: "range_char c \<Longrightarrow> \<not> is_space c"
  by (auto simp: range_char_def value_char_def is_digit_def is_lower_def is_space_def)

lemma digit_range_char: "is_digit c \<Longrightarrow> range_char c"
  by (simp add: range_char_def value_char_def)

lemma value_range_chars: "list_all value_char s \<Longrightarrow> list_all range_char s"
  by (auto simp: list_all_iff range_char_def)

lemma range_chars_absent:
  "list_all range_char s \<Longrightarrow> \<not> range_char c \<Longrightarrow> c \<notin> set s"
  by (auto simp: list_all_iff)

lemma print_range_chars:
  assumes "known_spec spec" "wf_range spec r"
  shows "print_range spec r \<noteq> []" and "list_all range_char (print_range spec r)"
  using assms print_atom_chars value_range_chars
  by (cases r; simp add: range_char_def)+

lemma print_range_last:
  assumes "known_spec spec" "wf_range spec r" "\<not> range_ends_in_jul spec r"
  shows "last (print_range spec r) \<noteq> CHR ''l''"
  using assms print_atom_chars print_atom_last_l by (cases r) auto

lemma isValidRange_print:
  assumes "known_spec spec" "wf_range spec r"
  shows "isValidRange (print_range spec r) spec"
proof (cases r)
  case Star
  then show ?thesis by (simp add: isValidRange_def)
next
  case (Single a)
  have "CHR ''-'' \<notin> set (print_atom spec a)"
    using print_atom_chars(2) [OF assms(1), of a] assms Single not_value_char
    by (auto simp: list_all_iff)
  then show ?thesis
    using parse_print_atom [OF assms(1), of a] assms Single
    by (simp add: isValidRange_def split_on_no_sep)
next
  case (Between a b)
  have "CHR ''-'' \<notin> set (print_atom spec a)" "CHR ''-'' \<notin> set (print_atom spec b)"
    using print_atom_chars(2) [OF assms(1)] assms Between not_value_char
    by (auto simp: list_all_iff)
  then have "split_on CHR ''-'' (print_range spec r) = [print_atom spec a, print_atom spec b]"
    using Between by (simp add: split_on_append_sep split_on_no_sep)
  then show ?thesis
    using parse_print_atom [OF assms(1)] assms Between by (simp add: isValidRange_def)
qed

lemma match_last_None: "last e \<noteq> CHR ''L'' \<Longrightarrow> last e \<noteq> CHR ''l'' \<Longrightarrow> match_last e = None"
  by (simp add: match_last_def)

lemma match_nth_None: "CHR ''#'' \<notin> set e \<Longrightarrow> match_nth e = None"
proof (rule ccontr)
  assume no: "CHR ''#'' \<notin> set e" and "match_nth e \<noteq> None"
  then have "butlast e \<noteq> []" "last (butlast e) = CHR ''#''"
    by (auto simp: match_nth_def split: if_splits dest: arg_cong [where f = length])
  then have "CHR ''#'' \<in> set e" using last_in_set [of "butlast e"] in_set_butlastD by fastforce
  with no show False ..
qed

lemma print_entry_valid:
  assumes "known_spec spec" "wf_entry spec e"
  shows "isValidEntry spec (print_entry spec e)"
proof (cases e)
  case (Plain r)
  note chars = print_range_chars [OF assms(1), of r]
  have lst: "last (print_range spec r) \<noteq> CHR ''l''" "last (print_range spec r) \<noteq> CHR ''L''"
    using print_range_last [OF assms(1)] chars assms Plain not_range_char
    by (auto simp: list_all_iff dest: last_in_set)
  moreover have "CHR ''#'' \<notin> set (print_range spec r)" "CHR ''/'' \<notin> set (print_range spec r)"
    using range_chars_absent chars assms Plain not_range_char by auto
  ultimately show ?thesis
    using Plain assms chars isValidRange_print [OF assms(1), of r]
    by (auto simp: isValidEntry_def match_last_None match_nth_None split_on_no_sep)
next
  case (Every r n)
  then have wf: "wf_range spec r" "1 \<le> n" "n \<le> 999" using assms by auto
  note chars = print_range_chars [OF assms(1) wf(1)]
  have n: "digits 1 3 (show_nat n)" "list_all range_char (show_nat n)"
    using wf show_nat_digits [of n] digits_show_nat [of 3 n]
    by (auto simp: list_all_iff digit_range_char)
  have "last (print_entry spec e) = last (show_nat n)" using Every by simp
  then have "last (print_entry spec e) \<noteq> CHR ''l''" "last (print_entry spec e) \<noteq> CHR ''L''"
    using last_show_nat [of n] by (auto simp: is_digit_def)
  moreover have "CHR ''#'' \<notin> set (print_entry spec e)"
    using range_chars_absent chars n not_range_char Every by auto
  moreover have "split_on CHR ''/'' (print_entry spec e) = [print_range spec r, show_nat n]"
    using range_chars_absent chars n not_range_char Every
    by (simp add: split_on_append_sep split_on_no_sep)
  ultimately show ?thesis
    using wf n isValidRange_print [OF assms(1) wf(1)] chars
    by (auto simp: isValidEntry_def match_last_None match_nth_None)
next
  case LastDay
  then show ?thesis using assms by (simp add: isValidEntry_def)
next
  case (LastOf a)
  then have wf: "wf_atom spec a" "allowLast spec" using assms by auto
  note chars = print_atom_chars [OF assms(1) wf(1)]
  have "match_last (print_entry spec e) = Some (print_atom spec a)"
    using chars LastOf
    by (cases "print_atom spec a")
       (auto simp: match_last_def list_all_iff butlast_append intro!: value_char_dot)
  then show ?thesis
    using wf chars LastOf parse_print_atom [OF assms(1) wf(1)] by (simp add: isValidEntry_def)
next
  case (Nth a n)
  then have wf: "wf_atom spec a" "allowNth spec" "1 \<le> n" "n \<le> 5" using assms by auto
  note chars = print_atom_chars [OF assms(1) wf(1)]
  have n: "show_nat n = [char_of (48 + n)]" using wf by (subst show_nat.simps) simp
  have pe: "print_entry spec e = (print_atom spec a @ ''#'') @ [char_of (48 + n)]"
    using Nth n by simp
  have code_n: "code (char_of (48 + n) :: char) = 48 + n" using wf by (simp add: code_char_of)
  then have "(char_of (48 + n) :: char) \<noteq> CHR ''l''" "(char_of (48 + n) :: char) \<noteq> CHR ''L''"
    using wf by (auto dest!: arg_cong [where f = code])
  then have "match_last (print_entry spec e) = None"
    using pe by (intro match_last_None) auto
  moreover have "match_nth (print_entry spec e) = Some (print_atom spec a)"
    using chars wf code_n unfolding pe
    by (cases "print_atom spec a")
       (auto simp: match_nth_def list_all_iff butlast_append intro!: value_char_dot)
  ultimately show ?thesis
    using wf chars pe parse_print_atom [OF assms(1) wf(1)] by (simp add: isValidEntry_def)
qed

lemma print_entry_chars:
  assumes "known_spec spec" "wf_entry spec e"
  shows "print_entry spec e \<noteq> []"
    and "list_all (\<lambda>c. range_char c \<or> c = CHR ''/'' \<or> c = CHR ''L'' \<or> c = CHR ''#'') (print_entry spec e)"
  using assms print_range_chars print_atom_chars show_nat_digits
  by (cases e; fastforce simp: list_all_iff range_char_def digit_range_char value_char_def)+

definition field_char :: "char \<Rightarrow> bool" where
  "field_char c \<longleftrightarrow> range_char c \<or> c \<in> set ''/L#,''"

lemma field_char_facts:
  "\<not> field_char CHR ''?''" "\<not> field_char CHR ''@''" "field_char c \<Longrightarrow> \<not> is_space c"
proof -
  show "\<not> field_char CHR ''?''" "\<not> field_char CHR ''@''"
    by (simp_all add: field_char_def range_char_def value_char_def is_digit_def is_lower_def)
  show "field_char c \<Longrightarrow> \<not> is_space c"
    unfolding field_char_def
    by (elim disjE) (simp add: range_char_not_space, auto simp: is_space_def)
qed

lemma print_field_word:
  assumes "known_spec spec" "wf_field spec f"
  shows "plain_word (print_field spec f)" and "print_field spec f \<noteq> ''?'' \<or> f = Unspecified"
    and "hd (print_field spec f) \<noteq> CHR ''@''"
proof -
  have "plain_word (print_field spec f) \<and> (print_field spec f \<noteq> ''?'' \<or> f = Unspecified)
    \<and> hd (print_field spec f) \<noteq> CHR ''@''"
  proof (cases f)
    case Unspecified
    then show ?thesis by (simp add: plain_word_def is_space_def)
  next
    case (Entries es)
    then have es: "es \<noteq> []" "\<forall>e \<in> set es. wf_entry spec e"
      using assms by (auto simp: list_all_iff)
    have ch: "p \<noteq> [] \<and> list_all field_char p" if "p \<in> set (map (print_entry spec) es)" for p
      using that es print_entry_chars [OF assms(1)] by (fastforce simp: list_all_iff field_char_def)
    have "\<forall>p \<in> set (map (print_entry spec) es). p \<noteq> []" using ch by blast
    then have "print_field spec f \<noteq> []"
      using es Entries join_nonempty [of "map (print_entry spec) es" "'',''"] by simp
    moreover have "\<forall>p \<in> set (map (print_entry spec) es). list_all field_char p" using ch by blast
    then have "list_all field_char (print_field spec f)"
      using list_all_join [of "map (print_entry spec) es" field_char "'',''"] Entries
      by (simp add: field_char_def)
    ultimately show ?thesis
      by (cases "print_field spec f") (auto simp: plain_word_def list_all_iff field_char_facts)
  qed
  then show "plain_word (print_field spec f)" "print_field spec f \<noteq> ''?'' \<or> f = Unspecified"
    "hd (print_field spec f) \<noteq> CHR ''@''" by auto
qed

lemma print_field_valid:
  assumes "known_spec spec" "wf_field spec f"
  shows "isValidField (print_field spec f) spec"
proof (cases f)
  case Unspecified
  then show ?thesis using assms by (simp add: isValidField_def)
next
  case (Entries es)
  then have es: "es \<noteq> []" "\<forall>e \<in> set es. wf_entry spec e"
    using assms by (auto simp: list_all_iff)
  have "CHR '','' \<notin> set (print_entry spec e)" if "e \<in> set es" for e
    using print_entry_chars(2) [OF assms(1), of e] es that not_range_char by (auto simp: list_all_iff)
  then have "split_on CHR '','' (print_field spec f) = map (print_entry spec) es"
    using split_on_join [of "map (print_entry spec) es" "CHR '',''"] es Entries by simp
  moreover have "print_field spec f \<noteq> []" "print_field spec f \<noteq> ''?''"
    using print_field_word [OF assms] Entries by (auto simp: plain_word_def)
  ultimately show ?thesis
    using es print_entry_valid [OF assms(1)] by (simp add: isValidField_def list_all_iff)
qed

lemma known_specs: "specs = FIVE_FIELDS \<or> specs = SIX_FIELDS \<Longrightarrow> spec \<in> set specs \<Longrightarrow> known_spec spec"
  by (auto simp: known_spec_def SIX_FIELDS_def)

lemma specs_length: "length FIVE_FIELDS = 5" "length SIX_FIELDS = 6"
  by (simp_all add: FIVE_FIELDS_def SIX_FIELDS_def)



section \<open>What is refused\<close>

lemma parseValue_last:
  assumes "known_spec spec" "parseValue tok spec \<noteq> None"
  shows "tok \<noteq> [] \<and> last tok \<noteq> CHR ''W''"
proof (rule ccontr)
  assume no: "\<not> (tok \<noteq> [] \<and> last tok \<noteq> CHR ''W'')"
  then have "\<not> digits 1 2 tok"
    by (cases tok rule: rev_cases) (auto simp: digits_def is_digit_def)
  with assms(2) obtain ns i where ns: "names spec = Some ns" "index_of (to_lower tok) ns = Some i"
    by (auto simp: parseValue_def parse_digits_def split: option.splits)
  then have "to_lower tok \<in> set ns" using index_of_Some nth_mem by metis
  then have "to_lower tok \<in> set MONTH_NAMES \<union> set DAY_NAMES"
    using known_spec_names [OF assms(1) ns(1)] by auto
  then have "to_lower tok \<noteq> [] \<and> last (to_lower tok) \<noteq> CHR ''w''"
    by (auto simp: MONTH_NAMES_def DAY_NAMES_def)
  moreover have "lower_char CHR ''W'' = CHR ''w''" by code_simp
  ultimately show False
    using no by (cases tok rule: rev_cases) (auto simp: to_lower_def)
qed

lemma last_split_on:
  "s \<noteq> [] \<Longrightarrow> last s \<noteq> c \<Longrightarrow>
     last (split_on c s) \<noteq> [] \<and> last (last (split_on c s)) = last s"
proof (induction s)
  case (Cons x s)
  show ?case
  proof (cases s)
    case (Cons y t)
    then have "last (split_on c s) \<noteq> [] \<and> last (last (split_on c s)) = last s"
      using Cons.IH Cons.prems by simp
    with Cons show ?thesis
      by (cases "split_on c s") (auto simp del: split_on.simps simp: split_on.simps(2) [of c x])
  qed (use Cons.prems in auto)
qed simp

lemma entry_W_refused:
  assumes "known_spec spec" "entry \<noteq> []" "last entry = CHR ''W''"
  shows "\<not> isValidEntry spec entry"
proof
  assume v: "isValidEntry spec entry"
  have "match_last entry = None" "match_nth entry = None"
    using assms(3) by (auto simp: match_last_def match_nth_def)
  moreover have "entry \<noteq> ''L''" "entry \<noteq> ''l''" using assms(3) by auto
  ultimately obtain r where r: "split_on CHR ''/'' entry = [r] \<or>
      (\<exists>st. split_on CHR ''/'' entry = [r, st] \<and> digits 1 3 st)" and ok: "isValidRange r spec"
    using v assms(2) by (auto simp: isValidEntry_def split: list.splits if_splits)
  have lst: "last (split_on CHR ''/'' entry) \<noteq> []"
    "last (last (split_on CHR ''/'' entry)) = CHR ''W''"
    using last_split_on [of entry "CHR ''/''"] assms by auto
  have "\<not> digits 1 3 (last (split_on CHR ''/'' entry))"
    using lst last_in_set [of "last (split_on CHR ''/'' entry)"]
    by (auto simp: digits_def list_all_iff is_digit_def dest!: bspec)
  with r lst have "r \<noteq> []" "last r = CHR ''W''" by auto
  moreover from this have "last (split_on CHR ''-'' r) \<noteq> [] \<and>
      last (last (split_on CHR ''-'' r)) = CHR ''W''"
    using last_split_on [of r "CHR ''-''"] by simp
  ultimately show False
    using ok parseValue_last [OF assms(1)]
    by (auto simp: isValidRange_def split: list.splits if_splits)
qed

lemma field_entry: "isValidField f spec \<Longrightarrow> f \<noteq> ''?'' \<Longrightarrow> e \<in> set (split_on CHR '','' f) \<Longrightarrow> isValidEntry spec e"
  by (auto simp: isValidField_def list_all_iff split: if_splits)

text \<open>
  C4. Quartz's \<open>W\<close> is never accepted: an expression with a field one of whose list
  entries ends in \<open>W\<close> is refused, in any field and whatever stands before it.
\<close>

theorem nearest_weekday_refused:
  assumes "f \<in> set (split_spaces (trim expression))" and "hd (trim expression) \<noteq> CHR ''@''"
    and "e \<in> set (split_on CHR '','' f)" and "e \<noteq> []" and "last e = CHR ''W''"
  shows "\<not> isValidCronExpression expression"
proof
  assume v: "isValidCronExpression expression"
  then obtain specs where specs: "specs = FIVE_FIELDS \<or> specs = SIX_FIELDS"
      "list_all2 isValidField (split_spaces (trim expression)) specs"
    using assms(2) by (auto simp: isValidCronExpression_def Let_def split: if_splits)
  then obtain spec where spec: "spec \<in> set specs" "isValidField f spec"
    using assms(1) by (metis in_set_conv_nth list_all2_conv_all_nth)
  then have k: "known_spec spec" using known_specs specs(1) by blast
  have "f \<noteq> ''?''" using assms(3,5) by auto
  then have "isValidEntry spec e" using field_entry spec(2) assms(3) by blast
  with entry_W_refused [OF k assms(4,5)] show False ..
qed

theorem nearest_weekday_refused_witness:
  "\<not> isValidCronExpression ''0 0 1,15W * ?''"
proof -
  have "trim ''0 0 1,15W * ?'' = ''0 0 1,15W * ?''"
    by (simp add: trim_def is_space_def)
  moreover have "''1,15W'' \<in> set (split_spaces ''0 0 1,15W * ?'')"
    by (simp add: split_spaces.simps is_space_def)
  ultimately show ?thesis
    using nearest_weekday_refused [of "''1,15W''" "''0 0 1,15W * ?''" "''15W''"] by simp
qed

text \<open>
  C5. The month name \<open>jul\<close> cannot be written: a list of months one of whose entries
  ends in it (\<open>jul\<close> alone, \<open>jun-jul\<close>) is refused, because the pattern for a trailing
  \<open>L\<close> matches its last letter first. Every other month name is accepted.
\<close>

theorem jul_refused:
  assumes "list_all (wf_range MONTH) rs" and "\<exists>r \<in> set rs. range_ends_in_jul MONTH r"
  shows "\<not> isValidField (join '','' (map (print_range MONTH) rs)) MONTH"
proof
  assume v: "isValidField (join '','' (map (print_range MONTH) rs)) MONTH"
  have k: "known_spec MONTH" by (simp add: known_spec_def SIX_FIELDS_def FIVE_FIELDS_def)
  have ch: "r \<in> set rs \<Longrightarrow> print_range MONTH r \<noteq> [] \<and> list_all range_char (print_range MONTH r)" for r
    using print_range_chars [OF k] assms(1) by (auto simp: list_all_iff)
  obtain r where r: "r \<in> set rs" "range_ends_in_jul MONTH r" using assms(2) by auto
  have sp: "split_on CHR '','' (join '','' (map (print_range MONTH) rs)) = map (print_range MONTH) rs"
    using ch r(1) not_range_char by (intro split_on_join) (auto simp: list_all_iff)
  moreover have "join '','' (map (print_range MONTH) rs) \<noteq> ''?''"
  proof
    assume "join '','' (map (print_range MONTH) rs) = ''?''"
    then have "print_range MONTH r \<in> set (split_on CHR '','' ''?'')" using sp r(1) by simp
    then show False using ch [OF r(1)] not_range_char by auto
  qed
  ultimately have "isValidEntry MONTH (print_range MONTH r)"
    using field_entry [OF v, of "print_range MONTH r"] r(1) by auto
  moreover have "\<exists>p. print_range MONTH r = p @ ''jul''"
    using r(2) by (cases r) (auto simp: is_jul_def MONTH_def MONTH_NAMES_def)
  then obtain p where p: "print_range MONTH r = p @ ''jul''" ..
  then have "match_last (print_range MONTH r) = Some (p @ ''ju'')"
    using ch [OF r(1)] by (auto simp: match_last_def list_all_iff butlast_append range_char_dot)
  ultimately show False using p by (auto simp: isValidEntry_def MONTH_def)
qed

theorem jul_refused_witness:
  "\<not> isValidField ''jan,jun-jul'' MONTH"
  using jul_refused [of "[Single (Name 0), Between (Name 5) (Name 6)]"]
  by (simp add: MONTH_def MONTH_NAMES_def is_jul_def)

end
