(* ===== verification/Crypto.thy ===== *)
theory Crypto
  imports JsText "HOL-Library.Word"
begin

text \<open>
  \<^verbatim>\<open>packages/server/src/common/crypto.util.ts\<close>: hexadecimal and base64url encodings of
  random bytes, the comparison of digests, and API keys. The hash functions of
  \<open>node:crypto\<close> are parameters; random bytes are the argument of what draws them.
\<close>

type_synonym byte = "8 word"

section \<open>Encodings\<close>

definition hex_alphabet :: string where
  "hex_alphabet = ''0123456789abcdef''"

definition hex_byte :: "byte \<Rightarrow> string" where
  "hex_byte b = [hex_alphabet ! (unat b div 16), hex_alphabet ! (unat b mod 16)]"

text \<open>\<open>toString('hex')\<close>\<close>

definition to_hex :: "byte list \<Rightarrow> string" where
  "to_hex bs = concat (map hex_byte bs)"

fun hex_value :: "char \<Rightarrow> nat" where
  "hex_value c =
     (if is_digit c then code c - 48 else if is_lower c then code c - 87 else code c - 55)"

text \<open>\<open>Buffer.from(s, 'hex')\<close>: two digits a byte, up to the first pair that is not one.\<close>

fun from_hex :: "string \<Rightarrow> byte list" where
  "from_hex (a # b # s) =
     (if is_hex a \<and> is_hex b
      then word_of_nat (16 * hex_value a + hex_value b) # from_hex s else [])"
| "from_hex _ = []"

definition base64url_alphabet :: string where
  "base64url_alphabet = ''ABCDEFGHIJKLMNOPQRSTUVWXYZabcdefghijklmnopqrstuvwxyz0123456789-_''"

fun base64url :: "byte list \<Rightarrow> string" where
  "base64url (a # b # c # bs) =
     [base64url_alphabet ! (unat a div 4),
      base64url_alphabet ! (unat a mod 4 * 16 + unat b div 16),
      base64url_alphabet ! (unat b mod 16 * 4 + unat c div 64),
      base64url_alphabet ! (unat c mod 64)] @ base64url bs"
| "base64url [a, b] =
     [base64url_alphabet ! (unat a div 4),
      base64url_alphabet ! (unat a mod 4 * 16 + unat b div 16),
      base64url_alphabet ! (unat b mod 16 * 4)]"
| "base64url [a] =
     [base64url_alphabet ! (unat a div 4), base64url_alphabet ! (unat a mod 4 * 16)]"
| "base64url [] = []"

lemma unat_byte: "unat (b :: byte) < 256"
  using unsigned_less [of b] by simp

lemma hex_alphabet_nth: "i < 16 \<Longrightarrow> is_hex_lower (hex_alphabet ! i) \<and> hex_value (hex_alphabet ! i) = i"
proof -
  have "list_all (\<lambda>i. is_hex_lower (hex_alphabet ! i) \<and> hex_value (hex_alphabet ! i) = i) [0..<16]"
    by code_simp
  then show "i < 16 \<Longrightarrow> ?thesis" by (simp add: list_all_iff)
qed

lemma hex_byte_digits: "list_all is_hex_lower (hex_byte b)"
proof -
  have "unat b div 16 < 16" using unat_byte [of b] by simp
  then show ?thesis
    using hex_alphabet_nth by (simp add: hex_byte_def)
qed

lemma to_hex_digits: "list_all is_hex_lower (to_hex bs)"
  using hex_byte_digits by (induction bs) (auto simp: to_hex_def)

lemma length_to_hex [simp]: "length (to_hex bs) = 2 * length bs"
  by (induction bs) (auto simp: to_hex_def hex_byte_def)

lemma from_to_hex: "from_hex (to_hex bs) = bs"
proof (induction bs)
  case (Cons b bs)
  have d: "unat b div 16 < 16" "unat b mod 16 < 16" using unat_byte [of b] by simp_all
  have "16 * hex_value (hex_alphabet ! (unat b div 16)) + hex_value (hex_alphabet ! (unat b mod 16))
      = unat b"
    using d hex_alphabet_nth by simp
  moreover have "is_hex (hex_alphabet ! (unat b div 16))" "is_hex (hex_alphabet ! (unat b mod 16))"
    using d hex_alphabet_nth by (auto simp: is_hex_def)
  ultimately show ?case
    using Cons by (simp add: to_hex_def hex_byte_def del: hex_value.simps)
qed (simp add: to_hex_def)

lemma hex_value_inj:
  "is_hex_lower c \<Longrightarrow> is_hex_lower d \<Longrightarrow> hex_value c = hex_value d \<Longrightarrow> c = d"
proof -
  assume h: "is_hex_lower c" "is_hex_lower d" "hex_value c = hex_value d"
  define x y where "x = code c" and "y = code d"
  have "x = y"
    using h by (auto simp: is_hex_lower_def is_digit_def is_lower_def x_def [symmetric]
        y_def [symmetric] split: if_splits)
  then show "c = d" by (simp add: x_def y_def)
qed

lemma hex_value_bound: "is_hex_lower c \<Longrightarrow> hex_value c < 16"
  by (auto simp: is_hex_lower_def is_digit_def is_lower_def)

lemma unat_of_byte: "n < 256 \<Longrightarrow> unat (word_of_nat n :: byte) = n"
  by (simp add: unsigned_of_nat take_bit_eq_mod)

lemma nibbles: "16 * x + y = 16 * z + w \<Longrightarrow> y < 16 \<Longrightarrow> w < 16 \<Longrightarrow> x = z \<and> y = w" for x y z w :: nat
proof -
  assume a: "16 * x + y = 16 * z + w" "y < 16" "w < 16"
  then have "x = z" by linarith
  with a show "x = z \<and> y = w" by simp
qed

lemma hex_pair_inj:
  assumes "is_hex_lower a" "is_hex_lower b" "is_hex_lower c" "is_hex_lower d"
    and "(word_of_nat (16 * hex_value a + hex_value b) :: byte) = word_of_nat (16 * hex_value c + hex_value d)"
  shows "a = c \<and> b = d"
proof -
  note bounds = assms(1-4) [THEN hex_value_bound]
  have "16 * hex_value a + hex_value b < 256" "16 * hex_value c + hex_value d < 256"
    using bounds by linarith+
  then have "16 * hex_value a + hex_value b = 16 * hex_value c + hex_value d"
    using arg_cong [OF assms(5), of unat] unat_of_byte by metis
  then have "hex_value a = hex_value c" "hex_value b = hex_value d"
    using nibbles bounds by blast+
  then show ?thesis using hex_value_inj assms by blast
qed

section \<open>Comparing digests\<close>

definition timingSafeEqualHex :: "string \<Rightarrow> string \<Rightarrow> bool" where
  "timingSafeEqualHex a b =
     (if length a \<noteq> length b \<or> a = [] then False
      else if \<not> list_all is_hex_lower a \<or> \<not> list_all is_hex_lower b then False
      else from_hex a = from_hex b)"

lemma from_hex_inj:
  "length a = length b \<Longrightarrow> even (length a) \<Longrightarrow> list_all is_hex_lower a \<Longrightarrow>
     list_all is_hex_lower b \<Longrightarrow> from_hex a = from_hex b \<Longrightarrow> a = b"
proof (induction a arbitrary: b rule: from_hex.induct)
  case (1 x y s)
  then obtain u v t where "b = u # v # t" by (cases b rule: from_hex.cases) auto
  with 1 show ?case
    using hex_pair_inj [of x y u v] by (auto simp: is_hex_def simp del: hex_value.simps)
qed auto

lemma digest_even:
  "even (length a) \<Longrightarrow> timingSafeEqualHex a b \<longleftrightarrow> a = b \<and> a \<noteq> [] \<and> list_all is_hex_lower a"
  using from_hex_inj [of a b] by (auto simp: timingSafeEqualHex_def)

text \<open>
  On digests of whole bytes the constant-time comparison is equality of two
  well-formed lower-case digests: nothing that is not hexadecimal compares equal to
  anything, and two different digests never do.
\<close>

theorem digest_comparison_exact:
  assumes "even (length a)"
  shows "timingSafeEqualHex a b \<longleftrightarrow> a = b \<and> a \<noteq> [] \<and> list_all is_hex_lower a"
  using assms by (rule digest_even)

theorem digest_comparison_exact_witness:
  "timingSafeEqualHex ''00ff'' ''00ff'' \<and> \<not> timingSafeEqualHex ''zz'' ''zz''"
  using digest_comparison_exact [of "''00ff''" "''00ff''"] digest_comparison_exact [of "''zz''" "''zz''"]
  by (simp add: is_hex_lower_def is_digit_def)

text \<open>
  An odd digit at the end is dropped by the decoding, so two digests that differ only
  there compare equal.
\<close>

lemma odd_digests_collide: "timingSafeEqualHex ''a'' ''b'' \<and> timingSafeEqualHex ''abc'' ''abd''"
  by (simp add: timingSafeEqualHex_def is_hex_lower_def is_digit_def)

section \<open>API keys\<close>

record generated_api_key =
  token :: string
  gen_lookupId :: string
  gen_secretHash :: string
  gen_prefix :: string

definition generateApiKey ::
  "(string \<Rightarrow> string) \<Rightarrow> byte list \<Rightarrow> byte list \<Rightarrow> generated_api_key" where
  "generateApiKey sha256Hex bytes8 bytes32 =
     (let lookupId = to_hex bytes8; secret = base64url bytes32
      in \<lparr>token = ''sw_'' @ lookupId @ ''_'' @ secret,
          gen_lookupId = lookupId,
          gen_secretHash = sha256Hex secret,
          gen_prefix = ''sw_'' @ lookupId\<rparr>)"

text \<open>\<open>/^sw_([0-9a-f]{16})_([A-Za-z0-9_-]{43})$/\<close>\<close>

definition token_char :: "char \<Rightarrow> bool" where
  "token_char c \<longleftrightarrow> is_upper c \<or> is_lower c \<or> is_digit c \<or> c = CHR ''_'' \<or> c = CHR ''-''"

definition API_KEY_PATTERN :: "string \<Rightarrow> bool" where
  "API_KEY_PATTERN s \<longleftrightarrow>
     length s = 63 \<and> take 3 s = ''sw_'' \<and> list_all is_hex_lower (take 16 (drop 3 s))
     \<and> s ! 19 = CHR ''_'' \<and> list_all token_char (drop 20 s)"

record parsed_api_key =
  lookupId :: string
  secretHash :: string

definition parseApiKey :: "(string \<Rightarrow> string) \<Rightarrow> string \<Rightarrow> parsed_api_key option" where
  "parseApiKey sha256Hex s =
     (if API_KEY_PATTERN s
      then Some \<lparr>lookupId = take 16 (drop 3 s), secretHash = sha256Hex (drop 20 s)\<rparr>
      else None)"

lemma base64url_alphabet_chars: "list_all token_char base64url_alphabet"
  by (simp add: base64url_alphabet_def token_char_def is_upper_def is_lower_def is_digit_def)

lemma base64url_nth: "i < 64 \<Longrightarrow> token_char (base64url_alphabet ! i)"
proof -
  assume "i < 64"
  then have "i < length base64url_alphabet" by (simp add: base64url_alphabet_def)
  then show ?thesis using base64url_alphabet_chars by (simp add: list_all_length)
qed

lemma sextet_bounds:
  fixes a b :: nat
  assumes "a < 256" "b < 256"
  shows "a div 4 < 64" "a mod 4 * 16 + b div 16 < 64"
    "a mod 16 * 4 + b div 64 < 64" "a mod 64 < 64" "a mod 16 * 4 < 64" "a mod 4 * 16 < 64"
proof -
  have "a mod 4 \<le> 3" "b div 16 \<le> 15" "a mod 16 \<le> 15" "b div 64 \<le> 3" using assms by auto
  then show "a div 4 < 64" "a mod 4 * 16 + b div 16 < 64"
    "a mod 16 * 4 + b div 64 < 64" "a mod 64 < 64" "a mod 16 * 4 < 64" "a mod 4 * 16 < 64"
    using assms by (simp_all add: less_mult_imp_div_less)
qed

lemma sextets:
  fixes a b :: byte
  shows "unat a div 4 < 64" "unat a mod 4 * 16 + unat b div 16 < 64"
    "unat a mod 16 * 4 + unat b div 64 < 64" "unat a mod 64 < 64"
    "unat a mod 16 * 4 < 64" "unat a mod 4 * 16 < 64"
  by (rule sextet_bounds [OF unat_byte unat_byte])+

lemma base64url_chars: "list_all token_char (base64url bs)"
  by (induction bs rule: base64url.induct) (simp_all add: base64url_nth sextets)

lemma length_base64url:
  "length (base64url bs) = length bs div 3 * 4 + (if length bs mod 3 = 0 then 0 else length bs mod 3 + 1)"
proof (induction bs rule: base64url.induct)
  case (1 a b c bs)
  have "length (a # b # c # bs) div 3 = Suc (length bs div 3)"
    "length (a # b # c # bs) mod 3 = length bs mod 3"
    by (simp_all add: mod_Suc) linarith+
  then show ?case
    using 1 by simp
qed simp_all

lemma parse_generated:
  assumes "length bytes8 = 8" and "length bytes32 = 32"
  shows "parseApiKey sha (token (generateApiKey sha bytes8 bytes32)) =
           Some \<lparr>lookupId = gen_lookupId (generateApiKey sha bytes8 bytes32),
                 secretHash = gen_secretHash (generateApiKey sha bytes8 bytes32)\<rparr>"
  using assms to_hex_digits [of bytes8] base64url_chars [of bytes32]
  by (simp add: parseApiKey_def generateApiKey_def API_KEY_PATTERN_def nth_append Let_def length_base64url)

text \<open>
  A generated API key is read back: parsing the token gives the stored
  identifier and the stored hash of its secret, whatever bytes were drawn, and the
  displayed prefix is a prefix of the token that leaves the 43 characters of the secret out.
\<close>

theorem api_key_roundtrip:
  assumes "length bytes8 = 8" and "length bytes32 = 32"
  shows "parseApiKey sha (token (generateApiKey sha bytes8 bytes32)) =
           Some \<lparr>lookupId = gen_lookupId (generateApiKey sha bytes8 bytes32),
                 secretHash = gen_secretHash (generateApiKey sha bytes8 bytes32)\<rparr>
         \<and> token (generateApiKey sha bytes8 bytes32) =
             gen_prefix (generateApiKey sha bytes8 bytes32) @ ''_'' @ base64url bytes32
         \<and> length (base64url bytes32) = 43"
  using parse_generated [OF assms] assms(2) by (simp add: generateApiKey_def Let_def length_base64url)

theorem api_key_roundtrip_witness:
  "\<exists>k. parseApiKey (\<lambda>s. s) (token (generateApiKey (\<lambda>s. s) (replicate 8 171) (replicate 32 255))) = Some k"
  by (rule exI, rule api_key_roundtrip [THEN conjunct1]) simp_all

end
