(* ===== verification/Runner.thy ===== *)
theory Runner
  imports Prelude
begin

text \<open>
  The server's background loops: \<^verbatim>\<open>packages/server/src/common/interval-runner.ts\<close>, and the
  two readers of the detection loop's counters, \<^verbatim>\<open>health/health.controller.ts\<close> and
  \<^verbatim>\<open>detection/outbound-heartbeat.service.ts\<close>. A tick is asynchronous: \<open>run\<close> starts
  one, or joins the one in flight, and its end is an event of its own.
\<close>

record runner =
  timer :: bool
  current :: bool
  ticks :: nat
  failures :: nat
  skipped :: nat
  lastError :: "string option"
  lastSuccessAt :: "millis option"

definition idle_runner :: runner where
  "idle_runner = \<lparr>timer = False, current = False, ticks = 0, failures = 0, skipped = 0,
     lastError = None, lastSuccessAt = None\<rparr>"

definition runner_start :: "runner \<Rightarrow> runner" where
  "runner_start r = (if timer r then r else r\<lparr>timer := True\<rparr>)"

definition runner_stop :: "runner \<Rightarrow> runner" where
  "runner_stop r = (if \<not> timer r then r else r\<lparr>timer := False\<rparr>)"

text \<open>\<open>run\<close>: whether the caller's tick is a new one, and the state after.\<close>

definition runner_run :: "runner \<Rightarrow> bool \<times> runner" where
  "runner_run r =
     (if current r then (False, r\<lparr>skipped := Suc (skipped r)\<rparr>) else (True, r\<lparr>current := True\<rparr>))"

text \<open>\<open>execute\<close>, once the task has settled: \<open>Inl\<close> the message it threw.\<close>

definition runner_settled :: "string + unit \<Rightarrow> millis \<Rightarrow> runner \<Rightarrow> runner" where
  "runner_settled outcome now r =
     (case outcome of
        Inr () \<Rightarrow> r\<lparr>ticks := Suc (ticks r), lastSuccessAt := Some now, lastError := None,
                    current := False\<rparr>
      | Inl message \<Rightarrow> r\<lparr>failures := Suc (failures r), lastError := Some message,
                         current := False\<rparr>)"

datatype runner_event = Start | Stop | Tick | Settled "string + unit" millis

fun runner_step :: "runner_event \<Rightarrow> runner \<Rightarrow> runner" where
  "runner_step Start r = runner_start r"
| "runner_step Stop r = runner_stop r"
| "runner_step Tick r = snd (runner_run r)"
| "runner_step (Settled outcome now) r = (if current r then runner_settled outcome now r else r)"

section \<open>Readers\<close>

datatype detection_word = Running | Starting | Stalled

record health_report =
  httpStatus :: nat
  database_up :: bool
  detection :: detection_word

definition detectionHealthy :: "int \<Rightarrow> millis \<Rightarrow> runner \<Rightarrow> bool" where
  "detectionHealthy intervalMs now r =
     (case lastSuccessAt r of None \<Rightarrow> False | Some t \<Rightarrow> now - t < intervalMs * 6)"

definition health :: "bool \<Rightarrow> int \<Rightarrow> millis \<Rightarrow> runner \<Rightarrow> health_report" where
  "health databaseUp intervalMs now r =
     (let ok = detectionHealthy intervalMs now r
      in \<lparr>httpStatus = (if databaseUp \<and> (ok \<or> ticks r = 0) then 200 else 503),
          database_up = databaseUp,
          detection = (if ok then Running else if ticks r = 0 then Starting else Stalled)\<rparr>)"

text \<open>
  \<open>beat\<close>: nothing without a URL, nothing while the loop is stale; otherwise the request,
  and an error unless it was answered well.
\<close>

datatype beat_outcome = NotConfigured | Withheld | Beaten | BeatFailed nat

definition beat :: "string option \<Rightarrow> int \<Rightarrow> millis \<Rightarrow> runner \<Rightarrow> (string \<Rightarrow> nat) \<Rightarrow> beat_outcome" where
  "beat url detectionIntervalMs now r fetch =
     (case url of
        None \<Rightarrow> NotConfigured
      | Some u \<Rightarrow>
          (case lastSuccessAt r of
             None \<Rightarrow> Withheld
           | Some t \<Rightarrow>
               if now - t > detectionIntervalMs * 3 then Withheld
               else if 200 \<le> fetch u \<and> fetch u \<le> 299 then Beaten else BeatFailed (fetch u)))"

section \<open>The loop\<close>

text \<open>
  Ticks never overlap: what was started is what was counted, plus the one in flight.
\<close>

fun started :: "runner_event list \<Rightarrow> runner \<Rightarrow> nat" where
  "started [] r = 0"
| "started (e # es) r =
     (if e = Tick \<and> fst (runner_run r) then 1 else 0) + started es (runner_step e r)"

lemma runner_step_counts:
  "ticks (runner_step e r) + failures (runner_step e r) + (if current (runner_step e r) then 1 else 0)
    = ticks r + failures r + (if current r then 1 else 0)
      + (if e = Tick \<and> fst (runner_run r) then 1 else 0)"
  by (cases e)
    (auto simp: runner_start_def runner_stop_def runner_run_def runner_settled_def
      split: sum.splits unit.splits)

lemma run_counts:
  "ticks (fold runner_step es r) + failures (fold runner_step es r)
      + (if current (fold runner_step es r) then 1 else 0)
    = ticks r + failures r + (if current r then 1 else 0) + started es r"
proof (induction es arbitrary: r)
  case (Cons e es)
  show ?case using Cons.IH [of "runner_step e r"] runner_step_counts [of e r] by simp
qed simp

text \<open>
  Whatever order timer ticks and their ends come in, ticks do not overlap and none
  is lost: those started are exactly those that succeeded or failed, plus one if a tick is
  in flight.
\<close>

theorem ticks_accounted:
  "started es idle_runner =
     ticks (fold runner_step es idle_runner) + failures (fold runner_step es idle_runner)
       + (if current (fold runner_step es idle_runner) then 1 else 0)"
  using run_counts [of es idle_runner] by (simp add: idle_runner_def)

section \<open>The watchdog\<close>

definition last_success_inv :: "runner \<Rightarrow> bool" where
  "last_success_inv r \<longleftrightarrow> (lastSuccessAt r = None \<longleftrightarrow> ticks r = 0)"

interpretation loop: machine runner_step last_success_inv
proof
  show "last_success_inv (runner_step e r)" if "last_success_inv r" for e r
    using that by (cases e)
      (auto simp: last_success_inv_def runner_start_def runner_stop_def runner_run_def
        runner_settled_def split: sum.splits unit.splits)
qed

definition succeeded_at :: "runner_event list \<Rightarrow> millis set" where
  "succeeded_at es = {t. Settled (Inr ()) t \<in> set es}"

lemma last_success_logged:
  "lastSuccessAt (fold runner_step es r) = Some t \<Longrightarrow> lastSuccessAt r = Some t \<or> t \<in> succeeded_at es"
proof (induction es arbitrary: r)
  case (Cons e es)
  then have "lastSuccessAt (runner_step e r) = Some t \<or> t \<in> succeeded_at es" by simp
  then show ?case
    by (cases e)
      (auto simp: succeeded_at_def runner_start_def runner_stop_def runner_run_def
        runner_settled_def split: sum.splits unit.splits if_splits)
qed simp

text \<open>
  C33. The outbound heartbeat is sent only while the loop is provably alive: when no tick
  has succeeded within the last three intervals, \<open>beat\<close> withholds it, whatever else
  happened to the loop, so the external watchdog fires.
\<close>

theorem heartbeat_withheld_when_stalled:
  assumes "\<forall>t \<in> succeeded_at es. now - t > intervalMs * 3"
  shows "beat (Some url) intervalMs now (fold runner_step es idle_runner) fetch = Withheld"
  using assms last_success_logged [of es idle_runner]
  by (auto simp: beat_def idle_runner_def split: option.splits)

theorem heartbeat_withheld_when_stalled_witness:
  "beat (Some ''https://hc.example'') 5000 60000
     (fold runner_step [Start, Tick, Settled (Inr ()) 1000, Tick, Settled (Inl ''db'') 9000] idle_runner)
     (\<lambda>_. 200) = Withheld"
  by (rule heartbeat_withheld_when_stalled) (simp add: succeeded_at_def)

definition failed_run :: "(string \<times> millis) list \<Rightarrow> runner_event list" where
  "failed_run fs = concat (map (\<lambda>f. [Tick, Settled (Inl (fst f)) (snd f)]) fs)"

lemma failed_run_state:
  "ticks (fold runner_step (failed_run fs) r) = ticks r \<and>
   lastSuccessAt (fold runner_step (failed_run fs) r) = lastSuccessAt r"
proof (induction fs arbitrary: r)
  case (Cons f fs)
  have "fold runner_step (failed_run (f # fs)) r =
      fold runner_step (failed_run fs) (runner_step (Settled (Inl (fst f)) (snd f)) (runner_step Tick r))"
    by (simp add: failed_run_def)
  then show ?case using Cons.IH by (simp add: runner_run_def runner_settled_def)
qed (simp add: failed_run_def)

text \<open>
  The public health endpoint does not notice a detection loop that has failed ever
  since the process started: with the database answering, it reports status 200 and
  ``starting'', after any number of failed ticks and at any time, because only successful
  ticks are counted. On any history, ``stalled'' with status 503 is reported exactly when
  some tick has succeeded and none within the last six intervals.
\<close>

theorem health_of_a_failing_loop:
  "health True intervalMs now (fold runner_step (failed_run fs) idle_runner) =
     \<lparr>httpStatus = 200, database_up = True, detection = Starting\<rparr>
   \<and> (health dbUp intervalMs now (fold runner_step es idle_runner) =
        \<lparr>httpStatus = 503, database_up = dbUp, detection = Stalled\<rparr> \<longleftrightarrow>
      ticks (fold runner_step es idle_runner) \<noteq> 0 \<and>
      \<not> detectionHealthy intervalMs now (fold runner_step es idle_runner))"
proof -
  have "ticks (fold runner_step (failed_run fs) idle_runner) = 0"
    "lastSuccessAt (fold runner_step (failed_run fs) idle_runner) = None"
    using failed_run_state [of fs idle_runner] by (simp_all add: idle_runner_def)
  then show ?thesis
    by (auto simp: health_def detectionHealthy_def Let_def)
qed

end
