(* ===== verification/RateLimiter.thy ===== *)
theory RateLimiter
  imports Prelude
begin

text \<open>
  \<^verbatim>\<open>packages/server/src/common/rate-limiter.ts\<close>: the fixed-window limiter that
  guards ingestion and the API. Its \<open>Map\<close> is an association list in insertion order,
  because eviction drops the entries that were inserted first.
\<close>

record window =
  count :: nat
  resetAt :: millis

record limiter_config =
  limit :: nat
  windowMs :: int
  maxKeys :: nat

type_synonym windows = "(string, window) js_map"

text \<open>\<open>evict\<close>: expired windows go; if it is still full, the oldest down to nine tenths.\<close>

definition rl_evict :: "limiter_config \<Rightarrow> millis \<Rightarrow> windows \<Rightarrow> windows" where
  "rl_evict cfg now ws =
     (let live = filter (\<lambda>e. \<not> resetAt (snd e) \<le> now) ws
      in if maxKeys cfg \<le> length live
         then drop (max 1 (length live - maxKeys cfg * 9 div 10)) live
         else live)"

text \<open>\<open>Math.ceil(ms / 1000)\<close> on integers.\<close>

definition ceil_seconds :: "int \<Rightarrow> int" where
  "ceil_seconds ms = (ms + 999) div 1000"

definition hit :: "limiter_config \<Rightarrow> string \<Rightarrow> millis \<Rightarrow> windows \<Rightarrow> int \<times> windows" where
  "hit cfg key now ws =
     (case map_of ws key of
        None \<Rightarrow>
          (0, js_set key \<lparr>count = 1, resetAt = now + windowMs cfg\<rparr>
                (js_delete key (if maxKeys cfg \<le> length ws then rl_evict cfg now ws else ws)))
      | Some w \<Rightarrow>
          if resetAt w \<le> now
          then (0, js_set key \<lparr>count = 1, resetAt = now + windowMs cfg\<rparr>
                     (js_delete key (if maxKeys cfg \<le> length ws then rl_evict cfg now ws else ws)))
          else if limit cfg \<le> count w
          then (max 1 (ceil_seconds (resetAt w - now)), ws)
          else (0, js_set key (w\<lparr>count := Suc (count w)\<rparr>) ws))"

definition exceeded :: "limiter_config \<Rightarrow> string \<Rightarrow> millis \<Rightarrow> windows \<Rightarrow> bool" where
  "exceeded cfg key now ws =
     (case map_of ws key of
        None \<Rightarrow> False
      | Some w \<Rightarrow> now < resetAt w \<and> limit cfg \<le> count w)"

definition rl_size :: "windows \<Rightarrow> nat" where
  "rl_size ws = length ws"

fun rl_reset :: "string option \<Rightarrow> windows \<Rightarrow> windows" where
  "rl_reset None ws = []"
| "rl_reset (Some key) ws = js_delete key ws"

section \<open>The table stays bounded\<close>

interpretation rl: bounded_map "maxKeys cfg" "rl_evict cfg now"
  for cfg :: limiter_config and now :: millis
proof
  fix m :: windows
  show "set (rl_evict cfg now m) \<subseteq> set m"
    by (auto simp: rl_evict_def Let_def dest: in_set_dropD)
  show "distinct (map fst (rl_evict cfg now m))" if "distinct (map fst m)"
    using that by (auto simp: rl_evict_def Let_def drop_map [symmetric] distinct_map_filter)
  show "length (rl_evict cfg now m) < maxKeys cfg" if "0 < maxKeys cfg" "length m \<le> maxKeys cfg"
    using that by (auto simp: rl_evict_def Let_def)
qed

definition within_limit :: "limiter_config \<Rightarrow> windows \<Rightarrow> bool" where
  "within_limit cfg ws \<longleftrightarrow> (\<forall>e \<in> set ws. 1 \<le> count (snd e) \<and> count (snd e) \<le> limit cfg)"

definition rl_inv :: "limiter_config \<Rightarrow> windows \<Rightarrow> bool" where
  "rl_inv cfg ws \<longleftrightarrow> bounded (maxKeys cfg) ws \<and> within_limit cfg ws"

lemma rl_inv_Nil [simp]: "rl_inv cfg []"
  by (simp add: rl_inv_def within_limit_def)

lemma within_limit_subset: "within_limit cfg ws \<Longrightarrow> set ws' \<subseteq> set ws \<Longrightarrow> within_limit cfg ws'"
  by (auto simp: within_limit_def)

lemma within_limit_js_set:
  "within_limit cfg ws \<Longrightarrow> 1 \<le> count w \<Longrightarrow> count w \<le> limit cfg \<Longrightarrow> within_limit cfg (js_set k w ws)"
  using set_js_set [of k w ws] by (fastforce simp: within_limit_def)

lemma rl_inv_fresh_window:
  assumes "0 < limit cfg" "0 < maxKeys cfg" "rl_inv cfg ws"
  shows "rl_inv cfg (js_set key \<lparr>count = 1, resetAt = r\<rparr>
           (js_delete key (if maxKeys cfg \<le> length ws then rl_evict cfg now ws else ws)))"
proof -
  have "set (js_delete key (if maxKeys cfg \<le> length ws then rl_evict cfg now ws else ws)) \<subseteq> set ws"
    by (rule subset_trans [OF set_js_delete]) (simp add: rl.evict_subset)
  then show ?thesis
    using assms rl.bounded_reinsert [of cfg ws]
    by (auto simp: rl_inv_def intro!: within_limit_js_set intro: within_limit_subset)
qed

lemma hit_keeps_inv:
  assumes "0 < limit cfg" "0 < maxKeys cfg" "rl_inv cfg ws"
  shows "rl_inv cfg (snd (hit cfg key now ws))"
proof (cases "map_of ws key")
  case None
  then show ?thesis using rl_inv_fresh_window [OF assms] by (simp add: hit_def)
next
  case (Some w)
  then have w: "(key, w) \<in> set ws" by (rule map_of_SomeD)
  then have "key \<in> fst ` set ws" by force
  with assms w have "rl_inv cfg (js_set key (w\<lparr>count := Suc (count w)\<rparr>) ws)" if "count w < limit cfg"
    using that by (auto simp: rl_inv_def intro: bounded_overwrite within_limit_js_set)
  with Some assms show ?thesis
    using rl_inv_fresh_window [OF assms] by (simp add: hit_def)
qed

section \<open>When a hit is refused\<close>

lemma hit_refused_iff: "0 < fst (hit cfg key now ws) \<longleftrightarrow> exceeded cfg key now ws"
  by (auto simp: hit_def exceeded_def split: option.splits)

lemma hit_refused_unchanged: "0 < fst (hit cfg key now ws) \<Longrightarrow> snd (hit cfg key now ws) = ws"
  by (auto simp: hit_def split: option.splits if_splits)

lemma hit_nonneg: "0 \<le> fst (hit cfg key now ws)"
  by (auto simp: hit_def split: option.splits)

lemma hit_allowed_iff: "fst (hit cfg key now ws) = 0 \<longleftrightarrow> \<not> exceeded cfg key now ws"
  using hit_refused_iff [of cfg key now ws] hit_nonneg [of cfg key now ws] by linarith

section \<open>The budget of one window\<close>

text \<open>A sequence of hits, by any keys: what each was answered, in order.\<close>

fun run_hits :: "limiter_config \<Rightarrow> (string \<times> millis) list \<Rightarrow> windows \<Rightarrow> (string \<times> int) list" where
  "run_hits cfg [] ws = []"
| "run_hits cfg ((key, now) # es) ws =
     (key, fst (hit cfg key now ws)) # run_hits cfg es (snd (hit cfg key now ws))"

definition allowed :: "string \<Rightarrow> (string \<times> int) list \<Rightarrow> nat" where
  "allowed key rs = length (filter (\<lambda>r. fst r = key \<and> snd r = 0) rs)"

definition attempts_of :: "string \<Rightarrow> (string \<times> millis) list \<Rightarrow> nat" where
  "attempts_of key es = length (filter (\<lambda>e. fst e = key) es)"

definition spent :: "string \<Rightarrow> windows \<Rightarrow> nat" where
  "spent key ws = (case map_of ws key of None \<Rightarrow> 0 | Some w \<Rightarrow> count w)"

text \<open>Every window of the table is still open throughout \<open>[t0, t0 + windowMs)\<close>.\<close>

definition open_until :: "limiter_config \<Rightarrow> millis \<Rightarrow> windows \<Rightarrow> bool" where
  "open_until cfg t0 ws \<longleftrightarrow> (\<forall>k w. map_of ws k = Some w \<longrightarrow> t0 + windowMs cfg \<le> resetAt w)"

text \<open>
  One hit inside the window: it is answered 0 exactly when the key has budget left, it
  spends one unit of that key's budget and of no other's, and adds at most one entry.
\<close>

lemma hit_within_window:
  assumes room: "length ws < maxKeys cfg"
    and t: "t0 \<le> now" "now < t0 + windowMs cfg"
    and op: "open_until cfg t0 ws"
    and lim: "0 < limit cfg"
  shows "fst (hit cfg key now ws) = 0 \<longleftrightarrow> spent key ws < limit cfg"
    and "spent key' (snd (hit cfg key now ws)) =
           (if key' = key \<and> spent key ws < limit cfg then Suc (spent key ws) else spent key' ws)"
    and "open_until cfg t0 (snd (hit cfg key now ws))"
    and "length (snd (hit cfg key now ws)) \<le> Suc (length ws)"
proof -
  have live: "now < resetAt w" if "map_of ws key = Some w" for w
    using op t(2) that by (fastforce simp: open_until_def)
  have present: "key \<in> fst ` set ws" if "map_of ws key = Some w" for w
    using that map_of_SomeD by force
  show "fst (hit cfg key now ws) = 0 \<longleftrightarrow> spent key ws < limit cfg"
    using live lim by (auto simp: hit_def spent_def split: option.splits)
  show "spent key' (snd (hit cfg key now ws)) =
          (if key' = key \<and> spent key ws < limit cfg then Suc (spent key ws) else spent key' ws)"
    using live lim room by (auto simp: hit_def spent_def split: option.splits)
  show "open_until cfg t0 (snd (hit cfg key now ws))"
    using live room t op by (auto simp: hit_def open_until_def split: option.splits)
  show "length (snd (hit cfg key now ws)) \<le> Suc (length ws)"
    using live room present length_js_set_le length_js_delete_le [of key ws]
    by (auto simp: hit_def length_js_set_present split: option.splits
             intro: le_trans [OF length_js_set_le])
qed

lemma run_hits_budget:
  assumes "0 < limit cfg"
  shows "length ws + length es \<le> maxKeys cfg \<Longrightarrow>
    (\<forall>e \<in> set es. t0 \<le> snd e \<and> snd e < t0 + windowMs cfg) \<Longrightarrow>
    open_until cfg t0 ws \<Longrightarrow> spent key ws \<le> limit cfg \<Longrightarrow>
    allowed key (run_hits cfg es ws) = min (limit cfg - spent key ws) (attempts_of key es)"
proof (induction es arbitrary: ws)
  case Nil
  then show ?case by (simp add: allowed_def attempts_of_def)
next
  case (Cons e es)
  obtain k now where e: "e = (k, now)" by (cases e)
  let ?ws' = "snd (hit cfg k now ws)"
  have room: "length ws < maxKeys cfg" and t: "t0 \<le> now" "now < t0 + windowMs cfg"
    using Cons.prems e by auto
  note step = hit_within_window [OF room t Cons.prems(3) assms, where key = k]
  have IH: "allowed key (run_hits cfg es ?ws') = min (limit cfg - spent key ?ws') (attempts_of key es)"
  proof (rule Cons.IH)
    show "length ?ws' + length es \<le> maxKeys cfg" using step(4) Cons.prems(1) by simp
    show "open_until cfg t0 ?ws'" by (rule step(3))
    show "spent key ?ws' \<le> limit cfg"
      using step(2) [of key] Cons.prems(4) by (simp split: if_splits)
  qed (use Cons.prems in auto)
  show ?case
    using IH step(1) step(2) [of key] Cons.prems(4)
    by (auto simp: e allowed_def attempts_of_def)
qed

text \<open>
  C31. Within one window length, starting from an empty limiter that has room for the
  keys seen, a key is answered ``allowed'' for exactly its first \<open>limit\<close> hits, whatever
  the other keys do in between.
\<close>

theorem rate_limit_window_budget:
  assumes "0 < limit cfg" and "length es \<le> maxKeys cfg"
    and "\<forall>e \<in> set es. t0 \<le> snd e \<and> snd e < t0 + windowMs cfg"
  shows "allowed key (run_hits cfg es []) = min (limit cfg) (attempts_of key es)"
proof -
  have "spent key [] = 0" "open_until cfg t0 []"
    by (simp_all add: spent_def open_until_def)
  then show ?thesis
    using run_hits_budget [of cfg "[]" es t0 key] assms by simp
qed

theorem rate_limit_window_budget_witness:
  "allowed ''a'' (run_hits \<lparr>limit = 2, windowMs = 60000, maxKeys = 100\<rparr>
      [(''a'', 0), (''b'', 5), (''a'', 10), (''a'', 59999)] []) = 2"
  using rate_limit_window_budget
    [of "\<lparr>limit = 2, windowMs = 60000, maxKeys = 100\<rparr>"
        "[(''a'', 0), (''b'', 5), (''a'', 10), (''a'', 59999)]" 0 "''a''"]
  by (simp add: attempts_of_def)

definition hit_step :: "limiter_config \<Rightarrow> string \<times> millis \<Rightarrow> windows \<Rightarrow> windows" where
  "hit_step cfg e ws = snd (hit cfg (fst e) (snd e) ws)"

definition rl_guarded_inv :: "limiter_config \<Rightarrow> windows \<Rightarrow> bool" where
  "rl_guarded_inv cfg ws \<longleftrightarrow> (0 < limit cfg \<longrightarrow> 0 < maxKeys cfg \<longrightarrow> rl_inv cfg ws)"

interpretation limiter: machine "hit_step cfg" "rl_guarded_inv cfg"
  for cfg :: limiter_config
  by unfold_locales (auto simp: rl_guarded_inv_def hit_step_def intro: hit_keeps_inv)

text \<open>
  C28. Whatever sequence of hits arrives, and whatever the clock does, the table
  never holds more than \<open>maxKeys\<close> entries, never two for one key, and no window counts
  past the limit.
\<close>

theorem rate_limiter_invariant:
  assumes "0 < limit cfg" and "0 < maxKeys cfg"
  shows "rl_inv cfg (fold (hit_step cfg) es [])"
  using limiter.run_keeps [of cfg "[]" es] assms by (simp add: rl_guarded_inv_def)

theorem rate_limiter_invariant_witness:
  "rl_inv \<lparr>limit = 1, windowMs = 1000, maxKeys = 2\<rparr>
     (fold (hit_step \<lparr>limit = 1, windowMs = 1000, maxKeys = 2\<rparr>)
        [(''a'', 0), (''b'', 1), (''c'', 2)] [])"
  by (rule rate_limiter_invariant) simp_all

end
