(* ===== verification/Schedule.thy ===== *)
theory Schedule
  imports Prelude
begin

text \<open>
  \<^verbatim>\<open>packages/server/src/schedule/next-due.ts\<close>: when the next heartbeat of a check is
  expected. The evaluation of cron expressions is the package \<open>cron-parser\<close>, a parameter;
  what is relied on is its documented contract, \<open>cron_contract\<close>.
\<close>

datatype schedule_type = Interval | Cron

record schedule =
  scheduleType :: schedule_type
  periodSeconds :: "int option"
  cronExpression :: "string option"
  timezone :: string

text \<open>
  The next occurrence of an expression in a zone after an instant; \<open>None\<close> where the
  package throws. The \<open>InvalidScheduleError\<close> of the code is \<open>None\<close> too.
\<close>

type_synonym cron_engine = "string \<Rightarrow> string \<Rightarrow> millis \<Rightarrow> millis option"

definition computeNextDueAt :: "cron_engine \<Rightarrow> 'a schedule_scheme \<Rightarrow> millis \<Rightarrow> millis option" where
  "computeNextDueAt cron sch start =
     (case scheduleType sch of
        Interval \<Rightarrow>
          (case periodSeconds sch of
             None \<Rightarrow> None
           | Some period \<Rightarrow> if period \<le> 0 then None else Some (start + period * 1000))
      | Cron \<Rightarrow>
          (case cronExpression sch of
             None \<Rightarrow> None
           | Some expression \<Rightarrow>
               if expression = [] then None else cron expression (timezone sch) start))"

definition computeDeadline :: "millis \<Rightarrow> int \<Rightarrow> millis" where
  "computeDeadline nextDueAt graceSeconds = nextDueAt + graceSeconds * 1000"

definition assertScheduleIsUsable :: "cron_engine \<Rightarrow> 'a schedule_scheme \<Rightarrow> millis \<Rightarrow> http_error + unit" where
  "assertScheduleIsUsable cron sch now =
     (if computeNextDueAt cron sch now = None then Inl BadRequest else Inr ())"

section \<open>What cron-parser promises\<close>

text \<open>
  \<open>next()\<close> from \<open>currentDate\<close> is the least occurrence strictly after it. \<open>occ\<close> is
  the set of occurrences of an expression in a zone.
\<close>

definition cron_contract :: "(string \<Rightarrow> string \<Rightarrow> millis set) \<Rightarrow> cron_engine \<Rightarrow> bool" where
  "cron_contract occ cron \<longleftrightarrow>
     (\<forall>e z t u. cron e z t = Some u \<longleftrightarrow>
        u \<in> occ e z \<and> t < u \<and> (\<forall>v \<in> occ e z. t < v \<longrightarrow> u \<le> v))"

lemma cron_contractD:
  assumes "cron_contract occ cron" "cron e z t = Some u"
  shows "t < u" "u \<in> occ e z" "\<And>v. v \<in> occ e z \<Longrightarrow> t < v \<Longrightarrow> u \<le> v"
  using assms by (auto simp: cron_contract_def)

lemma cron_contractI:
  assumes "cron_contract occ cron" "u \<in> occ e z" "t < u" "\<And>v. v \<in> occ e z \<Longrightarrow> t < v \<Longrightarrow> u \<le> v"
  shows "cron e z t = Some u"
  using assms by (auto simp: cron_contract_def)

text \<open>An engine that satisfies the contract: every expression occurs each full minute.\<close>

definition minutely :: cron_engine where
  "minutely e z t = Some ((t div 60000 + 1) * 60000)"

lemma minutely_contract: "cron_contract (\<lambda>e z. range (\<lambda>k. k * 60000)) minutely"
proof -
  have "(minutely e z t = Some u) \<longleftrightarrow>
      u \<in> range (\<lambda>k. k * 60000) \<and> t < u \<and> (\<forall>v \<in> range (\<lambda>k. k * 60000). t < v \<longrightarrow> u \<le> v)"
    (is "?l \<longleftrightarrow> ?r") for e z t and u :: int
  proof
    define q r where "q = t div 60000" and "r = t mod 60000"
    have t: "t = q * 60000 + r" "0 \<le> r" "r < 60000" by (simp_all add: q_def r_def)
    then have "t < (q + 1) * 60000" by (simp add: distrib_right)
    then have nxt: "t < (t div 60000 + 1) * 60000" by (simp only: q_def)
    have least: "(t div 60000 + 1) * 60000 \<le> k * 60000" if "t < k * 60000" for k :: int
    proof -
      have "q < k" using that t by linarith
      then show ?thesis by (simp add: q_def)
    qed
    show ?r if ?l
    proof -
      have "u = (t div 60000 + 1) * 60000" using that by (simp add: minutely_def)
      then show ?thesis using nxt least by blast
    qed
    show ?l if r: ?r
    proof -
      obtain k where u: "u = k * 60000" and "t < u"
        and min: "\<forall>v \<in> range (\<lambda>k. k * 60000). t < v \<longrightarrow> u \<le> v"
        using r by blast
      have "u \<le> (t div 60000 + 1) * 60000" using min nxt by blast
      moreover have "(t div 60000 + 1) * 60000 \<le> u" using least \<open>t < u\<close> u by blast
      ultimately show ?l by (simp add: minutely_def)
    qed
  qed
  then show ?thesis unfolding cron_contract_def by blast
qed

lemma next_due_after:
  assumes "cron_contract occ cron" "computeNextDueAt cron sch t = Some u"
  shows "t < u"
  using assms cron_contractD(1) [OF assms(1)]
  by (auto simp: computeNextDueAt_def split: schedule_type.splits option.splits if_splits)

text \<open>
  The next deadline of a usable schedule lies strictly in the future. An interval
  check's deadline moves with every signal by exactly the time between the signals; a cron
  check's does not move: any signal before the expected occurrence leaves that occurrence
  expected.
\<close>

theorem next_due_relative_or_absolute:
  assumes "cron_contract occ cron" and "computeNextDueAt cron sch t = Some u"
    and "t \<le> t'" and "t' < u"
  shows "t < u \<and>
         computeNextDueAt cron sch t' =
           Some (case scheduleType sch of Interval \<Rightarrow> u + (t' - t) | Cron \<Rightarrow> u)"
proof (cases "scheduleType sch")
  case Interval
  then show ?thesis
    using assms next_due_after [OF assms(1,2)]
    by (auto simp: computeNextDueAt_def split: option.splits if_splits)
next
  case Cron
  then obtain e where e: "cronExpression sch = Some e" "e \<noteq> []" "cron e (timezone sch) t = Some u"
    using assms(2) by (auto simp: computeNextDueAt_def split: option.splits if_splits)
  note d = cron_contractD [OF assms(1) e(3)]
  have "cron e (timezone sch) t' = Some u"
    by (rule cron_contractI [OF assms(1)]) (use d assms in auto)
  then show ?thesis using Cron e d by (simp add: computeNextDueAt_def)
qed

theorem next_due_relative_or_absolute_witness:
  "computeNextDueAt minutely
     \<lparr>scheduleType = Cron, periodSeconds = None, cronExpression = Some ''* * * * *'', timezone = ''UTC''\<rparr>
     50000 = Some 60000"
  using next_due_relative_or_absolute [OF minutely_contract,
      where sch = "\<lparr>scheduleType = Cron, periodSeconds = None, cronExpression = Some ''* * * * *'', timezone = ''UTC''\<rparr>"
        and t = 10000 and u = 60000 and t' = 50000]
  by (simp add: computeNextDueAt_def minutely_def)

end
