(* ===== verification/Store.thy ===== *)
theory Store
  imports Schedule Json
begin

text \<open>
  The tables the monitoring core shares, as \<^verbatim>\<open>packages/server/prisma/schema.prisma\<close> declares
  them: a table is the list of its rows in insertion order. The unique indexes of the
  migrations are the invariant \<open>store_inv\<close>; every component that writes shows it kept.
\<close>

section \<open>Rows\<close>

datatype check_state = NEW | UP | LATE | DOWN | PAUSED

datatype ping_kind = StartPing | SuccessPing | FailPing

datatype check_source = Manual | Api | Auto

datatype alert_kind = DownAlert | UpAlert

datatype channel_type = Email | Webhook | Slack | Teams | Discord

datatype delivery_status = Pending | Sent | Failed

datatype project_role = Owner | Admin | Member

datatype incident_cause = Missed | Reported

record check = schedule +
  c_id :: uuid
  projectId :: uuid
  c_name :: string
  slug :: string
  key :: "string option"
  pingKey :: string
  pingKeyRotatedAt :: "millis option"
  graceSeconds :: int
  state :: check_state
  pausedReason :: "string option"
  lastPingAt :: "millis option"
  lastStartedAt :: "millis option"
  lastDurationMs :: "int option"
  nextDueAt :: "millis option"
  source :: check_source
  environment :: "string option"
  tags :: "string list"
  description :: "string option"
  orphanedAt :: "millis option"
  c_createdAt :: millis
  c_updatedAt :: millis

record ping =
  p_check :: uuid
  receivedAt :: millis
  p_kind :: ping_kind
  exitCode :: "int option"
  durationMs :: "int option"
  body :: "string option"
  sourceIp :: "string option"
  userAgent :: "string option"

record incident =
  i_id :: uuid
  i_check :: uuid
  startedAt :: millis
  resolvedAt :: "millis option"
  notificationsSent :: nat
  cause :: incident_cause

record channel =
  ch_id :: uuid
  ch_project :: uuid
  ch_type :: channel_type
  ch_name :: string
  config :: json
  enabled :: bool
  lastTestedAt :: "millis option"
  ch_createdAt :: millis

record delivery =
  d_id :: uuid
  d_incident :: uuid
  d_channel :: uuid
  d_kind :: alert_kind
  status :: delivery_status
  attempts :: nat
  d_lastError :: "string option"
  nextAttemptAt :: millis
  sentAt :: "millis option"
  d_createdAt :: millis

record project =
  pr_id :: uuid
  pr_name :: string
  pr_slug :: string
  pingRetentionDays :: "nat option"
  pr_createdAt :: millis

record member =
  m_project :: uuid
  m_user :: uuid
  role :: project_role
  m_createdAt :: millis

record user =
  u_id :: uuid
  email :: string
  u_plan :: "string option"
  disabledAt :: "millis option"

record db =
  checks :: "check list"
  pings :: "ping list"
  incidents :: "incident list"
  channels :: "channel list"
  deliveries :: "delivery list"
  projects :: "project list"
  members :: "member list"
  users :: "user list"
  next_id :: uuid

section \<open>The invariant of the unique indexes\<close>

definition is_open :: "incident \<Rightarrow> bool" where
  "is_open i \<longleftrightarrow> resolvedAt i = None"

definition delivery_key :: "delivery \<Rightarrow> uuid \<times> uuid \<times> alert_kind" where
  "delivery_key d = (d_incident d, d_channel d, d_kind d)"

definition checks_ok :: "db \<Rightarrow> bool" where
  "checks_ok s \<longleftrightarrow> distinct (map c_id (checks s)) \<and> distinct (map pingKey (checks s))
     \<and> (\<forall>c \<in> set (checks s). c_id c < next_id s)"

definition incidents_ok :: "db \<Rightarrow> bool" where
  "incidents_ok s \<longleftrightarrow> distinct (map i_id (incidents s))
     \<and> distinct (map i_check (filter is_open (incidents s)))
     \<and> (\<forall>i \<in> set (incidents s). i_id i < next_id s)"

definition deliveries_ok :: "db \<Rightarrow> bool" where
  "deliveries_ok s \<longleftrightarrow> distinct (map d_id (deliveries s))
     \<and> distinct (map delivery_key (deliveries s))
     \<and> (\<forall>d \<in> set (deliveries s). d_id d < next_id s)"

definition store_inv :: "db \<Rightarrow> bool" where
  "store_inv s \<longleftrightarrow> checks_ok s \<and> incidents_ok s \<and> deliveries_ok s"

definition empty_db :: db where
  "empty_db = \<lparr>checks = [], pings = [], incidents = [], channels = [], deliveries = [],
     projects = [], members = [], users = [], next_id = 0\<rparr>"

lemma store_inv_empty [simp]: "store_inv empty_db"
  by (simp add: store_inv_def checks_ok_def incidents_ok_def deliveries_ok_def empty_db_def)

lemmas store_inv_defs = store_inv_def checks_ok_def incidents_ok_def deliveries_ok_def

text \<open>Updating checks in place keeps the indexes when identity and ping key are not touched.\<close>

definition keeps_identity :: "(check \<Rightarrow> check) \<Rightarrow> bool" where
  "keeps_identity f \<longleftrightarrow> (\<forall>c. c_id (f c) = c_id c \<and> pingKey (f c) = pingKey c)"

lemma keeps_identityD: "keeps_identity f \<Longrightarrow> c_id (f c) = c_id c \<and> pingKey (f c) = pingKey c"
  by (simp add: keeps_identity_def)

lemma checks_ok_update:
  assumes "checks_ok s" "keeps_identity f"
  shows "checks_ok (s\<lparr>checks := update_where p f (checks s)\<rparr>)"
  using assms
  by (auto simp: checks_ok_def keeps_identity_def map_update_where elim!: update_where_memE)

lemma store_inv_update_checks:
  "store_inv s \<Longrightarrow> keeps_identity f \<Longrightarrow> store_inv (s\<lparr>checks := update_where p f (checks s)\<rparr>)"
  using checks_ok_update [of s f p]
  by (auto simp: store_inv_def incidents_ok_def deliveries_ok_def)

lemma store_inv_pings [simp]: "store_inv (s\<lparr>pings := ps\<rparr>) = store_inv s"
  by (simp add: store_inv_defs)

lemma store_inv_channels [simp]: "store_inv (s\<lparr>channels := cs\<rparr>) = store_inv s"
  by (simp add: store_inv_defs)

definition check_by_id :: "uuid \<Rightarrow> db \<Rightarrow> check option" where
  "check_by_id i s = find (\<lambda>c. c_id c = i) (checks s)"

definition check_by_ping_key :: "string \<Rightarrow> db \<Rightarrow> check option" where
  "check_by_ping_key k s = find (\<lambda>c. pingKey c = k) (checks s)"

lemma check_by_id_iff:
  assumes "checks_ok s"
  shows "check_by_id i s = Some c \<longleftrightarrow> c \<in> set (checks s) \<and> c_id c = i"
  using assms find_unique [of c_id "checks s" c] find_SomeD
  by (fastforce simp: check_by_id_def checks_ok_def)

lemma check_by_ping_key_iff:
  assumes "checks_ok s"
  shows "check_by_ping_key k s = Some c \<longleftrightarrow> c \<in> set (checks s) \<and> pingKey c = k"
  using assms find_unique [of pingKey "checks s" c] find_SomeD
  by (fastforce simp: check_by_ping_key_def checks_ok_def)

lemma same_check: "checks_ok s \<Longrightarrow> c \<in> set (checks s) \<Longrightarrow> d \<in> set (checks s) \<Longrightarrow> c_id c = c_id d \<Longrightarrow> c = d"
  by (auto simp: checks_ok_def intro: distinct_map_memD)

definition open_incident :: "db \<Rightarrow> uuid \<Rightarrow> bool" where
  "open_incident s i \<longleftrightarrow> (\<exists>x \<in> set (incidents s). i_check x = i \<and> is_open x)"

end
