(* ===== verification/MetadataCache.thy ===== *)
theory MetadataCache
  imports Schedule
begin

text \<open>
  \<^verbatim>\<open>packages/server/src/ingest/check-metadata.cache.ts\<close>: what ingestion knows of a check
  without asking the database. A miss loads asynchronously, so the query's answer and its
  storing are events of their own, and the notifications of the database interleave with
  them.
\<close>

record check_metadata = schedule +
  md_id :: uuid

record cache_entry =
  metadata :: "check_metadata option"
  expiresAt :: millis

text \<open>
  A load in flight: \<open>None\<close> while the query is on its way, then what the query read.
\<close>

record metadata_cache =
  entries :: "(string, cache_entry) js_map"
  inFlight :: "(string, check_metadata option option) js_map"
  cache_hits :: nat
  cache_misses :: nat

definition positiveTtlMs :: int where "positiveTtlMs = 300000"

definition negativeTtlMs :: int where "negativeTtlMs = 5000"

definition maxEntries :: nat where "maxEntries = 100000"

definition empty_cache :: metadata_cache where
  "empty_cache = \<lparr>entries = [], inFlight = [], cache_hits = 0, cache_misses = 0\<rparr>"

definition ttl :: "check_metadata option \<Rightarrow> int" where
  "ttl m = (if m = None then negativeTtlMs else positiveTtlMs)"

definition cache_evict :: "nat \<Rightarrow> millis \<Rightarrow> (string, cache_entry) js_map \<Rightarrow> (string, cache_entry) js_map" where
  "cache_evict cap now es =
     (let live = filter (\<lambda>e. \<not> expiresAt (snd e) \<le> now) es
      in if length live < cap then live else drop (max 1 ((cap + 9) div 10)) live)"

definition store :: "string \<Rightarrow> check_metadata option \<Rightarrow> millis \<Rightarrow> metadata_cache \<Rightarrow> metadata_cache" where
  "store key m now c =
     c\<lparr>entries :=
         js_set key \<lparr>metadata = m, expiresAt = now + ttl m\<rparr>
           (if maxEntries \<le> length (entries c) then cache_evict maxEntries now (entries c)
            else entries c)\<rparr>"

text \<open>
  \<open>get\<close>: the cached answer, a load that is already in flight, or a new load.
\<close>

datatype cache_answer = Served "check_metadata option" | Joined | Loading

definition cache_get :: "string \<Rightarrow> millis \<Rightarrow> metadata_cache \<Rightarrow> cache_answer \<times> metadata_cache" where
  "cache_get key now c =
     (let miss = c\<lparr>cache_misses := Suc (cache_misses c)\<rparr>;
          missed = (if map_of (inFlight c) key \<noteq> None then (Joined, miss)
                    else (Loading, miss\<lparr>inFlight := js_set key None (inFlight c)\<rparr>))
      in case map_of (entries c) key of
           None \<Rightarrow> missed
         | Some e \<Rightarrow>
             if now < expiresAt e
             then (Served (metadata e), c\<lparr>cache_hits := Suc (cache_hits c)\<rparr>)
             else missed)"

definition peek :: "string \<Rightarrow> millis \<Rightarrow> metadata_cache \<Rightarrow> check_metadata option" where
  "peek key now c =
     (case map_of (entries c) key of
        None \<Rightarrow> None
      | Some e \<Rightarrow> if now < expiresAt e then metadata e else None)"

definition invalidate :: "string \<Rightarrow> metadata_cache \<Rightarrow> metadata_cache" where
  "invalidate key c = c\<lparr>entries := js_delete key (entries c)\<rparr>"

definition stats :: "metadata_cache \<Rightarrow> nat \<times> nat \<times> nat" where
  "stats c = (length (entries c), cache_hits c, cache_misses c)"

text \<open>\<open>load\<close>: the database answers, then the promise resolves and the answer is stored.\<close>

definition db_answers :: "string \<Rightarrow> check_metadata option \<Rightarrow> metadata_cache \<Rightarrow> metadata_cache" where
  "db_answers key row c =
     (if map_of (inFlight c) key = Some None
      then c\<lparr>inFlight := js_set key (Some row) (inFlight c)\<rparr> else c)"

definition load_resolves :: "string \<Rightarrow> millis \<Rightarrow> metadata_cache \<Rightarrow> metadata_cache" where
  "load_resolves key now c =
     (case map_of (inFlight c) key of
        Some (Some row) \<Rightarrow> (store key row now c)\<lparr>inFlight := js_delete key (inFlight c)\<rparr>
      | _ \<Rightarrow> c)"

definition load_fails :: "string \<Rightarrow> metadata_cache \<Rightarrow> metadata_cache" where
  "load_fails key c = c\<lparr>inFlight := js_delete key (inFlight c)\<rparr>"

datatype cache_event =
    Get string millis
  | DbAnswers string "check_metadata option"
  | LoadResolves string millis
  | LoadFails string
  | Changed string

fun cache_step :: "cache_event \<Rightarrow> metadata_cache \<Rightarrow> metadata_cache" where
  "cache_step (Get key now) c = snd (cache_get key now c)"
| "cache_step (DbAnswers key row) c = db_answers key row c"
| "cache_step (LoadResolves key now) c = load_resolves key now c"
| "cache_step (LoadFails key) c = load_fails key c"
| "cache_step (Changed key) c = invalidate key c"

section \<open>Bounds\<close>

interpretation mdc: bounded_map cap "cache_evict cap now"
  for cap :: nat and now :: millis
proof
  fix m :: "(string, cache_entry) js_map"
  show "set (cache_evict cap now m) \<subseteq> set m"
    by (auto simp: cache_evict_def Let_def dest: in_set_dropD)
  show "distinct (map fst (cache_evict cap now m))" if "distinct (map fst m)"
    using that by (auto simp: cache_evict_def Let_def drop_map [symmetric] distinct_map_filter)
  show "length (cache_evict cap now m) < cap" if "0 < cap" "length m \<le> cap"
  proof -
    have "length (filter (\<lambda>e. \<not> expiresAt (snd e) \<le> now) m) \<le> cap"
      using that(2) length_filter_le le_trans by blast
    with that(1) show ?thesis
      by (auto simp: cache_evict_def Let_def simp del: length_filter_le)
  qed
qed

definition cache_bounded :: "metadata_cache \<Rightarrow> bool" where
  "cache_bounded c \<longleftrightarrow> bounded maxEntries (entries c) \<and> distinct (map fst (inFlight c))"

lemma cache_step_bounded: "cache_bounded c \<Longrightarrow> cache_bounded (cache_step e c)"
proof (cases e)
  case (LoadResolves key now)
  then show "cache_bounded c \<Longrightarrow> ?thesis"
    using mdc.bounded_store [of maxEntries "entries c"]
    by (auto simp: cache_bounded_def load_resolves_def store_def maxEntries_def
        split: option.splits)
qed (auto simp: cache_bounded_def cache_get_def db_answers_def load_fails_def invalidate_def
      Let_def bounded_delete split: option.splits)

interpretation cache: machine cache_step cache_bounded
  by unfold_locales (rule cache_step_bounded)

text \<open>
  Whatever is asked, answered, lost or invalidated, in any order, the cache never
  holds more than 100,000 entries nor two for one key, and at most one query is in flight
  for a key.
\<close>

theorem metadata_cache_bounded:
  "length (entries (fold cache_step es empty_cache)) \<le> 100000
   \<and> distinct (map fst (entries (fold cache_step es empty_cache)))
   \<and> distinct (map fst (inFlight (fold cache_step es empty_cache)))"
proof -
  have "cache_bounded empty_cache" by (simp add: cache_bounded_def empty_cache_def)
  then have "cache_bounded (fold cache_step es empty_cache)" by (rule cache.run_keeps)
  then show ?thesis by (simp add: cache_bounded_def bounded_def maxEntries_def)
qed

section \<open>Freshness\<close>

text \<open>
  After a point where nothing is known of a key and no load of it is in flight, everything
  the cache says of it was read from the database since, and was stored less than its time
  to live ago.
\<close>

definition fresh_since :: "cache_event list \<Rightarrow> string \<Rightarrow> metadata_cache \<Rightarrow> bool" where
  "fresh_since es key c \<longleftrightarrow>
     (\<forall>row. map_of (inFlight c) key = Some (Some row) \<longrightarrow> DbAnswers key row \<in> set es) \<and>
     (\<forall>e. map_of (entries c) key = Some e \<longrightarrow>
        DbAnswers key (metadata e) \<in> set es \<and>
        (\<exists>t. LoadResolves key t \<in> set es \<and> expiresAt e = t + ttl (metadata e)))"

lemma fresh_since_mono: "fresh_since es key c \<Longrightarrow> set es \<subseteq> set es' \<Longrightarrow> fresh_since es' key c"
  unfolding fresh_since_def by blast

lemma map_of_evict:
  assumes "distinct (map fst m)" "map_of (cache_evict cap now m) key = Some e"
  shows "map_of m key = Some e"
proof -
  have "(key, e) \<in> set m"
    using map_of_SomeD [OF assms(2)] mdc.evict_subset [of cap now m] by blast
  with assms(1) show ?thesis by simp
qed

lemma fresh_since_step:
  assumes b: "cache_bounded c" and f: "fresh_since es key c"
  shows "fresh_since (es @ [ev]) key (cache_step ev c)"
proof -
  have f': "fresh_since (es @ [ev]) key c" by (rule fresh_since_mono [OF f]) auto
  show ?thesis
  proof (cases ev)
    case (LoadResolves k now)
    show ?thesis
    proof (cases "map_of (inFlight c) k")
      case (Some r)
      show ?thesis
      proof (cases r)
        case (Some row)
        have ev: "map_of (cache_evict maxEntries now (entries c)) key = Some e \<Longrightarrow>
            map_of (entries c) key = Some e" for e
          using b map_of_evict by (auto simp: cache_bounded_def bounded_def)
        show ?thesis
          using f' f \<open>map_of (inFlight c) k = Some r\<close> Some LoadResolves ev
          by (auto simp: fresh_since_def load_resolves_def store_def split: if_splits)
      qed (use f' LoadResolves \<open>map_of (inFlight c) k = Some r\<close> in \<open>simp add: load_resolves_def\<close>)
    qed (use f' LoadResolves in \<open>simp add: load_resolves_def\<close>)
  qed (use f' in \<open>auto simp: fresh_since_def cache_get_def db_answers_def load_fails_def
      invalidate_def Let_def split: option.splits if_splits\<close>)
qed

lemma fresh_since_run:
  "cache_bounded c \<Longrightarrow> fresh_since [] key c \<Longrightarrow> fresh_since es key (fold cache_step es c)"
  by (induction es rule: rev_induct) (auto intro: fresh_since_step cache.run_keeps)

lemma fresh_since_start:
  "map_of (entries c) key = None \<Longrightarrow> map_of (inFlight c) key = None \<Longrightarrow> fresh_since [] key c"
  by (simp add: fresh_since_def)

lemma served_entry:
  "fst (cache_get key now c) = Served m \<Longrightarrow>
     \<exists>e. map_of (entries c) key = Some e \<and> metadata e = m \<and> now < expiresAt e"
  by (auto simp: cache_get_def Let_def split: option.splits if_splits)

text \<open>
  Once a key has been invalidated with no load of it in flight, the cache never
  serves the old answer again: what it serves later was read from the database after the
  invalidation and stored less than 5 minutes (5 seconds for an unknown key) before.
\<close>

theorem invalidation_is_effective:
  assumes "map_of (inFlight (fold cache_step es1 empty_cache)) key = None"
    and "fst (cache_get key now (fold cache_step (es1 @ Changed key # es2) empty_cache)) = Served m"
  shows "DbAnswers key m \<in> set es2 \<and> (\<exists>t. LoadResolves key t \<in> set es2 \<and> now < t + ttl m)"
proof -
  let ?c = "cache_step (Changed key) (fold cache_step es1 empty_cache)"
  have "cache_bounded empty_cache" by (simp add: cache_bounded_def empty_cache_def)
  then have b: "cache_bounded ?c" by (intro cache_step_bounded cache.run_keeps)
  have "fresh_since [] key ?c"
    using assms(1) by (intro fresh_since_start) (simp_all add: invalidate_def)
  then have fr: "fresh_since es2 key (fold cache_step es2 ?c)" by (rule fresh_since_run [OF b])
  obtain e where e: "map_of (entries (fold cache_step es2 ?c)) key = Some e" "metadata e = m"
      "now < expiresAt e"
    using served_entry [OF assms(2)] by auto
  then obtain t where "LoadResolves key t \<in> set es2" "expiresAt e = t + ttl m"
      "DbAnswers key m \<in> set es2"
    using fr unfolding fresh_since_def by blast
  with e show ?thesis by auto
qed

definition sample_metadata :: "uuid \<Rightarrow> check_metadata" where
  "sample_metadata i = \<lparr>scheduleType = Interval, periodSeconds = Some 60, cronExpression = None,
     timezone = ''UTC'', md_id = i\<rparr>"

theorem invalidation_is_effective_witness:
  "\<exists>t. LoadResolves ''k'' t \<in> {LoadResolves ''k'' 100} \<and> 200 < t + ttl (Some (sample_metadata 1))"
  using invalidation_is_effective
    [of "[]" "''k''" 200 "[Get ''k'' 90, DbAnswers ''k'' (Some (sample_metadata 1)), LoadResolves ''k'' 100]"
        "Some (sample_metadata 1)"]
  by (simp add: empty_cache_def cache_get_def invalidate_def db_answers_def load_resolves_def
      store_def js_set_def js_delete_def ttl_def maxEntries_def positiveTtlMs_def)

text \<open>
  The condition matters: a load whose query was answered before the change but
  resolves after the notification stores the old row, and the cache then serves it for up
  to five minutes, although the edit was announced.
\<close>

theorem stale_load_survives_invalidation:
  assumes "t \<le> now" and "now < t + positiveTtlMs"
  shows "fst (cache_get key now
           (fold cache_step
              [Get key t, DbAnswers key (Some old), Changed key, LoadResolves key t] empty_cache))
         = Served (Some old)"
  using assms
  by (simp add: empty_cache_def cache_get_def invalidate_def db_answers_def load_resolves_def
      store_def js_set_def js_delete_def ttl_def maxEntries_def)

theorem stale_load_survives_invalidation_witness:
  "fst (cache_get ''k'' 299999
     (fold cache_step
        [Get ''k'' 0, DbAnswers ''k'' (Some (sample_metadata 1)), Changed ''k'', LoadResolves ''k'' 0]
        empty_cache)) = Served (Some (sample_metadata 1))"
  by (rule stale_load_survives_invalidation) (simp_all add: positiveTtlMs_def)

end
