(* ===== verification/Ingest.thy ===== *)
theory Ingest
  imports Store MetadataCache RateLimiter JsText
begin

text \<open>
  The heartbeat path: \<^verbatim>\<open>packages/server/src/ingest/ingest.service.ts\<close> (the statement, its
  arguments, the limiters and the cache in front of it) and \<^verbatim>\<open>ingest/ingest.plugin.ts\<close>
  (the routes and the answers).
\<close>

section \<open>The statement\<close>

definition INT32_MAX :: int where "INT32_MAX = 2147483647"

definition MAX_USER_AGENT_LENGTH :: nat where "MAX_USER_AGENT_LENGTH = 300"

text \<open>The duration of this run: reported, or measured from the last start, never inherited.\<close>

definition measured :: "check \<Rightarrow> millis \<Rightarrow> ping_kind \<Rightarrow> int option \<Rightarrow> int option" where
  "measured c received kind dur =
     (if kind = StartPing then None
      else case dur of
        Some d \<Rightarrow> Some d
      | None \<Rightarrow> (case lastStartedAt c of
          None \<Rightarrow> None
        | Some t \<Rightarrow> Some (min INT32_MAX (max 0 (received - t)))))"

definition upd :: "millis \<Rightarrow> ping_kind \<Rightarrow> int option \<Rightarrow> millis option \<Rightarrow> check \<Rightarrow> check" where
  "upd received kind dur due c =
     c\<lparr>lastPingAt := (if kind = StartPing then lastPingAt c else Some received),
       lastStartedAt := (if kind = StartPing then Some received else None),
       nextDueAt := (if kind = StartPing then nextDueAt c else due),
       state := (if kind = StartPing then state c else if kind = FailPing then DOWN else UP),
       lastDurationMs := (case measured c received kind dur of
          None \<Rightarrow> lastDurationMs c | Some d \<Rightarrow> Some d)\<rparr>"

record ping_values =
  v_key :: string
  v_received :: millis
  v_kind :: ping_kind
  v_exit :: "int option"
  v_duration :: "int option"
  v_due :: "millis option"
  v_body :: "string option"
  v_ip :: "string option"
  v_agent :: "string option"

definition new_ping :: "ping_values \<Rightarrow> check \<Rightarrow> ping" where
  "new_ping v c =
     \<lparr>p_check = c_id c, receivedAt = v_received v, p_kind = v_kind v, exitCode = v_exit v,
      durationMs = measured c (v_received v) (v_kind v) (v_duration v),
      body = v_body v, sourceIp = v_ip v, userAgent = v_agent v\<rparr>"

text \<open>
  The result is the number of rows inserted, or the error PostgreSQL raises: for an
  address \<open>inet\<close> does not read (\<open>inet_ok\<close>), and for a body over the constraint
  \<open>ping_body_bounded\<close>.
\<close>

definition ping_body_bounded :: nat where "ping_body_bounded = 10000"

definition INGEST_SQL :: "(string \<Rightarrow> bool) \<Rightarrow> ping_values \<Rightarrow> db \<Rightarrow> unit + nat \<times> db" where
  "INGEST_SQL inet_ok v s =
     (if \<exists>ip. v_ip v = Some ip \<and> \<not> inet_ok ip then Inl ()
      else case find (\<lambda>c. pingKey c = v_key v \<and> state c \<noteq> PAUSED) (checks s) of
        None \<Rightarrow> Inr (0, s)
      | Some c \<Rightarrow>
          if \<exists>b. v_body v = Some b \<and> ping_body_bounded < length b then Inl ()
          else Inr (1, s\<lparr>checks := update_where (\<lambda>x. c_id x = c_id c)
                            (upd (v_received v) (v_kind v) (v_duration v) (v_due v)) (checks s),
                         pings := pings s @ [new_ping v c]\<rparr>))"

section \<open>The arguments\<close>

definition clampInt :: "int \<Rightarrow> int option \<Rightarrow> int option" where
  "clampInt lo x = map_option (\<lambda>n. min INT32_MAX (max lo n)) x"

definition truncate_to :: "nat \<Rightarrow> string option \<Rightarrow> string option" where
  "truncate_to n x =
     (case x of None \<Rightarrow> None
      | Some s \<Rightarrow> if s = [] then None else Some (if n < length s then take n s else s))"

definition ip_char :: "char \<Rightarrow> bool" where
  "ip_char c \<longleftrightarrow> is_hex c \<or> c = CHR '':'' \<or> c = CHR ''.''"

definition normaliseIp :: "string option \<Rightarrow> string option" where
  "normaliseIp ip =
     (case ip of None \<Rightarrow> None
      | Some s \<Rightarrow>
          (let withoutZone = hd (split_on CHR ''%'' s)
           in if withoutZone = [] \<or> 45 < length withoutZone then None
              else if list_all ip_char withoutZone then Some withoutZone else None))"

text \<open>\<open>utf8\<close> is \<open>Buffer.toString('utf8')\<close>; a body is the list of its bytes.\<close>

definition truncateBody :: "(nat list \<Rightarrow> string) \<Rightarrow> nat \<Rightarrow> nat list option \<Rightarrow> string option" where
  "truncateBody utf8 maxBodyBytes b =
     (case b of None \<Rightarrow> None
      | Some bytes \<Rightarrow>
          if bytes = [] \<or> maxBodyBytes = 0 then None
          else let slice = (if maxBodyBytes < length bytes then take maxBodyBytes bytes else bytes);
                   txt = filter (\<lambda>c. code c \<noteq> 0) (utf8 slice)
               in if txt = [] then None else Some txt)"

text \<open>\<open>/^[0-9a-f]{8}-[0-9a-f]{4}-[1-5][0-9a-f]{3}-[89ab][0-9a-f]{3}-[0-9a-f]{12}$/i\<close>\<close>

definition UUID_PATTERN :: "string \<Rightarrow> bool" where
  "UUID_PATTERN s \<longleftrightarrow> length s = 36
     \<and> list_all (\<lambda>i. if i \<in> {8, 13, 18, 23} then s ! i = CHR ''-'' else is_hex (s ! i)) [0..<36]
     \<and> s ! 14 \<in> set ''12345'' \<and> s ! 19 \<in> set ''89abAB''"

section \<open>The service\<close>

record ingest_command =
  cmd_pingKey :: string
  cmd_kind :: ping_kind
  cmd_exitCode :: "int option"
  cmd_durationMs :: "int option"
  cmd_body :: "nat list option"
  cmd_ip :: "string option"
  cmd_userAgent :: "string option"

datatype ingest_outcome = Recorded | Paused | Unknown | RateLimited | Invalid

text \<open>What the service is given: the clock, the packages, the database's health, its settings.\<close>

record ingest_env =
  env_now :: millis
  env_cron :: cron_engine
  env_utf8 :: "nat list \<Rightarrow> string"
  env_inet_ok :: "string \<Rightarrow> bool"
  env_db_up :: bool
  ping_limit :: nat
  body_max :: nat

record ingest_state =
  perKeyLimiter :: windows
  unknownKeyLimiter :: windows
  mdcache :: metadata_cache
  store_db :: db

definition per_key_config :: "ingest_env \<Rightarrow> limiter_config" where
  "per_key_config env = \<lparr>limit = ping_limit env, windowMs = 60000, maxKeys = 100000\<rparr>"

definition unknown_key_config :: limiter_config where
  "unknown_key_config = \<lparr>limit = 60, windowMs = 60000, maxKeys = 20000\<rparr>"

definition to_metadata :: "check \<Rightarrow> check_metadata" where
  "to_metadata c =
     \<lparr>scheduleType = scheduleType c, periodSeconds = periodSeconds c,
      cronExpression = cronExpression c, timezone = timezone c, md_id = c_id c\<rparr>"

definition LOOKUP_SQL :: "string \<Rightarrow> db \<Rightarrow> check_metadata option" where
  "LOOKUP_SQL k s = map_option to_metadata (check_by_ping_key k s)"

text \<open>
  \<open>await this.cache.get(key)\<close>: a hit, or the load run to its end. A load already in
  flight is joined and gives its answer. \<open>Inl\<close> when the query throws.
\<close>

definition await_get :: "ingest_env \<Rightarrow> string \<Rightarrow> db \<Rightarrow> metadata_cache \<Rightarrow>
    (unit + check_metadata option) \<times> metadata_cache" where
  "await_get env k s c =
     (case cache_get k (env_now env) c of
        (Served m, c') \<Rightarrow> (Inr m, c')
      | (_, c') \<Rightarrow>
          if \<not> env_db_up env then (Inl (), load_fails k c')
          else let c'' = db_answers k (LOOKUP_SQL k s) c'
               in (Inr (case map_of (inFlight c'') k of Some (Some row) \<Rightarrow> row | _ \<Rightarrow> None),
                   load_resolves k (env_now env) c''))"

text \<open>Once the check is known: its next deadline and the write.\<close>

definition write_values :: "ingest_env \<Rightarrow> ingest_command \<Rightarrow> string \<Rightarrow> check_metadata \<Rightarrow> ping_values" where
  "write_values env cmd k m =
     \<lparr>v_key = k, v_received = env_now env, v_kind = cmd_kind cmd,
      v_exit = clampInt (- INT32_MAX) (cmd_exitCode cmd),
      v_duration = clampInt 0 (cmd_durationMs cmd),
      v_due = (if cmd_kind cmd = StartPing then None else computeNextDueAt (env_cron env) m (env_now env)),
      v_body = truncateBody (env_utf8 env) (body_max env) (cmd_body cmd),
      v_ip = normaliseIp (cmd_ip cmd),
      v_agent = truncate_to MAX_USER_AGENT_LENGTH (cmd_userAgent cmd)\<rparr>"

definition write_ping :: "ingest_env \<Rightarrow> ingest_command \<Rightarrow> string \<Rightarrow> check_metadata \<Rightarrow> ingest_state \<Rightarrow>
    (unit + ingest_outcome) \<times> ingest_state" where
  "write_ping env cmd k m st =
     (if \<not> env_db_up env then (Inl (), st)
      else case INGEST_SQL (env_inet_ok env) (write_values env cmd k m) (store_db st) of
        Inl _ \<Rightarrow> (Inl (), st)
      | Inr (rowCount, s) \<Rightarrow>
          (Inr (if rowCount = 0 then Paused else Recorded), st\<lparr>store_db := s\<rparr>))"

definition ingest :: "ingest_env \<Rightarrow> ingest_command \<Rightarrow> ingest_state \<Rightarrow>
    (unit + ingest_outcome) \<times> ingest_state" where
  "ingest env cmd st =
     (if \<not> UUID_PATTERN (cmd_pingKey cmd) then (Inr Invalid, st)
      else
        let k = to_lower (cmd_pingKey cmd);
            (retry, pk) = hit (per_key_config env) k (env_now env) (perKeyLimiter st);
            st1 = st\<lparr>perKeyLimiter := pk\<rparr>
        in if 0 < retry then (Inr RateLimited, st1)
           else
             let src = (case cmd_ip cmd of None \<Rightarrow> ''unknown'' | Some ip \<Rightarrow> ip)
             in case peek k (env_now env) (mdcache st1) of
                  Some m \<Rightarrow> write_ping env cmd k m st1
                | None \<Rightarrow>
                    if exceeded unknown_key_config src (env_now env) (unknownKeyLimiter st1)
                    then (Inr RateLimited, st1)
                    else (case await_get env k (store_db st1) (mdcache st1) of
                        (Inl _, c) \<Rightarrow> (Inl (), st1\<lparr>mdcache := c\<rparr>)
                      | (Inr None, c) \<Rightarrow>
                          (Inr Unknown,
                           st1\<lparr>mdcache := c,
                               unknownKeyLimiter :=
                                 snd (hit unknown_key_config src (env_now env) (unknownKeyLimiter st1))\<rparr>)
                      | (Inr (Some m), c) \<Rightarrow> write_ping env cmd k m (st1\<lparr>mdcache := c\<rparr>)))"

section \<open>The routes\<close>

definition MAX_EXIT_CODE :: nat where "MAX_EXIT_CODE = 255"

definition parseExitCode :: "string option \<Rightarrow> int option" where
  "parseExitCode raw =
     (case raw of None \<Rightarrow> None
      | Some s \<Rightarrow>
          if \<not> digits 1 3 s then None
          else if number_of s \<le> MAX_EXIT_CODE then Some (int (number_of s)) else None)"

definition parseDurationMs :: "string option \<Rightarrow> int option" where
  "parseDurationMs raw =
     (case raw of None \<Rightarrow> None
      | Some s \<Rightarrow> if \<not> digits 1 10 s then None else Some (int (number_of s)))"

text \<open>
  The path below \<open>/p\<close>, split at its slashes: the key, the kind the route resolves to
  (\<open>None\<close>: 400) and the exit code. Any other path is no route of this plugin.
\<close>

record ping_route =
  r_key :: string
  r_kind :: "ping_kind option"
  r_exit :: "string option"

fun route :: "string list \<Rightarrow> ping_route option" where
  "route [k] = Some \<lparr>r_key = k, r_kind = Some SuccessPing, r_exit = None\<rparr>"
| "route [k, seg] =
     (if seg = ''start'' then Some \<lparr>r_key = k, r_kind = Some StartPing, r_exit = None\<rparr>
      else if seg = ''fail'' then Some \<lparr>r_key = k, r_kind = Some FailPing, r_exit = None\<rparr>
      else Some \<lparr>r_key = k,
             r_kind = (case parseExitCode (Some seg) of
                None \<Rightarrow> None | Some n \<Rightarrow> Some (if n = 0 then SuccessPing else FailPing)),
             r_exit = Some seg\<rparr>)"
| "route _ = None"

record ping_request =
  req_path :: "string list"
  req_duration_ms :: "string option"
  req_body :: "nat list option"
  req_ip :: "string option"
  req_agent :: "string option"

record ping_reply =
  http_status :: nat
  reply_text :: string
  retry_after :: "nat option"

fun respond :: "unit + ingest_outcome \<Rightarrow> ping_reply" where
  "respond (Inl _) = \<lparr>http_status = 503, reply_text = ''UNAVAILABLE'', retry_after = None\<rparr>"
| "respond (Inr Recorded) = \<lparr>http_status = 200, reply_text = ''OK'', retry_after = None\<rparr>"
| "respond (Inr Paused) = \<lparr>http_status = 200, reply_text = ''PAUSED'', retry_after = None\<rparr>"
| "respond (Inr Unknown) = \<lparr>http_status = 404, reply_text = ''NOT FOUND'', retry_after = None\<rparr>"
| "respond (Inr RateLimited) =
     \<lparr>http_status = 429, reply_text = ''RATE LIMITED'', retry_after = Some 60\<rparr>"
| "respond (Inr Invalid) = \<lparr>http_status = 400, reply_text = ''BAD REQUEST'', retry_after = None\<rparr>"

definition handle :: "ingest_env \<Rightarrow> ping_request \<Rightarrow> ingest_state \<Rightarrow> ping_reply option \<times> ingest_state" where
  "handle env req st =
     (case route (req_path req) of
        None \<Rightarrow> (None, st)
      | Some r \<Rightarrow>
          (case r_kind r of
             None \<Rightarrow> (Some (respond (Inr Invalid)), st)
           | Some kind \<Rightarrow>
               (let (res, st') = ingest env
                      \<lparr>cmd_pingKey = r_key r, cmd_kind = kind, cmd_exitCode = parseExitCode (r_exit r),
                       cmd_durationMs = parseDurationMs (req_duration_ms req), cmd_body = req_body req,
                       cmd_ip = req_ip req, cmd_userAgent = req_agent req\<rparr> st
                in (Some (respond res), st'))))"

section \<open>The statement's effect\<close>

lemma upd_simps [simp]:
  "c_id (upd t k d due c) = c_id c" "pingKey (upd t k d due c) = pingKey c"
  "state (upd t k d due c) = (if k = StartPing then state c else if k = FailPing then DOWN else UP)"
  "lastStartedAt (upd t k d due c) = (if k = StartPing then Some t else None)"
  "lastPingAt (upd t k d due c) = (if k = StartPing then lastPingAt c else Some t)"
  "nextDueAt (upd t k d due c) = (if k = StartPing then nextDueAt c else due)"
  by (simp_all add: upd_def)

lemma upd_identity: "keeps_identity (upd t k d due)"
  by (simp add: keeps_identity_def)

lemma find_active:
  assumes "checks_ok s"
  shows "find (\<lambda>c. pingKey c = k \<and> state c \<noteq> PAUSED) (checks s) =
     (case check_by_ping_key k s of None \<Rightarrow> None | Some c \<Rightarrow> if state c = PAUSED then None else Some c)"
proof (cases "check_by_ping_key k s")
  case None
  then have "\<forall>c \<in> set (checks s). pingKey c \<noteq> k"
    by (auto simp: check_by_ping_key_def find_None_iff)
  with None show ?thesis by (auto simp: find_None_iff)
next
  case (Some c)
  then have c: "c \<in> set (checks s)" "pingKey c = k"
    using check_by_ping_key_iff [OF assms] by auto
  have uniq: "d = c" if "d \<in> set (checks s)" "pingKey d = k" for d
    using assms that c by (auto simp: checks_ok_def intro: distinct_map_memD)
  show ?thesis
  proof (cases "state c = PAUSED")
    case True
    then show ?thesis using Some uniq by (auto simp: find_None_iff)
  next
    case False
    then have "find (\<lambda>c. pingKey c = k \<and> state c \<noteq> PAUSED) (checks s) \<noteq> None"
      using c by (auto simp: find_None_iff)
    then obtain d where d: "find (\<lambda>c. pingKey c = k \<and> state c \<noteq> PAUSED) (checks s) = Some d" by auto
    from find_SomeD [OF this] uniq have "d = c" by auto
    with d Some False show ?thesis by simp
  qed
qed

lemma INGEST_SQL_cases:
  assumes "INGEST_SQL inet v s = Inr (n, s')"
  obtains (unmatched) "n = 0" "s' = s" "find (\<lambda>c. pingKey c = v_key v \<and> state c \<noteq> PAUSED) (checks s) = None"
    | (row) c where "n = 1" "c \<in> set (checks s)" "pingKey c = v_key v" "state c \<noteq> PAUSED"
        "s' = s\<lparr>checks := update_where (\<lambda>x. c_id x = c_id c)
                  (upd (v_received v) (v_kind v) (v_duration v) (v_due v)) (checks s),
               pings := pings s @ [new_ping v c]\<rparr>"
proof (cases "find (\<lambda>c. pingKey c = v_key v \<and> state c \<noteq> PAUSED) (checks s)")
  case None
  then have "n = 0 \<and> s' = s"
    using assms by (auto simp: INGEST_SQL_def split: if_splits)
  with None show thesis by (simp add: unmatched)
next
  case (Some c)
  have "n = 1 \<and> s' = s\<lparr>checks := update_where (\<lambda>x. c_id x = c_id c)
                  (upd (v_received v) (v_kind v) (v_duration v) (v_due v)) (checks s),
               pings := pings s @ [new_ping v c]\<rparr>"
    using assms Some by (auto simp: INGEST_SQL_def split: if_splits)
  with find_SomeD [OF Some] show thesis by (simp add: row [of c])
qed

text \<open>Every request leaves the database as it was, or as one execution of the statement leaves it.\<close>

definition written :: "ingest_env \<Rightarrow> db \<Rightarrow> db \<Rightarrow> bool" where
  "written env s s' \<longleftrightarrow>
     s' = s \<or> (\<exists>cmd k m n. INGEST_SQL (env_inet_ok env) (write_values env cmd k m) s = Inr (n, s'))"

lemma written_refl [simp]: "written env s s"
  by (simp add: written_def)

lemma write_ping_written:
  "store_db st = s \<Longrightarrow> written env s (store_db (snd (write_ping env cmd k m st)))"
  unfolding written_def write_ping_def by (auto split: sum.splits)

lemma ingest_written: "written env (store_db st) (store_db (snd (ingest env cmd st)))"
  unfolding ingest_def Let_def
  by (auto split: prod.splits option.splits sum.splits intro!: write_ping_written)

lemma handle_written: "written env (store_db st) (store_db (snd (handle env req st)))"
proof -
  have "written env (store_db st) (store_db st')" if "ingest env cmd st = (r, st')" for cmd r st'
    using ingest_written [of env st cmd] that by simp
  then show ?thesis
    by (auto simp: handle_def Let_def split: option.splits prod.splits)
qed

lemma written_cases:
  assumes "written env s s'"
  obtains (same) "s' = s"
    | (row) cmd k m c where "c \<in> set (checks s)" "pingKey c = k" "state c \<noteq> PAUSED"
        "s' = s\<lparr>checks := update_where (\<lambda>x. c_id x = c_id c)
                  (upd (env_now env) (cmd_kind cmd) (v_duration (write_values env cmd k m))
                    (v_due (write_values env cmd k m))) (checks s),
               pings := pings s @ [new_ping (write_values env cmd k m) c]\<rparr>"
proof -
  from assms consider "s' = s"
    | cmd k m n where "INGEST_SQL (env_inet_ok env) (write_values env cmd k m) s = Inr (n, s')"
    by (auto simp: written_def)
  then show ?thesis
  proof cases
    case 1
    then show ?thesis by (rule same)
  next
    case (2 cmd k m n)
    then show ?thesis
    proof (cases rule: INGEST_SQL_cases)
      case unmatched
      then show ?thesis using same by simp
    next
      case r: (row c)
      then show ?thesis
        using row [of c k cmd m] by (simp add: write_values_def)
    qed
  qed
qed

text \<open>
  No request to the heartbeat routes, whatever its key, body, headers, cached
  state or timing, changes a paused check or records a ping for it.
\<close>

theorem paused_check_untouched:
  assumes "checks_ok (store_db st)" and "c \<in> set (checks (store_db st))" and "state c = PAUSED"
  shows "c \<in> set (checks (store_db (snd (handle env req st))))
    \<and> filter (\<lambda>p. p_check p = c_id c) (pings (store_db (snd (handle env req st))))
      = filter (\<lambda>p. p_check p = c_id c) (pings (store_db st))"
  using handle_written [of env st req]
proof (cases rule: written_cases)
  case (row cmd k m d)
  then have "d \<noteq> c" using assms(3) by auto
  then have "c_id c \<noteq> c_id d" using same_check [OF assms(1,2) row(1)] by auto
  then show ?thesis
    using row(4) assms(2) by (auto simp: set_update_where new_ping_def)
qed (use assms in simp)

text \<open>A check with a pending schedule and its ping, for the examples.\<close>

definition sample_key :: string where
  "sample_key = ''0b7e1a52-3c4d-4e5f-8a6b-7c8d9e0f1a2b''"

definition sample_check :: "check_state \<Rightarrow> check" where
  "sample_check st =
     \<lparr>scheduleType = Interval, periodSeconds = Some 60, cronExpression = None, timezone = ''UTC'',
      c_id = 1, projectId = 7, c_name = ''backup'', slug = ''backup'', key = None,
      pingKey = sample_key, pingKeyRotatedAt = None, graceSeconds = 30, state = st,
      pausedReason = None, lastPingAt = None, lastStartedAt = None, lastDurationMs = None,
      nextDueAt = Some 1000, source = Manual, environment = None, tags = [], description = None,
      orphanedAt = None, c_createdAt = 0, c_updatedAt = 0\<rparr>"

definition sample_db :: "check_state \<Rightarrow> db" where
  "sample_db st = empty_db\<lparr>checks := [sample_check st], next_id := 2\<rparr>"

definition sample_env :: ingest_env where
  "sample_env = \<lparr>env_now = 5000, env_cron = minutely, env_utf8 = map char_of,
     env_inet_ok = list_all ip_char, env_db_up = True, ping_limit = 120, body_max = 10000\<rparr>"

definition sample_state :: "check_state \<Rightarrow> ingest_state" where
  "sample_state st =
     \<lparr>perKeyLimiter = [], unknownKeyLimiter = [],
      mdcache = empty_cache\<lparr>entries := [(sample_key,
         \<lparr>metadata = Some (to_metadata (sample_check st)), expiresAt = 300000\<rparr>)]\<rparr>,
      store_db = sample_db st\<rparr>"

definition sample_request :: ping_request where
  "sample_request = \<lparr>req_path = [sample_key, ''3''], req_duration_ms = Some ''250'',
     req_body = Some [111, 107], req_ip = Some ''10.0.0.7'', req_agent = Some ''curl''\<rparr>"

lemmas sample_defs = sample_check_def sample_db_def sample_env_def sample_state_def
  sample_request_def empty_db_def

lemma checks_ok_sample [simp]: "checks_ok (sample_db st)"
  by (simp add: checks_ok_def sample_defs)

theorem paused_check_untouched_witness:
  "sample_check PAUSED \<in> set (checks (store_db (snd (handle sample_env sample_request (sample_state PAUSED)))))"
  using paused_check_untouched [of "sample_state PAUSED" "sample_check PAUSED" sample_env sample_request]
  by (simp add: sample_defs checks_ok_def)

section \<open>Served heartbeats\<close>

definition body_fits :: "ingest_env \<Rightarrow> ingest_command \<Rightarrow> bool" where
  "body_fits env cmd \<longleftrightarrow>
     (case truncateBody (env_utf8 env) (body_max env) (cmd_body cmd) of
        None \<Rightarrow> True | Some b \<Rightarrow> length b \<le> ping_body_bounded)"

definition ip_reads :: "ingest_env \<Rightarrow> ingest_command \<Rightarrow> bool" where
  "ip_reads env cmd \<longleftrightarrow>
     (case normaliseIp (cmd_ip cmd) of None \<Rightarrow> True | Some ip \<Rightarrow> env_inet_ok env ip)"

lemma update_one:
  "distinct (map g rows) \<Longrightarrow> r \<in> set rows \<Longrightarrow> (\<lambda>x. g x = g r) q \<Longrightarrow> q \<in> set rows \<Longrightarrow> q = r"
  by (auto intro: distinct_map_memD)

lemma INGEST_SQL_known:
  assumes "checks_ok s" and "check_by_ping_key (v_key v) s = Some c"
    and "case v_ip v of None \<Rightarrow> True | Some ip \<Rightarrow> inet ip"
    and "case v_body v of None \<Rightarrow> True | Some b \<Rightarrow> length b \<le> ping_body_bounded"
  shows "INGEST_SQL inet v s =
     (if state c = PAUSED then Inr (0, s)
      else Inr (1, s\<lparr>checks := update_where (\<lambda>x. c_id x = c_id c)
                        (upd (v_received v) (v_kind v) (v_duration v) (v_due v)) (checks s),
                     pings := pings s @ [new_ping v c]\<rparr>))"
  using assms by (auto simp: INGEST_SQL_def find_active split: option.splits)

text \<open>
  C2. A heartbeat for a check the cache knows is always served, whatever the source
  address has spent of its budget for unknown keys: with the database up and the key's own
  budget not exceeded, it is answered Recorded and has exactly the statement's effect on
  that one check, plus one ping; or Paused and has no effect.
\<close>

theorem known_heartbeat_served:
  assumes "UUID_PATTERN (cmd_pingKey cmd)" and "k = to_lower (cmd_pingKey cmd)"
    and "\<not> exceeded (per_key_config env) k (env_now env) (perKeyLimiter st)"
    and "peek k (env_now env) (mdcache st) = Some m"
    and "env_db_up env" and "checks_ok (store_db st)"
    and "check_by_ping_key k (store_db st) = Some c"
    and "ip_reads env cmd" and "body_fits env cmd"
  shows "fst (ingest env cmd st) = Inr (if state c = PAUSED then Paused else Recorded)
    \<and> store_db (snd (ingest env cmd st)) =
        (if state c = PAUSED then store_db st
         else (store_db st)\<lparr>
           checks := update_where (\<lambda>x. c_id x = c_id c)
             (upd (env_now env) (cmd_kind cmd) (clampInt 0 (cmd_durationMs cmd))
               (if cmd_kind cmd = StartPing then None
                else computeNextDueAt (env_cron env) m (env_now env))) (checks (store_db st)),
           pings := pings (store_db st) @ [new_ping (write_values env cmd k m) c]\<rparr>)"
proof -
  have v: "v_key (write_values env cmd k m) = k"
    "v_ip (write_values env cmd k m) = normaliseIp (cmd_ip cmd)"
    "v_body (write_values env cmd k m) = truncateBody (env_utf8 env) (body_max env) (cmd_body cmd)"
    by (simp_all add: write_values_def)
  have sql: "INGEST_SQL (env_inet_ok env) (write_values env cmd k m) (store_db st) =
    (if state c = PAUSED then Inr (0, store_db st)
     else Inr (1, (store_db st)\<lparr>
           checks := update_where (\<lambda>x. c_id x = c_id c)
             (upd (env_now env) (cmd_kind cmd) (clampInt 0 (cmd_durationMs cmd))
               (if cmd_kind cmd = StartPing then None
                else computeNextDueAt (env_cron env) m (env_now env))) (checks (store_db st)),
           pings := pings (store_db st) @ [new_ping (write_values env cmd k m) c]\<rparr>))"
    using INGEST_SQL_known [OF assms(6), of "write_values env cmd k m" c "env_inet_ok env"] assms(7-9) v
    by (simp add: ip_reads_def body_fits_def) (simp add: write_values_def)
  have allowed: "fst (hit (per_key_config env) k (env_now env) (perKeyLimiter st)) = 0"
    using assms(3) by (simp add: hit_allowed_iff)
  then obtain pk where pk: "hit (per_key_config env) k (env_now env) (perKeyLimiter st) = (0, pk)"
    by (metis prod.collapse)
  have "ingest env cmd st = write_ping env cmd k m (st\<lparr>perKeyLimiter := pk\<rparr>)"
    using assms(1,2,4) pk by (simp add: ingest_def)
  then show ?thesis using sql assms(5) by (simp add: write_ping_def)
qed

definition sample_command :: ingest_command where
  "sample_command = \<lparr>cmd_pingKey = sample_key, cmd_kind = SuccessPing, cmd_exitCode = None,
     cmd_durationMs = None, cmd_body = Some [111, 107], cmd_ip = Some ''10.0.0.7'',
     cmd_userAgent = None\<rparr>"

lemma sample_uuid: "UUID_PATTERN sample_key" "to_lower sample_key = sample_key"
  by code_simp+

lemma sample_fits: "ip_reads sample_env sample_command" "body_fits sample_env sample_command"
  by code_simp+

theorem known_heartbeat_served_witness:
  "fst (ingest sample_env sample_command
     ((sample_state NEW)\<lparr>unknownKeyLimiter := [(''10.0.0.7'', \<lparr>count = 60, resetAt = 60000\<rparr>)]\<rparr>))
   = Inr Recorded"
  using known_heartbeat_served [of sample_command sample_key sample_env
      "(sample_state NEW)\<lparr>unknownKeyLimiter := [(''10.0.0.7'', \<lparr>count = 60, resetAt = 60000\<rparr>)]\<rparr>"
      "to_metadata (sample_check NEW)" "sample_check NEW"]
    sample_uuid sample_fits
  by (simp add: sample_command_def sample_defs exceeded_def peek_def empty_cache_def
      checks_ok_def check_by_ping_key_def)

section \<open>404 only for what the database does not know\<close>

lemma write_ping_not_unknown: "fst (write_ping env cmd k m st) \<noteq> Inr Unknown"
  by (auto simp: write_ping_def split: sum.splits)

lemma await_get_None:
  assumes "await_get env k s c = (Inr None, c')" and "map_of (inFlight c) k = None"
  shows "check_by_ping_key k s = None \<or>
    (\<exists>e. map_of (entries c) k = Some e \<and> metadata e = None \<and> env_now env < expiresAt e)"
  using assms
  by (auto simp: await_get_def cache_get_def db_answers_def LOOKUP_SQL_def Let_def
      split: option.splits if_splits)

text \<open>
  A heartbeat is told that its check does not exist only when the database was
  asked and has no such key, or was asked within the negative entry's lifetime. A source
  over its budget is told to come back (429) instead, never 404.
\<close>

theorem not_found_only_after_lookup:
  assumes "fst (ingest env cmd st) = Inr Unknown"
    and "map_of (inFlight (mdcache st)) (to_lower (cmd_pingKey cmd)) = None"
  shows "(check_by_ping_key (to_lower (cmd_pingKey cmd)) (store_db st) = None
      \<or> (\<exists>e. map_of (entries (mdcache st)) (to_lower (cmd_pingKey cmd)) = Some e
            \<and> metadata e = None \<and> env_now env < expiresAt e))
    \<and> \<not> exceeded unknown_key_config (case cmd_ip cmd of None \<Rightarrow> ''unknown'' | Some ip \<Rightarrow> ip)
         (env_now env) (unknownKeyLimiter st)"
  using assms await_get_None [of env "to_lower (cmd_pingKey cmd)" "store_db st" "mdcache st"]
  unfolding ingest_def Let_def
  by (auto simp: write_ping_not_unknown split: if_splits prod.splits option.splits sum.splits)

theorem not_found_only_after_lookup_witness:
  "check_by_ping_key sample_key empty_db = None"
  using not_found_only_after_lookup [of sample_env sample_command
      "\<lparr>perKeyLimiter = [], unknownKeyLimiter = [], mdcache = empty_cache, store_db = empty_db\<rparr>"]
    sample_uuid
  by (simp add: ingest_def sample_command_def sample_env_def hit_def per_key_config_def peek_def
      empty_cache_def exceeded_def await_get_def cache_get_def db_answers_def LOOKUP_SQL_def
      check_by_ping_key_def empty_db_def js_set_def js_delete_def)

section \<open>Durations and exit codes\<close>

text \<open>
  The duration of a run is measured from its own start, clamped to what the
  column holds, whatever the check remembered before; it is used once: the next heartbeat
  without a start of its own measures nothing, and the last known duration stays. A start
  leaves the state, the deadline and the last heartbeat alone.
\<close>

theorem duration_measured_once:
  assumes "k \<noteq> StartPing" and "k' \<noteq> StartPing"
  shows "measured (upd t0 StartPing d due c) t1 k None = Some (min INT32_MAX (max 0 (t1 - t0)))
    \<and> measured (upd t1 k dur due' c) t2 k' None = None
    \<and> lastDurationMs (upd t2 k' None due'' (upd t1 k dur due' c)) = lastDurationMs (upd t1 k dur due' c)
    \<and> state (upd t0 StartPing d due c) = state c
    \<and> nextDueAt (upd t0 StartPing d due c) = nextDueAt c
    \<and> lastPingAt (upd t0 StartPing d due c) = lastPingAt c"
  using assms by (auto simp: measured_def upd_def)

theorem duration_measured_once_witness:
  "measured (upd 1000 StartPing None None (sample_check UP)) 4500 SuccessPing None = Some 3500"
  using duration_measured_once [of SuccessPing FailPing 1000 None None "sample_check UP" 4500]
  by (simp add: INT32_MAX_def)

text \<open>
  C19. On \<open>/p/:pingKey/:exitCode\<close> the decimal text of \<open>n\<close> is a success for 0, a
  failure carrying the code for 1 to 255, and a bad request that touches nothing above.
\<close>

theorem exit_code_route:
  "route [k, show_nat n] =
     Some \<lparr>r_key = k,
           r_kind = (if n = 0 then Some SuccessPing else if n \<le> 255 then Some FailPing else None),
           r_exit = Some (show_nat n)\<rparr>
   \<and> parseExitCode (Some (show_nat n)) = (if n \<le> 255 then Some (int n) else None)"
proof -
  have "parseExitCode (Some (show_nat n)) = (if n \<le> 255 then Some (int n) else None)"
    using digits_show_nat [of 3 n] by (simp add: parseExitCode_def MAX_EXIT_CODE_def)
  moreover have "show_nat n \<noteq> ''start''" "show_nat n \<noteq> ''fail''"
    using show_nat_digits [of n] by (auto simp: is_digit_def)
  ultimately show ?thesis by simp
qed

section \<open>What is stored\<close>

definition int32_option :: "int \<Rightarrow> int option \<Rightarrow> bool" where
  "int32_option lo x \<longleftrightarrow> (case x of None \<Rightarrow> True | Some n \<Rightarrow> lo \<le> n \<and> n \<le> INT32_MAX)"

definition pings_ok :: "db \<Rightarrow> bool" where
  "pings_ok s \<longleftrightarrow>
     (\<forall>c \<in> set (checks s). int32_option 0 (lastDurationMs c)) \<and>
     (\<forall>p \<in> set (pings s). int32_option 0 (durationMs p) \<and> int32_option (- INT32_MAX) (exitCode p)
        \<and> (case userAgent p of None \<Rightarrow> True | Some a \<Rightarrow> a \<noteq> [] \<and> length a \<le> 300))"

lemma clampInt_ok: "lo \<le> INT32_MAX \<Longrightarrow> int32_option lo (clampInt lo x)"
  by (cases x) (auto simp: int32_option_def clampInt_def)

lemma measured_ok: "int32_option 0 dur \<Longrightarrow> int32_option 0 (measured c t k dur)"
  by (auto simp: measured_def int32_option_def INT32_MAX_def split: option.splits)

lemma upd_duration_ok:
  "int32_option 0 dur \<Longrightarrow> int32_option 0 (lastDurationMs c) \<Longrightarrow>
     int32_option 0 (lastDurationMs (upd t k dur due c))"
  using measured_ok [of dur c t k] by (auto simp: upd_def split: option.splits)

lemma truncate_ok:
  "case truncate_to n x of None \<Rightarrow> True | Some a \<Rightarrow> 0 < n \<longrightarrow> a \<noteq> [] \<and> length a \<le> n"
  by (auto simp: truncate_to_def split: option.splits)

lemma written_keeps:
  assumes "store_inv s" "pings_ok s" "written env s s'"
  shows "store_inv s' \<and> pings_ok s'"
  using assms(3)
proof (cases rule: written_cases)
  case (row cmd k m c)
  let ?v = "write_values env cmd k m"
  have dur: "int32_option 0 (v_duration ?v)" "int32_option (- INT32_MAX) (v_exit ?v)"
    by (auto simp: write_values_def intro!: clampInt_ok) (simp_all add: INT32_MAX_def)
  have "store_inv s'"
    using row assms(1) store_inv_update_checks [OF _ upd_identity] by simp
  moreover have "pings_ok s'"
    using row assms(2) dur truncate_ok [of 300 "cmd_userAgent cmd"]
    by (auto simp: pings_ok_def new_ping_def measured_ok upd_duration_ok set_update_where
        write_values_def MAX_USER_AGENT_LENGTH_def split: option.splits)
  ultimately show ?thesis ..
qed (use assms in simp)

definition ingest_step :: "ingest_env \<times> ping_request \<Rightarrow> ingest_state \<Rightarrow> ingest_state" where
  "ingest_step e st = snd (handle (fst e) (snd e) st)"

definition ingest_inv :: "ingest_state \<Rightarrow> bool" where
  "ingest_inv st \<longleftrightarrow> store_inv (store_db st) \<and> pings_ok (store_db st)"

interpretation heartbeat: machine ingest_step ingest_inv
proof
  fix st e
  assume "ingest_inv st"
  then show "ingest_inv (ingest_step e st)"
    using written_keeps [OF _ _ handle_written] by (simp add: ingest_inv_def ingest_step_def)
qed

text \<open>
  Over any sequence of heartbeats, whatever they carry, the unique indexes hold
  and every stored duration and exit code fits its 32-bit column: a duration is never
  negative, a user agent never longer than 300 characters.
\<close>

theorem heartbeats_keep_store:
  assumes "store_inv (store_db st)" and "pings_ok (store_db st)"
  shows "store_inv (store_db (fold ingest_step es st)) \<and> pings_ok (store_db (fold ingest_step es st))"
  using heartbeat.run_keeps [of st es] assms by (simp add: ingest_inv_def)

theorem heartbeats_keep_store_witness:
  "pings_ok (store_db (fold ingest_step [(sample_env, sample_request)] (sample_state UP)))"
  by (rule heartbeats_keep_store [THEN conjunct2])
    (simp_all add: store_inv_defs pings_ok_def sample_defs int32_option_def)

section \<open>Addresses and bodies the database refuses\<close>

text \<open>
  The address filter lets through text that is no address: an address with a port
  (as some proxies write it in X-Forwarded-For) passes it unchanged, PostgreSQL refuses
  it, and the heartbeat is lost with 503, whatever check it is for.
\<close>

theorem port_in_address_loses_heartbeat:
  assumes "cmd_ip cmd = Some ''203.0.113.9:51834''" and "\<not> env_inet_ok env ''203.0.113.9:51834''"
  shows "normaliseIp (cmd_ip cmd) = Some ''203.0.113.9:51834''
    \<and> fst (ingest env cmd st) \<noteq> Inr Recorded \<and> fst (ingest env cmd st) \<noteq> Inr Paused
    \<and> store_db (snd (ingest env cmd st)) = store_db st"
proof -
  have ip: "normaliseIp (cmd_ip cmd) = Some ''203.0.113.9:51834''"
    unfolding assms(1) by code_simp
  then have "INGEST_SQL (env_inet_ok env) (write_values env cmd k m) s = Inl ()" for k m s
    using assms(2) by (simp add: INGEST_SQL_def write_values_def)
  then have w: "write_ping env cmd k m st' = (Inl (), st')" for k m st'
    by (simp add: write_ping_def)
  show ?thesis
    using ip unfolding ingest_def Let_def
    by (auto simp: w split: prod.splits option.splits sum.splits)
qed

theorem port_in_address_loses_heartbeat_witness:
  "store_db (snd (ingest (sample_env\<lparr>env_inet_ok := \<lambda>s. False\<rparr>)
     (sample_command\<lparr>cmd_ip := Some ''203.0.113.9:51834''\<rparr>) (sample_state UP))) = sample_db UP"
  using port_in_address_loses_heartbeat
    [of "sample_command\<lparr>cmd_ip := Some ''203.0.113.9:51834''\<rparr>" "sample_env\<lparr>env_inet_ok := \<lambda>s. False\<rparr>"
        "sample_state UP"]
  by (simp add: sample_state_def)

text \<open>
  \<open>PING_BODY_MAX_BYTES\<close> may be configured up to 100,000, but the constraint on the column
  is 10,000 characters: a longer body of an active check is refused instead of cut.
\<close>

lemma large_body_refused:
  assumes "check_by_ping_key k s = Some c" "state c \<noteq> PAUSED" "checks_ok s"
    and "truncateBody (env_utf8 env) (body_max env) (cmd_body cmd) = Some b" "10000 < length b"
  shows "INGEST_SQL inet (write_values env cmd k m) s = Inl ()"
  using assms by (simp add: INGEST_SQL_def write_values_def find_active ping_body_bounded_def)

end
