(* ===== verification/Notifications.thy ===== *)
theory Notifications
  imports Store JsText
begin

text \<open>
  The alert queue: \<^verbatim>\<open>packages/server/src/notifications/notification-queue.service.ts\<close> and
  the alert of \<^verbatim>\<open>notifications/alert.ts\<close>. Each SQL statement is a definition of its own;
  \<open>now()\<close>, the rows other transactions hold locked (\<open>SKIP LOCKED\<close>) and what a sender
  answers are arguments.
\<close>

section \<open>Enqueueing\<close>

type_synonym incident_ref = "uuid \<times> uuid"

text \<open>\<open>ON CONFLICT (incident_id, channel_id, kind) DO NOTHING\<close>\<close>

definition insert_delivery :: "millis \<Rightarrow> alert_kind \<Rightarrow> uuid \<times> uuid \<Rightarrow> db \<Rightarrow> db" where
  "insert_delivery now kind target s =
     (if (fst target, snd target, kind) \<in> delivery_key ` set (deliveries s) then s
      else s\<lparr>deliveries := deliveries s @
               [\<lparr>d_id = next_id s, d_incident = fst target, d_channel = snd target, d_kind = kind,
                 status = Pending, attempts = 0, d_lastError = None, nextAttemptAt = now,
                 sentAt = None, d_createdAt = now\<rparr>],
             next_id := Suc (next_id s)\<rparr>)"

definition down_was_sent :: "db \<Rightarrow> uuid \<Rightarrow> bool" where
  "down_was_sent s i \<longleftrightarrow>
     (\<exists>d \<in> set (deliveries s). d_incident d = i \<and> d_kind d = DownAlert \<and> status d = Sent)"

text \<open>The rows of the SELECT: incident and channel.\<close>

definition enqueue_targets :: "incident_ref list \<Rightarrow> alert_kind \<Rightarrow> db \<Rightarrow> (uuid \<times> uuid) list" where
  "enqueue_targets refs kind s =
     concat (map (\<lambda>(i, cid).
       concat (map (\<lambda>c. map (\<lambda>ch. (i, ch_id ch))
         (filter (\<lambda>ch. ch_project ch = projectId c \<and> enabled ch) (channels s)))
         (filter (\<lambda>c. c_id c = cid) (checks s))))
       (filter (\<lambda>(i, cid). kind = DownAlert \<or> down_was_sent s i) refs))"

definition ENQUEUE_SQL :: "millis \<Rightarrow> incident_ref list \<Rightarrow> alert_kind \<Rightarrow> db \<Rightarrow> db" where
  "ENQUEUE_SQL now refs kind s = fold (insert_delivery now kind) (enqueue_targets refs kind s) s"

text \<open>The number queued, and the database after. A delivery pass follows when it is not 0.\<close>

definition enqueue :: "millis \<Rightarrow> incident_ref list \<Rightarrow> alert_kind \<Rightarrow> db \<Rightarrow> nat \<times> db" where
  "enqueue now refs kind s =
     (if refs = [] then (0, s)
      else let s' = ENQUEUE_SQL now refs kind s
           in (length (deliveries s') - length (deliveries s), s'))"

section \<open>Claiming\<close>

definition CLAIM_LEASE :: int where "CLAIM_LEASE = 300000"

definition claimable :: "millis \<Rightarrow> (uuid \<Rightarrow> bool) \<Rightarrow> delivery \<Rightarrow> bool" where
  "claimable now locked d \<longleftrightarrow> status d = Pending \<and> nextAttemptAt d \<le> now \<and> \<not> locked (d_id d)"

definition claimed_ids :: "millis \<Rightarrow> (uuid \<Rightarrow> bool) \<Rightarrow> nat \<Rightarrow> db \<Rightarrow> uuid list" where
  "claimed_ids now locked n s =
     map d_id (select_batch (claimable now locked) nextAttemptAt n (deliveries s))"

definition CLAIM_SQL :: "millis \<Rightarrow> (uuid \<Rightarrow> bool) \<Rightarrow> nat \<Rightarrow> db \<Rightarrow> uuid list \<times> db" where
  "CLAIM_SQL now locked n s =
     (let ids = claimed_ids now locked n s
      in (ids, s\<lparr>deliveries := update_where (\<lambda>d. d_id d \<in> set ids)
              (\<lambda>d. d\<lparr>attempts := Suc (attempts d), nextAttemptAt := now + CLAIM_LEASE\<rparr>)
              (deliveries s)\<rparr>))"

section \<open>Context and alert\<close>

record context_row =
  x_delivery :: delivery
  x_channel :: channel
  x_incident :: incident
  x_check :: check
  x_project :: project

definition CONTEXT_SQL :: "uuid list \<Rightarrow> db \<Rightarrow> context_row list" where
  "CONTEXT_SQL ids s =
     [\<lparr>x_delivery = d, x_channel = ch, x_incident = i, x_check = c, x_project = p\<rparr>.
        d \<leftarrow> deliveries s, d_id d \<in> set ids,
        ch \<leftarrow> channels s, ch_id ch = d_channel d,
        i \<leftarrow> incidents s, i_id i = d_incident d,
        c \<leftarrow> checks s, c_id c = i_check i,
        p \<leftarrow> projects s, pr_id p = projectId c]"

record alert_check = schedule +
  ac_id :: uuid
  ac_name :: string
  ac_state :: check_state
  ac_environment :: "string option"
  ac_tags :: "string list"
  ac_lastPingAt :: "millis option"
  ac_nextDueAt :: "millis option"
  ac_graceSeconds :: int

record alert_incident =
  ai_id :: uuid
  ai_startedAt :: millis
  ai_resolvedAt :: "millis option"
  ai_cause :: incident_cause

record alert =
  al_kind :: alert_kind
  al_check :: alert_check
  al_project :: "uuid \<times> string"
  al_incident :: alert_incident
  al_url :: string

definition toAlert :: "string \<Rightarrow> (uuid \<Rightarrow> string) \<Rightarrow> context_row \<Rightarrow> alert" where
  "toAlert baseUrl uuid_text row =
     \<lparr>al_kind = d_kind (x_delivery row),
      al_check = \<lparr>scheduleType = scheduleType (x_check row), periodSeconds = periodSeconds (x_check row),
        cronExpression = cronExpression (x_check row), timezone = timezone (x_check row),
        ac_id = c_id (x_check row), ac_name = c_name (x_check row), ac_state = state (x_check row),
        ac_environment = environment (x_check row), ac_tags = tags (x_check row),
        ac_lastPingAt = lastPingAt (x_check row), ac_nextDueAt = nextDueAt (x_check row),
        ac_graceSeconds = graceSeconds (x_check row)\<rparr>,
      al_project = (pr_id (x_project row), pr_name (x_project row)),
      al_incident = \<lparr>ai_id = i_id (x_incident row), ai_startedAt = startedAt (x_incident row),
        ai_resolvedAt = resolvedAt (x_incident row), ai_cause = cause (x_incident row)\<rparr>,
      al_url = baseUrl @ ''/checks/'' @ uuid_text (c_id (x_check row))\<rparr>"

section \<open>Outcomes\<close>

definition on_delivery :: "uuid \<Rightarrow> (delivery \<Rightarrow> delivery) \<Rightarrow> db \<Rightarrow> db" where
  "on_delivery i f s = s\<lparr>deliveries := update_where (\<lambda>d. d_id d = i) f (deliveries s)\<rparr>"

text \<open>\<open>LEAST(3600, 30 * power(2, GREATEST(0, attempts - 1)))\<close>, in milliseconds.\<close>

definition retry_delay :: "nat \<Rightarrow> int" where
  "retry_delay n = 1000 * min 3600 (30 * 2 ^ (n - 1))"

definition RETRY_SQL :: "millis \<Rightarrow> uuid \<Rightarrow> nat \<Rightarrow> string \<Rightarrow> db \<Rightarrow> db" where
  "RETRY_SQL now i maxAttempts message =
     on_delivery i (\<lambda>d. d\<lparr>status := (if maxAttempts \<le> attempts d then Failed else Pending),
                           d_lastError := Some (take 500 message),
                           nextAttemptAt := now + retry_delay (attempts d)\<rparr>)"

definition REFUSE_SQL :: "uuid \<Rightarrow> string \<Rightarrow> db \<Rightarrow> db" where
  "REFUSE_SQL i message =
     on_delivery i (\<lambda>d. d\<lparr>status := Failed, d_lastError := Some (take 500 message)\<rparr>)"

definition MARK_SENT_SQL :: "millis \<Rightarrow> uuid list \<Rightarrow> db \<Rightarrow> db" where
  "MARK_SENT_SQL now ids s =
     s\<lparr>deliveries := update_where (\<lambda>d. d_id d \<in> set ids)
         (\<lambda>d. d\<lparr>status := Sent, sentAt := Some now, d_lastError := None\<rparr>) (deliveries s)\<rparr>"

definition COUNT_SENT_SQL :: "uuid list \<Rightarrow> db \<Rightarrow> db" where
  "COUNT_SENT_SQL ids s =
     s\<lparr>incidents := map (\<lambda>i. i\<lparr>notificationsSent := notificationsSent i + count_list ids (i_id i)\<rparr>)
                     (incidents s)\<rparr>"

definition SENT_LAST_HOUR :: "millis \<Rightarrow> db \<Rightarrow> uuid \<Rightarrow> nat" where
  "SENT_LAST_HOUR now s ch =
     length (filter (\<lambda>d. d_channel d = ch \<and> status d = Sent
        \<and> (case sentAt d of None \<Rightarrow> False | Some t \<Rightarrow> now - 3600000 < t)) (deliveries s))"

section \<open>A delivery pass\<close>

text \<open>
  \<open>deliver\<close> is the sender of the channel's type with the opened configuration: \<open>Inl\<close>
  the message it threw.
\<close>

record queue_config =
  batchSize :: nat
  maxAttempts :: nat
  ceiling :: nat

record pass =
  delivered :: "uuid list"
  sent_now :: "uuid \<Rightarrow> nat"
  refusals :: nat
  pass_db :: db

definition ceiling_message :: "nat \<Rightarrow> string" where
  "ceiling_message n = ''Not sent: this channel reached its limit of '' @ show_nat n @ '' alerts per hour''"

definition deliver_row :: "queue_config \<Rightarrow> millis \<Rightarrow> (context_row \<Rightarrow> string + unit) \<Rightarrow> context_row \<Rightarrow> pass \<Rightarrow> pass" where
  "deliver_row cfg now send row p =
     (let d = x_delivery row; ch = ch_id (x_channel row)
      in if 0 < ceiling cfg \<and> ceiling cfg \<le> sent_now p ch
         then p\<lparr>refusals := Suc (refusals p), pass_db := REFUSE_SQL (d_id d) (ceiling_message (ceiling cfg)) (pass_db p)\<rparr>
         else case send row of
           Inr _ \<Rightarrow> p\<lparr>delivered := delivered p @ [d_id d],
                       sent_now := (sent_now p)(ch := Suc (sent_now p ch))\<rparr>
         | Inl message \<Rightarrow>
             p\<lparr>refusals := Suc (refusals p),
                 pass_db := RETRY_SQL now (d_id d) (maxAttempts cfg) message (pass_db p)\<rparr>)"

definition finish_pass :: "millis \<Rightarrow> pass \<Rightarrow> db" where
  "finish_pass now p =
     (if delivered p = [] then pass_db p
      else COUNT_SENT_SQL
             (map d_incident (filter (\<lambda>d. d_id d \<in> set (delivered p)) (deliveries (pass_db p))))
             (MARK_SENT_SQL now (delivered p) (pass_db p)))"

definition drain_pass :: "queue_config \<Rightarrow> millis \<Rightarrow> (uuid \<Rightarrow> bool) \<Rightarrow> (context_row \<Rightarrow> string + unit) \<Rightarrow> db \<Rightarrow> pass" where
  "drain_pass cfg now locked send s =
     (let (ids, s1) = CLAIM_SQL now locked (batchSize cfg) s
      in if ids = [] then \<lparr>delivered = [], sent_now = (\<lambda>_. 0), refusals = 0, pass_db = s1\<rparr>
         else let rows = CONTEXT_SQL ids s1;
                  counts = (if ceiling cfg = 0 then (\<lambda>_. 0) else SENT_LAST_HOUR now s1)
              in fold (deliver_row cfg now send) rows
                   \<lparr>delivered = [], sent_now = counts, refusals = 0, pass_db = s1\<rparr>)"

definition drain :: "queue_config \<Rightarrow> millis \<Rightarrow> (uuid \<Rightarrow> bool) \<Rightarrow> (context_row \<Rightarrow> string + unit) \<Rightarrow> db \<Rightarrow> db" where
  "drain cfg now locked send s = finish_pass now (drain_pass cfg now locked send s)"

text \<open>The counters of the service, for its health report.\<close>

record queue_service =
  q_sent :: nat
  q_failed :: nat
  q_db :: db

definition drain_service :: "queue_config \<Rightarrow> millis \<Rightarrow> (uuid \<Rightarrow> bool) \<Rightarrow> (context_row \<Rightarrow> string + unit) \<Rightarrow> queue_service \<Rightarrow> queue_service" where
  "drain_service cfg now locked send q =
     (let p = drain_pass cfg now locked send (q_db q)
      in \<lparr>q_sent = q_sent q + length (delivered p), q_failed = q_failed q + refusals p,
          q_db = finish_pass now p\<rparr>)"

lemma drain_unfold:
  "drain cfg now locked send s =
     (let (ids, s1) = CLAIM_SQL now locked (batchSize cfg) s
      in if ids = [] then s1
         else let rows = CONTEXT_SQL ids s1;
                  counts = (if ceiling cfg = 0 then (\<lambda>_. 0) else SENT_LAST_HOUR now s1)
              in finish_pass now
                   (fold (deliver_row cfg now send) rows
                      \<lparr>delivered = [], sent_now = counts, refusals = 0, pass_db = s1\<rparr>))"
  by (simp add: drain_def drain_pass_def Let_def finish_pass_def split: prod.splits)

section \<open>Enqueueing is idempotent\<close>

lemma insert_delivery_simps [simp]:
  "checks (insert_delivery t k x s) = checks s" "channels (insert_delivery t k x s) = channels s"
  "incidents (insert_delivery t k x s) = incidents s" "pings (insert_delivery t k x s) = pings s"
  "projects (insert_delivery t k x s) = projects s" "members (insert_delivery t k x s) = members s"
  "users (insert_delivery t k x s) = users s"
  by (simp_all add: insert_delivery_def)

lemma fold_insert_delivery_simps [simp]:
  "checks (fold (insert_delivery t k) xs s) = checks s"
  "channels (fold (insert_delivery t k) xs s) = channels s"
  "incidents (fold (insert_delivery t k) xs s) = incidents s"
  "pings (fold (insert_delivery t k) xs s) = pings s"
  "projects (fold (insert_delivery t k) xs s) = projects s"
  "members (fold (insert_delivery t k) xs s) = members s"
  "users (fold (insert_delivery t k) xs s) = users s"
  by (induction xs arbitrary: s) auto

lemma ENQUEUE_SQL_simps [simp]:
  "checks (ENQUEUE_SQL t refs k s) = checks s" "channels (ENQUEUE_SQL t refs k s) = channels s"
  "incidents (ENQUEUE_SQL t refs k s) = incidents s" "pings (ENQUEUE_SQL t refs k s) = pings s"
  "projects (ENQUEUE_SQL t refs k s) = projects s" "members (ENQUEUE_SQL t refs k s) = members s"
  "users (ENQUEUE_SQL t refs k s) = users s"
  by (simp_all add: ENQUEUE_SQL_def)

lemma insert_delivery_keys:
  "delivery_key ` set (deliveries (insert_delivery t k x s))
    = insert (fst x, snd x, k) (delivery_key ` set (deliveries s))"
  by (auto simp: insert_delivery_def delivery_key_def)

lemma fold_insert_delivery_keys:
  "delivery_key ` set (deliveries (fold (insert_delivery t k) xs s))
    = (\<lambda>x. (fst x, snd x, k)) ` set xs \<union> delivery_key ` set (deliveries s)"
  by (induction xs arbitrary: s) (auto simp: insert_delivery_keys)

text \<open>What an insertion adds is a fresh, pending row with no attempt.\<close>

lemma insert_delivery_rows:
  "\<exists>new. deliveries (insert_delivery t k x s) = deliveries s @ new
    \<and> (\<forall>d \<in> set new. status d = Pending \<and> d_kind d = k \<and> attempts d = 0 \<and> nextAttemptAt d = t
        \<and> (d_incident d, d_channel d) = x \<and> next_id s \<le> d_id d)
    \<and> next_id s \<le> next_id (insert_delivery t k x s)"
  by (auto simp: insert_delivery_def)

lemma fold_insert_delivery_rows:
  "\<exists>new. deliveries (fold (insert_delivery t k) xs s) = deliveries s @ new
    \<and> (\<forall>d \<in> set new. status d = Pending \<and> d_kind d = k \<and> attempts d = 0 \<and> nextAttemptAt d = t
        \<and> (d_incident d, d_channel d) \<in> set xs \<and> next_id s \<le> d_id d)
    \<and> next_id s \<le> next_id (fold (insert_delivery t k) xs s)"
proof (induction xs arbitrary: s)
  case (Cons x xs)
  let ?s1 = "insert_delivery t k x s"
  obtain n1 where n1: "deliveries ?s1 = deliveries s @ n1"
    "\<forall>d \<in> set n1. status d = Pending \<and> d_kind d = k \<and> attempts d = 0 \<and> nextAttemptAt d = t
        \<and> (d_incident d, d_channel d) = x \<and> next_id s \<le> d_id d" "next_id s \<le> next_id ?s1"
    using insert_delivery_rows [of t k x s] by blast
  obtain n2 where n2: "deliveries (fold (insert_delivery t k) xs ?s1) = deliveries ?s1 @ n2"
    "\<forall>d \<in> set n2. status d = Pending \<and> d_kind d = k \<and> attempts d = 0 \<and> nextAttemptAt d = t
        \<and> (d_incident d, d_channel d) \<in> set xs \<and> next_id ?s1 \<le> d_id d"
    "next_id ?s1 \<le> next_id (fold (insert_delivery t k) xs ?s1)"
    using Cons.IH [of ?s1] by blast
  show ?case
    using n1 n2 by (intro exI [of _ "n1 @ n2"]) (fastforce intro: le_trans)
qed simp

lemma down_was_sent_enqueue: "down_was_sent (ENQUEUE_SQL t refs k s) i = down_was_sent s i"
proof -
  obtain new where "deliveries (ENQUEUE_SQL t refs k s) = deliveries s @ new"
    "\<forall>d \<in> set new. status d = Pending"
    using fold_insert_delivery_rows [of t k "enqueue_targets refs k s" s]
    unfolding ENQUEUE_SQL_def by blast
  then show ?thesis by (auto simp: down_was_sent_def)
qed

lemma enqueue_targets_stable:
  "enqueue_targets refs k (ENQUEUE_SQL t refs' k' s) = enqueue_targets refs k s"
  by (simp add: enqueue_targets_def down_was_sent_enqueue)

lemma fold_insert_delivery_present:
  "(\<lambda>x. (fst x, snd x, k)) ` set xs \<subseteq> delivery_key ` set (deliveries s) \<Longrightarrow>
     fold (insert_delivery t k) xs s = s"
  by (induction xs) (auto simp: insert_delivery_def)

text \<open>
  Announcing the same incidents twice queues nothing more: the second call
  reports 0 and leaves the database exactly as the first left it, whenever it comes.
\<close>

theorem enqueue_idempotent:
  "enqueue t' refs kind (snd (enqueue t refs kind s)) = (0, snd (enqueue t refs kind s))"
proof -
  have "(\<lambda>x. (fst x, snd x, kind)) ` set (enqueue_targets refs kind s)
      \<subseteq> delivery_key ` set (deliveries (ENQUEUE_SQL t refs kind s))"
    by (simp add: ENQUEUE_SQL_def fold_insert_delivery_keys)
  then have "ENQUEUE_SQL t' refs kind (ENQUEUE_SQL t refs kind s) = ENQUEUE_SQL t refs kind s"
    using enqueue_targets_stable [of refs kind t refs kind s] fold_insert_delivery_present
    by (simp add: ENQUEUE_SQL_def [of t'])
  then show ?thesis by (simp add: enqueue_def Let_def)
qed

section \<open>The queue keeps the indexes\<close>

lemma store_inv_insert_delivery: "store_inv s \<Longrightarrow> store_inv (insert_delivery t k x s)"
  by (auto simp: store_inv_defs insert_delivery_def delivery_key_def less_Suc_eq)

lemma store_inv_ENQUEUE: "store_inv s \<Longrightarrow> store_inv (ENQUEUE_SQL t refs k s)"
proof -
  have "store_inv s \<Longrightarrow> store_inv (fold (insert_delivery t k) xs s)" for xs
    by (induction xs arbitrary: s) (auto intro: store_inv_insert_delivery)
  then show "store_inv s \<Longrightarrow> ?thesis" by (simp add: ENQUEUE_SQL_def)
qed

text \<open>
  What a delivery pass may do to the database: rewrite rows of the deliveries it names,
  without changing what they are for, and the counters of incidents.
\<close>

definition touches :: "uuid set \<Rightarrow> db \<Rightarrow> db \<Rightarrow> bool" where
  "touches I s s' \<longleftrightarrow>
     (\<exists>g h. s' = s\<lparr>deliveries := map g (deliveries s), incidents := map h (incidents s)\<rparr>
       \<and> (\<forall>d. d_id (g d) = d_id d \<and> delivery_key (g d) = delivery_key d \<and> (d_id d \<notin> I \<longrightarrow> g d = d))
       \<and> (\<forall>i. i_id (h i) = i_id i \<and> i_check (h i) = i_check i \<and> resolvedAt (h i) = resolvedAt i))"

lemma touches_refl: "touches I s s"
  unfolding touches_def by (intro exI [of _ "\<lambda>x. x"]) simp

lemma touchesI:
  "s' = s\<lparr>deliveries := map g (deliveries s), incidents := map h (incidents s)\<rparr> \<Longrightarrow>
   (\<And>d. d_id (g d) = d_id d \<and> delivery_key (g d) = delivery_key d \<and> (d_id d \<notin> I \<longrightarrow> g d = d)) \<Longrightarrow>
   (\<And>i. i_id (h i) = i_id i \<and> i_check (h i) = i_check i \<and> resolvedAt (h i) = resolvedAt i) \<Longrightarrow>
   touches I s s'"
  unfolding touches_def by blast

lemma touches_trans:
  assumes "touches I s s1" "touches I s1 s2"
  shows "touches I s s2"
proof -
  obtain g h where 1: "s1 = s\<lparr>deliveries := map g (deliveries s), incidents := map h (incidents s)\<rparr>"
      "\<And>d. d_id (g d) = d_id d \<and> delivery_key (g d) = delivery_key d \<and> (d_id d \<notin> I \<longrightarrow> g d = d)"
      "\<And>i. i_id (h i) = i_id i \<and> i_check (h i) = i_check i \<and> resolvedAt (h i) = resolvedAt i"
    using assms(1) unfolding touches_def by blast
  obtain g' h' where 2: "s2 = s1\<lparr>deliveries := map g' (deliveries s1), incidents := map h' (incidents s1)\<rparr>"
      "\<And>d. d_id (g' d) = d_id d \<and> delivery_key (g' d) = delivery_key d \<and> (d_id d \<notin> I \<longrightarrow> g' d = d)"
      "\<And>i. i_id (h' i) = i_id i \<and> i_check (h' i) = i_check i \<and> resolvedAt (h' i) = resolvedAt i"
    using assms(2) unfolding touches_def by blast
  show ?thesis
    by (rule touchesI [where g = "g' \<circ> g" and h = "h' \<circ> h"]) (use 1 2 in auto)
qed

lemma touches_mono: "touches I s s' \<Longrightarrow> I \<subseteq> J \<Longrightarrow> touches J s s'"
  unfolding touches_def by (metis subsetD)

lemma touches_update:
  assumes "\<And>d. d_id (f d) = d_id d \<and> delivery_key (f d) = delivery_key d"
    and "\<And>d. p d \<Longrightarrow> d_id d \<in> I"
  shows "touches I s (s\<lparr>deliveries := update_where p f (deliveries s)\<rparr>)"
  by (rule touchesI [where g = "\<lambda>d. if p d then f d else d" and h = "\<lambda>i. i"])
    (use assms in \<open>auto simp: update_where_def\<close>)

lemma touches_RETRY: "i \<in> I \<Longrightarrow> touches I s (RETRY_SQL now i n msg s)"
  unfolding RETRY_SQL_def on_delivery_def by (rule touches_update) (auto simp: delivery_key_def)

lemma touches_REFUSE: "i \<in> I \<Longrightarrow> touches I s (REFUSE_SQL i msg s)"
  unfolding REFUSE_SQL_def on_delivery_def by (rule touches_update) (auto simp: delivery_key_def)

lemma touches_MARK_SENT: "set ids \<subseteq> I \<Longrightarrow> touches I s (MARK_SENT_SQL now ids s)"
  unfolding MARK_SENT_SQL_def by (rule touches_update) (auto simp: delivery_key_def)

lemma touches_COUNT_SENT: "touches I s (COUNT_SENT_SQL ids s)"
  unfolding COUNT_SENT_SQL_def
  by (rule touchesI [where g = "\<lambda>d. d" and
        h = "\<lambda>i. i\<lparr>notificationsSent := notificationsSent i + count_list ids (i_id i)\<rparr>"]) auto

lemma touches_CLAIM: "touches (set (fst (CLAIM_SQL now lk n s))) s (snd (CLAIM_SQL now lk n s))"
  unfolding CLAIM_SQL_def Let_def fst_conv snd_conv
  by (rule touches_update) (auto simp: delivery_key_def)

lemma CONTEXT_SQL_rows:
  "row \<in> set (CONTEXT_SQL ids s) \<Longrightarrow>
     x_delivery row \<in> set (deliveries s) \<and> d_id (x_delivery row) \<in> set ids
     \<and> x_channel row \<in> set (channels s) \<and> ch_id (x_channel row) = d_channel (x_delivery row)
     \<and> x_incident row \<in> set (incidents s) \<and> i_id (x_incident row) = d_incident (x_delivery row)
     \<and> x_check row \<in> set (checks s) \<and> c_id (x_check row) = i_check (x_incident row)"
  by (auto simp: CONTEXT_SQL_def)

lemma deliver_row_touches:
  assumes "d_id (x_delivery row) \<in> I"
  shows "touches I (pass_db p) (pass_db (deliver_row cfg now send row p))"
    and "set (delivered p) \<subseteq> I \<Longrightarrow> set (delivered (deliver_row cfg now send row p)) \<subseteq> I"
  using assms
  by (auto simp: deliver_row_def Let_def touches_refl touches_REFUSE touches_RETRY split: sum.splits)

lemma fold_deliver_row_touches:
  "(\<forall>row \<in> set rows. d_id (x_delivery row) \<in> I) \<Longrightarrow> set (delivered p) \<subseteq> I \<Longrightarrow>
     touches I (pass_db p) (pass_db (fold (deliver_row cfg now send) rows p))
     \<and> set (delivered (fold (deliver_row cfg now send) rows p)) \<subseteq> I"
proof (induction rows arbitrary: p)
  case (Cons row rows)
  then have r: "d_id (x_delivery row) \<in> I" by simp
  have "set (delivered (deliver_row cfg now send row p)) \<subseteq> I"
    by (rule deliver_row_touches(2) [OF r]) (use Cons.prems in simp)
  moreover have "touches I (pass_db p) (pass_db (deliver_row cfg now send row p))"
    by (rule deliver_row_touches(1) [OF r])
  ultimately show ?case
    using Cons.IH [of "deliver_row cfg now send row p"] Cons.prems(1) by (auto intro: touches_trans)
qed (simp add: touches_refl)

lemma finish_pass_touches: "set (delivered p) \<subseteq> I \<Longrightarrow> touches I (pass_db p) (finish_pass now p)"
  by (auto simp: finish_pass_def touches_refl intro: touches_trans touches_MARK_SENT touches_COUNT_SENT)

lemma drain_touches:
  "touches (set (claimed_ids now lk (batchSize cfg) s)) s (drain cfg now lk send s)"
proof -
  define ids where "ids = claimed_ids now lk (batchSize cfg) s"
  define s1 where "s1 = snd (CLAIM_SQL now lk (batchSize cfg) s)"
  have c: "CLAIM_SQL now lk (batchSize cfg) s = (ids, s1)"
    by (simp add: ids_def s1_def CLAIM_SQL_def Let_def)
  have t: "touches (set ids) s s1"
    using touches_CLAIM [of now lk "batchSize cfg" s] c by simp
  define p where "p = fold (deliver_row cfg now send) (CONTEXT_SQL ids s1)
      \<lparr>delivered = [], sent_now = (if ceiling cfg = 0 then (\<lambda>_. 0) else SENT_LAST_HOUR now s1),
       refusals = 0, pass_db = s1\<rparr>"
  have "touches (set ids) s1 (pass_db p) \<and> set (delivered p) \<subseteq> set ids"
    using fold_deliver_row_touches [of "CONTEXT_SQL ids s1" "set ids"
        "\<lparr>delivered = [], sent_now = (if ceiling cfg = 0 then (\<lambda>_. 0) else SENT_LAST_HOUR now s1),
          refusals = 0, pass_db = s1\<rparr>"] CONTEXT_SQL_rows [of _ ids s1]
    by (auto simp: p_def)
  then have "touches (set ids) s (finish_pass now p)"
    using t touches_trans finish_pass_touches by blast
  moreover have "drain cfg now lk send s = (if ids = [] then s1 else finish_pass now p)"
    by (simp add: drain_unfold c p_def Let_def)
  ultimately have "touches (set ids) s (drain cfg now lk send s)"
    using t by (cases "ids = []") simp_all
  then show ?thesis by (simp only: ids_def)
qed

lemma store_inv_touches:
  assumes "touches I s s'" "store_inv s"
  shows "store_inv s'"
proof -
  obtain g h where 1: "s' = s\<lparr>deliveries := map g (deliveries s), incidents := map h (incidents s)\<rparr>"
      and g: "\<And>d. d_id (g d) = d_id d" "\<And>d. delivery_key (g d) = delivery_key d"
      and h: "\<And>i. i_id (h i) = i_id i" "\<And>i. i_check (h i) = i_check i" "\<And>i. resolvedAt (h i) = resolvedAt i"
    using assms(1) unfolding touches_def by blast
  have maps: "map d_id (map g ds) = map d_id ds" "map delivery_key (map g ds) = map delivery_key ds"
    "map i_id (map h is) = map i_id is"
    "map i_check (filter is_open (map h is)) = map i_check (filter is_open is)" for ds "is"
    using g h by (induction "is") (auto simp: is_open_def)
  show ?thesis
    using assms(2) unfolding 1 store_inv_defs
    by (simp add: maps g h del: map_map)
qed

section \<open>Claims\<close>

lemma claimed_ids_rows:
  "i \<in> set (claimed_ids now lk n s) \<Longrightarrow>
     \<exists>d \<in> set (deliveries s). d_id d = i \<and> status d = Pending \<and> nextAttemptAt d \<le> now \<and> \<not> lk i"
  using select_batch_subset [of "claimable now lk" nextAttemptAt n "deliveries s"]
  by (auto simp: claimed_ids_def claimable_def)

lemma same_delivery:
  "deliveries_ok s \<Longrightarrow> d \<in> set (deliveries s) \<Longrightarrow> e \<in> set (deliveries s) \<Longrightarrow> d_id d = d_id e \<Longrightarrow> d = e"
  by (auto simp: deliveries_ok_def intro: distinct_map_memD)

lemma CLAIM_rows:
  "deliveries (snd (CLAIM_SQL now lk n s)) =
     update_where (\<lambda>d. d_id d \<in> set (claimed_ids now lk n s))
       (\<lambda>d. d\<lparr>attempts := Suc (attempts d), nextAttemptAt := now + CLAIM_LEASE\<rparr>) (deliveries s)"
  "fst (CLAIM_SQL now lk n s) = claimed_ids now lk n s"
  by (simp_all add: CLAIM_SQL_def Let_def)

text \<open>
  C9. Two workers never hold the same delivery: what one claims, no other can claim
  before the five-minute lease ends, whatever the batch sizes and locks; and once the lease
  has ended without an outcome the row is claimable again, so a crashed worker loses no
  alert.
\<close>

theorem claims_are_exclusive:
  assumes "store_inv s" and "i \<in> set (fst (CLAIM_SQL t lk n s))"
  shows "(t' < t + 300000 \<longrightarrow> i \<notin> set (fst (CLAIM_SQL t' lk' n' (snd (CLAIM_SQL t lk n s)))))
    \<and> (t + 300000 \<le> t' \<longrightarrow>
        (\<exists>d \<in> set (deliveries (snd (CLAIM_SQL t lk n s))). d_id d = i \<and> claimable t' (\<lambda>_. False) d))"
proof -
  have i: "i \<in> set (claimed_ids t lk n s)" using assms(2) by (simp add: CLAIM_rows)
  obtain d where d: "d \<in> set (deliveries s)" "d_id d = i" "status d = Pending"
    using claimed_ids_rows [OF i] by blast
  define e where "e = d\<lparr>attempts := Suc (attempts d), nextAttemptAt := t + CLAIM_LEASE\<rparr>"
  have e: "e \<in> set (deliveries (snd (CLAIM_SQL t lk n s)))"
    using d i by (auto simp: CLAIM_rows set_update_where e_def)
  have inv: "deliveries_ok (snd (CLAIM_SQL t lk n s))"
    using store_inv_touches [OF touches_CLAIM assms(1)] by (simp add: store_inv_def)
  have "i \<notin> set (fst (CLAIM_SQL t' lk' n' (snd (CLAIM_SQL t lk n s))))" if "t' < t + 300000"
  proof
    assume "i \<in> set (fst (CLAIM_SQL t' lk' n' (snd (CLAIM_SQL t lk n s))))"
    then have "i \<in> set (claimed_ids t' lk' n' (snd (CLAIM_SQL t lk n s)))"
      by (simp only: CLAIM_rows(2))
    from claimed_ids_rows [OF this]
    obtain x where x: "x \<in> set (deliveries (snd (CLAIM_SQL t lk n s)))" "d_id x = i" "nextAttemptAt x \<le> t'"
      by blast
    have "x = e" by (rule same_delivery [OF inv x(1) e]) (use x d in \<open>simp add: e_def\<close>)
    with x that show False by (simp add: e_def CLAIM_LEASE_def)
  qed
  moreover have "claimable t' (\<lambda>_. False) e" if "t + 300000 \<le> t'"
    using that d by (simp add: claimable_def e_def CLAIM_LEASE_def)
  moreover have "d_id e = i" using d by (simp add: e_def)
  ultimately show ?thesis using e by blast
qed

definition sample_delivery :: delivery where
  "sample_delivery = \<lparr>d_id = 5, d_incident = 3, d_channel = 4, d_kind = DownAlert, status = Pending,
     attempts = 0, d_lastError = None, nextAttemptAt = 0, sentAt = None, d_createdAt = 0\<rparr>"

definition sample_queue :: db where
  "sample_queue = empty_db\<lparr>deliveries := [sample_delivery], next_id := 6\<rparr>"

lemma sample_queue_inv [simp]: "store_inv sample_queue"
  by (simp add: store_inv_defs sample_queue_def sample_delivery_def empty_db_def)

theorem claims_are_exclusive_witness:
  "5 \<notin> set (fst (CLAIM_SQL 60000 (\<lambda>_. False) 50 (snd (CLAIM_SQL 1000 (\<lambda>_. False) 50 sample_queue))))"
proof -
  have "5 \<in> set (fst (CLAIM_SQL 1000 (\<lambda>_. False) 50 sample_queue))"
    by (simp add: CLAIM_rows claimed_ids_def select_batch_def claimable_def sample_queue_def
        sample_delivery_def)
  from claims_are_exclusive [OF sample_queue_inv this, of 60000 "\<lambda>_. False" 50]
  show ?thesis by simp
qed

section \<open>Outcomes are final\<close>

lemma drain_keeps_settled:
  assumes "store_inv s" "d \<in> set (deliveries s)" "status d \<noteq> Pending"
  shows "d \<in> set (deliveries (drain cfg now lk send s))"
proof -
  have "d_id d \<notin> set (claimed_ids now lk (batchSize cfg) s)"
  proof
    assume "d_id d \<in> set (claimed_ids now lk (batchSize cfg) s)"
    then obtain e where e: "e \<in> set (deliveries s)" "d_id e = d_id d" "status e = Pending"
      using claimed_ids_rows by blast
    then have "e = d" using assms(1,2) by (auto simp: store_inv_def intro: same_delivery)
    with e assms(3) show False by simp
  qed
  moreover obtain g h where "drain cfg now lk send s =
      s\<lparr>deliveries := map g (deliveries s), incidents := map h (incidents s)\<rparr>"
    "\<And>d. d_id d \<notin> set (claimed_ids now lk (batchSize cfg) s) \<Longrightarrow> g d = d"
    using drain_touches [of now lk cfg s send] unfolding touches_def by blast
  ultimately show ?thesis using assms(2) by force
qed

lemma drain_frame:
  "checks (drain cfg now lk send s) = checks s" "channels (drain cfg now lk send s) = channels s"
  "pings (drain cfg now lk send s) = pings s" "next_id (drain cfg now lk send s) = next_id s"
  "projects (drain cfg now lk send s) = projects s"
  "delivery_key ` set (deliveries (drain cfg now lk send s)) = delivery_key ` set (deliveries s)"
  "map (\<lambda>i. (i_id i, i_check i, resolvedAt i)) (incidents (drain cfg now lk send s))
    = map (\<lambda>i. (i_id i, i_check i, resolvedAt i)) (incidents s)"
proof -
  obtain g h where gh: "drain cfg now lk send s =
      s\<lparr>deliveries := map g (deliveries s), incidents := map h (incidents s)\<rparr>"
    "\<And>d. delivery_key (g d) = delivery_key d"
    "\<And>i. i_id (h i) = i_id i \<and> i_check (h i) = i_check i \<and> resolvedAt (h i) = resolvedAt i"
    using drain_touches [of now lk cfg s send] unfolding touches_def by blast
  then show "checks (drain cfg now lk send s) = checks s" "channels (drain cfg now lk send s) = channels s"
    "pings (drain cfg now lk send s) = pings s" "next_id (drain cfg now lk send s) = next_id s"
    "projects (drain cfg now lk send s) = projects s"
    "delivery_key ` set (deliveries (drain cfg now lk send s)) = delivery_key ` set (deliveries s)"
    "map (\<lambda>i. (i_id i, i_check i, resolvedAt i)) (incidents (drain cfg now lk send s))
      = map (\<lambda>i. (i_id i, i_check i, resolvedAt i)) (incidents s)"
    by (simp_all add: image_image)
qed

text \<open>No recovery is announced for an outage nobody was told about.\<close>

definition recovery_inv :: "db \<Rightarrow> bool" where
  "recovery_inv s \<longleftrightarrow>
     (\<forall>d \<in> set (deliveries s). d_kind d = UpAlert \<longrightarrow> down_was_sent s (d_incident d))"

lemma recovery_inv_ENQUEUE:
  assumes "recovery_inv s"
  shows "recovery_inv (ENQUEUE_SQL t refs k s)"
proof -
  obtain new where new: "deliveries (ENQUEUE_SQL t refs k s) = deliveries s @ new"
    "\<forall>d \<in> set new. d_kind d = k \<and> (d_incident d, d_channel d) \<in> set (enqueue_targets refs k s)"
    using fold_insert_delivery_rows [of t k "enqueue_targets refs k s" s]
    unfolding ENQUEUE_SQL_def by blast
  have "down_was_sent s (fst x)" if "x \<in> set (enqueue_targets refs UpAlert s)" for x
    using that by (auto simp: enqueue_targets_def)
  then have "down_was_sent s (d_incident d)" if "d \<in> set new" "k = UpAlert" for d
    using new(2) that by force
  then show ?thesis
    using assms new by (auto simp: recovery_inv_def down_was_sent_enqueue)
qed

lemma recovery_inv_drain:
  assumes "store_inv s" "recovery_inv s"
  shows "recovery_inv (drain cfg now lk send s)"
  unfolding recovery_inv_def
proof (intro ballI impI)
  fix d assume d: "d \<in> set (deliveries (drain cfg now lk send s))" "d_kind d = UpAlert"
  then have "delivery_key d \<in> delivery_key ` set (deliveries s)"
    using drain_frame(6) [of cfg now lk send s] by blast
  then obtain e where e: "e \<in> set (deliveries s)" "d_incident e = d_incident d" "d_kind e = UpAlert"
    using d by (auto simp: delivery_key_def)
  then obtain f where f: "f \<in> set (deliveries s)" "d_incident f = d_incident d" "d_kind f = DownAlert" "status f = Sent"
    using assms(2) unfolding recovery_inv_def down_was_sent_def by metis
  then have "f \<in> set (deliveries (drain cfg now lk send s))"
    using drain_keeps_settled [OF assms(1)] by simp
  with f show "down_was_sent (drain cfg now lk send s) (d_incident d)"
    unfolding down_was_sent_def by blast
qed

section \<open>Failed attempts\<close>

definition failed_attempt :: "queue_config \<Rightarrow> millis \<Rightarrow> string \<Rightarrow> delivery \<Rightarrow> delivery" where
  "failed_attempt cfg now message d =
     d\<lparr>attempts := Suc (attempts d),
       status := (if maxAttempts cfg \<le> Suc (attempts d) then Failed else Pending),
       d_lastError := Some (take 500 message),
       nextAttemptAt := now + retry_delay (Suc (attempts d))\<rparr>"

definition retry_row :: "queue_config \<Rightarrow> millis \<Rightarrow> string \<Rightarrow> delivery \<Rightarrow> delivery" where
  "retry_row cfg now message d =
     d\<lparr>status := (if maxAttempts cfg \<le> attempts d then Failed else Pending),
       d_lastError := Some (take 500 message), nextAttemptAt := now + retry_delay (attempts d)\<rparr>"

lemma retry_row_idem [simp]: "retry_row cfg t m (retry_row cfg t m d) = retry_row cfg t m d"
  "d_id (retry_row cfg t m d) = d_id d"
  by (simp_all add: retry_row_def)

lemma update_where_again:
  assumes "\<And>d. f (f d) = f d" "\<And>d. g (f d) = g d"
  shows "update_where (\<lambda>d. g d = i) f (update_where (\<lambda>d. g d \<in> I) f rows)
    = update_where (\<lambda>d. g d \<in> insert i I) f rows"
  by (induction rows) (auto simp: assms)

lemma deliver_row_fails:
  "deliver_row (cfg\<lparr>ceiling := 0\<rparr>) now (\<lambda>_. Inl message) row p =
     p\<lparr>refusals := Suc (refusals p), pass_db := (pass_db p)\<lparr>deliveries :=
        update_where (\<lambda>d. d_id d = d_id (x_delivery row)) (retry_row cfg now message)
          (deliveries (pass_db p))\<rparr>\<rparr>"
  by (simp add: deliver_row_def Let_def RETRY_SQL_def on_delivery_def retry_row_def [abs_def])

lemma fold_retry:
  "fold (deliver_row (cfg\<lparr>ceiling := 0\<rparr>) now (\<lambda>_. Inl message)) rows p =
     p\<lparr>refusals := refusals p + length rows, pass_db := (pass_db p)\<lparr>deliveries :=
        update_where (\<lambda>d. d_id d \<in> (\<lambda>r. d_id (x_delivery r)) ` set rows)
          (retry_row cfg now message) (deliveries (pass_db p))\<rparr>\<rparr>"
proof (induction rows rule: rev_induct)
  case Nil
  then show ?case by (simp add: update_where_def)
next
  case (snoc row rows)
  let ?F = "deliver_row (cfg\<lparr>ceiling := 0\<rparr>) now (\<lambda>_. Inl message)"
  have "fold ?F (rows @ [row]) p = ?F row (fold ?F rows p)"
    by (simp only: fold_append fold_simps comp_apply)
  also have "\<dots> = ?F row (p\<lparr>refusals := refusals p + length rows, pass_db := (pass_db p)\<lparr>deliveries :=
        update_where (\<lambda>d. d_id d \<in> (\<lambda>r. d_id (x_delivery r)) ` set rows)
          (retry_row cfg now message) (deliveries (pass_db p))\<rparr>\<rparr>)"
    by (simp only: snoc.IH)
  also have "\<dots> = p\<lparr>refusals := refusals p + length (rows @ [row]), pass_db := (pass_db p)\<lparr>deliveries :=
        update_where (\<lambda>d. d_id d \<in> (\<lambda>r. d_id (x_delivery r)) ` set (rows @ [row]))
          (retry_row cfg now message) (deliveries (pass_db p))\<rparr>\<rparr>"
    using update_where_again [of "retry_row cfg now message" d_id "d_id (x_delivery row)"
        "(\<lambda>r. d_id (x_delivery r)) ` set rows" "deliveries (pass_db p)"]
    by (simp add: deliver_row_fails)
  finally show ?case .
qed

lemma drain_eq:
  "drain cfg now lk send s =
     (let ids = claimed_ids now lk (batchSize cfg) s; s1 = snd (CLAIM_SQL now lk (batchSize cfg) s)
      in if ids = [] then s1
         else finish_pass now (fold (deliver_row cfg now send) (CONTEXT_SQL ids s1)
           \<lparr>delivered = [], sent_now = (if ceiling cfg = 0 then (\<lambda>_. 0) else SENT_LAST_HOUR now s1),
            refusals = 0, pass_db = s1\<rparr>))"
  by (simp add: drain_unfold CLAIM_SQL_def Let_def)

definition has_context :: "db \<Rightarrow> delivery \<Rightarrow> bool" where
  "has_context s d \<longleftrightarrow>
     (\<exists>ch \<in> set (channels s). ch_id ch = d_channel d) \<and>
     (\<exists>i \<in> set (incidents s). i_id i = d_incident d \<and>
        (\<exists>c \<in> set (checks s). c_id c = i_check i \<and> (\<exists>p \<in> set (projects s). pr_id p = projectId c)))"

lemma CONTEXT_SQL_ids:
  "(\<lambda>r. d_id (x_delivery r)) ` set (CONTEXT_SQL ids s)
     = d_id ` {d \<in> set (deliveries s). d_id d \<in> set ids \<and> has_context s d}"
  by (force simp: CONTEXT_SQL_def has_context_def image_iff)


definition sample_alerting :: db where
  "sample_alerting = empty_db\<lparr>
     checks := [\<lparr>scheduleType = Interval, periodSeconds = Some 60, cronExpression = None,
        timezone = ''UTC'', c_id = 1, projectId = 2, c_name = ''backup'', slug = ''backup'', key = None,
        pingKey = ''k'', pingKeyRotatedAt = None, graceSeconds = 30, state = DOWN, pausedReason = None,
        lastPingAt = None, lastStartedAt = None, lastDurationMs = None, nextDueAt = Some 0,
        source = Manual, environment = None, tags = [], description = None, orphanedAt = None,
        c_createdAt = 0, c_updatedAt = 0\<rparr>],
     incidents := [\<lparr>i_id = 3, i_check = 1, startedAt = 0, resolvedAt = None, notificationsSent = 0,
        cause = Missed\<rparr>],
     channels := [\<lparr>ch_id = 4, ch_project = 2, ch_type = Email, ch_name = ''ops'', config = JNull,
        enabled = True, lastTestedAt = None, ch_createdAt = 0\<rparr>],
     projects := [\<lparr>pr_id = 2, pr_name = ''p'', pr_slug = ''p'', pingRetentionDays = None, pr_createdAt = 0\<rparr>],
     deliveries := [sample_delivery], next_id := 6\<rparr>"

lemma sample_alerting_inv [simp]: "store_inv sample_alerting"
  by (simp add: store_inv_defs sample_alerting_def sample_delivery_def empty_db_def is_open_def)

lemma sample_context: "has_context sample_alerting sample_delivery"
  by (simp add: has_context_def sample_alerting_def sample_delivery_def)

lemma sample_claimed: "d_id sample_delivery \<in> set (claimed_ids 1000 (\<lambda>_. False) 50 sample_alerting)"
  by (simp add: claimed_ids_def select_batch_def claimable_def sample_alerting_def sample_delivery_def)


section \<open>The ceiling of a channel\<close>

definition fresh_sent :: "millis \<Rightarrow> uuid \<Rightarrow> delivery \<Rightarrow> bool" where
  "fresh_sent now ch d \<longleftrightarrow> d_channel d = ch \<and> status d = Sent
     \<and> (case sentAt d of None \<Rightarrow> False | Some t \<Rightarrow> now - 3600000 < t)"

lemma SENT_LAST_HOUR_count: "SENT_LAST_HOUR now s ch = length (filter (fresh_sent now ch) (deliveries s))"
  by (simp add: SENT_LAST_HOUR_def fresh_sent_def [abs_def])

lemma count_map_le:
  "(\<And>d. fresh_sent now ch (g d) \<Longrightarrow> fresh_sent now ch d) \<Longrightarrow>
     length (filter (fresh_sent now ch \<circ> g) ds) \<le> length (filter (fresh_sent now ch) ds)"
  by (induction ds) auto

lemma SENT_RETRY: "SENT_LAST_HOUR now (RETRY_SQL t i n m s) ch \<le> SENT_LAST_HOUR now s ch"
  unfolding SENT_LAST_HOUR_count RETRY_SQL_def on_delivery_def update_where_def
  by (simp add: filter_map) (rule count_map_le, auto simp: fresh_sent_def split: if_splits)

lemma SENT_REFUSE: "SENT_LAST_HOUR now (REFUSE_SQL i m s) ch \<le> SENT_LAST_HOUR now s ch"
  unfolding SENT_LAST_HOUR_count REFUSE_SQL_def on_delivery_def update_where_def
  by (simp add: filter_map) (rule count_map_le, auto simp: fresh_sent_def split: if_splits)

lemma SENT_CLAIM: "SENT_LAST_HOUR now (snd (CLAIM_SQL t lk n s)) ch = SENT_LAST_HOUR now s ch"
proof -
  have "length (filter (fresh_sent now ch) (update_where p (\<lambda>d. d\<lparr>attempts := Suc (attempts d),
      nextAttemptAt := t + CLAIM_LEASE\<rparr>) ds)) = length (filter (fresh_sent now ch) ds)" for p ds
    by (induction ds) (auto simp: fresh_sent_def)
  then show ?thesis by (simp add: SENT_LAST_HOUR_count CLAIM_rows)
qed

text \<open>Marking rows adds, for a channel, at most as many as were delivered to it.\<close>

lemma card_filter_ids:
  assumes "distinct (map d_id ds)" "\<And>d. d \<in> set ds \<Longrightarrow> d_id d \<in> set ids \<Longrightarrow> chan (d_id d) = d_channel d"
  shows "length (filter (\<lambda>d. d_id d \<in> set ids \<and> d_channel d = ch) ds)
    \<le> length (filter (\<lambda>i. chan i = ch) ids)"
proof -
  let ?F = "filter (\<lambda>d. d_id d \<in> set ids \<and> d_channel d = ch) ds"
  have "distinct (map d_id ?F)" using assms(1) by (simp add: distinct_map_filter)
  then have "length ?F = card (set (map d_id ?F))" by (simp only: distinct_card length_map)
  also have "\<dots> \<le> card (set (filter (\<lambda>i. chan i = ch) ids))"
    by (intro card_mono) (use assms(2) in auto)
  also have "\<dots> \<le> length (filter (\<lambda>i. chan i = ch) ids)" by (rule card_length)
  finally show ?thesis .
qed

lemma SENT_MARK:
  assumes "distinct (map d_id (deliveries s))"
    and "\<And>d. d \<in> set (deliveries s) \<Longrightarrow> d_id d \<in> set ids \<Longrightarrow> chan (d_id d) = d_channel d"
  shows "SENT_LAST_HOUR now (MARK_SENT_SQL t ids s) ch
    \<le> SENT_LAST_HOUR now s ch + length (filter (\<lambda>i. chan i = ch) ids)"
proof -
  have "length (filter (fresh_sent now ch) (update_where (\<lambda>d. d_id d \<in> set ids)
      (\<lambda>d. d\<lparr>status := Sent, sentAt := Some t, d_lastError := None\<rparr>) ds))
    \<le> length (filter (fresh_sent now ch) ds) + length (filter (\<lambda>d. d_id d \<in> set ids \<and> d_channel d = ch) ds)" for ds
    by (induction ds) (auto simp: fresh_sent_def)
  also have "length (filter (\<lambda>d. d_id d \<in> set ids \<and> d_channel d = ch) (deliveries s))
      \<le> length (filter (\<lambda>i. chan i = ch) ids)"
    by (rule card_filter_ids) (use assms in auto)
  finally show ?thesis by (simp add: SENT_LAST_HOUR_count MARK_SENT_SQL_def)
qed

definition pass_bound :: "queue_config \<Rightarrow> (uuid \<Rightarrow> uuid) \<Rightarrow> (uuid \<Rightarrow> nat) \<Rightarrow> pass \<Rightarrow> bool" where
  "pass_bound cfg chan start p \<longleftrightarrow>
     (\<forall>ch. sent_now p ch = start ch + length (filter (\<lambda>i. chan i = ch) (delivered p))
        \<and> start ch + length (filter (\<lambda>i. chan i = ch) (delivered p)) \<le> max (ceiling cfg) (start ch))"

lemma deliver_row_bound:
  assumes "pass_bound cfg chan start p" "0 < ceiling cfg"
    and "chan (d_id (x_delivery row)) = ch_id (x_channel row)"
  shows "pass_bound cfg chan start (deliver_row cfg now send row p)"
  using assms by (auto simp: pass_bound_def deliver_row_def Let_def split: sum.splits)

lemma fold_deliver_row_bound:
  "pass_bound cfg chan start p \<Longrightarrow> 0 < ceiling cfg \<Longrightarrow>
    (\<forall>row \<in> set rows. chan (d_id (x_delivery row)) = ch_id (x_channel row)) \<Longrightarrow>
    pass_bound cfg chan start (fold (deliver_row cfg now send) rows p)"
  by (induction rows arbitrary: p) (auto intro: deliver_row_bound)

lemma fold_deliver_row_sent:
  "SENT_LAST_HOUR t (pass_db (fold (deliver_row cfg now send) rows p)) ch \<le> SENT_LAST_HOUR t (pass_db p) ch"
proof (induction rows arbitrary: p)
  case (Cons row rows)
  have "SENT_LAST_HOUR t (pass_db (deliver_row cfg now send row p)) ch \<le> SENT_LAST_HOUR t (pass_db p) ch"
    using SENT_RETRY SENT_REFUSE by (auto simp: deliver_row_def Let_def split: sum.splits)
  with Cons.IH [of "deliver_row cfg now send row p"] show ?case by (simp add: le_trans)
qed simp

lemma SENT_COUNT_SENT [simp]: "SENT_LAST_HOUR t (COUNT_SENT_SQL ids s) ch = SENT_LAST_HOUR t s ch"
  by (simp add: SENT_LAST_HOUR_def COUNT_SENT_SQL_def)

text \<open>
  C10. A delivery pass never takes a channel over its ceiling of alerts in the last
  hour: whatever is queued, the number sent stays at most the ceiling, or at what it was
  if it was already above.
\<close>

theorem channel_ceiling_respected:
  assumes "store_inv s" and "0 < ceiling cfg"
  shows "SENT_LAST_HOUR now (drain cfg now lk send s) ch
    \<le> max (ceiling cfg) (SENT_LAST_HOUR now s ch)"
proof -
  define ids where "ids = claimed_ids now lk (batchSize cfg) s"
  define s1 where "s1 = snd (CLAIM_SQL now lk (batchSize cfg) s)"
  have c: "CLAIM_SQL now lk (batchSize cfg) s = (ids, s1)"
    by (simp add: ids_def s1_def CLAIM_SQL_def Let_def)
  have inv1: "store_inv s1"
    using store_inv_touches [OF touches_CLAIM assms(1)] by (simp add: s1_def)
  have sent1: "SENT_LAST_HOUR now s1 ch = SENT_LAST_HOUR now s ch" for ch
    by (simp add: s1_def SENT_CLAIM)
  define chan where "chan i = (case find (\<lambda>d. d_id d = i) (deliveries s1) of None \<Rightarrow> 0 | Some d \<Rightarrow> d_channel d)" for i
  have chan: "chan (d_id d) = d_channel d" if "d \<in> set (deliveries s1)" for d
    using find_unique [of d_id "deliveries s1" d] inv1 that by (simp add: chan_def store_inv_defs)
  define p0 where "p0 = \<lparr>delivered = [], sent_now = SENT_LAST_HOUR now s1, refusals = 0, pass_db = s1\<rparr>"
  define p where "p = fold (deliver_row cfg now send) (CONTEXT_SQL ids s1) p0"
  have rows: "\<forall>row \<in> set (CONTEXT_SQL ids s1). chan (d_id (x_delivery row)) = ch_id (x_channel row)"
    using CONTEXT_SQL_rows [of _ ids s1] chan by metis
  have "pass_bound cfg chan (SENT_LAST_HOUR now s1) p0" by (simp add: pass_bound_def p0_def)
  then have b: "pass_bound cfg chan (SENT_LAST_HOUR now s1) p"
    unfolding p_def by (rule fold_deliver_row_bound [OF _ assms(2) rows])
  have t: "touches (set ids) s1 (pass_db p) \<and> set (delivered p) \<subseteq> set ids"
    using fold_deliver_row_touches [of "CONTEXT_SQL ids s1" "set ids" p0] CONTEXT_SQL_rows [of _ ids s1]
    by (auto simp: p_def p0_def)
  then have invp: "store_inv (pass_db p)" using store_inv_touches inv1 by blast
  have chanp: "chan (d_id d) = d_channel d" if "d \<in> set (deliveries (pass_db p))" for d
  proof -
    obtain g where g: "set (deliveries (pass_db p)) = g ` set (deliveries s1)"
      "\<And>d. d_id (g d) = d_id d \<and> delivery_key (g d) = delivery_key d"
      using t unfolding touches_def by auto
    with that obtain e where "e \<in> set (deliveries s1)" "d = g e" by auto
    then have "d_id d = d_id e" "d_channel d = d_channel e"
      using g(2) [of e] by (simp_all add: delivery_key_def)
    with chan \<open>e \<in> set (deliveries s1)\<close> show ?thesis by simp
  qed
  have sentp: "SENT_LAST_HOUR now (pass_db p) ch \<le> SENT_LAST_HOUR now s1 ch"
    using fold_deliver_row_sent [of now cfg now send "CONTEXT_SQL ids s1" p0 ch]
    by (simp add: p_def p0_def)
  have "SENT_LAST_HOUR now (finish_pass now p) ch \<le> max (ceiling cfg) (SENT_LAST_HOUR now s1 ch)"
  proof (cases "delivered p = []")
    case False
    have "SENT_LAST_HOUR now (MARK_SENT_SQL now (delivered p) (pass_db p)) ch
        \<le> SENT_LAST_HOUR now (pass_db p) ch + length (filter (\<lambda>i. chan i = ch) (delivered p))"
      by (rule SENT_MARK) (use invp chanp in \<open>auto simp: store_inv_defs\<close>)
    with sentp b False show ?thesis
      unfolding pass_bound_def finish_pass_def by (auto dest!: spec [of _ ch])
  qed (use sentp in \<open>simp add: finish_pass_def\<close>)
  moreover have "drain cfg now lk send s = (if ids = [] then s1 else finish_pass now p)"
    using assms(2) by (simp add: drain_unfold c p_def p0_def)
  ultimately show ?thesis using sent1 by (simp split: if_splits)
qed

theorem channel_ceiling_respected_witness:
  "SENT_LAST_HOUR 1000 (drain \<lparr>batchSize = 50, maxAttempts = 5, ceiling = 1\<rparr> 1000 (\<lambda>_. False)
     (\<lambda>_. Inr ()) sample_alerting) 4 \<le> max 1 (SENT_LAST_HOUR 1000 sample_alerting 4)"
  using channel_ceiling_respected [of sample_alerting "\<lparr>batchSize = 50, maxAttempts = 5, ceiling = 1\<rparr>"]
  by simp

end
