(* ===== verification/Detection.thy ===== *)
theory Detection
  imports Notifications
begin

text \<open>
  Silence detection: \<^verbatim>\<open>packages/server/src/detection/detection.service.ts\<close>. One definition
  per statement; each statement runs in its own transaction, so the instant it sees and the
  rows other transactions hold locked are given per statement. Where a statement has no
  \<open>ORDER BY\<close>, its \<open>LIMIT\<close> takes rows in the order of the table.
\<close>

section \<open>The statements\<close>

definition deadline :: "check \<Rightarrow> millis option" where
  "deadline c = map_option (\<lambda>due. due + graceSeconds c * 1000) (nextDueAt c)"

definition grace_spent :: "millis \<Rightarrow> check \<Rightarrow> bool" where
  "grace_spent now c \<longleftrightarrow> (case deadline c of None \<Rightarrow> False | Some t \<Rightarrow> t \<le> now)"

definition overdue :: "millis \<Rightarrow> check \<Rightarrow> bool" where
  "overdue now c \<longleftrightarrow> (case nextDueAt c of None \<Rightarrow> False | Some due \<Rightarrow> due < now)
     \<and> state c \<in> {UP, NEW, LATE} \<and> (state c \<noteq> LATE \<or> grace_spent now c)"

definition next_state :: "millis \<Rightarrow> check \<Rightarrow> check_state" where
  "next_state now c = (if grace_spent now c then DOWN else LATE)"

definition due_key :: "check \<Rightarrow> millis" where
  "due_key c = (case nextDueAt c of None \<Rightarrow> 0 | Some due \<Rightarrow> due)"

definition due_ids :: "millis \<Rightarrow> (uuid \<Rightarrow> bool) \<Rightarrow> nat \<Rightarrow> db \<Rightarrow> uuid list" where
  "due_ids now locked n s =
     map c_id (select_batch (\<lambda>c. overdue now c \<and> \<not> locked (c_id c)) due_key n (checks s))"

definition transition :: "millis \<Rightarrow> check \<Rightarrow> check" where
  "transition now c = c\<lparr>state := next_state now c, c_updatedAt := now\<rparr>"

text \<open>The rows returned carry the new state.\<close>

definition ADVANCE_SQL :: "millis \<Rightarrow> (uuid \<Rightarrow> bool) \<Rightarrow> nat \<Rightarrow> db \<Rightarrow> check_state list \<times> db" where
  "ADVANCE_SQL now locked n s =
     (let ids = due_ids now locked n s;
          hits = (\<lambda>c. c_id c \<in> set ids \<and> state c \<noteq> next_state now c)
      in (map (next_state now) (filter hits (checks s)),
          s\<lparr>checks := update_where hits (transition now) (checks s)\<rparr>))"

definition last_ping :: "db \<Rightarrow> uuid \<Rightarrow> ping option" where
  "last_ping s i =
     (case sort_key (\<lambda>p. - receivedAt p) (rev (filter (\<lambda>p. p_check p = i) (pings s))) of
        [] \<Rightarrow> None | p # _ \<Rightarrow> Some p)"

definition classify :: "db \<Rightarrow> uuid \<Rightarrow> incident_cause" where
  "classify s i =
     (case last_ping s i of
        None \<Rightarrow> Missed | Some p \<Rightarrow> if p_kind p = FailPing then Reported else Missed)"

definition incident_candidates :: "(uuid \<Rightarrow> bool) \<Rightarrow> nat \<Rightarrow> db \<Rightarrow> uuid list" where
  "incident_candidates locked n s =
     take n (map c_id (filter (\<lambda>c. state c = DOWN \<and> \<not> open_incident s (c_id c) \<and> \<not> locked (c_id c))
       (checks s)))"

text \<open>\<open>ON CONFLICT DO NOTHING\<close> on the index of open incidents.\<close>

definition insert_incident :: "millis \<Rightarrow> uuid \<times> incident_cause \<Rightarrow>
    incident_ref list \<times> db \<Rightarrow> incident_ref list \<times> db" where
  "insert_incident now row acc =
     (let (refs, s) = acc
      in if open_incident s (fst row) then (refs, s)
         else (refs @ [(next_id s, fst row)],
               s\<lparr>incidents := incidents s @ [\<lparr>i_id = next_id s, i_check = fst row, startedAt = now,
                    resolvedAt = None, notificationsSent = 0, cause = snd row\<rparr>],
                 next_id := Suc (next_id s)\<rparr>))"

definition OPEN_INCIDENTS_SQL :: "millis \<Rightarrow> (uuid \<Rightarrow> bool) \<Rightarrow> nat \<Rightarrow> db \<Rightarrow> incident_ref list \<times> db" where
  "OPEN_INCIDENTS_SQL now locked n s =
     fold (insert_incident now)
       (map (\<lambda>i. (i, classify s i)) (incident_candidates locked n s)) ([], s)"

definition resolvable :: "db \<Rightarrow> incident \<Rightarrow> bool" where
  "resolvable s i \<longleftrightarrow> is_open i
     \<and> (\<exists>c \<in> set (checks s). c_id c = i_check i \<and> state c \<in> {UP, PAUSED})"

definition RESOLVE_INCIDENTS_SQL :: "millis \<Rightarrow> (uuid \<Rightarrow> bool) \<Rightarrow> nat \<Rightarrow> db \<Rightarrow> incident_ref list \<times> db" where
  "RESOLVE_INCIDENTS_SQL now locked n s =
     (let rows = take n (filter (\<lambda>i. resolvable s i \<and> \<not> locked (i_id i)) (incidents s));
          ids = map i_id rows
      in (map (\<lambda>i. (i_id i, i_check i)) rows,
          s\<lparr>incidents := update_where (\<lambda>i. i_id i \<in> set ids) (\<lambda>i. i\<lparr>resolvedAt := Some now\<rparr>)
             (incidents s)\<rparr>))"

section \<open>A tick\<close>

record detector =
  det_db :: db
  wentLate :: nat
  wentDown :: nat
  recovered :: nat

text \<open>
  The instant and the locks of the n-th statement of a tick: batches of the first statement
  are 0 to 24, then come the opening (25) and the resolving (26) of incidents.
\<close>

record tick_env =
  clock :: "nat \<Rightarrow> millis"
  locks :: "nat \<Rightarrow> uuid \<Rightarrow> bool"
  batch_size :: nat

definition maxBatches :: nat where "maxBatches = 25"

definition advance_batch :: "tick_env \<Rightarrow> nat \<Rightarrow> detector \<Rightarrow> nat \<times> detector" where
  "advance_batch env b st =
     (let (rows, s) = ADVANCE_SQL (clock env b) (locks env b) (batch_size env) (det_db st)
      in (length rows,
          st\<lparr>det_db := s,
             wentDown := wentDown st + length (filter (\<lambda>x. x = DOWN) rows),
             wentLate := wentLate st + length (filter (\<lambda>x. x \<noteq> DOWN) rows)\<rparr>))"

text \<open>\<open>left\<close> batches may still run.\<close>

fun advance_loop :: "tick_env \<Rightarrow> nat \<Rightarrow> nat \<Rightarrow> detector \<Rightarrow> detector" where
  "advance_loop env 0 b st = st"
| "advance_loop env (Suc left) b st =
     (let (rows, st') = advance_batch env b st
      in if rows < batch_size env then st' else advance_loop env left (Suc b) st')"

definition advanceOverdueChecks :: "tick_env \<Rightarrow> detector \<Rightarrow> detector" where
  "advanceOverdueChecks env st = advance_loop env maxBatches 0 st"

text \<open>
  Claiming incidents and announcing them are two transactions; \<open>claimOpened\<close> is the state
  between them, which is what a crash leaves.
\<close>

definition claimOpened :: "tick_env \<Rightarrow> detector \<Rightarrow> incident_ref list \<times> detector" where
  "claimOpened env st =
     (let (refs, s) = OPEN_INCIDENTS_SQL (clock env 25) (locks env 25) (batch_size env) (det_db st)
      in (refs, st\<lparr>det_db := s\<rparr>))"

definition openIncidents :: "tick_env \<Rightarrow> detector \<Rightarrow> detector" where
  "openIncidents env st =
     (let (opened, st') = claimOpened env st
      in if opened = [] then st'
         else st'\<lparr>det_db := snd (enqueue (clock env 25) opened DownAlert (det_db st'))\<rparr>)"

definition claimResolved :: "tick_env \<Rightarrow> detector \<Rightarrow> incident_ref list \<times> detector" where
  "claimResolved env st =
     (let (refs, s) = RESOLVE_INCIDENTS_SQL (clock env 26) (locks env 26) (batch_size env) (det_db st)
      in (refs, st\<lparr>det_db := s\<rparr>))"

definition resolveIncidents :: "tick_env \<Rightarrow> detector \<Rightarrow> detector" where
  "resolveIncidents env st =
     (let (resolved, st') = claimResolved env st
      in if resolved = [] then st'
         else st'\<lparr>recovered := recovered st' + length resolved,
                  det_db := snd (enqueue (clock env 26) resolved UpAlert (det_db st'))\<rparr>)"

definition tick :: "tick_env \<Rightarrow> detector \<Rightarrow> detector" where
  "tick env st = resolveIncidents env (openIncidents env (advanceOverdueChecks env st))"

section \<open>Advancing\<close>

lemma overdue_next_state: "overdue now c \<Longrightarrow> state c \<noteq> next_state now c"
  by (auto simp: overdue_def next_state_def)

lemma transition_simps [simp]:
  "c_id (transition now c) = c_id c" "pingKey (transition now c) = pingKey c"
  "state (transition now c) = next_state now c" "nextDueAt (transition now c) = nextDueAt c"
  "graceSeconds (transition now c) = graceSeconds c" "projectId (transition now c) = projectId c"
  by (simp_all add: transition_def)

lemma transition_not_overdue: "overdue now c \<Longrightarrow> \<not> overdue now (transition now c)"
  by (auto simp: overdue_def next_state_def grace_spent_def deadline_def transition_def)

lemma due_ids_row:
  assumes "checks_ok s" "c \<in> set (checks s)"
  shows "c_id c \<in> set (due_ids now lk n s) \<longleftrightarrow>
    c \<in> set (select_batch (\<lambda>c. overdue now c \<and> \<not> lk (c_id c)) due_key n (checks s))"
proof -
  have "d = c" if "d \<in> set (select_batch (\<lambda>c. overdue now c \<and> \<not> lk (c_id c)) due_key n (checks s))"
      "c_id d = c_id c" for d
    using that select_batch_subset [of _ due_key n "checks s"] same_check [OF assms(1) _ assms(2)]
    by blast
  then show ?thesis by (auto simp: due_ids_def)
qed

lemma due_ids_overdue:
  assumes "checks_ok s" "c \<in> set (checks s)" "c_id c \<in> set (due_ids now lk n s)"
  shows "overdue now c \<and> \<not> lk (c_id c)"
  using assms due_ids_row [OF assms(1,2)]
    select_batch_subset [of "\<lambda>c. overdue now c \<and> \<not> lk (c_id c)" due_key n "checks s"] by blast

text \<open>Every selected row transitions: the guard on the state is redundant.\<close>

lemma ADVANCE_hits:
  assumes "checks_ok s" "c \<in> set (checks s)"
  shows "(c_id c \<in> set (due_ids now lk n s) \<and> state c \<noteq> next_state now c)
    = (c_id c \<in> set (due_ids now lk n s))"
  using due_ids_overdue [OF assms] overdue_next_state by blast

lemma ADVANCE_checks:
  assumes "checks_ok s"
  shows "checks (snd (ADVANCE_SQL now lk n s)) =
    map (\<lambda>c. if c_id c \<in> set (due_ids now lk n s) then transition now c else c) (checks s)"
  using ADVANCE_hits [OF assms] by (auto simp: ADVANCE_SQL_def Let_def update_where_def)

lemma ADVANCE_frame [simp]:
  "pings (snd (ADVANCE_SQL now lk n s)) = pings s" "incidents (snd (ADVANCE_SQL now lk n s)) = incidents s"
  "deliveries (snd (ADVANCE_SQL now lk n s)) = deliveries s"
  "channels (snd (ADVANCE_SQL now lk n s)) = channels s"
  "next_id (snd (ADVANCE_SQL now lk n s)) = next_id s"
  by (simp_all add: ADVANCE_SQL_def Let_def)

lemma store_inv_ADVANCE: "store_inv s \<Longrightarrow> store_inv (snd (ADVANCE_SQL now lk n s))"
  unfolding ADVANCE_SQL_def Let_def snd_conv
  by (rule store_inv_update_checks) (simp_all add: keeps_identity_def)

text \<open>The number of rows a batch reports is the number it selected.\<close>

lemma ADVANCE_rows:
  assumes "checks_ok s"
  shows "length (fst (ADVANCE_SQL now lk n s))
    = min n (length (filter (\<lambda>c. overdue now c \<and> \<not> lk (c_id c)) (checks s)))"
proof -
  let ?b = "select_batch (\<lambda>c. overdue now c \<and> \<not> lk (c_id c)) due_key n (checks s)"
  have d: "distinct (map c_id (checks s))" using assms by (simp add: checks_ok_def)
  have "filter (\<lambda>c. c_id c \<in> set (due_ids now lk n s) \<and> state c \<noteq> next_state now c) (checks s)
      = filter (\<lambda>c. c \<in> set ?b) (checks s)"
    using ADVANCE_hits [OF assms] due_ids_row [OF assms] by (intro filter_cong) auto
  moreover have "length (filter (\<lambda>c. c \<in> set ?b) (checks s)) = length ?b"
    using select_batch_subset [of _ due_key n "checks s"]
    by (intro filter_mem_length distinct_mapD [OF d] distinct_mapD [OF distinct_select_batch [OF d]]) blast
  ultimately show ?thesis by (simp add: ADVANCE_SQL_def Let_def)
qed

section \<open>Batches drain the backlog\<close>

definition backlog :: "millis \<Rightarrow> db \<Rightarrow> nat" where
  "backlog now s = length (filter (overdue now) (checks s))"

lemma ADVANCE_remaining:
  assumes "checks_ok s"
  shows "backlog now (snd (ADVANCE_SQL now (\<lambda>_. False) n s)) = backlog now s - n"
proof -
  let ?in = "\<lambda>c. c_id c \<in> set (due_ids now (\<lambda>_. False) n s)"
  have "length (filter (overdue now) (map (\<lambda>c. if ?in c then transition now c else c) (checks s)))
      = length (filter (\<lambda>c. overdue now c \<and> \<not> ?in c) (checks s))"
  proof -
    have "(overdue now (if ?in c then transition now c else c)) = (overdue now c \<and> \<not> ?in c)"
      if "c \<in> set (checks s)" for c
      using due_ids_overdue [OF assms that, of now "\<lambda>_. False" n] transition_not_overdue by auto
    then have "filter (overdue now \<circ> (\<lambda>c. if ?in c then transition now c else c)) (checks s)
        = filter (\<lambda>c. overdue now c \<and> \<not> ?in c) (checks s)"
      by (intro filter_cong) auto
    then show ?thesis by (simp add: filter_map)
  qed
  moreover have "length (filter (\<lambda>c. overdue now c \<and> ?in c) (checks s)) = min n (backlog now s)"
  proof -
    have "filter (\<lambda>c. overdue now c \<and> ?in c) (checks s)
        = filter (\<lambda>c. ?in c \<and> state c \<noteq> next_state now c) (checks s)"
      using ADVANCE_hits [OF assms] due_ids_overdue [OF assms] by (intro filter_cong) auto
    then show ?thesis
      using ADVANCE_rows [OF assms, of now "\<lambda>_. False" n]
      by (simp add: ADVANCE_SQL_def Let_def backlog_def)
  qed
  ultimately show ?thesis
    using filter_split_length [of "overdue now" "checks s" ?in]
    by (simp add: backlog_def ADVANCE_checks [OF assms])
qed

definition quiet :: "tick_env \<Rightarrow> millis \<Rightarrow> bool" where
  "quiet env t \<longleftrightarrow> clock env = (\<lambda>_. t) \<and> locks env = (\<lambda>_ _. False)"

lemma advance_batch_db:
  "det_db (snd (advance_batch env b st))
    = snd (ADVANCE_SQL (clock env b) (locks env b) (batch_size env) (det_db st))"
  "fst (advance_batch env b st)
    = length (fst (ADVANCE_SQL (clock env b) (locks env b) (batch_size env) (det_db st)))"
  by (simp_all add: advance_batch_def split: prod.splits)

lemma advance_loop_backlog:
  "quiet env t \<Longrightarrow> store_inv (det_db st) \<Longrightarrow>
     backlog t (det_db (advance_loop env left b st)) = backlog t (det_db st) - left * batch_size env"
proof (induction left arbitrary: b st)
  case (Suc left)
  let ?st' = "snd (advance_batch env b st)"
  have ok: "checks_ok (det_db st)" using Suc.prems(2) by (simp add: store_inv_def)
  have q: "clock env b = t" "locks env b = (\<lambda>_. False)" using Suc.prems(1) by (simp_all add: quiet_def)
  have inv': "store_inv (det_db ?st')"
    using store_inv_ADVANCE [OF Suc.prems(2)] by (simp add: advance_batch_db)
  have rem: "backlog t (det_db ?st') = backlog t (det_db st) - batch_size env"
    using ADVANCE_remaining [OF ok] by (simp add: advance_batch_db q)
  have rows: "fst (advance_batch env b st) = min (batch_size env) (backlog t (det_db st))"
    using ADVANCE_rows [OF ok] by (simp add: advance_batch_db q backlog_def)
  show ?case
    using Suc.IH [OF Suc.prems(1) inv', of "Suc b"] rem rows
    by (simp add: split_beta Let_def)
qed simp

text \<open>
  C12. One tick works off up to 25 batches of overdue checks: with nothing locked and
  the clock standing, exactly that many fewer are left, so a tick after which any is left
  has moved 25 full batches. No batch selects a row it cannot move.
\<close>

theorem backlog_drained:
  assumes "store_inv (det_db st)" and "clock env = (\<lambda>_. t)" and "locks env = (\<lambda>_ _. False)"
  shows "backlog t (det_db (advanceOverdueChecks env st))
    = backlog t (det_db st) - 25 * batch_size env"
  using advance_loop_backlog [of env t st maxBatches 0] assms
  by (simp add: advanceOverdueChecks_def maxBatches_def quiet_def)

section \<open>Who is moved\<close>

text \<open>What the batches of one tick may do to a check.\<close>

definition advanced :: "tick_env \<Rightarrow> check \<Rightarrow> check \<Rightarrow> bool" where
  "advanced env c c' \<longleftrightarrow>
     c' = c\<lparr>state := state c', c_updatedAt := c_updatedAt c'\<rparr>
     \<and> (c' = c
        \<or> state c \<in> {UP, NEW, LATE}
          \<and> (\<exists>b due. nextDueAt c = Some due \<and> due < clock env b
               \<and> (state c' = LATE \<or> state c' = DOWN \<and> grace_spent (clock env b) c)))"

lemma advanced_refl: "advanced env c c"
  by (simp add: advanced_def)

lemma advanced_fields:
  assumes "advanced env c d"
  shows "nextDueAt d = nextDueAt c" "graceSeconds d = graceSeconds c" "c_id d = c_id c"
    "projectId d = projectId c" "pingKey d = pingKey c"
proof -
  have e: "d = c\<lparr>state := state d, c_updatedAt := c_updatedAt d\<rparr>"
    using assms unfolding advanced_def by blast
  show "nextDueAt d = nextDueAt c" "graceSeconds d = graceSeconds c" "c_id d = c_id c"
    "projectId d = projectId c" "pingKey d = pingKey c"
    using arg_cong [OF e, of nextDueAt] arg_cong [OF e, of graceSeconds] arg_cong [OF e, of c_id]
      arg_cong [OF e, of projectId] arg_cong [OF e, of pingKey] by simp_all
qed

lemma grace_spent_cong:
  "nextDueAt c = nextDueAt d \<Longrightarrow> graceSeconds c = graceSeconds d \<Longrightarrow> grace_spent t c = grace_spent t d"
  by (simp add: grace_spent_def deadline_def)

lemma advanced_transition:
  assumes "advanced env c d" "overdue (clock env b) d"
  shows "advanced env c (transition (clock env b) d)"
proof -
  have same: "nextDueAt c = nextDueAt d" "graceSeconds c = graceSeconds d"
    using advanced_fields [OF assms(1)] by simp_all
  have st: "state c \<in> {UP, NEW, LATE}"
    using assms by (auto simp: advanced_def overdue_def)
  obtain due where due: "nextDueAt d = Some due" "due < clock env b"
    using assms(2) by (auto simp: overdue_def split: option.splits)
  have "transition (clock env b) d = c\<lparr>state := next_state (clock env b) d, c_updatedAt := clock env b\<rparr>"
  proof -
    have "d = c\<lparr>state := state d, c_updatedAt := c_updatedAt d\<rparr>"
      using assms(1) unfolding advanced_def by blast
    then have "transition (clock env b) d =
        (c\<lparr>state := state d, c_updatedAt := c_updatedAt d\<rparr>)
          \<lparr>state := next_state (clock env b) d, c_updatedAt := clock env b\<rparr>"
      by (simp add: transition_def)
    then show ?thesis by simp
  qed
  then show ?thesis
    using st due same grace_spent_cong [of c d "clock env b"]
    unfolding advanced_def by (auto simp: next_state_def)
qed

lemma advance_loop_advanced:
  "store_inv (det_db st) \<Longrightarrow>
    list_all2 (advanced env) cs (checks (det_db st)) \<Longrightarrow>
    list_all2 (advanced env) cs (checks (det_db (advance_loop env left b st)))
    \<and> store_inv (det_db (advance_loop env left b st))"
proof (induction left arbitrary: b st)
  case (Suc left)
  let ?st' = "snd (advance_batch env b st)"
  have ok: "checks_ok (det_db st)" using Suc.prems(1) by (simp add: store_inv_def)
  have inv': "store_inv (det_db ?st')"
    using store_inv_ADVANCE [OF Suc.prems(1)] by (simp add: advance_batch_db)
  have "list_all2 (advanced env) cs (checks (det_db ?st'))"
    unfolding advance_batch_db ADVANCE_checks [OF ok]
    using Suc.prems(2) due_ids_overdue [OF ok] advanced_transition
    by (auto simp: list_all2_conv_all_nth)
  with Suc.IH [OF inv'] inv' show ?case by (simp add: split_beta Let_def)
qed simp

section \<open>Incidents\<close>

lemma insert_incident_frame [simp]:
  "checks (snd (insert_incident t r a)) = checks (snd a)" "pings (snd (insert_incident t r a)) = pings (snd a)"
  "deliveries (snd (insert_incident t r a)) = deliveries (snd a)"
  "channels (snd (insert_incident t r a)) = channels (snd a)"
  by (simp_all add: insert_incident_def split: prod.splits)

lemma fold_insert_incident_frame [simp]:
  "checks (snd (fold (insert_incident t) rs a)) = checks (snd a)"
  "pings (snd (fold (insert_incident t) rs a)) = pings (snd a)"
  "deliveries (snd (fold (insert_incident t) rs a)) = deliveries (snd a)"
  "channels (snd (fold (insert_incident t) rs a)) = channels (snd a)"
  by (induction rs arbitrary: a) simp_all

lemma OPEN_frame [simp]:
  "checks (snd (OPEN_INCIDENTS_SQL t lk n s)) = checks s"
  "pings (snd (OPEN_INCIDENTS_SQL t lk n s)) = pings s"
  "deliveries (snd (OPEN_INCIDENTS_SQL t lk n s)) = deliveries s"
  "channels (snd (OPEN_INCIDENTS_SQL t lk n s)) = channels s"
  by (simp_all add: OPEN_INCIDENTS_SQL_def)

text \<open>
  What the insertion loop builds: the references name fresh, open incidents of the checks
  given, and every check given has an open incident in the end.
\<close>

definition opened_ok :: "db \<Rightarrow> incident_ref list \<times> db \<Rightarrow> bool" where
  "opened_ok s0 a \<longleftrightarrow>
     next_id s0 \<le> next_id (snd a) \<and> set (incidents s0) \<subseteq> set (incidents (snd a)) \<and>
     (\<forall>i \<in> set (incidents (snd a)). i \<in> set (incidents s0) \<or> (i_id i, i_check i) \<in> set (fst a)) \<and>
     (\<forall>r \<in> set (fst a). next_id s0 \<le> fst r \<and> fst r < next_id (snd a)
        \<and> (\<exists>i \<in> set (incidents (snd a)). i_id i = fst r \<and> i_check i = snd r \<and> is_open i))"

lemma insert_incident_step:
  assumes "opened_ok s0 a" "store_inv (snd a)"
  shows "opened_ok s0 (insert_incident t r a) \<and> store_inv (snd (insert_incident t r a))
    \<and> open_incident (snd (insert_incident t r a)) (fst r)"
proof (cases "open_incident (snd a) (fst r)")
  case True
  then show ?thesis using assms by (cases a) (simp add: insert_incident_def)
next
  case False
  have "store_inv (snd (insert_incident t r a))"
    using assms(2) False
    by (auto simp: insert_incident_def store_inv_defs open_incident_def is_open_def less_Suc_eq
        split: prod.splits)
  moreover have "opened_ok s0 (insert_incident t r a)"
    using assms(1) False
    by (fastforce simp: insert_incident_def opened_ok_def is_open_def split: prod.splits)
  ultimately show ?thesis
    using False by (auto simp: insert_incident_def open_incident_def is_open_def split: prod.splits)
qed

lemma insert_incident_keeps_open:
  "open_incident (snd a) i \<Longrightarrow> open_incident (snd (insert_incident t r a)) i"
  by (auto simp: insert_incident_def open_incident_def split: prod.splits)

lemma fold_insert_incident_keeps_open:
  "open_incident (snd a) i \<Longrightarrow> open_incident (snd (fold (insert_incident t) rs a)) i"
  by (induction rs arbitrary: a) (simp_all add: insert_incident_keeps_open)

lemma fold_insert_incident:
  "opened_ok s0 a \<Longrightarrow> store_inv (snd a) \<Longrightarrow>
     opened_ok s0 (fold (insert_incident t) rs a) \<and> store_inv (snd (fold (insert_incident t) rs a))
     \<and> (\<forall>r \<in> set rs. open_incident (snd (fold (insert_incident t) rs a)) (fst r))"
proof (induction rs arbitrary: a)
  case (Cons r rs)
  note step = insert_incident_step [OF Cons.prems, of t r]
  have "open_incident (snd (fold (insert_incident t) rs (insert_incident t r a))) (fst r)"
    using fold_insert_incident_keeps_open step by blast
  then show ?case using Cons.IH [of "insert_incident t r a"] step by auto
qed simp

lemma opened_ok_start: "opened_ok s ([], s)"
  by (simp add: opened_ok_def)

lemmas OPEN_facts =
  fold_insert_incident [OF opened_ok_start, simplified, folded OPEN_INCIDENTS_SQL_def]

lemma OPEN_ok:
  assumes "store_inv s"
  shows "opened_ok s (OPEN_INCIDENTS_SQL t lk n s)" "store_inv (snd (OPEN_INCIDENTS_SQL t lk n s))"
    and "i \<in> set (incident_candidates lk n s) \<Longrightarrow> open_incident (snd (OPEN_INCIDENTS_SQL t lk n s)) i"
  using fold_insert_incident [OF opened_ok_start, of s t "map (\<lambda>i. (i, classify s i)) (incident_candidates lk n s)"]
    assms
  by (auto simp: OPEN_INCIDENTS_SQL_def)

lemma RESOLVE_frame [simp]:
  "checks (snd (RESOLVE_INCIDENTS_SQL t lk n s)) = checks s"
  "pings (snd (RESOLVE_INCIDENTS_SQL t lk n s)) = pings s"
  "deliveries (snd (RESOLVE_INCIDENTS_SQL t lk n s)) = deliveries s"
  "channels (snd (RESOLVE_INCIDENTS_SQL t lk n s)) = channels s"
  "next_id (snd (RESOLVE_INCIDENTS_SQL t lk n s)) = next_id s"
  by (simp_all add: RESOLVE_INCIDENTS_SQL_def Let_def)

lemma RESOLVE_incidents:
  "incidents (snd (RESOLVE_INCIDENTS_SQL t lk n s)) =
     update_where (\<lambda>i. i_id i \<in> fst ` set (fst (RESOLVE_INCIDENTS_SQL t lk n s)))
       (\<lambda>i. i\<lparr>resolvedAt := Some t\<rparr>) (incidents s)"
  by (simp add: RESOLVE_INCIDENTS_SQL_def Let_def image_image)

lemma RESOLVE_refs:
  "r \<in> set (fst (RESOLVE_INCIDENTS_SQL t lk n s)) \<Longrightarrow>
     \<exists>i \<in> set (incidents s). resolvable s i \<and> r = (i_id i, i_check i)"
  by (auto simp: RESOLVE_INCIDENTS_SQL_def Let_def dest!: in_set_takeD)

lemma store_inv_RESOLVE: "store_inv s \<Longrightarrow> store_inv (snd (RESOLVE_INCIDENTS_SQL t lk n s))"
proof -
  assume s: "store_inv s"
  have ids: "map i_id (update_where p (\<lambda>i. i\<lparr>resolvedAt := Some t\<rparr>) xs) = map i_id xs" for p xs
    by (rule map_update_where) simp
  have "filter is_open (update_where p (\<lambda>i. i\<lparr>resolvedAt := Some t\<rparr>) xs)
      = filter (\<lambda>i. is_open i \<and> \<not> p i) xs" for p xs
    by (induction xs) (auto simp: is_open_def)
  moreover have "distinct (map i_check (filter (\<lambda>i. is_open i \<and> \<not> p i) xs))"
    if "distinct (map i_check (filter is_open xs))" for p xs
    using distinct_map_filter [OF that, of "\<lambda>i. \<not> p i"] by simp
  ultimately show ?thesis
    using s unfolding store_inv_def incidents_ok_def RESOLVE_incidents
    by (auto simp: ids checks_ok_def deliveries_ok_def elim!: update_where_memE)
qed

lemma enqueue_db: "snd (enqueue t refs k s) = (if refs = [] then s else ENQUEUE_SQL t refs k s)"
  by (simp add: enqueue_def Let_def)

lemma openIncidents_db:
  "det_db (openIncidents env st) =
     snd (enqueue (clock env 25) (fst (claimOpened env st)) DownAlert (det_db (snd (claimOpened env st))))"
  by (auto simp: openIncidents_def enqueue_db split: prod.splits)

lemma resolveIncidents_db:
  "det_db (resolveIncidents env st) =
     snd (enqueue (clock env 26) (fst (claimResolved env st)) UpAlert (det_db (snd (claimResolved env st))))"
  by (auto simp: resolveIncidents_def enqueue_db split: prod.splits)

lemma claimOpened_db:
  "claimOpened env st =
     (fst (OPEN_INCIDENTS_SQL (clock env 25) (locks env 25) (batch_size env) (det_db st)),
      st\<lparr>det_db := snd (OPEN_INCIDENTS_SQL (clock env 25) (locks env 25) (batch_size env) (det_db st))\<rparr>)"
  by (simp add: claimOpened_def split: prod.splits)

lemma claimResolved_db:
  "claimResolved env st =
     (fst (RESOLVE_INCIDENTS_SQL (clock env 26) (locks env 26) (batch_size env) (det_db st)),
      st\<lparr>det_db := snd (RESOLVE_INCIDENTS_SQL (clock env 26) (locks env 26) (batch_size env) (det_db st))\<rparr>)"
  by (simp add: claimResolved_def split: prod.splits)

lemma store_inv_enqueue: "store_inv s \<Longrightarrow> store_inv (snd (enqueue t refs k s))"
  by (simp add: enqueue_db store_inv_ENQUEUE)

lemma checks_enqueue [simp]: "checks (snd (enqueue t refs k s)) = checks s"
  by (simp add: enqueue_db)

lemma store_inv_advance:
  "store_inv (det_db st) \<Longrightarrow> store_inv (det_db (advanceOverdueChecks env st))"
  using advance_loop_advanced [of st env "checks (det_db st)" maxBatches 0]
  by (simp add: advanceOverdueChecks_def list_all2_refl advanced_refl)

lemma store_inv_openIncidents: "store_inv (det_db st) \<Longrightarrow> store_inv (det_db (openIncidents env st))"
  unfolding openIncidents_db claimOpened_db by (simp add: store_inv_enqueue OPEN_ok)

lemma store_inv_resolveIncidents: "store_inv (det_db st) \<Longrightarrow> store_inv (det_db (resolveIncidents env st))"
  unfolding resolveIncidents_db claimResolved_db by (simp add: store_inv_enqueue store_inv_RESOLVE)

lemma store_inv_tick: "store_inv (det_db st) \<Longrightarrow> store_inv (det_db (tick env st))"
  by (simp add: tick_def store_inv_advance store_inv_openIncidents store_inv_resolveIncidents)

lemma tick_checks: "checks (det_db (tick env st)) = checks (det_db (advanceOverdueChecks env st))"
  by (simp add: tick_def resolveIncidents_db claimResolved_db openIncidents_db claimOpened_db)

text \<open>
  C7. A tick moves a check to DOWN only if its deadline and its grace period have both
  passed, to LATE only if its deadline has, never out of PAUSED or DOWN, and changes
  nothing else of any check, whatever is locked and however the clock runs between batches.
\<close>

theorem down_only_after_grace:
  assumes "store_inv (det_db st)"
  shows "list_all2 (\<lambda>c c'. c' = c\<lparr>state := state c', c_updatedAt := c_updatedAt c'\<rparr>
      \<and> (c' = c
         \<or> state c \<in> {UP, NEW, LATE}
           \<and> (state c' = LATE \<and> (\<exists>b due. nextDueAt c = Some due \<and> due < clock env b)
              \<or> state c' = DOWN \<and> (\<exists>b due. nextDueAt c = Some due
                    \<and> computeDeadline due (graceSeconds c) \<le> clock env b))))
    (checks (det_db st)) (checks (det_db (tick env st)))"
proof -
  have "list_all2 (advanced env) (checks (det_db st)) (checks (det_db (advanceOverdueChecks env st)))"
    using advance_loop_advanced [OF assms, of env "checks (det_db st)" maxBatches 0]
    by (simp add: advanceOverdueChecks_def list_all2_refl advanced_refl)
  moreover have "grace_spent t c = (\<exists>due. nextDueAt c = Some due \<and> computeDeadline due (graceSeconds c) \<le> t)" for t c
    by (cases "nextDueAt c") (simp_all add: grace_spent_def deadline_def computeDeadline_def)
  ultimately show ?thesis
    unfolding tick_checks by (elim list_all2_mono) (auto simp: advanced_def)
qed

text \<open>A machine: any number of ticks, whatever the clocks and locks.\<close>

interpretation detection: machine tick "\<lambda>st. store_inv (det_db st)"
  by unfold_locales (rule store_inv_tick)

text \<open>
  After any number of ticks, no check has two open incidents, no incident has two
  alerts of one kind on one channel, and no identifier is used twice.
\<close>

theorem one_open_incident:
  assumes "store_inv (det_db st)"
  shows "distinct (map i_check (filter is_open (incidents (det_db (fold tick es st)))))
    \<and> distinct (map delivery_key (deliveries (det_db (fold tick es st))))
    \<and> distinct (map i_id (incidents (det_db (fold tick es st))))"
  using detection.run_keeps [OF assms, of es] by (simp add: store_inv_defs)

definition sample_detector :: detector where
  "sample_detector = \<lparr>det_db = sample_alerting, wentLate = 0, wentDown = 0, recovered = 0\<rparr>"

definition sample_tick :: tick_env where
  "sample_tick = \<lparr>clock = \<lambda>_. 100000, locks = \<lambda>_ _. False, batch_size = 100\<rparr>"

theorem down_only_after_grace_witness:
  "length (checks (det_db (tick sample_tick sample_detector))) = length (checks sample_alerting)"
  using down_only_after_grace [of sample_detector sample_tick, THEN list_all2_lengthD]
  by (simp add: sample_detector_def)

theorem one_open_incident_witness:
  "distinct (map i_check (filter is_open (incidents (det_db (fold tick [sample_tick, sample_tick] sample_detector)))))"
  by (rule one_open_incident [THEN conjunct1]) (simp add: sample_detector_def)

theorem backlog_drained_witness:
  "backlog 100000 (det_db (advanceOverdueChecks sample_tick sample_detector)) = 0"
proof -
  have i: "store_inv (det_db sample_detector)" by (simp add: sample_detector_def)
  have b: "backlog 100000 (det_db sample_detector) = 0"
    by (simp add: backlog_def sample_detector_def sample_alerting_def overdue_def)
  have e: "clock sample_tick = (\<lambda>_. 100000)" "locks sample_tick = (\<lambda>_ _. False)"
    by (simp_all add: sample_tick_def)
  show ?thesis using backlog_drained [OF i e] b by simp
qed

section \<open>A silent check raises its alarm\<close>

definition references_ok :: "db \<Rightarrow> bool" where
  "references_ok s \<longleftrightarrow> (\<forall>d \<in> set (deliveries s). d_incident d < next_id s)"

lemma advance_loop_frame:
  "incidents (det_db (advance_loop env left b st)) = incidents (det_db st)
   \<and> deliveries (det_db (advance_loop env left b st)) = deliveries (det_db st)
   \<and> channels (det_db (advance_loop env left b st)) = channels (det_db st)
   \<and> pings (det_db (advance_loop env left b st)) = pings (det_db st)
   \<and> next_id (det_db (advance_loop env left b st)) = next_id (det_db st)"
proof (induction left arbitrary: b st)
  case (Suc left)
  show ?case
    using Suc.IH [of "Suc b" "snd (advance_batch env b st)"]
    by (simp add: split_beta Let_def advance_batch_db)
qed simp

lemma advance_frame [simp]:
  "incidents (det_db (advanceOverdueChecks env st)) = incidents (det_db st)"
  "deliveries (det_db (advanceOverdueChecks env st)) = deliveries (det_db st)"
  "channels (det_db (advanceOverdueChecks env st)) = channels (det_db st)"
  "next_id (det_db (advanceOverdueChecks env st)) = next_id (det_db st)"
  using advance_loop_frame [of env maxBatches 0 st] by (simp_all add: advanceOverdueChecks_def)

lemma advance_advanced:
  "store_inv (det_db st) \<Longrightarrow>
     list_all2 (advanced env) (checks (det_db st)) (checks (det_db (advanceOverdueChecks env st)))"
  using advance_loop_advanced [of st env "checks (det_db st)" maxBatches 0]
  by (simp add: advanceOverdueChecks_def list_all2_refl advanced_refl)

lemma list_all2_filter_length:
  "list_all2 R xs ys \<Longrightarrow> (\<And>x y. R x y \<Longrightarrow> q y \<Longrightarrow> p x) \<Longrightarrow> length (filter q ys) \<le> length (filter p xs)"
  by (induction rule: list_all2_induct) auto

lemma list_all2_memD: "list_all2 R xs ys \<Longrightarrow> x \<in> set xs \<Longrightarrow> \<exists>y \<in> set ys. R x y"
  by (induction rule: list_all2_induct) auto

lemma advanced_down:
  assumes "advanced env c c'" "clock env = (\<lambda>_. t)" "state c' = DOWN"
  shows "state c = DOWN \<or> overdue t c"
  using assms by (auto simp: advanced_def overdue_def)

lemma advanced_goes_down:
  assumes "advanced env c c'" "overdue t c" "grace_spent t c" "\<not> overdue t c'"
  shows "state c' = DOWN"
proof (rule ccontr)
  assume n: "state c' \<noteq> DOWN"
  have "c' \<noteq> c" using assms by auto
  then have l: "state c' = LATE" using assms(1) n by (auto simp: advanced_def)
  have "nextDueAt c' = nextDueAt c" "grace_spent t c'"
    using advanced_fields [OF assms(1)] assms(3) grace_spent_cong [of c' c t] by simp_all
  then have "overdue t c'" using assms(2) l by (auto simp: overdue_def)
  with assms(4) show False ..
qed

lemma enqueue_new_rows:
  "\<exists>new. deliveries (snd (enqueue t refs k s)) = deliveries s @ new
    \<and> (\<forall>d \<in> set new. status d = Pending \<and> d_kind d = k \<and> nextAttemptAt d = t
        \<and> (d_incident d, d_channel d) \<in> set (enqueue_targets refs k s))
    \<and> next_id s \<le> next_id (snd (enqueue t refs k s))"
proof (cases "refs = []")
  case False
  then show ?thesis
    using fold_insert_delivery_rows [of t k "enqueue_targets refs k s" s]
    by (simp add: enqueue_db ENQUEUE_SQL_def) blast
qed (simp add: enqueue_db)

lemma enqueue_target_queued:
  assumes "x \<in> set (enqueue_targets refs k s)"
  shows "\<exists>d \<in> set (deliveries (snd (enqueue t refs k s))). delivery_key d = (fst x, snd x, k)"
proof -
  have "refs \<noteq> []" using assms by (auto simp: enqueue_targets_def)
  moreover have "(fst x, snd x, k) \<in> delivery_key ` set (deliveries (ENQUEUE_SQL t refs k s))"
    using assms by (auto simp: ENQUEUE_SQL_def fold_insert_delivery_keys)
  ultimately show ?thesis by (auto simp: enqueue_db)
qed

lemma enqueue_targets_iff:
  "x \<in> set (enqueue_targets refs k s) \<longleftrightarrow>
     (\<exists>r \<in> set refs. (k = DownAlert \<or> down_was_sent s (fst r)) \<and>
       (\<exists>c \<in> set (checks s). c_id c = snd r \<and>
         (\<exists>ch \<in> set (channels s). ch_project ch = projectId c \<and> enabled ch \<and> x = (fst r, ch_id ch))))"
  unfolding enqueue_targets_def
  by (simp add: split_beta image_iff Bex_def) blast

lemma down_target:
  assumes "(i, c_id c) \<in> set refs" "c \<in> set (checks s)" "ch \<in> set (channels s)"
    "ch_project ch = projectId c" "enabled ch"
  shows "(i, ch_id ch) \<in> set (enqueue_targets refs DownAlert s)"
  unfolding enqueue_targets_iff
  by (rule bexI [OF _ assms(1)]) (use assms in auto)

lemma resolve_keeps_unresolvable:
  assumes "store_inv s" "i \<in> set (incidents s)" "\<not> resolvable s i"
  shows "i \<in> set (incidents (snd (RESOLVE_INCIDENTS_SQL t lk n s)))"
proof -
  have "i_id i \<notin> fst ` set (fst (RESOLVE_INCIDENTS_SQL t lk n s))"
  proof
    assume "i_id i \<in> fst ` set (fst (RESOLVE_INCIDENTS_SQL t lk n s))"
    then obtain j where "j \<in> set (incidents s)" "resolvable s j" "i_id j = i_id i"
      using RESOLVE_refs by fastforce
    moreover from this have "j = i"
      using assms(1,2) by (auto simp: store_inv_defs intro: distinct_map_memD)
    ultimately show False using assms(3) by simp
  qed
  then show ?thesis using assms(2) by (auto simp: RESOLVE_incidents set_update_where)
qed

text \<open>
  C6. A check whose deadline and grace have passed raises its alarm in one tick: the
  tick leaves it DOWN with an open incident, and every enabled channel of its project has a
  ``down'' alert of that incident queued for delivery at once. (Nothing locked, the clock
  standing, the batch size at least the number of checks that are down or overdue.)
\<close>

theorem silent_check_raises_alarm:
  assumes "store_inv (det_db st)" and "references_ok (det_db st)"
    and "clock env = (\<lambda>_. t)" and "locks env = (\<lambda>_ _. False)"
    and "length (filter (\<lambda>x. state x = DOWN \<or> overdue t x) (checks (det_db st))) \<le> batch_size env"
    and "c \<in> set (checks (det_db st))" and "overdue t c" and "grace_spent t c"
    and "\<not> open_incident (det_db st) (c_id c)"
  shows "(\<exists>c' \<in> set (checks (det_db (tick env st))). c_id c' = c_id c \<and> state c' = DOWN)
    \<and> (\<exists>i \<in> set (incidents (det_db (tick env st))). i_check i = c_id c \<and> is_open i
        \<and> (\<forall>ch \<in> set (channels (det_db st)). ch_project ch = projectId c \<and> enabled ch \<longrightarrow>
             (\<exists>d \<in> set (deliveries (det_db (tick env st))).
                delivery_key d = (i_id i, ch_id ch, DownAlert) \<and> status d = Pending
                \<and> nextAttemptAt d = t)))"
proof -
  define s where "s = det_db st"
  define st1 where "st1 = advanceOverdueChecks env st"
  define s1 where "s1 = det_db st1"
  have inv1: "store_inv s1" using store_inv_advance [OF assms(1)] by (simp add: s1_def st1_def)
  have adv: "list_all2 (advanced env) (checks s) (checks s1)"
    using advance_advanced [OF assms(1)] by (simp add: s_def s1_def st1_def)
  have same1: "incidents s1 = incidents s" "deliveries s1 = deliveries s" "channels s1 = channels s"
    "next_id s1 = next_id s" by (simp_all add: s1_def st1_def s_def)
  have "backlog t s \<le> length (filter (\<lambda>x. state x = DOWN \<or> overdue t x) (checks s))"
    unfolding backlog_def by (rule filter_length_mono) simp
  then have "backlog t s1 = 0"
    using backlog_drained [OF assms(1,3,4)] assms(5) by (simp add: s1_def st1_def s_def)
  then have none: "\<not> overdue t x" if "x \<in> set (checks s1)" for x
    using that by (auto simp: backlog_def filter_empty_conv)
  obtain c' where c': "c' \<in> set (checks s1)" "advanced env c c'"
    using list_all2_memD [OF adv] assms(6) by (auto simp: s_def)
  have down: "state c' = DOWN"
    using advanced_goes_down [OF c'(2) assms(7,8)] none [OF c'(1)] by simp
  have id': "c_id c' = c_id c" "projectId c' = projectId c" using advanced_fields [OF c'(2)] by auto
  \<comment> \<open>the incident\<close>
  define o2 where "o2 = OPEN_INCIDENTS_SQL t (\<lambda>_. False) (batch_size env) s1"
  define s2 where "s2 = snd o2"
  note open2 = OPEN_ok [OF inv1, where t = t and lk = "\<lambda>_. False" and n = "batch_size env", folded o2_def, folded s2_def]
  have "length (filter (\<lambda>x. state x = DOWN) (checks s1)) \<le> batch_size env"
  proof -
    have "length (filter (\<lambda>x. state x = DOWN) (checks s1))
        \<le> length (filter (\<lambda>x. state x = DOWN \<or> overdue t x) (checks s))"
      by (rule list_all2_filter_length [OF adv]) (rule advanced_down [OF _ assms(3)])
    with assms(5) show ?thesis by (simp add: s_def)
  qed
  moreover have "length (filter (\<lambda>x. state x = DOWN \<and> \<not> open_incident s1 (c_id x)) (checks s1))
      \<le> length (filter (\<lambda>x. state x = DOWN) (checks s1))"
    by (rule filter_length_mono) simp
  ultimately have all: "incident_candidates (\<lambda>_. False) (batch_size env) s1 =
      map c_id (filter (\<lambda>x. state x = DOWN \<and> \<not> open_incident s1 (c_id x)) (checks s1))"
    by (simp add: incident_candidates_def)
  have notopen: "\<not> open_incident s1 (c_id c)"
    using assms(9) same1 by (simp add: open_incident_def s_def)
  then have "c_id c \<in> set (incident_candidates (\<lambda>_. False) (batch_size env) s1)"
  proof -
    have "c' \<in> set (filter (\<lambda>x. state x = DOWN \<and> \<not> open_incident s1 (c_id x)) (checks s1))"
      using c' down id' notopen by simp
    from imageI [OF this, of c_id] show ?thesis unfolding all using id' by simp
  qed
  then have "open_incident s2 (c_id c)" using open2(3) by blast
  then obtain i where i: "i \<in> set (incidents s2)" "i_check i = c_id c" "is_open i"
    by (auto simp: open_incident_def)
  have "i \<notin> set (incidents s1)" using notopen i by (auto simp: open_incident_def)
  then have ref: "(i_id i, c_id c') \<in> set (fst o2)"
    using open2(1) i id' by (auto simp: opened_ok_def s2_def)
  then have fresh: "next_id s \<le> i_id i"
    using open2(1) same1 by (auto simp: opened_ok_def)
  \<comment> \<open>the alerts\<close>
  define s3 where "s3 = snd (enqueue t (fst o2) DownAlert s2)"
  have same2: "checks s2 = checks s1" "deliveries s2 = deliveries s" "channels s2 = channels s"
    using same1 by (simp_all add: s2_def o2_def)
  have alert: "\<exists>d \<in> set (deliveries s3). delivery_key d = (i_id i, ch_id ch, DownAlert)
      \<and> status d = Pending \<and> nextAttemptAt d = t"
    if ch: "ch \<in> set (channels s)" "ch_project ch = projectId c" "enabled ch" for ch
  proof -
    have "(i_id i, ch_id ch) \<in> set (enqueue_targets (fst o2) DownAlert s2)"
      by (rule down_target [OF ref]) (use ch c' id' same2 in simp_all)
    then obtain d where d: "d \<in> set (deliveries s3)" "delivery_key d = (i_id i, ch_id ch, DownAlert)"
      unfolding s3_def using enqueue_target_queued [of _ "fst o2" DownAlert s2 t] by fastforce
    obtain new where new: "deliveries s3 = deliveries s2 @ new"
      "\<forall>d \<in> set new. status d = Pending \<and> nextAttemptAt d = t"
      unfolding s3_def using enqueue_new_rows [of t "fst o2" DownAlert s2] by blast
    have "d \<notin> set (deliveries s2)"
      using d(2) fresh assms(2) same2 by (auto simp: references_ok_def delivery_key_def s_def)
    then show ?thesis using d new by auto
  qed
  \<comment> \<open>and the end of the tick\<close>
  have inv3: "store_inv s3" unfolding s3_def by (rule store_inv_enqueue [OF open2(2)])
  have i3: "i \<in> set (incidents s3)" using i by (simp add: s3_def enqueue_db)
  have "checks s3 = checks s1" using same2 by (simp add: s3_def)
  have "state d = DOWN" if "d \<in> set (checks s1)" "c_id d = i_check i" for d
  proof -
    have "checks_ok s1" using inv1 by (simp add: store_inv_def)
    from same_check [OF this that(1) c'(1)] that(2) i(2) id'(1) have "d = c'" by simp
    then show ?thesis using down by simp
  qed
  then have "\<not> resolvable s3 i"
    unfolding resolvable_def \<open>checks s3 = checks s1\<close> by force
  then have i4: "i \<in> set (incidents (snd (RESOLVE_INCIDENTS_SQL t (\<lambda>_. False) (batch_size env) s3)))"
    by (rule resolve_keeps_unresolvable [OF inv3 i3])
  have tick3: "det_db (openIncidents env st1) = s3"
    unfolding openIncidents_db claimOpened_db s3_def s2_def o2_def s1_def
    by (simp add: assms(3,4))
  define s4 where "s4 = snd (RESOLVE_INCIDENTS_SQL t (\<lambda>_. False) (batch_size env) s3)"
  have s5: "\<exists>refs. det_db (tick env st) = snd (enqueue t refs UpAlert s4)"
    unfolding tick_def resolveIncidents_db claimResolved_db st1_def [symmetric] tick3
    by (auto simp: assms(3,4) s4_def)
  then obtain refs where s5: "det_db (tick env st) = snd (enqueue t refs UpAlert s4)" ..
  have "set (deliveries s3) \<subseteq> set (deliveries (det_db (tick env st)))"
    using enqueue_new_rows [of t refs UpAlert s4] unfolding s5 by (auto simp: s4_def)
  then have alert': "\<exists>d \<in> set (deliveries (det_db (tick env st))).
      delivery_key d = (i_id i, ch_id ch, DownAlert) \<and> status d = Pending \<and> nextAttemptAt d = t"
    if "ch \<in> set (channels s)" "ch_project ch = projectId c" "enabled ch" for ch
    using alert [OF that] by blast
  have i5: "i \<in> set (incidents (det_db (tick env st)))"
    using i4 by (simp add: s5 enqueue_db s4_def)
  have c5: "c' \<in> set (checks (det_db (tick env st)))"
    using c'(1) by (simp add: tick_checks s1_def st1_def)
  show ?thesis
  proof
    show "\<exists>c' \<in> set (checks (det_db (tick env st))). c_id c' = c_id c \<and> state c' = DOWN"
      using c5 id'(1) down by (intro bexI [OF _ c5] conjI)
    show "\<exists>i \<in> set (incidents (det_db (tick env st))). i_check i = c_id c \<and> is_open i
        \<and> (\<forall>ch \<in> set (channels (det_db st)). ch_project ch = projectId c \<and> enabled ch \<longrightarrow>
             (\<exists>d \<in> set (deliveries (det_db (tick env st))).
                delivery_key d = (i_id i, ch_id ch, DownAlert) \<and> status d = Pending
                \<and> nextAttemptAt d = t))"
      using i(2,3) alert' unfolding s_def
      by (intro bexI [OF _ i5] conjI ballI impI) (simp_all del: ex_simps)
  qed
qed

definition silent_detector :: detector where
  "silent_detector = sample_detector\<lparr>det_db := sample_alerting\<lparr>
     checks := map (\<lambda>c. c\<lparr>state := UP\<rparr>) (checks sample_alerting),
     incidents := [], deliveries := []\<rparr>\<rparr>"

lemma silent_detector_ok:
  "store_inv (det_db silent_detector)" "references_ok (det_db silent_detector)"
  "\<not> open_incident (det_db silent_detector) 1"
  by (simp_all add: silent_detector_def sample_detector_def sample_alerting_def store_inv_defs
      references_ok_def open_incident_def)

lemma silent_detector_overdue:
  "c \<in> set (checks (det_db silent_detector)) \<Longrightarrow> overdue 100000 c \<and> grace_spent 100000 c \<and> c_id c = 1"
  "length (filter (\<lambda>x. state x = DOWN \<or> overdue 100000 x) (checks (det_db silent_detector))) \<le> 100"
  "checks (det_db silent_detector) \<noteq> []"
  by (auto simp: silent_detector_def sample_detector_def sample_alerting_def overdue_def
      grace_spent_def deadline_def)

theorem silent_check_raises_alarm_witness:
  "\<exists>i \<in> set (incidents (det_db (tick sample_tick silent_detector))). i_check i = 1 \<and> is_open i"
proof -
  have c: "hd (checks (det_db silent_detector)) \<in> set (checks (det_db silent_detector))"
    using silent_detector_overdue(3) by simp
  note o = silent_detector_overdue(1) [OF c]
  show ?thesis
    using silent_check_raises_alarm [of silent_detector sample_tick 100000 "hd (checks (det_db silent_detector))"]
      silent_detector_ok silent_detector_overdue(2) c o
    by (auto simp: sample_tick_def)
qed

section \<open>Alerts that are never queued\<close>

text \<open>Nothing is queued for an incident: no alert of any kind, and none can be, as long as it stays so.\<close>

definition unannounced :: "uuid \<Rightarrow> db \<Rightarrow> bool" where
  "unannounced i s \<longleftrightarrow> i < next_id s \<and> (\<forall>d \<in> set (deliveries s). d_incident d \<noteq> i)"

lemma unannounced_enqueue:
  assumes "unannounced i s" "\<And>r. r \<in> set refs \<Longrightarrow> k = DownAlert \<Longrightarrow> fst r \<noteq> i"
  shows "unannounced i (snd (enqueue t refs k s))"
proof -
  obtain new where new: "deliveries (snd (enqueue t refs k s)) = deliveries s @ new"
    "\<forall>d \<in> set new. (d_incident d, d_channel d) \<in> set (enqueue_targets refs k s)"
    "next_id s \<le> next_id (snd (enqueue t refs k s))"
    using enqueue_new_rows [of t refs k s] by blast
  have "\<not> down_was_sent s i" using assms(1) by (auto simp: unannounced_def down_was_sent_def)
  then have "fst x \<noteq> i" if "x \<in> set (enqueue_targets refs k s)" for x
    using that by (cases k) (auto simp: enqueue_targets_iff dest!: assms(2))
  then have "\<forall>d \<in> set new. d_incident d \<noteq> i" using new(2) by force
  with assms(1) new(1,3) show ?thesis by (auto simp: unannounced_def)
qed

lemma unannounced_same:
  "unannounced i s \<Longrightarrow> next_id s \<le> next_id s' \<Longrightarrow> deliveries s' = deliveries s \<Longrightarrow> unannounced i s'"
  by (simp add: unannounced_def)

lemma unannounced_tick:
  assumes "store_inv (det_db st)" "unannounced i (det_db st)"
  shows "unannounced i (det_db (tick env st))"
proof -
  define st1 where "st1 = advanceOverdueChecks env st"
  have inv1: "store_inv (det_db st1)" using store_inv_advance [OF assms(1)] by (simp add: st1_def)
  have u1: "unannounced i (det_db st1)"
    using assms(2) by (rule unannounced_same) (simp_all add: st1_def)
  define o2 where "o2 = OPEN_INCIDENTS_SQL (clock env 25) (locks env 25) (batch_size env) (det_db st1)"
  have ok: "opened_ok (det_db st1) o2" unfolding o2_def by (rule OPEN_ok(1) [OF inv1])
  have u2: "unannounced i (snd o2)"
    using u1 by (rule unannounced_same) (use ok in \<open>simp_all add: opened_ok_def o2_def\<close>)
  have "fst r \<noteq> i" if "r \<in> set (fst o2)" for r
    using ok that u1 by (fastforce simp: opened_ok_def unannounced_def)
  then have u3: "unannounced i (det_db (openIncidents env st1))"
    unfolding openIncidents_db claimOpened_db
    using unannounced_enqueue [OF u2] by (simp add: o2_def)
  show ?thesis
    unfolding tick_def resolveIncidents_db claimResolved_db st1_def [symmetric]
    by (rule unannounced_enqueue) (use u3 in \<open>auto intro: unannounced_same\<close>)
qed

lemma unannounced_drain:
  assumes "unannounced i s"
  shows "unannounced i (drain cfg now lk send s)"
proof -
  have "d_incident d \<noteq> i" if "d \<in> set (deliveries (drain cfg now lk send s))" for d
  proof -
    have "delivery_key d \<in> delivery_key ` set (deliveries s)"
      using drain_frame(6) [of cfg now lk send s] that by blast
    then show ?thesis using assms by (auto simp: unannounced_def delivery_key_def)
  qed
  then show ?thesis using assms by (simp add: unannounced_def drain_frame)
qed

text \<open>The state a crash leaves between opening the incidents and queueing their alerts.\<close>

lemma claimed_unannounced:
  assumes "store_inv (det_db st)" "references_ok (det_db st)"
    and "r \<in> set (fst (claimOpened env st))"
  shows "unannounced (fst r) (det_db (snd (claimOpened env st)))"
    and "store_inv (det_db (snd (claimOpened env st)))"
proof -
  have ok: "opened_ok (det_db st) (OPEN_INCIDENTS_SQL (clock env 25) (locks env 25) (batch_size env) (det_db st))"
    by (rule OPEN_ok(1) [OF assms(1)])
  show "unannounced (fst r) (det_db (snd (claimOpened env st)))"
    using ok assms(2,3) by (fastforce simp: claimOpened_db opened_ok_def unannounced_def references_ok_def)
  show "store_inv (det_db (snd (claimOpened env st)))"
    using OPEN_ok(2) [OF assms(1)] by (simp add: claimOpened_db)
qed

text \<open>Resolved incidents stay resolved and get no recovery alert later.\<close>

definition closed_silent :: "uuid \<Rightarrow> db \<Rightarrow> bool" where
  "closed_silent i s \<longleftrightarrow> i < next_id s
     \<and> (\<forall>x \<in> set (incidents s). i_id x = i \<longrightarrow> \<not> is_open x)
     \<and> (\<forall>d \<in> set (deliveries s). \<not> (d_incident d = i \<and> d_kind d = UpAlert))"

lemma closed_silent_enqueue:
  assumes "closed_silent i s" "\<And>r. r \<in> set refs \<Longrightarrow> k = UpAlert \<Longrightarrow> fst r \<noteq> i"
  shows "closed_silent i (snd (enqueue t refs k s))"
proof -
  obtain new where new: "deliveries (snd (enqueue t refs k s)) = deliveries s @ new"
    "\<forall>d \<in> set new. d_kind d = k \<and> (d_incident d, d_channel d) \<in> set (enqueue_targets refs k s)"
    "next_id s \<le> next_id (snd (enqueue t refs k s))"
    using enqueue_new_rows [of t refs k s] by blast
  have "fst x \<noteq> i" if "x \<in> set (enqueue_targets refs k s)" "k = UpAlert" for x
    using that by (auto simp: enqueue_targets_iff dest!: assms(2))
  then have "\<forall>d \<in> set new. \<not> (d_incident d = i \<and> d_kind d = UpAlert)" using new(2) by force
  with assms(1) new(1,3) show ?thesis by (auto simp: closed_silent_def enqueue_db)
qed

lemma closed_silent_tick:
  assumes "store_inv (det_db st)" "closed_silent i (det_db st)"
  shows "closed_silent i (det_db (tick env st))"
proof -
  define st1 where "st1 = advanceOverdueChecks env st"
  have inv1: "store_inv (det_db st1)" using store_inv_advance [OF assms(1)] by (simp add: st1_def)
  have u1: "closed_silent i (det_db st1)"
    using assms(2) by (simp add: closed_silent_def st1_def)
  define o2 where "o2 = OPEN_INCIDENTS_SQL (clock env 25) (locks env 25) (batch_size env) (det_db st1)"
  have ok: "opened_ok (det_db st1) o2" unfolding o2_def by (rule OPEN_ok(1) [OF inv1])
  have dels: "deliveries (snd o2) = deliveries (det_db st1)" by (simp add: o2_def)
  have "\<not> is_open x" if "x \<in> set (incidents (snd o2))" "i_id x = i" for x
  proof -
    have "i \<notin> fst ` set (fst o2)"
      using ok u1 by (fastforce simp: opened_ok_def closed_silent_def)
    then have "x \<in> set (incidents (det_db st1))"
      using ok that by (force simp: opened_ok_def)
    then show ?thesis using u1 that by (auto simp: closed_silent_def)
  qed
  then have u2: "closed_silent i (snd o2)"
    using u1 ok dels by (auto simp: closed_silent_def opened_ok_def)
  then have u3: "closed_silent i (det_db (openIncidents env st1))"
    unfolding openIncidents_db claimOpened_db
    by (intro closed_silent_enqueue) (simp_all add: o2_def)
  define r4 where "r4 = RESOLVE_INCIDENTS_SQL (clock env 26) (locks env 26) (batch_size env)
      (det_db (openIncidents env st1))"
  have "fst r \<noteq> i" if "r \<in> set (fst r4)" for r
    using RESOLVE_refs that u3 unfolding r4_def by (fastforce simp: closed_silent_def resolvable_def)
  moreover have "closed_silent i (snd r4)"
    using u3 by (auto simp: closed_silent_def r4_def RESOLVE_incidents is_open_def elim!: update_where_memE)
  ultimately show ?thesis
    unfolding tick_def resolveIncidents_db claimResolved_db st1_def [symmetric]
    by (intro closed_silent_enqueue) (simp_all add: r4_def)
qed

lemma closed_silent_drain:
  assumes "closed_silent i s"
  shows "closed_silent i (drain cfg now lk send s)"
proof -
  have "\<not> (d_incident d = i \<and> d_kind d = UpAlert)" if "d \<in> set (deliveries (drain cfg now lk send s))" for d
  proof -
    have "delivery_key d \<in> delivery_key ` set (deliveries s)"
      using drain_frame(6) [of cfg now lk send s] that by blast
    then show ?thesis using assms by (auto simp: closed_silent_def delivery_key_def)
  qed
  moreover have "\<not> is_open x" if x: "x \<in> set (incidents (drain cfg now lk send s))" "i_id x = i" for x
  proof -
    have "(i_id x, i_check x, resolvedAt x) \<in> (\<lambda>i. (i_id i, i_check i, resolvedAt i)) ` set (incidents s)"
      using arg_cong [OF drain_frame(7) [of cfg now lk send s], of set] x(1) by auto
    then show ?thesis using assms x(2) by (auto simp: closed_silent_def is_open_def)
  qed
  ultimately show ?thesis using assms by (auto simp: closed_silent_def drain_frame)
qed

section \<open>The cause of an incident\<close>

text \<open>
  The cause recorded is ``reported'' only if the last ping of any kind is a
  failure: a job that reports a failure and is restarted before the next tick is recorded
  as having missed its deadline, because the start is the more recent ping.
\<close>

theorem restart_hides_reported_failure:
  assumes "\<forall>p \<in> set (pings s). p_check p = i \<longrightarrow> receivedAt p < t"
    and "p_check fail = i" and "p_kind fail = FailPing" and "receivedAt fail = t"
    and "p_check start = i" and "p_kind start = StartPing" and "receivedAt start = t'" and "t < t'"
  shows "classify (s\<lparr>pings := pings s @ [fail]\<rparr>) i = Reported
    \<and> classify (s\<lparr>pings := pings s @ [fail, start]\<rparr>) i = Missed"
proof -
  have hd_sort: "\<exists>ys. sort_key f (x # xs) = x # ys" if "\<forall>y \<in> set xs. f x < f y"
    for f :: "ping \<Rightarrow> int" and x xs
  proof -
    have "\<forall>y \<in> set (sort_key f xs). f x < f y" using that by simp
    then have "insort_key f x (sort_key f xs) = x # sort_key f xs"
      by (cases "sort_key f xs") auto
    then show ?thesis by simp
  qed
  have "\<exists>ys. sort_key (\<lambda>p. - receivedAt p) (fail # rev (filter (\<lambda>p. p_check p = i) (pings s))) = fail # ys"
    by (rule hd_sort) (use assms in auto)
  moreover have "\<exists>ys. sort_key (\<lambda>p. - receivedAt p) (start # fail # rev (filter (\<lambda>p. p_check p = i) (pings s))) = start # ys"
    by (rule hd_sort) (use assms in force)
  ultimately show ?thesis
    using assms(2,3,5,6) by (auto simp: classify_def last_ping_def)
qed

definition sample_ping :: "ping_kind \<Rightarrow> millis \<Rightarrow> ping" where
  "sample_ping k t = \<lparr>p_check = 1, receivedAt = t, p_kind = k, exitCode = None, durationMs = None,
     body = None, sourceIp = None, userAgent = None\<rparr>"

theorem restart_hides_reported_failure_witness:
  "classify (empty_db\<lparr>pings := [sample_ping FailPing 1000, sample_ping StartPing 2000]\<rparr>) 1 = Missed"
  using restart_hides_reported_failure
    [of empty_db 1 1000 "sample_ping FailPing 1000" "sample_ping StartPing 2000" 2000]
  by (simp add: empty_db_def sample_ping_def)

end
