(* ===== verification/Monitoring.thy ===== *)
theory Monitoring
  imports Ingest Detection
begin

text \<open>
  The monitoring core put together: heartbeats, detection ticks and delivery passes work on
  one database, in any order. The properties of whole histories are stated here.
\<close>

record monitor =
  detector_of :: detector
  front :: ingest_state

abbreviation mon_db :: "monitor \<Rightarrow> db" where
  "mon_db m \<equiv> det_db (detector_of m)"

datatype monitor_event =
    Heartbeat ingest_env ping_request
  | Tick tick_env
  | Pass queue_config millis "uuid \<Rightarrow> bool" "context_row \<Rightarrow> string + unit"

fun monitor_step :: "monitor_event \<Rightarrow> monitor \<Rightarrow> monitor" where
  "monitor_step (Heartbeat env req) m =
     (let st = snd (handle env req ((front m)\<lparr>store_db := mon_db m\<rparr>))
      in m\<lparr>front := st, detector_of := (detector_of m)\<lparr>det_db := store_db st\<rparr>\<rparr>)"
| "monitor_step (Tick env) m = m\<lparr>detector_of := tick env (detector_of m)\<rparr>"
| "monitor_step (Pass cfg now lk send) m =
     m\<lparr>detector_of := (detector_of m)\<lparr>det_db := drain cfg now lk send (mon_db m)\<rparr>\<rparr>"

section \<open>What every step keeps\<close>

lemma written_frame:
  assumes "written env s s'"
  shows "incidents s' = incidents s" "deliveries s' = deliveries s" "channels s' = channels s"
    "next_id s' = next_id s"
  using assms by (cases rule: written_cases; simp)+

lemma recovery_inv_mono: "recovery_inv s \<Longrightarrow> deliveries s' = deliveries s \<Longrightarrow> recovery_inv s'"
  by (simp add: recovery_inv_def down_was_sent_def)

lemma recovery_inv_tick:
  assumes "recovery_inv (det_db st)"
  shows "recovery_inv (det_db (tick env st))"
proof -
  have e: "recovery_inv s \<Longrightarrow> recovery_inv (snd (enqueue t refs k s))" for s t refs k
    by (simp add: enqueue_db recovery_inv_ENQUEUE)
  have "recovery_inv (det_db (advanceOverdueChecks env st))"
    using assms by (rule recovery_inv_mono) simp
  then have "recovery_inv (det_db (openIncidents env (advanceOverdueChecks env st)))"
    unfolding openIncidents_db claimOpened_db
    by (intro e) (erule recovery_inv_mono, simp)
  then show ?thesis
    unfolding tick_def resolveIncidents_db claimResolved_db
    by (intro e) (erule recovery_inv_mono, simp)
qed

lemma store_inv_written:
  assumes "written env s s'" "store_inv s"
  shows "store_inv s'"
  using assms(1)
proof (cases rule: written_cases)
  case (row cmd k md c)
  then show ?thesis
    using assms(2) store_inv_update_checks [OF _ upd_identity] by simp
qed (use assms in simp)

definition monitor_inv :: "monitor \<Rightarrow> bool" where
  "monitor_inv m \<longleftrightarrow> store_inv (mon_db m) \<and> recovery_inv (mon_db m)"

lemma handle_step_written:
  "written env (mon_db m) (mon_db (monitor_step (Heartbeat env req) m))"
  using handle_written [of env "(front m)\<lparr>store_db := mon_db m\<rparr>" req] by (simp add: Let_def)

lemma monitor_step_store: "store_inv (mon_db m) \<Longrightarrow> store_inv (mon_db (monitor_step e m))"
proof (cases e)
  case (Heartbeat env req)
  assume "store_inv (mon_db m)"
  then show ?thesis using store_inv_written [OF handle_step_written] Heartbeat by blast
next
  case (Pass cfg now lk send)
  assume "store_inv (mon_db m)"
  then show ?thesis using store_inv_touches [OF drain_touches] Pass by simp
qed (simp add: store_inv_tick)

lemma monitor_step_recovery:
  assumes "monitor_inv m"
  shows "recovery_inv (mon_db (monitor_step e m))"
proof (cases e)
  case (Heartbeat env req)
  then show ?thesis
    using recovery_inv_mono [OF _ written_frame(2) [OF handle_step_written [of env m req]]] assms
    by (simp only: monitor_inv_def)
next
  case (Tick env)
  then show ?thesis using assms by (simp add: monitor_inv_def recovery_inv_tick)
next
  case (Pass cfg now lk send)
  then show ?thesis using assms by (simp add: monitor_inv_def recovery_inv_drain)
qed

interpretation monitoring: machine monitor_step monitor_inv
  by unfold_locales (use monitor_step_store monitor_step_recovery in \<open>simp add: monitor_inv_def\<close>)

text \<open>
  C8. Over any interleaving of heartbeats, ticks and delivery passes, a recovery is
  queued on a channel only for an incident of which some channel was really told: every
  ``up'' alert has a sent ``down'' alert of the same incident.
\<close>

theorem recovery_only_after_alarm:
  assumes "store_inv (mon_db m)" and "deliveries (mon_db m) = []"
  shows "\<forall>d \<in> set (deliveries (mon_db (fold monitor_step es m))). d_kind d = UpAlert \<longrightarrow>
    (\<exists>d' \<in> set (deliveries (mon_db (fold monitor_step es m))).
       d_incident d' = d_incident d \<and> d_kind d' = DownAlert \<and> status d' = Sent)"
  using monitoring.run_keeps [of m es] assms
  by (simp add: monitor_inv_def recovery_inv_def down_was_sent_def)

definition sample_monitor :: monitor where
  "sample_monitor = \<lparr>detector_of = sample_detector, front = sample_state NEW\<rparr>"

definition fresh_monitor :: monitor where
  "fresh_monitor = sample_monitor\<lparr>detector_of := sample_detector\<lparr>det_db := sample_alerting\<lparr>deliveries := []\<rparr>\<rparr>\<rparr>"

theorem recovery_only_after_alarm_witness:
  "\<not> list_ex (\<lambda>d. d_kind d = UpAlert \<and> \<not> list_ex (\<lambda>d'. d_incident d' = d_incident d \<and> d_kind d' = DownAlert \<and> status d' = Sent)
        (deliveries (mon_db (fold monitor_step [Tick sample_tick, Tick sample_tick] fresh_monitor))))
     (deliveries (mon_db (fold monitor_step [Tick sample_tick, Tick sample_tick] fresh_monitor)))"
proof -
  have s: "store_inv (mon_db fresh_monitor)" "deliveries (mon_db fresh_monitor) = []"
    by (simp_all add: fresh_monitor_def sample_alerting_def store_inv_defs is_open_def)
  show ?thesis
    using recovery_only_after_alarm [OF s, of "[Tick sample_tick, Tick sample_tick]"]
    unfolding list_ex_iff by blast
qed

section \<open>An alarm lost between two transactions\<close>

lemma unannounced_step:
  assumes "store_inv (mon_db m)" "unannounced i (mon_db m)"
  shows "unannounced i (mon_db (monitor_step e m))"
proof (cases e)
  case (Heartbeat env req)
  then show ?thesis
    using written_frame [OF handle_step_written [of env m req]] assms(2)
    by (simp add: unannounced_def del: monitor_step.simps)
qed (use assms in \<open>simp_all add: unannounced_tick unannounced_drain\<close>)

interpretation lost: machine monitor_step "\<lambda>m. store_inv (mon_db m) \<and> unannounced i (mon_db m)"
  for i :: uuid
  by unfold_locales (simp add: monitor_step_store unannounced_step)

text \<open>
  Opening an incident and queueing its alerts are two transactions. If the process
  stops (or the second query fails) between them, nobody is ever told: whatever heartbeats,
  ticks and passes follow, no alert of that incident is queued, because the incident counts
  as announced by being open.
\<close>

theorem crash_between_loses_alarm:
  assumes "store_inv (det_db st)" and "references_ok (det_db st)"
    and "r \<in> set (fst (claimOpened env st))"
  shows "\<forall>d \<in> set (deliveries (mon_db (fold monitor_step es
      \<lparr>detector_of = snd (claimOpened env st), front = fr\<rparr>))). d_incident d \<noteq> fst r"
  using lost.run_keeps [of "\<lparr>detector_of = snd (claimOpened env st), front = fr\<rparr>" "fst r" es]
    claimed_unannounced [OF assms]
  by (simp add: unannounced_def)

definition down_detector :: detector where
  "down_detector = silent_detector\<lparr>det_db := (det_db silent_detector)\<lparr>
     checks := map (\<lambda>c. c\<lparr>state := DOWN\<rparr>) (checks (det_db silent_detector))\<rparr>\<rparr>"

lemma down_detector_ok: "store_inv (det_db down_detector)" "references_ok (det_db down_detector)"
  by (simp_all add: down_detector_def silent_detector_def sample_detector_def sample_alerting_def
      store_inv_defs references_ok_def)

lemma down_detector_claims: "fst (claimOpened sample_tick down_detector) = [(6, 1)]"
  by (simp add: claimOpened_db OPEN_INCIDENTS_SQL_def incident_candidates_def down_detector_def
      silent_detector_def sample_detector_def sample_alerting_def sample_tick_def open_incident_def
      insert_incident_def)

theorem crash_between_loses_alarm_witness:
  "\<forall>d \<in> set (deliveries (mon_db (fold monitor_step [Tick sample_tick, Tick sample_tick]
      \<lparr>detector_of = snd (claimOpened sample_tick down_detector), front = sample_state NEW\<rparr>))).
    d_incident d \<noteq> 6"
  using crash_between_loses_alarm [OF down_detector_ok, of "(6, 1)" sample_tick
      "[Tick sample_tick, Tick sample_tick]" "sample_state NEW"]
  by (simp add: down_detector_claims)

section \<open>A recovery nobody hears of\<close>

lemma closed_silent_step:
  assumes "store_inv (mon_db m)" "closed_silent i (mon_db m)"
  shows "closed_silent i (mon_db (monitor_step e m))"
proof (cases e)
  case (Heartbeat env req)
  then show ?thesis
    using written_frame [OF handle_step_written [of env m req]] assms(2)
    by (simp add: closed_silent_def del: monitor_step.simps)
qed (use assms in \<open>simp_all add: closed_silent_tick closed_silent_drain\<close>)

interpretation closed: machine monitor_step "\<lambda>m. store_inv (mon_db m) \<and> closed_silent i (mon_db m)"
  for i :: uuid
  by unfold_locales (simp add: monitor_step_store closed_silent_step)

lemma fold_delivers:
  "pass_db (fold (deliver_row (cfg\<lparr>ceiling := 0\<rparr>) now (\<lambda>_. Inr ())) rows p) = pass_db p
   \<and> delivered (fold (deliver_row (cfg\<lparr>ceiling := 0\<rparr>) now (\<lambda>_. Inr ())) rows p)
     = delivered p @ map (\<lambda>r. d_id (x_delivery r)) rows"
proof (induction rows arbitrary: p)
  case (Cons row rows)
  let ?p = "deliver_row (cfg\<lparr>ceiling := 0\<rparr>) now (\<lambda>_. Inr ()) row p"
  have "pass_db ?p = pass_db p" "delivered ?p = delivered p @ [d_id (x_delivery row)]"
    by (simp_all add: deliver_row_def Let_def)
  then show ?case using Cons.IH [of ?p] by (simp del: fun_upd_apply)
qed simp

lemma drain_sends:
  assumes "d \<in> set (deliveries s)" "has_context s d"
    and "d_id d \<in> set (claimed_ids now lk (batchSize cfg) s)"
  shows "\<exists>d' \<in> set (deliveries (drain (cfg\<lparr>ceiling := 0\<rparr>) now lk (\<lambda>_. Inr ()) s)).
    delivery_key d' = delivery_key d \<and> d_id d' = d_id d \<and> status d' = Sent"
proof -
  let ?ids = "claimed_ids now lk (batchSize cfg) s"
  let ?s1 = "snd (CLAIM_SQL now lk (batchSize cfg) s)"
  let ?claim = "d\<lparr>attempts := Suc (attempts d), nextAttemptAt := now + CLAIM_LEASE\<rparr>"
  have ne: "?ids \<noteq> []" using assms(3) by auto
  have e: "?claim \<in> set (deliveries ?s1)"
    using assms(1,3) by (auto simp: CLAIM_rows set_update_where)
  have "has_context ?s1 ?claim"
    using assms(2) by (simp add: has_context_def CLAIM_SQL_def Let_def)
  then have m: "d_id d \<in> (\<lambda>r. d_id (x_delivery r)) ` set (CONTEXT_SQL ?ids ?s1)"
    unfolding CONTEXT_SQL_ids using e assms(3) by (force intro: image_eqI [of _ _ ?claim])
  define p0 where "p0 = \<lparr>delivered = [], sent_now = (\<lambda>_. 0 :: nat), refusals = 0, pass_db = ?s1\<rparr>"
  define p where "p = fold (deliver_row (cfg\<lparr>ceiling := 0\<rparr>) now (\<lambda>_. Inr ())) (CONTEXT_SQL ?ids ?s1) p0"
  have p: "pass_db p = ?s1" "delivered p = map (\<lambda>r. d_id (x_delivery r)) (CONTEXT_SQL ?ids ?s1)"
    using fold_delivers [of cfg now "CONTEXT_SQL ?ids ?s1" p0]
    unfolding p_def [symmetric] by (simp_all add: p0_def)
  have "drain (cfg\<lparr>ceiling := 0\<rparr>) now lk (\<lambda>_. Inr ()) s = finish_pass now p"
    using ne by (simp add: drain_eq Let_def p_def p0_def)
  moreover have "delivered p \<noteq> []" using m by (auto simp: p)
  ultimately have "deliveries (drain (cfg\<lparr>ceiling := 0\<rparr>) now lk (\<lambda>_. Inr ()) s) =
      update_where (\<lambda>d. d_id d \<in> set (delivered p))
         (\<lambda>d. d\<lparr>status := Sent, sentAt := Some now, d_lastError := None\<rparr>) (deliveries ?s1)"
    by (simp add: finish_pass_def COUNT_SENT_SQL_def MARK_SENT_SQL_def p)
  moreover have "d_id ?claim \<in> set (delivered p)" using m by (simp add: p)
  ultimately have "?claim\<lparr>status := Sent, sentAt := Some now, d_lastError := None\<rparr>
      \<in> set (deliveries (drain (cfg\<lparr>ceiling := 0\<rparr>) now lk (\<lambda>_. Inr ()) s))"
    using e by (auto simp: set_update_where intro!: bexI [of _ ?claim])
  then show ?thesis by (rule bexI [rotated]) (simp add: delivery_key_def)
qed

text \<open>
  When an incident is resolved before its ``down'' alert has gone out (the
  channel was failing, say), the pending alert is still sent afterwards, and the recovery
  is never announced: no later history queues an ``up'' alert for that incident.
\<close>

theorem late_alarm_without_recovery:
  assumes "store_inv (mon_db m)" and "closed_silent i (mon_db m)"
    and "d \<in> set (deliveries (mon_db m))" and "d_incident d = i" and "d_kind d = DownAlert"
    and "has_context (mon_db m) d" and "d_id d \<in> set (claimed_ids now lk (batchSize cfg) (mon_db m))"
  shows "(\<exists>d' \<in> set (deliveries (mon_db (monitor_step (Pass (cfg\<lparr>ceiling := 0\<rparr>) now lk (\<lambda>_. Inr ())) m))).
      d_incident d' = i \<and> d_kind d' = DownAlert \<and> status d' = Sent)
    \<and> (\<forall>x \<in> set (deliveries (mon_db (fold monitor_step es m))). \<not> (d_incident x = i \<and> d_kind x = UpAlert))"
proof
  obtain d' where d': "d' \<in> set (deliveries (drain (cfg\<lparr>ceiling := 0\<rparr>) now lk (\<lambda>_. Inr ()) (mon_db m)))"
    "delivery_key d' = delivery_key d" "status d' = Sent"
    using drain_sends [OF assms(3,6,7)] by blast
  then show "\<exists>d' \<in> set (deliveries (mon_db (monitor_step (Pass (cfg\<lparr>ceiling := 0\<rparr>) now lk (\<lambda>_. Inr ())) m))).
      d_incident d' = i \<and> d_kind d' = DownAlert \<and> status d' = Sent"
    using assms(4,5) by (intro bexI [of _ d']) (auto simp: delivery_key_def)
  show "\<forall>x \<in> set (deliveries (mon_db (fold monitor_step es m))). \<not> (d_incident x = i \<and> d_kind x = UpAlert)"
    using closed.run_keeps [of m i es] assms(1,2) by (simp add: closed_silent_def)
qed

definition closed_monitor :: monitor where
  "closed_monitor = sample_monitor\<lparr>detector_of := sample_detector\<lparr>det_db := sample_alerting\<lparr>
     incidents := map (\<lambda>i. i\<lparr>resolvedAt := Some 500\<rparr>) (incidents sample_alerting)\<rparr>\<rparr>\<rparr>"

theorem late_alarm_without_recovery_witness:
  "\<forall>x \<in> set (deliveries (mon_db (fold monitor_step [Tick sample_tick] closed_monitor))).
     \<not> (d_incident x = 3 \<and> d_kind x = UpAlert)"
proof -
  have a: "store_inv (mon_db closed_monitor)" "closed_silent 3 (mon_db closed_monitor)"
    "sample_delivery \<in> set (deliveries (mon_db closed_monitor))"
    "has_context (mon_db closed_monitor) sample_delivery"
    by (simp_all add: closed_monitor_def store_inv_defs sample_alerting_def sample_delivery_def
        is_open_def closed_silent_def has_context_def)
  have c: "d_id sample_delivery \<in> set (claimed_ids 1000 (\<lambda>_. False)
      (batchSize \<lparr>batchSize = 50, maxAttempts = 5, ceiling = 0\<rparr>) (mon_db closed_monitor))"
    by (simp add: claimed_ids_def select_batch_def claimable_def closed_monitor_def
        sample_alerting_def sample_delivery_def)
  show ?thesis
    using late_alarm_without_recovery [OF a(1,2,3) _ _ a(4) c, of "[Tick sample_tick]"]
    by (simp add: sample_delivery_def)
qed

end
