(* ===== verification/Quotas.thy ===== *)
theory Quotas
  imports Store Monitoring "HOL-Library.Product_Lexorder"
begin

text \<open>
  Plan limits: \<^verbatim>\<open>packages/server/src/quotas/quota.service.ts\<close> (where they bite),
  \<^verbatim>\<open>quotas/quota-enforcer.service.ts\<close> (the reconciler that pauses and resumes) and the
  type of \<^verbatim>\<open>config/plan-limits.ts\<close>.
\<close>

section \<open>QuotaService\<close>

record plan_limits =
  pl_checks :: "nat option"
  pl_projects :: "nat option"
  pl_channelsPerProject :: "nat option"
  pl_retentionDays :: "nat option"

definition UNLIMITED :: plan_limits where
  "UNLIMITED = \<lparr>pl_checks = None, pl_projects = None, pl_channelsPerProject = None,
     pl_retentionDays = None\<rparr>"

record quota_settings =
  quotas_enabled :: bool
  DEFAULT_PLAN :: string
  planLimits :: "(string \<times> plan_limits) list"

definition defaultPlan :: "quota_settings \<Rightarrow> string option" where
  "defaultPlan cfg = (if quotas_enabled cfg then Some (DEFAULT_PLAN cfg) else None)"

definition limitsFor :: "quota_settings \<Rightarrow> string option \<Rightarrow> plan_limits" where
  "limitsFor cfg plan =
     (if \<not> quotas_enabled cfg then UNLIMITED
      else case plan of
        None \<Rightarrow> UNLIMITED
      | Some p \<Rightarrow> (case map_of (planLimits cfg) p of None \<Rightarrow> UNLIMITED | Some l \<Rightarrow> l))"

text \<open>The owner of a project, with the plan of that account.\<close>

definition ownerOf :: "uuid \<Rightarrow> db \<Rightarrow> (uuid \<times> string option) option" where
  "ownerOf p s =
     (case find (\<lambda>m. m_project m = p \<and> role m = Owner) (members s) of
        None \<Rightarrow> None
      | Some m \<Rightarrow> map_option (\<lambda>u. (u_id u, u_plan u)) (find (\<lambda>u. u_id u = m_user m) (users s)))"

definition owns :: "db \<Rightarrow> uuid \<Rightarrow> uuid \<Rightarrow> bool" where
  "owns s u p \<longleftrightarrow> (\<exists>m \<in> set (members s). m_project m = p \<and> m_user m = u \<and> role m = Owner)"

definition countOwnedChecks :: "uuid \<Rightarrow> db \<Rightarrow> nat" where
  "countOwnedChecks u s = length (filter (\<lambda>c. owns s u (projectId c)) (checks s))"

definition countOwnedProjects :: "uuid \<Rightarrow> db \<Rightarrow> nat" where
  "countOwnedProjects u s = length (filter (\<lambda>m. m_user m = u \<and> role m = Owner) (members s))"

definition limitsForProject :: "quota_settings \<Rightarrow> uuid \<Rightarrow> db \<Rightarrow> plan_limits" where
  "limitsForProject cfg p s =
     (if \<not> quotas_enabled cfg then UNLIMITED
      else limitsFor cfg (case ownerOf p s of None \<Rightarrow> None | Some (_, plan) \<Rightarrow> plan))"

definition assertCanAddCheck :: "quota_settings \<Rightarrow> uuid \<Rightarrow> db \<Rightarrow> http_error + unit" where
  "assertCanAddCheck cfg p s =
     (if \<not> quotas_enabled cfg then Inr ()
      else case ownerOf p s of
        None \<Rightarrow> Inr ()
      | Some (u, plan) \<Rightarrow>
          (case pl_checks (limitsFor cfg plan) of
             None \<Rightarrow> Inr ()
           | Some l \<Rightarrow>
               let used = countOwnedChecks u s
               in if l < used + 1 then Inl (QuotaExceeded QChecks used l plan) else Inr ()))"

definition remainingChecks :: "quota_settings \<Rightarrow> uuid \<Rightarrow> db \<Rightarrow> nat option" where
  "remainingChecks cfg p s =
     (if \<not> quotas_enabled cfg then None
      else case ownerOf p s of
        None \<Rightarrow> None
      | Some (u, plan) \<Rightarrow>
          map_option (\<lambda>l. l - countOwnedChecks u s) (pl_checks (limitsFor cfg plan)))"

definition assertCanAddProject :: "quota_settings \<Rightarrow> uuid \<Rightarrow> db \<Rightarrow> http_error + unit" where
  "assertCanAddProject cfg u s =
     (if \<not> quotas_enabled cfg then Inr ()
      else
        let plan = (case find (\<lambda>x. u_id x = u) (users s) of None \<Rightarrow> None | Some x \<Rightarrow> u_plan x)
        in case pl_projects (limitsFor cfg plan) of
             None \<Rightarrow> Inr ()
           | Some l \<Rightarrow>
               let used = countOwnedProjects u s
               in if l < used + 1 then Inl (QuotaExceeded QProjects used l plan) else Inr ())"

definition assertCanAddChannel :: "quota_settings \<Rightarrow> uuid \<Rightarrow> db \<Rightarrow> http_error + unit" where
  "assertCanAddChannel cfg p s =
     (if \<not> quotas_enabled cfg then Inr ()
      else
        let plan = (case ownerOf p s of None \<Rightarrow> None | Some (_, pl) \<Rightarrow> pl)
        in case pl_channelsPerProject (limitsFor cfg plan) of
             None \<Rightarrow> Inr ()
           | Some l \<Rightarrow>
               let used = length (filter (\<lambda>ch. ch_project ch = p) (channels s))
               in if l < used + 1 then Inl (QuotaExceeded QChannels used l plan) else Inr ())"

definition retentionDaysFor :: "quota_settings \<Rightarrow> uuid \<Rightarrow> nat \<Rightarrow> db \<Rightarrow> nat" where
  "retentionDaysFor cfg p requested s =
     (case pl_retentionDays (limitsForProject cfg p s) of
        None \<Rightarrow> requested | Some ceil \<Rightarrow> min requested ceil)"

definition usageOf :: "uuid \<Rightarrow> db \<Rightarrow> nat \<times> nat" where
  "usageOf u s = (countOwnedChecks u s, countOwnedProjects u s)"

section \<open>Count then create, under the account's lock\<close>

text \<open>
  \<open>serialised\<close>: a request takes the advisory lock of the paying account, counts, and
  creates or refuses; the end of its transaction releases the lock. Requests interleave in
  any order; a step of a request that waits for a held lock changes nothing.
\<close>

datatype request_phase = Waiting | Counted nat | Done "http_error + unit"

record quota_race =
  lock_holder :: "nat option"
  phases :: "nat \<Rightarrow> request_phase"
  race_db :: db

definition race_step :: "uuid \<Rightarrow> string option \<Rightarrow> nat \<Rightarrow> (nat \<Rightarrow> check) \<Rightarrow> nat \<Rightarrow> quota_race \<Rightarrow> quota_race" where
  "race_step u plan l new i st =
     (case phases st i of
        Waiting \<Rightarrow>
          if lock_holder st = None
          then st\<lparr>lock_holder := Some i,
                  phases := (phases st)(i := Counted (countOwnedChecks u (race_db st)))\<rparr>
          else st
      | Counted used \<Rightarrow>
          if l < used + 1
          then st\<lparr>lock_holder := None,
                  phases := (phases st)(i := Done (Inl (QuotaExceeded QChecks used l plan)))\<rparr>
          else st\<lparr>lock_holder := None,
                  phases := (phases st)(i := Done (Inr ())),
                  race_db := (race_db st)\<lparr>checks := checks (race_db st) @ [new i]\<rparr>\<rparr>
      | Done _ \<Rightarrow> st)"

definition race_inv :: "uuid \<Rightarrow> nat \<Rightarrow> nat \<Rightarrow> quota_race \<Rightarrow> bool" where
  "race_inv u l start st \<longleftrightarrow>
     countOwnedChecks u (race_db st) \<le> max l start
     \<and> (\<forall>i used. phases st i = Counted used \<longrightarrow>
          lock_holder st = Some i \<and> used = countOwnedChecks u (race_db st))"

lemma owns_checks [simp]: "owns (s\<lparr>checks := cs\<rparr>) u p = owns s u p"
  by (simp add: owns_def)

lemma count_append:
  "countOwnedChecks u (s\<lparr>checks := checks s @ [c]\<rparr>) \<le> Suc (countOwnedChecks u s)"
  by (simp add: countOwnedChecks_def)

interpretation race: machine "race_step u plan l new" "race_inv u l start"
  for u :: uuid and plan :: "string option" and l :: nat and new :: "nat \<Rightarrow> check" and start :: nat
proof
  fix st i
  assume inv: "race_inv u l start st"
  show "race_inv u l start (race_step u plan l new i st)"
  proof (cases "phases st i")
    case Waiting
    then show ?thesis using inv by (auto simp: race_inv_def race_step_def)
  next
    case (Counted used)
    have holds: "lock_holder st = Some j" if "phases st j = Counted x" for j x
      using inv that unfolding race_inv_def by blast
    then have only: "j = i" if "phases st j = Counted x" for j x
      using holds [OF that] holds [OF Counted] by simp
    have used: "used = countOwnedChecks u (race_db st)" and bound: "used \<le> max l start"
      using inv Counted unfolding race_inv_def by blast+
    have none: "((phases st)(i := Done r)) j \<noteq> Counted x" for r j x
      using only by (cases "j = i") auto
    show ?thesis
    proof (cases "l < used + 1")
      case True
      then show ?thesis
        using Counted none used bound by (simp add: race_inv_def race_step_def del: fun_upd_apply)
    next
      case False
      then have "countOwnedChecks u ((race_db st)\<lparr>checks := checks (race_db st) @ [new i]\<rparr>) \<le> l"
        using count_append [of u "race_db st" "new i"] used by linarith
      then show ?thesis
        using False Counted none by (simp add: race_inv_def race_step_def del: fun_upd_apply)
    qed
  qed (use inv in \<open>simp add: race_step_def\<close>)
qed


text \<open>
  What the code asserts inside the lock is what the steps above do: the refusal carries the
  count, and creation happens exactly when the assertion passes.
\<close>

lemma assert_is_counted:
  assumes "quotas_enabled cfg" "ownerOf p s = Some (u, plan)" "pl_checks (limitsFor cfg plan) = Some l"
  shows "assertCanAddCheck cfg p s =
    (if l < countOwnedChecks u s + 1 then Inl (QuotaExceeded QChecks (countOwnedChecks u s) l plan) else Inr ())"
  using assms by (simp add: assertCanAddCheck_def Let_def)

definition sample_member :: "uuid \<Rightarrow> uuid \<Rightarrow> member" where
  "sample_member p u = \<lparr>m_project = p, m_user = u, role = Owner, m_createdAt = 0\<rparr>"

definition sample_account :: db where
  "sample_account = sample_alerting\<lparr>members := [sample_member 2 9],
     users := [\<lparr>u_id = 9, email = ''a@example.org'', u_plan = Some ''free'', disabledAt = None\<rparr>]\<rparr>"


section \<open>Off means unlimited\<close>

text \<open>
  With quotas off, or for an account without a plan (or on a plan the configuration
  does not name), nothing is ever refused and no ceiling applies.
\<close>

theorem quotas_off_means_unlimited:
  assumes "\<not> quotas_enabled cfg \<or> (\<forall>x \<in> set (users s). u_plan x \<notin> Some ` fst ` set (planLimits cfg))"
  shows "assertCanAddCheck cfg p s = Inr () \<and> assertCanAddProject cfg u s = Inr ()
    \<and> assertCanAddChannel cfg p s = Inr () \<and> remainingChecks cfg p s = None
    \<and> retentionDaysFor cfg p days s = days"
proof -
  have lim: "limitsFor cfg (u_plan x) = UNLIMITED" if "find q (users s) = Some x" for q x
  proof (cases "quotas_enabled cfg")
    case True
    then have "u_plan x \<notin> Some ` fst ` set (planLimits cfg)"
      using assms find_SomeD [OF that] by blast
    then have "map_of (planLimits cfg) n = None" if "u_plan x = Some n" for n
      using that by (auto simp: map_of_eq_None_iff)
    then show ?thesis by (auto simp: limitsFor_def split: option.splits)
  qed (simp add: limitsFor_def)
  have none: "limitsFor cfg None = UNLIMITED" by (simp add: limitsFor_def)
  have owner: "limitsFor cfg plan = UNLIMITED" if "ownerOf p s = Some (v, plan)" for v plan
    using that lim by (auto simp: ownerOf_def split: option.splits)
  show ?thesis
    using lim none owner
    by (auto simp: assertCanAddCheck_def assertCanAddProject_def assertCanAddChannel_def
        remainingChecks_def retentionDaysFor_def limitsForProject_def UNLIMITED_def Let_def
        split: option.splits)
qed

theorem quotas_off_means_unlimited_witness:
  "assertCanAddCheck \<lparr>quotas_enabled = True, DEFAULT_PLAN = ''free'', planLimits = []\<rparr> 2 sample_account = Inr ()"
  by (rule quotas_off_means_unlimited [THEN conjunct1]) simp

section \<open>The enforcer\<close>

record owner_row =
  o_user :: uuid
  o_plan :: "string option"
  activeChecks :: nat
  pausedByQuota :: nat

definition quota_paused :: "check \<Rightarrow> bool" where
  "quota_paused c \<longleftrightarrow> pausedReason c = Some ''quota''"

text \<open>The joined rows of one account: a check and an owner membership of it.\<close>

definition owned_pairs :: "uuid \<Rightarrow> db \<Rightarrow> check list" where
  "owned_pairs u s =
     [c. c \<leftarrow> checks s, m \<leftarrow> members s, m_project m = projectId c \<and> role m = Owner \<and> m_user m = u]"

definition ownersWithChecks :: "db \<Rightarrow> owner_row list" where
  "ownersWithChecks s =
     map (\<lambda>u. \<lparr>o_user = u_id u, o_plan = u_plan u,
                activeChecks = length (filter (\<lambda>c. \<not> quota_paused c) (owned_pairs (u_id u) s)),
                pausedByQuota = length (filter quota_paused (owned_pairs (u_id u) s))\<rparr>)
       (filter (\<lambda>u. owned_pairs (u_id u) s \<noteq> []) (users s))"

definition age_key :: "check \<Rightarrow> millis \<times> uuid" where
  "age_key c = (c_createdAt c, c_id c)"

text \<open>\<open>orderBy: [{ createdAt: 'desc' }, { id: 'desc' }], take: count\<close>\<close>

definition newest :: "uuid \<Rightarrow> nat \<Rightarrow> db \<Rightarrow> check list" where
  "newest u n s =
     take n (rev (sort_key age_key (filter (\<lambda>c. owns s u (projectId c) \<and> pausedReason c = None) (checks s))))"

definition pauseExcess :: "uuid \<Rightarrow> nat \<Rightarrow> db \<Rightarrow> string list \<times> db" where
  "pauseExcess u n s =
     (let doomed = newest u n s
      in (map c_name doomed,
          s\<lparr>checks := update_where (\<lambda>c. c_id c \<in> c_id ` set doomed)
             (\<lambda>c. c\<lparr>state := PAUSED, pausedReason := Some ''quota'', nextDueAt := None\<rparr>) (checks s)\<rparr>))"

definition oldest_paused :: "uuid \<Rightarrow> nat \<Rightarrow> db \<Rightarrow> check list" where
  "oldest_paused u n s =
     take n (sort_key age_key (filter (\<lambda>c. owns s u (projectId c) \<and> quota_paused c) (checks s)))"

text \<open>\<open>resume\<close>; an unlimited plan passes \<open>Number.MAX_SAFE_INTEGER\<close> as its room.\<close>

definition MAX_SAFE_INTEGER :: int where "MAX_SAFE_INTEGER = 9007199254740991"

definition resume :: "uuid \<Rightarrow> int \<Rightarrow> db \<Rightarrow> nat \<times> db" where
  "resume u room s =
     (if room \<le> 0 then (0, s)
      else let revived = oldest_paused u (nat room) s
           in (length revived,
               s\<lparr>checks := update_where (\<lambda>c. c_id c \<in> c_id ` set revived)
                  (\<lambda>c. c\<lparr>state := NEW, pausedReason := None\<rparr>) (checks s)\<rparr>))"

record reconciliation =
  rc_paused :: nat
  rc_resumed :: nat
  rc_accounts :: nat
  rc_db :: db

definition reconcile_owner :: "quota_settings \<Rightarrow> owner_row \<Rightarrow> reconciliation \<Rightarrow> reconciliation" where
  "reconcile_owner cfg ow r =
     (case pl_checks (limitsFor cfg (o_plan ow)) of
        None \<Rightarrow>
          (let (back, s) = resume (o_user ow) MAX_SAFE_INTEGER (rc_db r)
           in r\<lparr>rc_resumed := rc_resumed r + back, rc_db := s,
                rc_accounts := rc_accounts r + (if 0 < back then 1 else 0)\<rparr>)
      | Some l \<Rightarrow>
          if l < activeChecks ow
          then (let (stopped, s) = pauseExcess (o_user ow) (activeChecks ow - l) (rc_db r)
                in r\<lparr>rc_paused := rc_paused r + length stopped, rc_db := s,
                     rc_accounts := rc_accounts r + (if stopped \<noteq> [] then 1 else 0)\<rparr>)
          else if 0 < pausedByQuota ow
          then (let (back, s) = resume (o_user ow) (int l - int (activeChecks ow)) (rc_db r)
                in r\<lparr>rc_resumed := rc_resumed r + back, rc_db := s,
                     rc_accounts := rc_accounts r + (if 0 < back then 1 else 0)\<rparr>)
          else r)"

definition reconcile :: "quota_settings \<Rightarrow> db \<Rightarrow> reconciliation" where
  "reconcile cfg s =
     (if \<not> quotas_enabled cfg then \<lparr>rc_paused = 0, rc_resumed = 0, rc_accounts = 0, rc_db = s\<rparr>
      else fold (reconcile_owner cfg) (ownersWithChecks s)
             \<lparr>rc_paused = 0, rc_resumed = 0, rc_accounts = 0, rc_db = s\<rparr>)"

section \<open>A pass restores every account\<close>

text \<open>A project has one owner: each row of a check belongs to one account.\<close>

definition single_owner :: "db \<Rightarrow> bool" where
  "single_owner s \<longleftrightarrow> distinct (map u_id (users s))
     \<and> (\<forall>p. length (filter (\<lambda>m. m_project m = p \<and> role m = Owner) (members s)) \<le> 1)"

definition active :: "uuid \<Rightarrow> db \<Rightarrow> nat" where
  "active u s = length (filter (\<lambda>c. owns s u (projectId c) \<and> \<not> quota_paused c) (checks s))"

lemma single_ownerD:
  assumes "single_owner s" "owns s u p" "owns s v p"
  shows "u = v"
proof -
  obtain m n where mn: "m \<in> set (members s)" "n \<in> set (members s)" "m_project m = p" "m_user m = u"
      "role m = Owner" "m_project n = p" "m_user n = v" "role n = Owner"
    using assms(2,3) by (auto simp: owns_def)
  have "length (filter (\<lambda>m. m_project m = p \<and> role m = Owner) (members s)) \<le> 1"
    using assms(1) by (simp add: single_owner_def)
  moreover have "m \<in> set (filter (\<lambda>m. m_project m = p \<and> role m = Owner) (members s))"
    "n \<in> set (filter (\<lambda>m. m_project m = p \<and> role m = Owner) (members s))" using mn by auto
  ultimately have "m = n"
    by (cases "filter (\<lambda>m. m_project m = p \<and> role m = Owner) (members s)") auto
  with mn show ?thesis by simp
qed

lemma pairs_of_check:
  assumes "single_owner s"
  shows "concat (map (\<lambda>m. if m_project m = p \<and> role m = Owner \<and> m_user m = u then [c] else []) (members s))
    = (if owns s u p then [c] else [])"
proof -
  let ?F = "filter (\<lambda>m. m_project m = p \<and> role m = Owner \<and> m_user m = u) (members s)"
  have eq: "concat (map (\<lambda>m. if m_project m = p \<and> role m = Owner \<and> m_user m = u then [c] else []) ms)
      = map (\<lambda>_. c) (filter (\<lambda>m. m_project m = p \<and> role m = Owner \<and> m_user m = u) ms)" for ms
    by (induction ms) auto
  have "length ?F \<le> length (filter (\<lambda>m. m_project m = p \<and> role m = Owner) (members s))"
    by (rule filter_length_mono) simp
  also have "\<dots> \<le> 1" using assms by (simp add: single_owner_def)
  finally have "length ?F \<le> 1" .
  moreover have "owns s u p \<longleftrightarrow> ?F \<noteq> []" by (auto simp: owns_def filter_empty_conv)
  ultimately show ?thesis unfolding eq by (cases ?F) auto
qed

lemma concat_if: "concat (map (\<lambda>x. if p x then [x] else []) xs) = filter p xs"
  by (induction xs) auto

lemma owned_pairs_eq:
  assumes "single_owner s"
  shows "owned_pairs u s = filter (\<lambda>c. owns s u (projectId c)) (checks s)"
proof -
  have "owned_pairs u s = concat (map (\<lambda>c. if owns s u (projectId c) then [c] else []) (checks s))"
    unfolding owned_pairs_def by (simp add: pairs_of_check [OF assms])
  also have "\<dots> = filter (\<lambda>c. owns s u (projectId c)) (checks s)"
    by (rule concat_if)
  finally show ?thesis .
qed

definition reasons_ok :: "db \<Rightarrow> bool" where
  "reasons_ok s \<longleftrightarrow> (\<forall>c \<in> set (checks s). pausedReason c \<in> {None, Some ''quota''})"

definition enforceable :: "db \<Rightarrow> bool" where
  "enforceable s \<longleftrightarrow> single_owner s \<and> reasons_ok s \<and> distinct (map c_id (checks s))"

text \<open>Updating a selection of checks by identifier is updating those very rows.\<close>

lemma update_selected:
  assumes "distinct (map c_id xs)" "set sel \<subseteq> set xs"
  shows "update_where (\<lambda>c. c_id c \<in> c_id ` set sel) f xs = map (\<lambda>c. if c \<in> set sel then f c else c) xs"
proof -
  have "(c_id c \<in> c_id ` set sel) = (c \<in> set sel)" if "c \<in> set xs" for c
    using assms that by (auto dest: distinct_map_memD)
  then show ?thesis by (auto simp: update_where_def)
qed

lemma newest_rows:
  assumes "distinct (map c_id (checks s))"
  shows "set (newest u n s) \<subseteq> set (filter (\<lambda>c. owns s u (projectId c) \<and> pausedReason c = None) (checks s))"
    and "distinct (newest u n s)"
    and "length (newest u n s) =
      min n (length (filter (\<lambda>c. owns s u (projectId c) \<and> pausedReason c = None) (checks s)))"
  using distinct_mapD [OF assms]
  by (auto simp: newest_def min.commute dest: in_set_takeD)

lemma oldest_paused_rows:
  assumes "distinct (map c_id (checks s))"
  shows "set (oldest_paused u n s) \<subseteq> set (filter (\<lambda>c. owns s u (projectId c) \<and> quota_paused c) (checks s))"
    and "distinct (oldest_paused u n s)" and "length (oldest_paused u n s) \<le> n"
  using distinct_mapD [OF assms]
  by (auto simp: oldest_paused_def dest: in_set_takeD)

lemma pauseExcess_checks:
  assumes "distinct (map c_id (checks s))"
  shows "checks (snd (pauseExcess u n s)) =
    map (\<lambda>c. if c \<in> set (newest u n s)
             then c\<lparr>state := PAUSED, pausedReason := Some ''quota'', nextDueAt := None\<rparr> else c) (checks s)"
  unfolding pauseExcess_def Let_def using newest_rows(1) [OF assms, of u n]
  by (subst update_selected [OF assms, symmetric]) auto

lemma resume_checks:
  assumes "distinct (map c_id (checks s))" "0 < room"
  shows "checks (snd (resume u room s)) =
    map (\<lambda>c. if c \<in> set (oldest_paused u (nat room) s)
             then c\<lparr>state := NEW, pausedReason := None\<rparr> else c) (checks s)"
  unfolding resume_def Let_def using oldest_paused_rows(1) [OF assms(1), of u "nat room"] assms(2)
  by (subst update_selected [OF assms(1), symmetric]) auto

lemma enforcer_frame [simp]:
  "members (snd (pauseExcess u n s)) = members s" "users (snd (pauseExcess u n s)) = users s"
  "members (snd (resume u room s)) = members s" "users (snd (resume u room s)) = users s"
  by (simp_all add: pauseExcess_def resume_def Let_def)

lemma owns_frame: "members s' = members s \<Longrightarrow> owns s' u p = owns s u p"
  by (simp add: owns_def)

lemma enforceable_pause: "enforceable s \<Longrightarrow> enforceable (snd (pauseExcess u n s))"
  unfolding enforceable_def
  by (auto simp: pauseExcess_checks single_owner_def reasons_ok_def comp_def if_distrib cong: if_cong)

lemma enforceable_resume: "enforceable s \<Longrightarrow> enforceable (snd (resume u room s))"
proof (cases "0 < room")
  case True
  then show "enforceable s \<Longrightarrow> ?thesis"
    unfolding enforceable_def
    by (auto simp: resume_checks single_owner_def reasons_ok_def comp_def if_distrib cong: if_cong)
qed (simp add: resume_def)

lemma active_filter_map:
  assumes "\<And>c. owns s v (projectId (g c)) = owns s v (projectId c)"
  shows "length (filter (\<lambda>c. owns s v (projectId c) \<and> \<not> quota_paused c) (map g xs)) =
    length (filter (\<lambda>c. owns s v (projectId c) \<and> \<not> quota_paused (g c)) xs)"
  by (induction xs) (auto simp: assms)

lemma active_pause:
  assumes "enforceable s" "n \<le> active u s"
  shows "active u (snd (pauseExcess u n s)) = active u s - n"
    and "v \<noteq> u \<Longrightarrow> active v (snd (pauseExcess u n s)) = active v s"
proof -
  have d: "distinct (map c_id (checks s))" using assms(1) by (simp add: enforceable_def)
  let ?D = "newest u n s"
  have reason: "pausedReason c = None \<longleftrightarrow> \<not> quota_paused c" if "c \<in> set (checks s)" for c
    using assms(1) that by (auto simp: enforceable_def reasons_ok_def quota_paused_def)
  have base: "length (filter (\<lambda>c. owns s u (projectId c) \<and> pausedReason c = None) (checks s)) = active u s"
    unfolding active_def using reason by (intro arg_cong [where f = length] filter_cong) auto
  have sub: "set ?D \<subseteq> set (filter (\<lambda>c. owns s u (projectId c) \<and> \<not> quota_paused c) (checks s))"
    using newest_rows(1) [OF d, of u n] reason by auto
  have after: "active v (snd (pauseExcess u n s)) =
      length (filter (\<lambda>c. owns s v (projectId c) \<and> \<not> quota_paused c \<and> c \<notin> set ?D) (checks s))" for v
    unfolding active_def pauseExcess_checks [OF d] owns_frame [OF enforcer_frame(1)]
    by (subst active_filter_map) (auto simp: quota_paused_def intro!: arg_cong [where f = length] filter_cong)
  have "length (filter (\<lambda>c. (owns s u (projectId c) \<and> \<not> quota_paused c) \<and> c \<in> set ?D) (checks s)) = length ?D"
  proof -
    have "filter (\<lambda>c. (owns s u (projectId c) \<and> \<not> quota_paused c) \<and> c \<in> set ?D) (checks s)
        = filter (\<lambda>c. c \<in> set ?D) (checks s)"
      using sub by (intro filter_cong) auto
    moreover have "set ?D \<subseteq> set (checks s)" using sub by auto
    ultimately show ?thesis
      using filter_mem_length [OF distinct_mapD [OF d] newest_rows(2) [OF d]] by metis
  qed
  moreover have "length ?D = n" using newest_rows(3) [OF d, of u n] base assms(2) by simp
  ultimately show "active u (snd (pauseExcess u n s)) = active u s - n"
    using filter_split_length [of "\<lambda>c. owns s u (projectId c) \<and> \<not> quota_paused c" "checks s" "\<lambda>c. c \<in> set ?D"]
    unfolding after by (simp add: active_def conj_assoc)
  show "active v (snd (pauseExcess u n s)) = active v s" if "v \<noteq> u"
  proof -
    have "\<not> owns s v (projectId c)" if "c \<in> set ?D" for c
      using sub that single_ownerD [of s u "projectId c" v] assms(1) \<open>v \<noteq> u\<close>
      by (auto simp: enforceable_def)
    then show ?thesis
      unfolding after unfolding active_def by (intro arg_cong [where f = length] filter_cong) auto
  qed
qed

lemma active_resume:
  assumes "enforceable s"
  shows "active u (snd (resume u room s)) \<le> active u s + nat room"
    and "v \<noteq> u \<Longrightarrow> active v (snd (resume u room s)) = active v s"
proof -
  have d: "distinct (map c_id (checks s))" using assms(1) by (simp add: enforceable_def)
  let ?D = "oldest_paused u (nat room) s"
  note rows = oldest_paused_rows [OF d, of u "nat room"]
  have after: "active v (snd (resume u room s)) =
      length (filter (\<lambda>c. owns s v (projectId c) \<and> (\<not> quota_paused c \<or> c \<in> set ?D)) (checks s))"
    if "0 < room" for v
    unfolding active_def resume_checks [OF d that] owns_frame [OF enforcer_frame(3)]
    by (subst active_filter_map) (auto simp: quota_paused_def intro!: arg_cong [where f = length] filter_cong)
  show "active u (snd (resume u room s)) \<le> active u s + nat room"
  proof (cases "0 < room")
    case True
    have "length (filter (\<lambda>c. owns s u (projectId c) \<and> (\<not> quota_paused c \<or> c \<in> set ?D)) xs)
        \<le> length (filter (\<lambda>c. owns s u (projectId c) \<and> \<not> quota_paused c) xs)
          + length (filter (\<lambda>c. c \<in> set ?D) xs)" for xs
      by (induction xs) auto
    moreover have "length (filter (\<lambda>c. c \<in> set ?D) (checks s)) \<le> nat room"
    proof -
      have "set ?D \<subseteq> set (checks s)" using rows(1) by auto
      from filter_mem_length [OF distinct_mapD [OF d] rows(2) this] rows(3) show ?thesis by simp
    qed
    ultimately show ?thesis unfolding after [OF True] by (simp add: active_def) (meson add_left_mono le_trans)
  qed (simp add: resume_def active_def)
  show "active v (snd (resume u room s)) = active v s" if "v \<noteq> u"
  proof (cases "0 < room")
    case True
    have "\<not> owns s v (projectId c)" if "c \<in> set ?D" for c
      using rows(1) that single_ownerD [of s u "projectId c" v] assms(1) \<open>v \<noteq> u\<close>
      by (auto simp: enforceable_def)
    then show ?thesis
      unfolding after [OF True] unfolding active_def by (intro arg_cong [where f = length] filter_cong) auto
  qed (simp add: resume_def active_def)
qed

text \<open>One account at a time: its own row brings it within its limit, the others leave it alone.\<close>

definition within_plan :: "quota_settings \<Rightarrow> string option \<Rightarrow> uuid \<Rightarrow> db \<Rightarrow> bool" where
  "within_plan cfg plan u s \<longleftrightarrow>
     (case pl_checks (limitsFor cfg plan) of None \<Rightarrow> True | Some l \<Rightarrow> active u s \<le> l)"

lemma reconcile_owner_db:
  "rc_db (reconcile_owner cfg ow r) =
     (case pl_checks (limitsFor cfg (o_plan ow)) of
        None \<Rightarrow> snd (resume (o_user ow) MAX_SAFE_INTEGER (rc_db r))
      | Some l \<Rightarrow>
          if l < activeChecks ow then snd (pauseExcess (o_user ow) (activeChecks ow - l) (rc_db r))
          else if 0 < pausedByQuota ow then snd (resume (o_user ow) (int l - int (activeChecks ow)) (rc_db r))
          else rc_db r)"
  by (simp add: reconcile_owner_def split: option.splits prod.splits)

lemma reconcile_owner_own:
  assumes "enforceable (rc_db r)" "activeChecks ow = active (o_user ow) (rc_db r)"
  shows "within_plan cfg (o_plan ow) (o_user ow) (rc_db (reconcile_owner cfg ow r))"
proof (cases "pl_checks (limitsFor cfg (o_plan ow))")
  case (Some l)
  consider "l < activeChecks ow" | "activeChecks ow \<le> l" "0 < pausedByQuota ow"
    | "activeChecks ow \<le> l" "pausedByQuota ow = 0" by linarith
  then show ?thesis
  proof cases
    case 1
    then show ?thesis
      using active_pause(1) [OF assms(1), of "activeChecks ow - l" "o_user ow"] Some assms(2)
      by (simp add: within_plan_def reconcile_owner_db)
  next
    case 2
    have "active (o_user ow) (snd (resume (o_user ow) (int l - int (activeChecks ow)) (rc_db r))) \<le> l"
      using active_resume(1) [OF assms(1), of "o_user ow" "int l - int (activeChecks ow)"] 2 assms(2)
      by simp
    then show ?thesis using 2 Some by (simp add: within_plan_def reconcile_owner_db)
  next
    case 3
    then show ?thesis using Some assms(2) by (simp add: within_plan_def reconcile_owner_db)
  qed
qed (simp add: within_plan_def)

lemma reconcile_owner_other:
  assumes "enforceable (rc_db r)" "v \<noteq> o_user ow" "activeChecks ow \<le> active (o_user ow) (rc_db r)"
  shows "active v (rc_db (reconcile_owner cfg ow r)) = active v (rc_db r)"
  using active_pause(2) [OF assms(1) _ assms(2)] active_resume(2) [OF assms(1,2)] assms(3)
  by (auto simp: reconcile_owner_db split: option.splits)

lemma reconcile_owner_enforceable:
  "enforceable (rc_db r) \<Longrightarrow> enforceable (rc_db (reconcile_owner cfg ow r))"
  by (auto simp: reconcile_owner_db enforceable_pause enforceable_resume split: option.splits)

lemma fold_reconcile:
  "enforceable (rc_db r) \<Longrightarrow> distinct (map o_user ows) \<Longrightarrow>
   (\<forall>ow \<in> set ows. activeChecks ow = active (o_user ow) (rc_db r)) \<Longrightarrow>
   (\<forall>ow \<in> set ows. within_plan cfg (o_plan ow) (o_user ow) (rc_db (fold (reconcile_owner cfg) ows r)))
   \<and> (\<forall>v. v \<notin> o_user ` set ows \<longrightarrow>
        active v (rc_db (fold (reconcile_owner cfg) ows r)) = active v (rc_db r))"
proof (induction ows arbitrary: r)
  case (Cons ow ows)
  let ?r = "reconcile_owner cfg ow r"
  have en: "enforceable (rc_db ?r)" using Cons.prems(1) by (rule reconcile_owner_enforceable)
  have other: "active v (rc_db ?r) = active v (rc_db r)" if "v \<noteq> o_user ow" for v
    using reconcile_owner_other [OF Cons.prems(1) that] Cons.prems(3) by simp
  have rows: "\<forall>x \<in> set ows. activeChecks x = active (o_user x) (rc_db ?r)"
  proof
    fix x assume x: "x \<in> set ows"
    then have "o_user x \<noteq> o_user ow" using Cons.prems(2)
      by (metis distinct.simps(2) imageI list.simps(9) list.set_map)
    then show "activeChecks x = active (o_user x) (rc_db ?r)" using other x Cons.prems(3) by simp
  qed
  note IH = Cons.IH [OF en _ rows]
  have "o_user ow \<notin> o_user ` set ows" "distinct (map o_user ows)" using Cons.prems(2) by auto
  then have "active (o_user ow) (rc_db (fold (reconcile_owner cfg) ows ?r)) = active (o_user ow) (rc_db ?r)"
    using IH by blast
  moreover have "within_plan cfg (o_plan ow) (o_user ow) (rc_db ?r)"
    using reconcile_owner_own [OF Cons.prems(1)] Cons.prems(3) by simp
  ultimately show ?case
    using IH other \<open>distinct (map o_user ows)\<close> by (auto simp: within_plan_def split: option.splits)
qed simp

text \<open>
  C14. After one pass of the enforcer every account is within its plan: the checks
  of its projects that quota has not paused number at most the limit, whatever they were
  before and however many accounts the pass went through.
\<close>

theorem reconcile_restores_limit:
  assumes "quotas_enabled cfg" and "enforceable s" and "u \<in> set (users s)"
    and "pl_checks (limitsFor cfg (u_plan u)) = Some l"
  shows "active (u_id u) (rc_db (reconcile cfg s)) \<le> l"
proof -
  let ?r = "\<lparr>rc_paused = 0, rc_resumed = 0, rc_accounts = 0, rc_db = s\<rparr>"
  have so: "single_owner s" using assms(2) by (simp add: enforceable_def)
  have pairs: "owned_pairs v s = filter (\<lambda>c. owns s v (projectId c)) (checks s)" for v
    by (rule owned_pairs_eq [OF so])
  have act: "length (filter (\<lambda>c. \<not> quota_paused c) (owned_pairs v s)) = active v s" for v
    by (simp add: pairs active_def)
  have "distinct (map u_id (users s))" using so by (simp add: single_owner_def)
  then have "distinct (map o_user (ownersWithChecks s))"
    by (simp add: ownersWithChecks_def comp_def distinct_map_filter)
  moreover have "\<forall>ow \<in> set (ownersWithChecks s). activeChecks ow = active (o_user ow) s"
    by (auto simp: ownersWithChecks_def act)
  ultimately have f: "(\<forall>ow \<in> set (ownersWithChecks s). within_plan cfg (o_plan ow) (o_user ow) (rc_db (reconcile cfg s)))
      \<and> (\<forall>v. v \<notin> o_user ` set (ownersWithChecks s) \<longrightarrow> active v (rc_db (reconcile cfg s)) = active v s)"
    using fold_reconcile [of ?r "ownersWithChecks s" cfg] assms(1,2) by (simp add: reconcile_def)
  show ?thesis
  proof (cases "owned_pairs (u_id u) s = []")
    case True
    have "u_id u \<notin> o_user ` set (ownersWithChecks s)"
      using True by (auto simp: ownersWithChecks_def)
    then have "active (u_id u) (rc_db (reconcile cfg s)) = active (u_id u) s" using f by blast
    also have "\<dots> = 0" using act [of "u_id u"] True by simp
    finally show ?thesis by simp
  next
    case False
    then have "\<exists>ow \<in> set (ownersWithChecks s). o_user ow = u_id u \<and> o_plan ow = u_plan u"
      using assms(3) by (force simp: ownersWithChecks_def)
    then show ?thesis using f assms(4) by (force simp: within_plan_def)
  qed
qed

definition sample_plans :: quota_settings where
  "sample_plans = \<lparr>quotas_enabled = True, DEFAULT_PLAN = ''free'',
     planLimits = [(''free'', \<lparr>pl_checks = Some 0, pl_projects = None, pl_channelsPerProject = None,
        pl_retentionDays = Some 7\<rparr>)]\<rparr>"

theorem reconcile_restores_limit_witness:
  "active 9 (rc_db (reconcile sample_plans sample_account)) = 0"
proof -
  have e: "enforceable sample_account"
    by (simp add: enforceable_def single_owner_def reasons_ok_def sample_account_def
        sample_alerting_def sample_member_def)
  have "hd (users sample_account) \<in> set (users sample_account)"
    "pl_checks (limitsFor sample_plans (u_plan (hd (users sample_account)))) = Some 0"
    "u_id (hd (users sample_account)) = 9" "quotas_enabled sample_plans"
    by (simp_all add: sample_account_def limitsFor_def sample_plans_def)
  then show ?thesis using reconcile_restores_limit [OF _ e] by fastforce
qed

section \<open>Which checks go, and how they come back\<close>

text \<open>
  The checks paused for quota are the newest: none of those left unpaused in the
  account was created after one that was paused. At most the number asked for go, and only
  checks of that account.
\<close>

theorem newest_go_first:
  assumes "distinct (map c_id (checks s))" and "c \<in> set (newest u n s)"
    and "d \<in> set (checks s)" and "owns s u (projectId d)" and "pausedReason d = None"
    and "d \<notin> set (newest u n s)"
  shows "age_key d \<le> age_key c \<and> c_createdAt d \<le> c_createdAt c
    \<and> length (newest u n s) \<le> n \<and> owns s u (projectId c)"
proof -
  let ?F = "filter (\<lambda>c. owns s u (projectId c) \<and> pausedReason c = None) (checks s)"
  let ?S = "rev (sort_key age_key ?F)"
  have "d \<in> set ?S" using assms(3-5) by simp
  then have dd: "d \<in> set (drop n ?S)"
    using assms(6) unfolding newest_def by (metis Un_iff append_take_drop_id set_append)
  have "sorted_wrt (\<lambda>x y. age_key y \<le> age_key x) ?S"
    using sorted_sort_key [of age_key ?F] by (simp add: sorted_wrt_rev sorted_map)
  then have "sorted_wrt (\<lambda>x y. age_key y \<le> age_key x) (take n ?S @ drop n ?S)" by simp
  then have le: "age_key d \<le> age_key c"
    using assms(2) dd unfolding sorted_wrt_append newest_def by blast
  moreover have "c_createdAt d \<le> c_createdAt c"
    using le by (auto simp: age_key_def less_eq_prod_def)
  ultimately show ?thesis
    using newest_rows(1,3) [OF assms(1), of u n] assms(2) by auto
qed

lemma image_if_mem: "x \<in> set xs \<Longrightarrow> P x \<Longrightarrow> f x \<in> set (map (\<lambda>c. if P c then f c else c) xs)"
  by (induction xs) auto

text \<open>
  Pausing and resuming for quota does not respect what a person decided, and what
  it resumes is not watched: a check its owner had paused on purpose, once it is among the
  newest, is marked as paused by quota, comes back as NEW when there is room again, and has
  no deadline, so that no tick ever finds it overdue until its next heartbeat.
\<close>

theorem manual_pause_is_undone:
  assumes "enforceable s" and "c \<in> set (newest u n s)" and "state c = PAUSED"
    and "length (filter (\<lambda>x. owns s u (projectId x)) (checks s)) \<le> room" and "0 < room"
  shows "\<exists>d \<in> set (checks (snd (resume u (int room) (snd (pauseExcess u n s))))).
    c_id d = c_id c \<and> state d = NEW \<and> pausedReason d = None \<and> nextDueAt d = None
    \<and> (\<forall>t. \<not> overdue t d)"
proof -
  let ?s = "snd (pauseExcess u n s)"
  let ?pause = "\<lambda>c. c\<lparr>state := PAUSED, pausedReason := Some ''quota'', nextDueAt := None\<rparr>"
  have d: "distinct (map c_id (checks s))" using assms(1) by (simp add: enforceable_def)
  have d': "distinct (map c_id (checks ?s))"
    using enforceable_pause [OF assms(1)] by (simp add: enforceable_def)
  have c: "c \<in> set (checks s)" "owns s u (projectId c)"
    using newest_rows(1) [OF d, of u n] assms(2) by auto
  have "?pause c \<in> set (map (\<lambda>c. if c \<in> set (newest u n s) then ?pause c else c) (checks s))"
    by (rule image_if_mem) (use c(1) assms(2) in simp_all)
  then have m: "?pause c \<in> set (checks ?s)" by (simp only: pauseExcess_checks [OF d])
  have q: "?pause c \<in> set (filter (\<lambda>c. owns ?s u (projectId c) \<and> quota_paused c) (checks ?s))"
    using m c(2) by (simp add: quota_paused_def owns_frame [OF enforcer_frame(1)])
  have "length (filter (\<lambda>c. owns ?s u (projectId c) \<and> quota_paused c) (checks ?s))
      \<le> length (filter (\<lambda>x. owns ?s u (projectId x)) (checks ?s))"
    by (rule filter_length_mono) simp
  also have "\<dots> = length (filter (\<lambda>x. owns s u (projectId x)) (checks s))"
  proof -
    have "length (filter (\<lambda>x. owns s u (projectId x)) (map (\<lambda>c. if q c then ?pause c else c) xs))
        = length (filter (\<lambda>x. owns s u (projectId x)) xs)" for q xs
      by (induction xs) auto
    then show ?thesis by (simp only: pauseExcess_checks [OF d] owns_frame [OF enforcer_frame(1)])
  qed
  finally have "?pause c \<in> set (oldest_paused u (nat (int room)) ?s)"
    using q assms(4) by (simp add: oldest_paused_def)
  then have "(?pause c)\<lparr>state := NEW, pausedReason := None\<rparr> \<in>
      set (map (\<lambda>c. if c \<in> set (oldest_paused u (nat (int room)) ?s)
             then c\<lparr>state := NEW, pausedReason := None\<rparr> else c) (checks ?s))"
    by (intro image_if_mem m)
  then have "(?pause c)\<lparr>state := NEW, pausedReason := None\<rparr> \<in> set (checks (snd (resume u (int room) ?s)))"
    using resume_checks [OF d', of "int room" u] assms(5) by (simp only: of_nat_0_less_iff)
  then show ?thesis
    by (rule bexI [rotated]) (simp add: overdue_def)
qed

definition paused_account :: db where
  "paused_account = sample_account\<lparr>checks := map (\<lambda>c. c\<lparr>state := PAUSED\<rparr>) (checks sample_account)\<rparr>"

theorem manual_pause_is_undone_witness:
  "\<exists>d \<in> set (checks (snd (resume 9 (int 5) (snd (pauseExcess 9 1 paused_account))))). state d = NEW \<and> nextDueAt d = None"
proof -
  have e: "enforceable paused_account"
    by (simp add: enforceable_def single_owner_def reasons_ok_def sample_account_def
        sample_alerting_def sample_member_def paused_account_def)
  have n: "newest 9 1 paused_account = checks paused_account"
    by (simp add: newest_def paused_account_def sample_account_def sample_alerting_def owns_def sample_member_def)
  have c: "hd (checks paused_account) \<in> set (newest 9 1 paused_account)"
    "state (hd (checks paused_account)) = PAUSED"
    unfolding n by (simp_all add: paused_account_def sample_account_def sample_alerting_def)
  have l: "length (filter (\<lambda>x. owns paused_account 9 (projectId x)) (checks paused_account)) \<le> 5"
    by (simp add: paused_account_def sample_account_def sample_alerting_def)
  show ?thesis using manual_pause_is_undone [OF e c l] by auto
qed

definition two_checks :: db where
  "two_checks = sample_account\<lparr>checks := checks sample_account @
     map (\<lambda>c. c\<lparr>c_id := 8, c_createdAt := 5\<rparr>) (checks sample_account)\<rparr>"

theorem newest_go_first_witness:
  "map c_id (newest 9 1 two_checks) = [8] \<and> c_createdAt (hd (checks two_checks)) \<le> 5"
proof -
  have n: "newest 9 1 two_checks = tl (checks two_checks)"
    by (simp add: newest_def two_checks_def sample_account_def sample_alerting_def owns_def
        sample_member_def age_key_def)
  have h: "distinct (map c_id (checks two_checks))" "hd (tl (checks two_checks)) \<in> set (newest 9 1 two_checks)"
    "hd (checks two_checks) \<in> set (checks two_checks)"
    "owns two_checks 9 (projectId (hd (checks two_checks)))" "pausedReason (hd (checks two_checks)) = None"
    "hd (checks two_checks) \<notin> set (newest 9 1 two_checks)"
    unfolding n by (simp_all add: two_checks_def sample_account_def sample_alerting_def owns_def sample_member_def)
  have "map c_id (newest 9 1 two_checks) = [8]" "c_createdAt (hd (tl (checks two_checks))) = 5"
    unfolding n by (simp_all add: two_checks_def sample_account_def sample_alerting_def)
  then show ?thesis using newest_go_first [OF h] by simp
qed

end
