(* ===== verification/Slug.thy ===== *)
theory Slug
  imports Crypto
begin

text \<open>
  Slugs: \<^verbatim>\<open>packages/server/src/common/slug.util.ts\<close> and \<^verbatim>\<open>checks/check-slug.ts\<close>. A display
  name is a list of UTF-16 code units, so that accents can be folded; Unicode's
  decomposition (\<open>normalize('NFKD')\<close>) is a parameter.
\<close>

type_synonym units = "nat list"

definition MAX_SLUG_LENGTH :: nat where "MAX_SLUG_LENGTH = 60"

definition slug_unit :: "nat \<Rightarrow> bool" where
  "slug_unit n \<longleftrightarrow> 97 \<le> n \<and> n \<le> 122 \<or> 48 \<le> n \<and> n \<le> 57"

text \<open>Lower case: beyond ASCII a unit is replaced by a dash whatever its case.\<close>

definition lower_unit :: "nat \<Rightarrow> nat" where
  "lower_unit n = (if 65 \<le> n \<and> n \<le> 90 then n + 32 else n)"

text \<open>\<open>replace(/[^a-z0-9]+/g, '-')\<close>: each run becomes one dash.\<close>

fun dash_runs :: "bool \<Rightarrow> units \<Rightarrow> string" where
  "dash_runs inRun [] = []"
| "dash_runs inRun (n # ns) =
     (if slug_unit n then char_of n # dash_runs False ns
      else if inRun then dash_runs True ns
      else CHR ''-'' # dash_runs True ns)"

definition strip_end :: "string \<Rightarrow> string" where
  "strip_end s = rev (dropWhile (\<lambda>c. c = CHR ''-'') (rev s))"

definition strip_dashes :: "string \<Rightarrow> string" where
  "strip_dashes s = strip_end (dropWhile (\<lambda>c. c = CHR ''-'') s)"

definition slugify :: "(units \<Rightarrow> units) \<Rightarrow> byte list \<Rightarrow> units \<Rightarrow> string" where
  "slugify nfkd bytes4 value =
     (let s = strip_end (take MAX_SLUG_LENGTH
            (strip_dashes (dash_runs False
              (map lower_unit (filter (\<lambda>n. \<not> (768 \<le> n \<and> n \<le> 879)) (nfkd value))))))
      in if s \<noteq> [] then s else to_hex bytes4)"

text \<open>
  \<open>isTaken\<close> is asked in order, at most \<open>attempts\<close> times; \<open>uniq_from\<close> is the loop at its
  n-th candidate.
\<close>

function uniq_from :: "string \<Rightarrow> (string \<Rightarrow> bool) \<Rightarrow> nat \<Rightarrow> nat \<Rightarrow> string option" where
  "uniq_from root isTaken attempts attempt =
     (if attempts < attempt then None
      else let candidate = take (MAX_SLUG_LENGTH - 3) root @ ''-'' @ show_nat attempt
           in if \<not> isTaken candidate then Some candidate
              else uniq_from root isTaken attempts (Suc attempt))"
  by pat_completeness auto
termination by (relation "measure (\<lambda>(_, _, attempts, attempt). Suc attempts - attempt)") auto

declare uniq_from.simps [simp del]

definition uniqueSlug ::
  "(units \<Rightarrow> units) \<Rightarrow> byte list \<Rightarrow> byte list \<Rightarrow> units \<Rightarrow> (string \<Rightarrow> bool) \<Rightarrow> nat \<Rightarrow> string" where
  "uniqueSlug nfkd bytes4 bytes3 base isTaken attempts =
     (let root = slugify nfkd bytes4 base
      in if \<not> isTaken root then root
         else case uniq_from root isTaken attempts 2 of
           Some candidate \<Rightarrow> candidate
         | None \<Rightarrow> take (MAX_SLUG_LENGTH - 7) root @ ''-'' @ to_hex bytes3)"

text \<open>The slug of a synced check comes from its identity.\<close>

definition syncSlug ::
  "(units \<Rightarrow> units) \<Rightarrow> byte list \<Rightarrow> (string \<Rightarrow> string) \<Rightarrow> units \<Rightarrow> string \<Rightarrow> string option \<Rightarrow> string" where
  "syncSlug nfkd bytes4 sha256Hex nm k environment =
     (let root = strip_end (take 40 (slugify nfkd bytes4 nm));
          fingerprint = take 8 (sha256Hex ((case environment of None \<Rightarrow> [] | Some e \<Rightarrow> e) @ ''|'' @ k))
      in (if root \<noteq> [] then root @ ''-'' else []) @ fingerprint)"

section \<open>The shape of a slug\<close>

definition slug_char :: "char \<Rightarrow> bool" where
  "slug_char c \<longleftrightarrow> is_lower c \<or> is_digit c"

text \<open>\<open>/^[a-z0-9]+(?:-[a-z0-9]+)*$/\<close> of the shared \<open>slugSchema\<close>.\<close>

definition slug_shape :: "string \<Rightarrow> bool" where
  "slug_shape s \<longleftrightarrow> list_all (\<lambda>p. p \<noteq> [] \<and> list_all slug_char p) (split_on CHR ''-'' s)"

text \<open>Never two dashes in a row.\<close>

fun single_dashes :: "string \<Rightarrow> bool" where
  "single_dashes (a # b # s) = (\<not> (a = CHR ''-'' \<and> b = CHR ''-'') \<and> single_dashes (b # s))"
| "single_dashes _ = True"

definition slug_chars :: "string \<Rightarrow> bool" where
  "slug_chars s \<longleftrightarrow> list_all (\<lambda>c. slug_char c \<or> c = CHR ''-'') s"

lemma dash_not_slug [simp]: "\<not> slug_char CHR ''-''"
  by (simp add: slug_char_def is_lower_def is_digit_def)

lemma slug_unit_char: "slug_unit n \<Longrightarrow> slug_char (char_of n) \<and> char_of n \<noteq> CHR ''-''"
proof -
  assume n: "slug_unit n"
  then have "code (char_of n) = n" by (auto simp: slug_unit_def code_char_of simp del: of_char_of)
  with n have "slug_char (char_of n)"
    by (auto simp: slug_char_def is_lower_def is_digit_def slug_unit_def)
  moreover from this have "char_of n \<noteq> CHR ''-''" by (metis dash_not_slug)
  ultimately show ?thesis ..
qed

lemma dash_runs_shape:
  "slug_chars (dash_runs b ns) \<and> single_dashes (dash_runs b ns)
   \<and> (b \<longrightarrow> dash_runs b ns = [] \<or> hd (dash_runs b ns) \<noteq> CHR ''-'')"
proof (induction ns arbitrary: b)
  case Nil
  then show ?case by (simp add: slug_chars_def)
next
  case (Cons n ns)
  have sd: "single_dashes (c # s) = (single_dashes s \<and> \<not> (c = CHR ''-'' \<and> s \<noteq> [] \<and> hd s = CHR ''-''))" for c s
    by (cases s) auto
  show ?case
    using Cons.IH [of False] Cons.IH [of True] slug_unit_char [of n]
    by (auto simp: slug_chars_def sd)
qed

lemma single_dashes_append:
  "single_dashes (s @ t) \<Longrightarrow> single_dashes s \<and> single_dashes t"
  by (induction s rule: single_dashes.induct) (auto, cases t, auto)

lemma single_dashes_take: "single_dashes s \<Longrightarrow> single_dashes (take n s)"
  using single_dashes_append [of "take n s" "drop n s"] by simp

lemma single_dashes_dropWhile: "single_dashes s \<Longrightarrow> single_dashes (dropWhile p s)"
  using single_dashes_append [of "takeWhile p s" "dropWhile p s"] by simp

lemma strip_end_prefix: "\<exists>t. s = strip_end s @ t"
proof -
  have "rev s = takeWhile (\<lambda>c. c = CHR ''-'') (rev s) @ dropWhile (\<lambda>c. c = CHR ''-'') (rev s)"
    by (rule takeWhile_dropWhile_id [symmetric])
  then have "s = strip_end s @ rev (takeWhile (\<lambda>c. c = CHR ''-'') (rev s))"
    unfolding strip_end_def by (metis rev_append rev_rev_ident)
  then show ?thesis ..
qed

lemma strip_end_last: "strip_end s = [] \<or> last (strip_end s) \<noteq> CHR ''-''"
proof (cases "dropWhile (\<lambda>c. c = CHR ''-'') (rev s)")
  case (Cons x xs)
  then have "x \<noteq> CHR ''-''"
    using hd_dropWhile [of "\<lambda>c. c = CHR ''-''" "rev s"] by simp
  with Cons show ?thesis by (simp add: strip_end_def)
qed (simp add: strip_end_def)

lemma single_dashes_strip_end: "single_dashes s \<Longrightarrow> single_dashes (strip_end s)"
  using strip_end_prefix [of s] single_dashes_append by metis

lemma strip_end_take: "\<exists>n. strip_end s = take n s"
  using strip_end_prefix [of s] by (metis append_eq_conv_conj)

lemma slug_chars_take: "slug_chars s \<Longrightarrow> slug_chars (take n s)"
  by (auto simp: slug_chars_def list_all_iff dest: in_set_takeD)

lemma slug_chars_dropWhile: "slug_chars s \<Longrightarrow> slug_chars (dropWhile p s)"
  by (auto simp: slug_chars_def list_all_iff dest: set_dropWhileD)

lemma slug_chars_strip_end: "slug_chars s \<Longrightarrow> slug_chars (strip_end s)"
  using strip_end_take [of s] slug_chars_take by metis

text \<open>Those three facts and a first and last character that is no dash give the shape.\<close>

lemma slug_shape_intro:
  "slug_chars s \<Longrightarrow> single_dashes s \<Longrightarrow> s \<noteq> [] \<Longrightarrow> hd s \<noteq> CHR ''-'' \<Longrightarrow> last s \<noteq> CHR ''-'' \<Longrightarrow> slug_shape s"
proof (induction s rule: induct_list012)
  case (2 c)
  then show ?case by (simp add: slug_shape_def slug_chars_def)
next
  case (3 c d t)
  have c: "slug_char c" "slug_chars (d # t)" "slug_chars t" using "3.prems" by (auto simp: slug_chars_def)
  show ?case
  proof (cases "d = CHR ''-''")
    case True
    then have "t \<noteq> []" "hd t \<noteq> CHR ''-''" "single_dashes t" "last t \<noteq> CHR ''-''"
      using "3.prems" by (cases t; auto split: if_splits)+
    then have "slug_shape t" using "3.IH"(1) c by blast
    then show ?thesis using True c "3.prems" by (auto simp: slug_shape_def)
  next
    case False
    have "slug_shape (d # t)" using "3.IH"(2) "3.prems" False c by simp
    then show ?thesis
      using c "3.prems" by (cases "split_on CHR ''-'' (d # t)") (auto simp: slug_shape_def)
  qed
qed simp

lemma hex_slug_chars: "list_all slug_char (to_hex bs)"
  using to_hex_digits [of bs]
  by (auto simp: list_all_iff slug_char_def is_hex_lower_def is_lower_def is_digit_def)

lemma plain_shape: "list_all slug_char s \<Longrightarrow> s \<noteq> [] \<Longrightarrow> slug_shape s"
proof -
  assume a: "list_all slug_char s" "s \<noteq> []"
  have "c \<noteq> CHR ''-''" if "c \<in> set s" for c using a that by (auto simp: list_all_iff)
  then have "CHR ''-'' \<notin> set s" by blast
  then have "split_on CHR ''-'' s = [s]" by (rule split_on_no_sep)
  with a show ?thesis by (simp add: slug_shape_def)
qed

text \<open>
  C40. Whatever the name, the slug has the shape the API requires of one: 1 to 60
  characters, lower-case letters and digits in groups separated by single dashes. A name
  that folds away to nothing gets eight random hexadecimal characters.
\<close>

theorem slugify_shape:
  assumes "length bytes4 = 4"
  shows "slug_shape (slugify nfkd bytes4 value) \<and> slugify nfkd bytes4 value \<noteq> []
    \<and> length (slugify nfkd bytes4 value) \<le> 60"
proof -
  define raw where "raw = dash_runs False (map lower_unit (filter (\<lambda>n. \<not> (768 \<le> n \<and> n \<le> 879)) (nfkd value)))"
  define body where "body = dropWhile (\<lambda>c. c = CHR ''-'') raw"
  define s where "s = strip_end (take MAX_SLUG_LENGTH (strip_dashes raw))"
  have raw: "slug_chars raw" "single_dashes raw"
    using dash_runs_shape unfolding raw_def by blast+
  have body: "body = [] \<or> hd body \<noteq> CHR ''-''"
    unfolding body_def using hd_dropWhile [of "\<lambda>c. c = CHR ''-''" raw] by blast
  obtain n where s_take: "s = take n body"
    using strip_end_take [of "take MAX_SLUG_LENGTH (strip_end body)"] strip_end_take [of body]
    unfolding s_def strip_dashes_def body_def [symmetric] by (metis take_take)
  have len: "length s \<le> 60"
    using strip_end_take [of "take MAX_SLUG_LENGTH (strip_dashes raw)"]
    unfolding s_def by (auto simp: MAX_SLUG_LENGTH_def)
  have shape: "slug_shape s" if "s \<noteq> []"
  proof (rule slug_shape_intro)
    show "slug_chars s" "single_dashes s"
      unfolding s_take body_def
      using raw by (simp_all add: slug_chars_take slug_chars_dropWhile single_dashes_take single_dashes_dropWhile)
    show "hd s \<noteq> CHR ''-''" using body that unfolding s_take by (cases body; cases n) auto
    show "last s \<noteq> CHR ''-''" using strip_end_last that unfolding s_def by blast
  qed (use that in simp)
  have "slugify nfkd bytes4 value = (if s \<noteq> [] then s else to_hex bytes4)"
    by (simp add: slugify_def s_def raw_def Let_def)
  moreover have "length (to_hex bytes4) = 8" using assms by simp
  moreover have "to_hex bytes4 \<noteq> []"
    using \<open>length (to_hex bytes4) = 8\<close> by (cases "to_hex bytes4") (simp_all del: length_to_hex)
  ultimately show ?thesis
    using shape len plain_shape [OF hex_slug_chars] by (auto split: if_splits)
qed

theorem slugify_shape_witness:
  "slug_shape (slugify (\<lambda>u. u) [1, 2, 3, 4] [83, 97, 117, 118, 101, 103, 97, 114, 100, 101, 32, 33])"
  using slugify_shape [of "[1, 2, 3, 4]"] by simp

text \<open>
  The search for a free slug asks its question a bounded number of times and answers a free
  candidate, or falls back on random characters.
\<close>

lemma uniq_from_free: "uniq_from root taken n k = Some c \<Longrightarrow> \<not> taken c"
proof (induction root taken n k rule: uniq_from.induct)
  case (1 root taken n k)
  then show ?case by (subst (asm) (2) uniq_from.simps) (auto simp: Let_def split: if_splits)
qed

lemma uniq_from_length: "uniq_from root taken n k = Some c \<Longrightarrow> n < 100 \<Longrightarrow> length c \<le> 60"
proof (induction root taken n k rule: uniq_from.induct)
  case (1 root taken n k)
  have "length (show_nat k) \<le> 2" if "k \<le> n" "n < 100"
    using that by (intro length_show_nat) auto
  then show ?case
    using 1 by (subst (asm) (2) uniq_from.simps) (auto simp: Let_def MAX_SLUG_LENGTH_def split: if_splits)
qed

text \<open>
  The slug chosen is free, unless every numbered candidate was taken and it is the
  random one; it never exceeds 60 characters.
\<close>

theorem uniqueSlug_free:
  assumes "length bytes4 = 4" and "length bytes3 = 3" and "attempts < 100"
  shows "(\<not> isTaken (uniqueSlug nfkd bytes4 bytes3 base isTaken attempts)
      \<or> uniqueSlug nfkd bytes4 bytes3 base isTaken attempts
          = take 53 (slugify nfkd bytes4 base) @ ''-'' @ to_hex bytes3)
    \<and> length (uniqueSlug nfkd bytes4 bytes3 base isTaken attempts) \<le> 60"
proof (cases "isTaken (slugify nfkd bytes4 base)")
  case False
  then show ?thesis using slugify_shape [OF assms(1), of nfkd base] by (simp add: uniqueSlug_def)
next
  case True
  then show ?thesis
    using uniq_from_length [OF _ assms(3)] assms(2)
    by (auto dest: uniq_from_free simp: uniqueSlug_def MAX_SLUG_LENGTH_def Let_def split: option.splits)
qed

theorem uniqueSlug_free_witness:
  "length (uniqueSlug (\<lambda>u. u) [1, 2, 3, 4] [5, 6, 7] [97] (\<lambda>_. True) 5) \<le> 60"
  using uniqueSlug_free [of "[1, 2, 3, 4]" "[5, 6, 7]" 5] by simp

text \<open>
  The numbered candidate cuts the root at 57 characters and may leave a dash at the cut, so
  it need not have the shape of a slug: a taken root whose 57th character is a dash gives
  two dashes in a row.
\<close>

lemma candidate_double_dash:
  "\<not> slug_shape (take (MAX_SLUG_LENGTH - 3) (replicate 56 CHR ''a'' @ ''-bc'') @ ''-'' @ show_nat 2)"
  by (simp add: MAX_SLUG_LENGTH_def show_nat.simps digit_chars slug_shape_def numeral_eq_Suc)

end
