(* ===== verification/Requests.thy ===== *)
theory Requests
  imports CronSyntax Slug Schedule Store
begin

text \<open>
  What the API accepts: \<^verbatim>\<open>packages/shared/src/schemas/primitives.ts\<close>, \<^verbatim>\<open>limits.ts\<close>,
  \<^verbatim>\<open>checks.ts\<close>, \<^verbatim>\<open>projects.ts\<close> and \<^verbatim>\<open>sync.ts\<close>. A schema is the function from what a
  client sends (already of the JSON type the schema starts from) to what the server works
  with, \<open>None\<close> where it refuses; the list of issues is kept where the schema builds it itself.
\<close>

section \<open>Limits\<close>

definition nameMax :: nat where "nameMax = 120"
definition slugMax :: nat where "slugMax = 140"
definition environmentMax :: nat where "environmentMax = 40"
definition tagMax :: nat where "tagMax = 40"
definition tagsMax :: nat where "tagsMax = 20"
definition periodSecondsMin :: int where "periodSecondsMin = 30"
definition periodSecondsMax :: int where "periodSecondsMax = 31536000"
definition graceSecondsMin :: int where "graceSecondsMin = 0"
definition graceSecondsMax :: int where "graceSecondsMax = 604800"
definition syncChecksMax :: nat where "syncChecksMax = 500"
definition checkKeyMax :: nat where "checkKeyMax = 300"

lemmas limit_defs = nameMax_def slugMax_def environmentMax_def tagMax_def tagsMax_def
  periodSecondsMin_def periodSecondsMax_def graceSecondsMin_def graceSecondsMax_def
  syncChecksMax_def checkKeyMax_def

section \<open>Primitives\<close>

definition within :: "int \<Rightarrow> int \<Rightarrow> int \<Rightarrow> int option" where
  "within lo hi n = (if lo \<le> n \<and> n \<le> hi then Some n else None)"

definition trimmedString :: "nat \<Rightarrow> string \<Rightarrow> string option" where
  "trimmedString n s =
     (let t = trim s in if 1 \<le> length t \<and> length t \<le> n then Some t else None)"

definition slugSchema :: "string \<Rightarrow> string option" where
  "slugSchema s =
     (let t = trim s
      in if 1 \<le> length t \<and> length t \<le> slugMax \<and> slug_shape t then Some t else None)"

definition cronExpressionSchema :: "string \<Rightarrow> string option" where
  "cronExpressionSchema s =
     (let t = trim s
      in if 1 \<le> length t \<and> length t \<le> 200 \<and> isValidCronExpression t then Some t else None)"

definition timezoneSchema :: "(string \<Rightarrow> bool) \<Rightarrow> string \<Rightarrow> string option" where
  "timezoneSchema intl s =
     (let t = trim s in if length t \<le> 64 \<and> isValidTimezone intl t then Some t else None)"

definition environment_char :: "char \<Rightarrow> bool" where
  "environment_char c \<longleftrightarrow> is_upper c \<or> is_lower c \<or> is_digit c \<or> c \<in> set ''._-''"

definition environmentSchema :: "string \<Rightarrow> string option" where
  "environmentSchema s =
     (let t = trim s
      in if 1 \<le> length t \<and> length t \<le> environmentMax \<and> list_all environment_char t
         then Some t else None)"

definition tag_char :: "char \<Rightarrow> bool" where
  "tag_char c \<longleftrightarrow> environment_char c \<or> c = CHR '':''"

definition tagSchema :: "string \<Rightarrow> string option" where
  "tagSchema s =
     (case trimmedString tagMax s of
        None \<Rightarrow> None | Some t \<Rightarrow> if list_all tag_char t then Some t else None)"

text \<open>Every element accepted, in order.\<close>

definition all_some :: "('a \<Rightarrow> 'b option) \<Rightarrow> 'a list \<Rightarrow> 'b list option" where
  "all_some f xs = those (map f xs)"

definition tagsSchema :: "string list \<Rightarrow> string list option" where
  "tagsSchema ts = (if length ts \<le> tagsMax then all_some tagSchema ts else None)"

text \<open>\<open>schema.optional()\<close>: absent stays absent, present must be accepted.\<close>

definition optional :: "('a \<Rightarrow> 'b option) \<Rightarrow> 'a option \<Rightarrow> 'b option option" where
  "optional f x = (case x of None \<Rightarrow> Some None | Some a \<Rightarrow> map_option Some (f a))"

lemma optional_simps [simp]:
  "optional f None = Some None" "optional f (Some a) = map_option Some (f a)"
  by (simp_all add: optional_def)

lemma optional_SomeD:
  "optional f x = Some y \<Longrightarrow> (x = None \<and> y = None) \<or> (\<exists>a b. x = Some a \<and> y = Some b \<and> f a = Some b)"
  by (cases x) auto

section \<open>The schedule of a request\<close>

record schedule_request =
  rq_scheduleType :: "schedule_type option"
  rq_periodSeconds :: "int option"
  rq_cronExpression :: "string option"
  rq_timezone :: "string option"

datatype issue =
    PeriodRequired | CronNotAllowed | CronRequired | PeriodNotAllowed

text \<open>\<open>superRefine(refineSchedule)\<close>: the issues added.\<close>

definition refineSchedule :: "'a schedule_request_scheme \<Rightarrow> issue list" where
  "refineSchedule v =
     (case rq_scheduleType v of
        Some Interval \<Rightarrow>
          (if rq_periodSeconds v = None then [PeriodRequired] else [])
          @ (if rq_cronExpression v \<noteq> None then [CronNotAllowed] else [])
      | Some Cron \<Rightarrow>
          (if rq_cronExpression v = None then [CronRequired] else [])
          @ (if rq_periodSeconds v \<noteq> None then [PeriodNotAllowed] else [])
      | None \<Rightarrow> [])"

text \<open>The fields on their own, as the object schema checks them first.\<close>

definition schedule_fields ::
  "(string \<Rightarrow> bool) \<Rightarrow> 'a schedule_request_scheme \<Rightarrow>
   (int option \<times> string option \<times> string option) option" where
  "schedule_fields intl v =
     (case optional (within periodSecondsMin periodSecondsMax) (rq_periodSeconds v) of
        None \<Rightarrow> None
      | Some p \<Rightarrow>
          (case optional cronExpressionSchema (rq_cronExpression v) of
             None \<Rightarrow> None
           | Some c \<Rightarrow>
               (case optional (timezoneSchema intl) (rq_timezone v) of
                  None \<Rightarrow> None | Some z \<Rightarrow> Some (p, c, z))))"

section \<open>Create and update\<close>

record create_request = schedule_request +
  cr_name :: string
  cr_slug :: "string option"
  cr_graceSeconds :: int
  cr_environment :: "string option"
  cr_tags :: "string list option"
  cr_description :: "string option"

definition description_ok :: "string \<Rightarrow> string option" where
  "description_ok s = (let t = trim s in if length t \<le> 2000 then Some t else None)"

definition createCheckRequestSchema :: "(string \<Rightarrow> bool) \<Rightarrow> create_request \<Rightarrow> create_request option" where
  "createCheckRequestSchema intl r =
     (case (trimmedString nameMax (cr_name r), optional slugSchema (cr_slug r),
            within graceSecondsMin graceSecondsMax (cr_graceSeconds r),
            optional environmentSchema (cr_environment r), optional tagsSchema (cr_tags r),
            optional description_ok (cr_description r), schedule_fields intl r) of
        (Some nm, Some sl, Some gr, Some en, Some ts, Some de, Some (p, c, z)) \<Rightarrow>
          if rq_scheduleType r = None then None
          else
            let r' = \<lparr>rq_scheduleType = rq_scheduleType r, rq_periodSeconds = p, rq_cronExpression = c,
                      rq_timezone = z, cr_name = nm, cr_slug = sl, cr_graceSeconds = gr,
                      cr_environment = en, cr_tags = ts, cr_description = de\<rparr>
            in if refineSchedule r' = [] then Some r' else None
      | _ \<Rightarrow> None)"

text \<open>In an update a field is absent, or \<open>null\<close>, or a value.\<close>

record update_request = schedule_request +
  up_name :: "string option"
  up_graceSeconds :: "int option"
  up_environment :: "string option option"
  up_tags :: "string list option"
  up_description :: "string option option"
  up_paused :: "bool option"

definition updateCheckRequestSchema :: "(string \<Rightarrow> bool) \<Rightarrow> update_request \<Rightarrow> update_request option" where
  "updateCheckRequestSchema intl r =
     (case (optional (trimmedString nameMax) (up_name r),
            optional (within graceSecondsMin graceSecondsMax) (up_graceSeconds r),
            optional (optional environmentSchema) (up_environment r),
            optional tagsSchema (up_tags r),
            optional (optional description_ok) (up_description r), schedule_fields intl r) of
        (Some nm, Some gr, Some en, Some ts, Some de, Some (p, c, z)) \<Rightarrow>
          let r' = \<lparr>rq_scheduleType = rq_scheduleType r, rq_periodSeconds = p, rq_cronExpression = c,
                    rq_timezone = z, up_name = nm, up_graceSeconds = gr, up_environment = en,
                    up_tags = ts, up_description = de, up_paused = up_paused r\<rparr>
          in if refineSchedule r' = [] then Some r' else None
      | _ \<Rightarrow> None)"

section \<open>The query of a listing\<close>

text \<open>Query parameters arrive as text: \<open>z.coerce.boolean()\<close> is \<open>Boolean(text)\<close>.\<close>

record raw_query =
  raw_state :: "check_state option"
  raw_environment :: "string option"
  raw_tag :: "string option"
  raw_search :: "string option"
  raw_orphaned :: "string option"
  raw_limit :: "int option"
  raw_cursor :: "uuid option"

record list_query =
  q_state :: "check_state option"
  q_environment :: "string option"
  q_tag :: "string option"
  q_search :: "string option"
  q_orphaned :: "bool option"
  q_limit :: nat
  q_cursor :: "uuid option"

definition coerce_boolean :: "string \<Rightarrow> bool" where
  "coerce_boolean s \<longleftrightarrow> s \<noteq> []"

definition search_ok :: "string \<Rightarrow> string option" where
  "search_ok s = (let t = trim s in if length t \<le> 120 then Some t else None)"

definition listChecksQuerySchema :: "raw_query \<Rightarrow> list_query option" where
  "listChecksQuerySchema r =
     (case (optional environmentSchema (raw_environment r), optional (trimmedString tagMax) (raw_tag r),
            optional search_ok (raw_search r),
            within 1 200 (case raw_limit r of None \<Rightarrow> 50 | Some n \<Rightarrow> n)) of
        (Some en, Some tg, Some se, Some n) \<Rightarrow>
          Some \<lparr>q_state = raw_state r, q_environment = en, q_tag = tg, q_search = se,
                q_orphaned = map_option coerce_boolean (raw_orphaned r),
                q_limit = nat n, q_cursor = raw_cursor r\<rparr>
      | _ \<Rightarrow> None)"

section \<open>Sync payloads\<close>

record sync_check =
  sy_key :: string
  sy_name :: string
  sy_cron :: "string option"
  sy_interval :: "int option"
  sy_timezone :: "string option"
  sy_grace :: "int option"
  sy_tags :: "string list option"

definition syncCheckSchema :: "(string \<Rightarrow> bool) \<Rightarrow> sync_check \<Rightarrow> sync_check option" where
  "syncCheckSchema intl r =
     (case (trimmedString checkKeyMax (sy_key r), trimmedString nameMax (sy_name r),
            optional cronExpressionSchema (sy_cron r),
            optional (within periodSecondsMin periodSecondsMax) (sy_interval r),
            optional (timezoneSchema intl) (sy_timezone r),
            optional (within graceSecondsMin graceSecondsMax) (sy_grace r),
            optional tagsSchema (sy_tags r)) of
        (Some k, Some nm, Some c, Some p, Some z, Some g, Some ts) \<Rightarrow>
          if (c = None) = (p = None) then None
          else Some \<lparr>sy_key = k, sy_name = nm, sy_cron = c, sy_interval = p, sy_timezone = z,
                     sy_grace = g, sy_tags = ts\<rparr>
      | _ \<Rightarrow> None)"

record sync_request =
  sr_environment :: "string option"
  sr_source :: "string option"
  sr_prune :: "bool option"
  sr_checks :: "sync_check list"

text \<open>\<open>prune\<close> defaults to true.\<close>

definition syncRequestSchema :: "(string \<Rightarrow> bool) \<Rightarrow> sync_request \<Rightarrow> sync_request option" where
  "syncRequestSchema intl r =
     (case (optional environmentSchema (sr_environment r), optional (trimmedString 60) (sr_source r),
            all_some (syncCheckSchema intl) (sr_checks r)) of
        (Some en, Some so, Some cs) \<Rightarrow>
          if 1 \<le> length cs \<and> length cs \<le> syncChecksMax
          then Some \<lparr>sr_environment = en, sr_source = so,
                     sr_prune = Some (case sr_prune r of None \<Rightarrow> True | Some b \<Rightarrow> b), sr_checks = cs\<rparr>
          else None
      | _ \<Rightarrow> None)"

section \<open>What an accepted request satisfies\<close>

lemma within_SomeD: "within lo hi n = Some m \<Longrightarrow> m = n \<and> lo \<le> n \<and> n \<le> hi"
  by (simp add: within_def split: if_splits)

text \<open>A schedule is an interval with a period or a cron expression, never both.\<close>

definition one_schedule :: "'a schedule_request_scheme \<Rightarrow> bool" where
  "one_schedule r \<longleftrightarrow>
     (case rq_scheduleType r of
        Some Interval \<Rightarrow> (\<exists>p. rq_periodSeconds r = Some p \<and> 30 \<le> p \<and> p \<le> 31536000) \<and> rq_cronExpression r = None
      | Some Cron \<Rightarrow> (\<exists>c. rq_cronExpression r = Some c \<and> isValidCronExpression c) \<and> rq_periodSeconds r = None
      | None \<Rightarrow> True)"

lemma schedule_fields_SomeD:
  assumes "schedule_fields intl r = Some (p, c, z)"
  shows "\<forall>x. p = Some x \<longrightarrow> 30 \<le> x \<and> x \<le> 31536000"
    and "\<forall>x. c = Some x \<longrightarrow> isValidCronExpression x"
    and "\<forall>x. z = Some x \<longrightarrow> isValidTimezone intl x"
  using assms
  by (auto simp: schedule_fields_def limit_defs cronExpressionSchema_def timezoneSchema_def Let_def
      dest!: optional_SomeD within_SomeD split: option.splits if_splits)

lemma refined_one_schedule:
  assumes "schedule_fields intl r = Some (p, c, z)" "refineSchedule r' = []"
    and "rq_periodSeconds r' = p" "rq_cronExpression r' = c"
  shows "one_schedule r'"
  using schedule_fields_SomeD [OF assms(1)] assms(2-4)
  by (auto simp: one_schedule_def refineSchedule_def split: option.splits schedule_type.splits if_splits)

lemma accepted_create:
  assumes "createCheckRequestSchema intl r = Some r'"
  shows "one_schedule r' \<and> rq_scheduleType r' \<noteq> None \<and> 0 \<le> cr_graceSeconds r' \<and> cr_graceSeconds r' \<le> 604800
    \<and> cr_name r' \<noteq> [] \<and> length (cr_name r') \<le> 120"
  using assms
  by (auto simp: createCheckRequestSchema_def Let_def trimmedString_def limit_defs
      dest!: within_SomeD split: option.splits if_splits prod.splits
      intro: refined_one_schedule)

lemma accepted_update: "updateCheckRequestSchema intl r = Some r' \<Longrightarrow> one_schedule r'"
  by (auto simp: updateCheckRequestSchema_def Let_def
      split: option.splits if_splits prod.splits intro: refined_one_schedule)

end
