(* ===== verification/Pagination.thy ===== *)
theory Pagination
  imports Ingest
begin

text \<open>
  \<^verbatim>\<open>packages/server/src/checks/pagination.ts\<close>: pages of a listing and the cursors between
  them. What the listings of the repositories share is the interface \<open>keyset\<close>: rows in one
  order, fetched from a cursor. Every client that follows the cursors then reads each row
  exactly once.
\<close>

record ('i, 'd) page =
  items :: "'d list"
  nextCursor :: "'i option"

text \<open>\<open>limit + 1\<close> rows make a page of \<open>lim\<close>; the cursor is the last item's identifier.\<close>

definition paginate :: "('r \<Rightarrow> 'i) \<Rightarrow> 'r list \<Rightarrow> nat \<Rightarrow> ('r \<Rightarrow> 'd) \<Rightarrow> ('i, 'd) page" where
  "paginate ident rows lim f =
     (let hasMore = lim < length rows;
          pg = (if hasMore then take lim rows else rows)
      in \<lparr>items = map f pg,
          nextCursor = (if hasMore \<and> pg \<noteq> [] then Some (ident (last pg)) else None)\<rparr>)"

text \<open>\<open>BigInt\<close> of up to 19 digits; anything else is no cursor.\<close>

definition parseBigIntCursor :: "string option \<Rightarrow> nat option" where
  "parseBigIntCursor cursor =
     (case cursor of None \<Rightarrow> None | Some s \<Rightarrow> if digits 1 19 s then Some (number_of s) else None)"

definition uuid_shape :: "string \<Rightarrow> bool" where
  "uuid_shape s \<longleftrightarrow> length s = 36
     \<and> list_all (\<lambda>i. if i \<in> {8, 13, 18, 23} then s ! i = CHR ''-'' else is_hex (s ! i)) [0..<36]"

definition parseUuidCursor :: "string option \<Rightarrow> string option" where
  "parseUuidCursor cursor =
     (case cursor of None \<Rightarrow> None | Some s \<Rightarrow> if uuid_shape s then Some s else None)"

section \<open>Fetching from a cursor\<close>

text \<open>\<open>cursor: { id }, skip: 1, take: n\<close> over ordered rows: those after the cursor's row.\<close>

definition after_cursor :: "('r \<Rightarrow> 'i) \<Rightarrow> 'i option \<Rightarrow> 'r list \<Rightarrow> 'r list" where
  "after_cursor ident cursor rows =
     (case cursor of
        None \<Rightarrow> rows
      | Some i \<Rightarrow> (case dropWhile (\<lambda>r. ident r \<noteq> i) rows of [] \<Rightarrow> [] | _ # rest \<Rightarrow> rest))"

definition fetch_page :: "('r \<Rightarrow> 'i) \<Rightarrow> 'r list \<Rightarrow> nat \<Rightarrow> 'i option \<Rightarrow> 'r list" where
  "fetch_page ident rows n cursor = take n (after_cursor ident cursor rows)"

lemma after_cursor_at:
  "distinct (map ident (xs @ r # ys)) \<Longrightarrow> after_cursor ident (Some (ident r)) (xs @ r # ys) = ys"
  by (induction xs) (auto simp: after_cursor_def)

section \<open>Walking the pages\<close>

text \<open>
  A client that follows the cursors: \<open>walk fuel cursor\<close> is what it has read, and whether
  the server said that there is no more.
\<close>

fun walk :: "('i option \<Rightarrow> ('i, 'd) page) \<Rightarrow> nat \<Rightarrow> 'i option \<Rightarrow> 'd list \<times> bool" where
  "walk get_page 0 cursor = ([], False)"
| "walk get_page (Suc fuel) cursor =
     (let p = get_page cursor
      in case nextCursor p of
           None \<Rightarrow> (items p, True)
         | Some c \<Rightarrow> (let (ds, ended) = walk get_page fuel (Some c) in (items p @ ds, ended)))"

declare walk.simps [simp del]

locale keyset =
  fixes ident :: "'r \<Rightarrow> 'i"
    and valid :: "'s \<Rightarrow> bool"
    and listing :: "'s \<Rightarrow> 'r list"
    and query :: "'s \<Rightarrow> nat \<Rightarrow> 'i option \<Rightarrow> 'r list"
  assumes first_rows: "query s n None = take n (listing s)"
    and next_rows: "valid s \<Longrightarrow> listing s = xs @ r # ys \<Longrightarrow> query s n (Some (ident r)) = take n ys"
begin

lemma walk_from:
  assumes "valid s" and "0 < lim" and "listing s = xs @ ys"
    and "\<And>n. query s n cursor = take n ys" and "length ys < fuel"
  shows "walk (\<lambda>c. paginate ident (query s (Suc lim) c) lim f) fuel cursor = (map f ys, True)"
  using assms
proof (induction fuel arbitrary: cursor xs ys)
  case (Suc fuel)
  let ?get = "\<lambda>c. paginate ident (query s (Suc lim) c) lim f"
  show ?case
  proof (cases "lim < length ys")
    case False
    then show ?thesis using Suc.prems(4) by (simp add: paginate_def walk.simps)
  next
    case True
    let ?pg = "take lim ys" and ?rest = "drop lim ys"
    have ne: "?pg \<noteq> []" using Suc.prems(2) True by auto
    have page: "?get cursor = \<lparr>items = map f ?pg, nextCursor = Some (ident (last ?pg))\<rparr>"
      using True Suc.prems(2,4) ne by (simp add: paginate_def Let_def min_def)
    have split: "listing s = (xs @ butlast ?pg) @ last ?pg # ?rest"
      using Suc.prems(3) append_butlast_last_id [OF ne] append_take_drop_id [of lim ys]
      by (metis append.assoc append_Cons append_Nil)
    then have "query s n (Some (ident (last ?pg))) = take n ?rest" for n
      by (rule next_rows [OF Suc.prems(1)])
    moreover have "listing s = (xs @ ?pg) @ ?rest" using Suc.prems(3) by simp
    moreover have "length ?rest < fuel" using Suc.prems(2,5) True by simp
    ultimately have "walk ?get fuel (Some (ident (last ?pg))) = (map f ?rest, True)"
      by (intro Suc.IH [OF Suc.prems(1,2)])
    then have "walk ?get (Suc fuel) cursor = (map f ?pg @ map f ?rest, True)"
      by (simp add: page Let_def walk.simps)
    then show ?thesis by (simp only: map_append [symmetric] append_take_drop_id)
  qed
qed simp

lemma walk_all:
  "valid s \<Longrightarrow> 0 < lim \<Longrightarrow> length (listing s) < fuel \<Longrightarrow>
   walk (\<lambda>c. paginate ident (query s (Suc lim) c) lim f) fuel None = (map f (listing s), True)"
  by (rule walk_from [of s lim "[]"]) (simp_all add: first_rows)

end

text \<open>What a provider has to show: its rows carry distinct identifiers.\<close>

lemma fetch_page_first: "fetch_page ident rows n None = take n rows"
  by (simp add: fetch_page_def after_cursor_def)

lemma fetch_page_next:
  "distinct (map ident rows) \<Longrightarrow> rows = xs @ r # ys \<Longrightarrow>
   fetch_page ident rows n (Some (ident r)) = take n ys"
  by (simp only: fetch_page_def after_cursor_at)

end
