(* ===== verification/Checks.thy ===== *)
theory Checks
  imports Requests Quotas Pagination JsDate
begin

text \<open>
  Checks as the API manages them: \<^verbatim>\<open>packages/server/src/checks/checks.service.ts\<close> with its
  statements (\<^verbatim>\<open>checks.repository.ts\<close>), \<^verbatim>\<open>check-schedule.ts\<close> and \<^verbatim>\<open>check.mapper.ts\<close>. The
  service shares the metadata cache of the ingestion, so its state is that of \<open>Ingest\<close>. What
  the database and the clock decide (the new row's ping key, the instant, random bytes) is
  the environment; text of identifiers and the database's case-insensitive match are its
  functions.
\<close>

section \<open>Schedules of requests and rows\<close>

definition DEFAULT_TIMEZONE :: string where "DEFAULT_TIMEZONE = ''UTC''"

definition toSchedule :: "'a schedule_request_scheme \<Rightarrow> schedule" where
  "toSchedule r =
     (let zone = (case rq_timezone r of None \<Rightarrow> DEFAULT_TIMEZONE | Some z \<Rightarrow> z)
      in if rq_scheduleType r = Some Cron
         then \<lparr>scheduleType = Cron, periodSeconds = None, cronExpression = rq_cronExpression r,
               timezone = zone\<rparr>
         else \<lparr>scheduleType = Interval, periodSeconds = rq_periodSeconds r, cronExpression = None,
               timezone = zone\<rparr>)"

definition toScheduleFromRow :: "check \<Rightarrow> schedule" where
  "toScheduleFromRow c =
     \<lparr>scheduleType = scheduleType c, periodSeconds = periodSeconds c,
      cronExpression = cronExpression c, timezone = timezone c\<rparr>"

definition nextDueOrThrow :: "cron_engine \<Rightarrow> 'a schedule_scheme \<Rightarrow> millis \<Rightarrow> http_error + millis" where
  "nextDueOrThrow cron sch start =
     (case computeNextDueAt cron sch start of None \<Rightarrow> Inl BadRequest | Some due \<Rightarrow> Inr due)"

section \<open>Rows on the wire\<close>

record check_dto =
  dto_id :: string
  dto_projectId :: string
  dto_name :: string
  dto_slug :: string
  dto_key :: "string option"
  dto_pingKey :: string
  dto_pingUrl :: string
  dto_pingKeyRotatedAt :: "string option"
  dto_pausedReason :: "string option"
  dto_schedule :: schedule
  dto_graceSeconds :: int
  dto_state :: check_state
  dto_lastPingAt :: "string option"
  dto_lastDurationMs :: "int option"
  dto_nextDueAt :: "string option"
  dto_source :: check_source
  dto_environment :: "string option"
  dto_tags :: "string list"
  dto_description :: "string option"
  dto_orphanedAt :: "string option"
  dto_createdAt :: string
  dto_updatedAt :: string

definition toCheckDto :: "(uuid \<Rightarrow> string) \<Rightarrow> string \<Rightarrow> check \<Rightarrow> check_dto" where
  "toCheckDto uuid_text baseUrl c =
     \<lparr>dto_id = uuid_text (c_id c), dto_projectId = uuid_text (projectId c), dto_name = c_name c,
      dto_slug = slug c, dto_key = key c, dto_pingKey = pingKey c,
      dto_pingUrl = baseUrl @ ''/p/'' @ pingKey c,
      dto_pingKeyRotatedAt = iso_option (pingKeyRotatedAt c), dto_pausedReason = pausedReason c,
      dto_schedule = toScheduleFromRow c, dto_graceSeconds = graceSeconds c, dto_state = state c,
      dto_lastPingAt = iso_option (lastPingAt c), dto_lastDurationMs = lastDurationMs c,
      dto_nextDueAt = iso_option (nextDueAt c), dto_source = source c,
      dto_environment = environment c, dto_tags = tags c, dto_description = description c,
      dto_orphanedAt = iso_option (orphanedAt c), dto_createdAt = toISOString (c_createdAt c),
      dto_updatedAt = toISOString (c_updatedAt c)\<rparr>"

text \<open>The model's ping row leaves out its sequence number, which is a parameter.\<close>

record ping_dto =
  pd_id :: string
  pd_checkId :: string
  pd_receivedAt :: string
  pd_kind :: ping_kind
  pd_exitCode :: "int option"
  pd_durationMs :: "int option"
  pd_body :: "string option"
  pd_sourceIp :: "string option"
  pd_userAgent :: "string option"

definition toPingDto :: "(ping \<Rightarrow> nat) \<Rightarrow> (uuid \<Rightarrow> string) \<Rightarrow> ping \<Rightarrow> ping_dto" where
  "toPingDto pid uuid_text p =
     \<lparr>pd_id = show_nat (pid p), pd_checkId = uuid_text (p_check p),
      pd_receivedAt = toISOString (receivedAt p), pd_kind = p_kind p, pd_exitCode = exitCode p,
      pd_durationMs = durationMs p, pd_body = body p, pd_sourceIp = sourceIp p,
      pd_userAgent = userAgent p\<rparr>"

record incident_dto =
  id_id :: string
  id_checkId :: string
  id_startedAt :: string
  id_resolvedAt :: "string option"
  id_notificationsSent :: nat

definition toIncidentDto :: "(uuid \<Rightarrow> string) \<Rightarrow> incident \<Rightarrow> incident_dto" where
  "toIncidentDto uuid_text i =
     \<lparr>id_id = uuid_text (i_id i), id_checkId = uuid_text (i_check i),
      id_startedAt = toISOString (startedAt i), id_resolvedAt = iso_option (resolvedAt i),
      id_notificationsSent = notificationsSent i\<rparr>"

section \<open>Environment and statements\<close>

record checks_env =
  ce_quotas :: quota_settings
  ce_cron :: cron_engine
  ce_now :: millis
  ce_newPingKey :: string
  ce_nfkd :: "units \<Rightarrow> units"
  ce_bytes4 :: "byte list"
  ce_bytes3 :: "byte list"
  ce_baseUrl :: string
  ce_uuid_text :: "uuid \<Rightarrow> string"

definition units_of :: "string \<Rightarrow> units" where
  "units_of s = map of_char s"

definition isSlugTaken :: "uuid \<Rightarrow> db \<Rightarrow> string \<Rightarrow> bool" where
  "isSlugTaken p s candidate \<longleftrightarrow> (\<exists>c \<in> set (checks s). projectId c = p \<and> slug c = candidate)"

definition findPingKey :: "uuid \<Rightarrow> db \<Rightarrow> string option" where
  "findPingKey i s = map_option pingKey (check_by_id i s)"

text \<open>\<open>check.create\<close>: the unique index on the slug and the foreign key may refuse the row.\<close>

definition insert_check :: "check \<Rightarrow> db \<Rightarrow> http_error + db" where
  "insert_check c s =
     (if isSlugTaken (projectId c) s (slug c) \<or> projectId c \<notin> pr_id ` set (projects s)
      then Inl ServerError
      else Inr (s\<lparr>checks := checks s @ [c\<lparr>c_id := next_id s\<rparr>], next_id := Suc (next_id s)\<rparr>))"

definition replacePingKey :: "checks_env \<Rightarrow> uuid \<Rightarrow> db \<Rightarrow> bool \<times> db" where
  "replacePingKey env i s =
     (check_by_id i s \<noteq> None,
      s\<lparr>checks := update_where (\<lambda>c. c_id c = i)
          (\<lambda>c. c\<lparr>pingKey := ce_newPingKey env, pingKeyRotatedAt := Some (ce_now env)\<rparr>) (checks s)\<rparr>)"

text \<open>Deleting a check takes its pings, incidents and their deliveries with it (cascade).\<close>

definition delete_check :: "uuid \<Rightarrow> db \<Rightarrow> string option \<times> db" where
  "delete_check i s =
     (findPingKey i s,
      s\<lparr>checks := filter (\<lambda>c. c_id c \<noteq> i) (checks s),
        pings := filter (\<lambda>p. p_check p \<noteq> i) (pings s),
        incidents := filter (\<lambda>x. i_check x \<noteq> i) (incidents s),
        deliveries := filter (\<lambda>d. \<forall>x \<in> set (incidents s). i_check x = i \<longrightarrow> i_id x \<noteq> d_incident d)
          (deliveries s)\<rparr>)"

section \<open>Creation\<close>

definition new_check :: "checks_env \<Rightarrow> uuid \<Rightarrow> create_request \<Rightarrow> string \<Rightarrow> millis \<Rightarrow> check" where
  "new_check env p r sl due =
     (let sch = toSchedule r
      in \<lparr>scheduleType = scheduleType sch, periodSeconds = periodSeconds sch,
          cronExpression = cronExpression sch, timezone = timezone sch,
          c_id = 0, projectId = p, c_name = cr_name r, slug = sl, key = None,
          pingKey = ce_newPingKey env, pingKeyRotatedAt = None, graceSeconds = cr_graceSeconds r,
          state = NEW, pausedReason = None, lastPingAt = None, lastStartedAt = None,
          lastDurationMs = None, nextDueAt = Some due, source = Api,
          environment = cr_environment r,
          tags = (case cr_tags r of None \<Rightarrow> [] | Some ts \<Rightarrow> ts),
          description = cr_description r, orphanedAt = None,
          c_createdAt = ce_now env, c_updatedAt = ce_now env\<rparr>)"

definition createWithinQuota ::
  "checks_env \<Rightarrow> uuid \<Rightarrow> create_request \<Rightarrow> db \<Rightarrow> (http_error + check_dto) \<times> db" where
  "createWithinQuota env p r s =
     (case assertCanAddCheck (ce_quotas env) p s of
        Inl e \<Rightarrow> (Inl e, s)
      | Inr _ \<Rightarrow>
          (case nextDueOrThrow (ce_cron env) (toSchedule r) (ce_now env) of
             Inl e \<Rightarrow> (Inl e, s)
           | Inr due \<Rightarrow>
               let base = (case cr_slug r of None \<Rightarrow> cr_name r | Some x \<Rightarrow> x);
                   sl = uniqueSlug (ce_nfkd env) (ce_bytes4 env) (ce_bytes3 env) (units_of base)
                          (isSlugTaken p s) 5;
                   c = new_check env p r sl due
               in (case insert_check c s of
                     Inl e \<Rightarrow> (Inl e, s)
                   | Inr s' \<Rightarrow> (Inr (toCheckDto (ce_uuid_text env) (ce_baseUrl env) (c\<lparr>c_id := next_id s\<rparr>)), s'))))"

text \<open>\<open>create\<close> runs it under the account's lock, so nothing else of the account comes between.\<close>

definition create :: "checks_env \<Rightarrow> uuid \<Rightarrow> create_request \<Rightarrow> ingest_state \<Rightarrow>
    (http_error + check_dto) \<times> ingest_state" where
  "create env p r st =
     (let (res, s) = createWithinQuota env p r (store_db st) in (res, st\<lparr>store_db := s\<rparr>))"

section \<open>Update\<close>

text \<open>The deadline that the request sets: none, or a refusal, or a value.\<close>

definition update_due :: "checks_env \<Rightarrow> check \<Rightarrow> update_request \<Rightarrow> http_error + millis option option" where
  "update_due env c r =
     (let changed = rq_scheduleType r \<noteq> None;
          resumed = (up_paused r = Some False \<and> state c = PAUSED);
          sch = (if changed then toSchedule r else toScheduleFromRow c)
      in if changed \<or> resumed
         then (case nextDueOrThrow (ce_cron env) sch (ce_now env) of
                 Inl e \<Rightarrow> Inl e | Inr due \<Rightarrow> Inr (Some (Some due)))
         else Inr None)"

definition set_field :: "'a option \<Rightarrow> 'a \<Rightarrow> 'a" where
  "set_field x old = (case x of None \<Rightarrow> old | Some v \<Rightarrow> v)"

definition update_state :: "check \<Rightarrow> update_request \<Rightarrow> check_state" where
  "update_state c r =
     (case up_paused r of
        None \<Rightarrow> state c
      | Some True \<Rightarrow> PAUSED
      | Some False \<Rightarrow> if state c = PAUSED then NEW else state c)"

definition apply_update :: "checks_env \<Rightarrow> check \<Rightarrow> update_request \<Rightarrow> millis option option \<Rightarrow> check \<Rightarrow> check" where
  "apply_update env old r due c =
     (let sch = toSchedule r; changed = rq_scheduleType r \<noteq> None;
          c1 = c\<lparr>c_name := set_field (up_name r) (c_name c),
                 graceSeconds := set_field (up_graceSeconds r) (graceSeconds c),
                 environment := set_field (up_environment r) (environment c),
                 tags := set_field (up_tags r) (tags c),
                 description := set_field (up_description r) (description c)\<rparr>;
          c2 = (if changed
                then c1\<lparr>scheduleType := scheduleType sch, periodSeconds := periodSeconds sch,
                        cronExpression := cronExpression sch, timezone := timezone sch\<rparr>
                else c1)
      in c2\<lparr>nextDueAt := set_field due (nextDueAt c),
            state := (if up_paused r = None \<or> (up_paused r = Some False \<and> state old \<noteq> PAUSED)
                      then state c else update_state old r),
            c_updatedAt := ce_now env\<rparr>)"

definition update :: "checks_env \<Rightarrow> uuid \<Rightarrow> update_request \<Rightarrow> ingest_state \<Rightarrow>
    (http_error + check_dto) \<times> ingest_state" where
  "update env i r st =
     (case check_by_id i (store_db st) of
        None \<Rightarrow> (Inl NotFound, st)
      | Some existing \<Rightarrow>
          (case update_due env existing r of
             Inl e \<Rightarrow> (Inl e, st)
           | Inr due \<Rightarrow>
               let c = apply_update env existing r due existing;
                   s = (store_db st)\<lparr>checks := update_where (\<lambda>x. c_id x = i)
                         (apply_update env existing r due) (checks (store_db st))\<rparr>
               in (Inr (toCheckDto (ce_uuid_text env) (ce_baseUrl env) c),
                   st\<lparr>store_db := s, mdcache := invalidate (pingKey c) (mdcache st)\<rparr>)))"

section \<open>Rotation and removal\<close>

definition rotatePingKey :: "checks_env \<Rightarrow> uuid \<Rightarrow> ingest_state \<Rightarrow> (http_error + check_dto) \<times> ingest_state" where
  "rotatePingKey env i st =
     (case findPingKey i (store_db st) of
        None \<Rightarrow> (Inl NotFound, st)
      | Some previousKey \<Rightarrow>
          let (replaced, s) = replacePingKey env i (store_db st);
              st1 = st\<lparr>store_db := s\<rparr>
          in if \<not> replaced then (Inl NotFound, st1)
             else let st2 = st1\<lparr>mdcache := invalidate previousKey (mdcache st1)\<rparr>
                  in (case check_by_id i (store_db st2) of
                        None \<Rightarrow> (Inl NotFound, st2)
                      | Some c \<Rightarrow>
                          (Inr (toCheckDto (ce_uuid_text env) (ce_baseUrl env) c),
                           st2\<lparr>mdcache := invalidate (pingKey c) (mdcache st2)\<rparr>)))"

definition remove_check :: "uuid \<Rightarrow> ingest_state \<Rightarrow> (http_error + unit) \<times> ingest_state" where
  "remove_check i st =
     (case delete_check i (store_db st) of
        (None, _) \<Rightarrow> (Inl NotFound, st)
      | (Some k, s) \<Rightarrow> (Inr (), st\<lparr>store_db := s, mdcache := invalidate k (mdcache st)\<rparr>))"

definition get_check :: "checks_env \<Rightarrow> uuid \<Rightarrow> db \<Rightarrow> http_error + check_dto" where
  "get_check env i s =
     (case check_by_id i s of
        None \<Rightarrow> Inl NotFound
      | Some c \<Rightarrow> Inr (toCheckDto (ce_uuid_text env) (ce_baseUrl env) c))"

section \<open>Listings\<close>

text \<open>The \<open>where\<close> of a listing; \<open>icontains\<close> is the database's case-insensitive match.\<close>

definition list_where :: "(string \<Rightarrow> string \<Rightarrow> bool) \<Rightarrow> uuid list \<Rightarrow> list_query \<Rightarrow> check \<Rightarrow> bool" where
  "list_where icontains ps q c \<longleftrightarrow> projectId c \<in> set ps
     \<and> (case q_state q of None \<Rightarrow> True | Some st \<Rightarrow> state c = st)
     \<and> (case q_environment q of None \<Rightarrow> True | Some e \<Rightarrow> environment c = Some e)
     \<and> (case q_tag q of None \<Rightarrow> True | Some t \<Rightarrow> t \<in> set (tags c))
     \<and> (case q_orphaned q of None \<Rightarrow> True
          | Some True \<Rightarrow> orphanedAt c \<noteq> None | Some False \<Rightarrow> orphanedAt c = None)
     \<and> (case q_search q of None \<Rightarrow> True | Some t \<Rightarrow> icontains t (c_name c))"

text \<open>\<open>orderBy: [{ createdAt: 'desc' }, { id: 'desc' }]\<close>\<close>

definition list_rows :: "(string \<Rightarrow> string \<Rightarrow> bool) \<Rightarrow> uuid list \<Rightarrow> list_query \<Rightarrow> db \<Rightarrow> check list" where
  "list_rows icontains ps q s =
     rev (sort_key age_key (filter (list_where icontains ps q) (checks s)))"

definition list_fetch :: "(string \<Rightarrow> string \<Rightarrow> bool) \<Rightarrow> uuid list \<Rightarrow> list_query \<Rightarrow> db \<Rightarrow> nat \<Rightarrow> uuid option \<Rightarrow> check list" where
  "list_fetch icontains ps q s n cursor = fetch_page c_id (list_rows icontains ps q s) n cursor"

definition list_checks :: "checks_env \<Rightarrow> (string \<Rightarrow> string \<Rightarrow> bool) \<Rightarrow> uuid list \<Rightarrow> list_query \<Rightarrow> db \<Rightarrow> (uuid, check_dto) page" where
  "list_checks env icontains ps q s =
     (if ps = [] then \<lparr>items = [], nextCursor = None\<rparr>
      else paginate c_id (list_fetch icontains ps q s (Suc (q_limit q)) (q_cursor q)) (q_limit q)
             (toCheckDto (ce_uuid_text env) (ce_baseUrl env)))"

definition incident_rows :: "uuid \<Rightarrow> db \<Rightarrow> incident list" where
  "incident_rows c s =
     rev (sort_key (\<lambda>i. (startedAt i, i_id i)) (filter (\<lambda>i. i_check i = c) (incidents s)))"

definition listIncidents :: "(uuid \<Rightarrow> string) \<Rightarrow> uuid \<Rightarrow> nat \<Rightarrow> uuid option \<Rightarrow> db \<Rightarrow> (uuid, incident_dto) page" where
  "listIncidents uuid_text c lim cursor s =
     paginate i_id (fetch_page i_id (incident_rows c s) (Suc lim) cursor) lim (toIncidentDto uuid_text)"

definition ping_rows :: "(ping \<Rightarrow> nat) \<Rightarrow> uuid \<Rightarrow> db \<Rightarrow> ping list" where
  "ping_rows pid c s =
     rev (sort_key (\<lambda>p. (receivedAt p, pid p)) (filter (\<lambda>p. p_check p = c) (pings s)))"

definition listPings :: "(ping \<Rightarrow> nat) \<Rightarrow> (uuid \<Rightarrow> string) \<Rightarrow> uuid \<Rightarrow> nat \<Rightarrow> string option \<Rightarrow> db \<Rightarrow> (nat, ping_dto) page" where
  "listPings pid uuid_text c lim cursor s =
     paginate pid (fetch_page pid (ping_rows pid c s) (Suc lim) (parseBigIntCursor cursor)) lim
       (toPingDto pid uuid_text)"


section \<open>The unique indexes are kept\<close>

text \<open>\<open>gen_random_uuid()\<close> draws a key no check has.\<close>

definition fresh_key :: "checks_env \<Rightarrow> db \<Rightarrow> bool" where
  "fresh_key env s \<longleftrightarrow> ce_newPingKey env \<notin> pingKey ` set (checks s)"

lemma insert_check_SomeD:
  "insert_check c s = Inr s' \<Longrightarrow>
   s' = s\<lparr>checks := checks s @ [c\<lparr>c_id := next_id s\<rparr>], next_id := Suc (next_id s)\<rparr>
   \<and> \<not> isSlugTaken (projectId c) s (slug c)"
  by (auto simp: insert_check_def split: if_splits)

lemma store_inv_insert:
  assumes "store_inv s" "insert_check c s = Inr s'" "pingKey c \<notin> pingKey ` set (checks s)"
  shows "store_inv s'"
  using assms insert_check_SomeD [OF assms(2)] by (fastforce simp: store_inv_defs)

lemma new_check_simps [simp]:
  "pingKey (new_check env p r sl due) = ce_newPingKey env" "slug (new_check env p r sl due) = sl"
  "projectId (new_check env p r sl due) = p" "state (new_check env p r sl due) = NEW"
  "nextDueAt (new_check env p r sl due) = Some due" "pausedReason (new_check env p r sl due) = None"
  "lastPingAt (new_check env p r sl due) = None"
  by (simp_all add: new_check_def Let_def)

lemma nextDueOrThrow_Inr:
  "nextDueOrThrow cron sch t = Inr due \<longleftrightarrow> computeNextDueAt cron sch t = Some due"
  by (simp add: nextDueOrThrow_def split: option.splits)

lemma createWithinQuota_cases:
  assumes "createWithinQuota env p r s = (res, s')"
  obtains (refused) e where "res = Inl e" "s' = s"
    | (created) due sl where "res = Inr (toCheckDto (ce_uuid_text env) (ce_baseUrl env)
          ((new_check env p r sl due)\<lparr>c_id := next_id s\<rparr>))"
        "computeNextDueAt (ce_cron env) (toSchedule r) (ce_now env) = Some due"
        "assertCanAddCheck (ce_quotas env) p s = Inr ()"
        "insert_check (new_check env p r sl due) s = Inr s'"
  using assms
  by (fastforce simp: createWithinQuota_def Let_def nextDueOrThrow_Inr split: sum.splits)

lemma store_inv_create:
  assumes "store_inv (store_db st)" "fresh_key env (store_db st)"
  shows "store_inv (store_db (snd (create env p r st)))"
proof -
  obtain res s' where cq: "createWithinQuota env p r (store_db st) = (res, s')" by fastforce
  from cq have "store_inv s'"
  proof (cases rule: createWithinQuota_cases)
    case (created due sl)
    then show ?thesis using store_inv_insert [OF assms(1) created(4)] assms(2) by (simp add: fresh_key_def)
  qed (use assms in simp)
  then show ?thesis by (simp add: create_def cq)
qed

lemma apply_update_identity: "keeps_identity (apply_update env old r due)"
  by (simp add: keeps_identity_def apply_update_def Let_def)

lemma update_cases:
  assumes "update env i r st = (res, st')"
  obtains (refused) e where "res = Inl e" "st' = st"
    | (updated) c due where "check_by_id i (store_db st) = Some c" "update_due env c r = Inr due"
        "res = Inr (toCheckDto (ce_uuid_text env) (ce_baseUrl env) (apply_update env c r due c))"
        "store_db st' = (store_db st)\<lparr>checks := update_where (\<lambda>x. c_id x = i)
            (apply_update env c r due) (checks (store_db st))\<rparr>"
        "mdcache st' = invalidate (pingKey c) (mdcache st)"
  using assms
  by (auto simp: update_def Let_def apply_update_identity [THEN keeps_identityD]
      split: option.splits sum.splits)

lemma store_inv_update: "store_inv (store_db st) \<Longrightarrow> store_inv (store_db (snd (update env i r st)))"
  by (rule update_cases [of env i r st "fst (update env i r st)" "snd (update env i r st)"])
    (simp_all add: store_inv_update_checks [OF _ apply_update_identity])

lemma rotate_rows:
  assumes "checks_ok s" "fresh_key env s"
  shows "checks_ok (snd (replacePingKey env i s))"
proof -
  let ?f = "\<lambda>c. c\<lparr>pingKey := ce_newPingKey env, pingKeyRotatedAt := Some (ce_now env)\<rparr>"
  have "distinct (map c_id cs) \<Longrightarrow> distinct (map pingKey cs) \<Longrightarrow> ce_newPingKey env \<notin> pingKey ` set cs \<Longrightarrow>
      distinct (map pingKey (update_where (\<lambda>c. c_id c = i) ?f cs))" for cs
  proof (induction cs)
    case (Cons c cs)
    have "update_where (\<lambda>c. c_id c = i) ?f cs = cs" if "c_id c = i"
      by (rule update_where_id) (use Cons.prems(1) that in \<open>metis distinct.simps(2) imageI list.simps(9) list.set_map\<close>)
    then show ?case using Cons by (auto simp: set_update_where)
  qed simp
  moreover have "map c_id (update_where (\<lambda>c. c_id c = i) ?f (checks s)) = map c_id (checks s)"
    by (rule map_update_where) simp
  ultimately show ?thesis
    using assms by (auto simp: checks_ok_def replacePingKey_def fresh_key_def elim!: update_where_memE)
qed

lemma rotate_db:
  "store_db (snd (rotatePingKey env i st)) = store_db st
   \<or> store_db (snd (rotatePingKey env i st)) = snd (replacePingKey env i (store_db st))"
  by (simp add: rotatePingKey_def replacePingKey_def Let_def split: option.splits)

lemma store_inv_rotate:
  assumes "store_inv (store_db st)" "fresh_key env (store_db st)"
  shows "store_inv (store_db (snd (rotatePingKey env i st)))"
proof -
  have "checks_ok (store_db st)" "incidents_ok (store_db st)" "deliveries_ok (store_db st)"
    using assms(1) by (simp_all add: store_inv_def)
  moreover have "incidents_ok (snd (replacePingKey env i (store_db st)))"
    "deliveries_ok (snd (replacePingKey env i (store_db st)))"
    using calculation by (simp_all add: incidents_ok_def deliveries_ok_def replacePingKey_def)
  ultimately show ?thesis
    using rotate_rows [OF _ assms(2)] rotate_db [of env i st] by (auto simp: store_inv_def)
qed

lemma distinct_map_filter2:
  "distinct (map f (filter p xs)) \<Longrightarrow> distinct (map f (filter p (filter q xs)))"
  using distinct_map_filter [of f "filter p xs" q] by (simp add: filter_filter conj_commute)

lemma store_inv_delete: "store_inv s \<Longrightarrow> store_inv (snd (delete_check i s))"
  by (auto simp: store_inv_defs delete_check_def distinct_map_filter distinct_map_filter2
      simp del: filter_filter)

lemma store_inv_remove: "store_inv (store_db st) \<Longrightarrow> store_inv (store_db (snd (remove_check i st)))"
  using store_inv_delete [of "store_db st" i]
  by (auto simp: remove_check_def split: prod.splits option.splits)


section \<open>Creating a check\<close>

text \<open>
  Creation either refuses and changes nothing, or appends exactly one check: NEW,
  never paused, with a deadline in the future that its schedule gives, a slug that was free
  in its project, and within the plan of the account that owns the project.
\<close>

theorem created_check_waits:
  assumes "cron_contract occ (ce_cron env)" and "createWithinQuota env p r s = (res, s')"
  shows "(\<exists>e. res = Inl e \<and> s' = s) \<or>
    (\<exists>c due. res = Inr (toCheckDto (ce_uuid_text env) (ce_baseUrl env) c)
      \<and> checks s' = checks s @ [c] \<and> projectId c = p \<and> state c = NEW \<and> pausedReason c = None
      \<and> nextDueAt c = Some due \<and> ce_now env < due
      \<and> computeNextDueAt (ce_cron env) (toSchedule r) (ce_now env) = Some due
      \<and> \<not> isSlugTaken p s (slug c) \<and> assertCanAddCheck (ce_quotas env) p s = Inr ()
      \<and> pings s' = pings s \<and> incidents s' = incidents s \<and> deliveries s' = deliveries s)"
  using assms(2)
proof (cases rule: createWithinQuota_cases)
  case (created due sl)
  then show ?thesis
    using insert_check_SomeD [OF created(4)] next_due_after [OF assms(1) created(2)]
    by (intro disjI2 exI [of _ "(new_check env p r sl due)\<lparr>c_id := next_id s\<rparr>"] exI [of _ due]) simp
qed simp

definition sample_checks_env :: checks_env where
  "sample_checks_env = \<lparr>ce_quotas = \<lparr>quotas_enabled = False, DEFAULT_PLAN = ''free'', planLimits = []\<rparr>,
     ce_cron = minutely, ce_now = 1000, ce_newPingKey = ''fresh'', ce_nfkd = id, ce_bytes4 = [0, 0, 0, 0],
     ce_bytes3 = [0, 0, 0], ce_baseUrl = ''https://w'', ce_uuid_text = show_nat\<rparr>"

definition nightly :: create_request where
  "nightly = \<lparr>rq_scheduleType = Some Interval, rq_periodSeconds = Some 60,
     rq_cronExpression = None, rq_timezone = None, cr_name = ''Nightly'', cr_slug = None,
     cr_graceSeconds = 30, cr_environment = None, cr_tags = None, cr_description = None\<rparr>"

lemma nightly_slug:
  "uniqueSlug id [0, 0, 0, 0] [0, 0, 0] (units_of ''Nightly'') (isSlugTaken 2 sample_account) 5 = ''nightly''"
  by code_simp

theorem created_check_waits_witness:
  "\<exists>c. checks (snd (createWithinQuota sample_checks_env 2 nightly sample_account))
          = checks sample_account @ [c] \<and> state c = NEW \<and> nextDueAt c = Some 61000"
proof -
  let ?s = "sample_account" and ?env = "sample_checks_env"
  obtain res s' where e: "createWithinQuota ?env 2 nightly ?s = (res, s')" by fastforce
  have free: "\<not> isSlugTaken 2 ?s ''nightly''"
    by (simp add: isSlugTaken_def sample_account_def sample_alerting_def)
  have due: "computeNextDueAt minutely (toSchedule nightly) 1000 = Some 61000"
    by (simp add: nightly_def toSchedule_def computeNextDueAt_def)
  have "cron_contract (\<lambda>e z. range (\<lambda>k. k * 60000)) (ce_cron ?env)"
    using minutely_contract by (simp add: sample_checks_env_def)
  note result = created_check_waits [OF this e]
  have "2 \<in> pr_id ` set (projects ?s)" by (simp add: sample_account_def sample_alerting_def)
  then have "\<not> (\<exists>x. res = Inl x)"
    using e free due nightly_slug
    by (auto simp: createWithinQuota_def Let_def insert_check_def assertCanAddCheck_def nextDueOrThrow_def
        sample_checks_env_def nightly_def)
  then show ?thesis using result due e by (auto simp: sample_checks_env_def)
qed

section \<open>A rotated key is dead\<close>

lemma INGEST_SQL_unknown:
  "\<forall>c \<in> set (checks s). pingKey c \<noteq> v_key v \<Longrightarrow> INGEST_SQL ok v s = Inr (n, s') \<Longrightarrow> s' = s"
  by (auto simp: INGEST_SQL_def split: if_splits option.splits dest!: find_SomeD)

lemma write_ping_unknown:
  "\<forall>c \<in> set (checks (store_db st)). pingKey c \<noteq> k \<Longrightarrow> store_db (snd (write_ping env cmd k m st)) = store_db st"
  by (auto simp: write_ping_def write_values_def dest!: INGEST_SQL_unknown [rotated]
      split: sum.splits prod.splits)

lemma ingest_unknown:
  "\<forall>c \<in> set (checks (store_db st)). pingKey c \<noteq> to_lower (cmd_pingKey cmd) \<Longrightarrow>
   store_db (snd (ingest env cmd st)) = store_db st"
  by (simp add: ingest_def Let_def write_ping_unknown split: prod.splits option.splits sum.splits)

lemma rotate_success:
  assumes "rotatePingKey env i st = (Inr dto, st')" "check_by_id i (store_db st) = Some c"
  shows "store_db st' = snd (replacePingKey env i (store_db st))"
  using assms
  by (auto simp: rotatePingKey_def replacePingKey_def findPingKey_def Let_def split: option.splits)

text \<open>
  Once a ping key has been replaced, the check keeps everything but its key, and
  no heartbeat on the old key changes anything in the database any more, whatever any
  instance's cache still holds.
\<close>

theorem rotated_key_is_dead:
  assumes "checks_ok (store_db st)" and "fresh_key env (store_db st)"
    and "check_by_id i (store_db st) = Some c"
    and "rotatePingKey env i st = (Inr dto, st')"
    and "store_db any = store_db st'" and "to_lower (cmd_pingKey cmd) = pingKey c"
  shows "check_by_id i (store_db st') =
           Some (c\<lparr>pingKey := ce_newPingKey env, pingKeyRotatedAt := Some (ce_now env)\<rparr>)
    \<and> pings (store_db st') = pings (store_db st) \<and> incidents (store_db st') = incidents (store_db st)
    \<and> store_db (snd (ingest ienv cmd any)) = store_db st'"
proof -
  let ?s = "store_db st"
  let ?c = "c\<lparr>pingKey := ce_newPingKey env, pingKeyRotatedAt := Some (ce_now env)\<rparr>"
  have s': "store_db st' = snd (replacePingKey env i ?s)" by (rule rotate_success [OF assms(4,3)])
  have c: "c \<in> set (checks ?s)" "c_id c = i" using assms(3) check_by_id_iff [OF assms(1)] by auto
  have ok: "checks_ok (store_db st')" unfolding s' by (rule rotate_rows [OF assms(1,2)])
  have "?c \<in> set (checks (store_db st'))"
    unfolding s' using c by (auto simp: replacePingKey_def set_update_where)
  then have found: "check_by_id i (store_db st') = Some ?c"
    using check_by_id_iff [OF ok] c(2) by simp
  have "pingKey d \<noteq> pingKey c" if d: "d \<in> set (checks (store_db st'))" for d
  proof -
    have "d \<in> set (update_where (\<lambda>c. c_id c = i)
        (\<lambda>c. c\<lparr>pingKey := ce_newPingKey env, pingKeyRotatedAt := Some (ce_now env)\<rparr>) (checks ?s))"
      using d by (simp add: s' replacePingKey_def)
    then show ?thesis
    proof (cases rule: update_where_memE)
      case (changed q)
      then show ?thesis using assms(2) c(1) by (auto simp: fresh_key_def)
    next
      case kept
      then show ?thesis using c assms(1) by (auto simp: checks_ok_def dest: distinct_map_memD)
    qed
  qed
  then have "store_db (snd (ingest ienv cmd any)) = store_db st'"
    using ingest_unknown [of any cmd ienv] assms(5,6) by simp
  moreover have "pings (store_db st') = pings ?s" "incidents (store_db st') = incidents ?s"
    by (simp_all add: s' replacePingKey_def)
  ultimately show ?thesis using found by blast
qed


theorem rotated_key_is_dead_witness:
  "pings (store_db (snd (ingest sample_env sample_command
      (snd (rotatePingKey sample_checks_env 1 (sample_state UP)))))) = []"
proof -
  let ?st = "sample_state UP"
  have c: "check_by_id 1 (store_db ?st) = Some (sample_check UP)"
    by (simp add: sample_state_def sample_db_def check_by_id_def sample_check_def empty_db_def)
  have ok: "checks_ok (store_db ?st)" "fresh_key sample_checks_env (store_db ?st)"
    by (simp_all add: fresh_key_def sample_defs checks_ok_def sample_checks_env_def sample_key_def)
  obtain dto st' where r: "rotatePingKey sample_checks_env 1 ?st = (Inr dto, st')"
    by (simp add: rotatePingKey_def replacePingKey_def findPingKey_def check_by_id_def Let_def
        sample_state_def sample_db_def sample_check_def empty_db_def)
  have "to_lower (cmd_pingKey sample_command) = pingKey (sample_check UP)"
    by (simp add: sample_command_def sample_check_def sample_uuid)
  from rotated_key_is_dead [OF ok c r refl this, of sample_env]
  have "pings (store_db (snd (ingest sample_env sample_command st'))) = pings (store_db ?st)" by simp
  then show ?thesis using r by (simp add: sample_state_def sample_db_def empty_db_def)
qed

section \<open>What an update does\<close>

lemma update_Some:
  assumes "checks_ok (store_db st)" "check_by_id i (store_db st) = Some c"
    and "update_due env c r = Inr due"
  shows "check_by_id i (store_db (snd (update env i r st))) = Some (apply_update env c r due c)"
proof -
  have c: "c \<in> set (checks (store_db st))" "c_id c = i"
    using assms(2) check_by_id_iff [OF assms(1)] by auto
  have db: "store_db (snd (update env i r st)) = (store_db st)\<lparr>checks := update_where (\<lambda>x. c_id x = i)
            (apply_update env c r due) (checks (store_db st))\<rparr>"
    using assms(2,3) by (simp add: update_def Let_def)
  have ok: "checks_ok (store_db (snd (update env i r st)))"
    unfolding db by (rule checks_ok_update [OF assms(1) apply_update_identity])
  show ?thesis
    using c apply_update_identity [THEN keeps_identityD] unfolding check_by_id_iff [OF ok]
    by (auto simp: db set_update_where)
qed

text \<open>
  An accepted update of a check takes effect exactly as asked: pausing makes it
  PAUSED, so that no tick finds it overdue; resuming a paused one makes it NEW with a
  deadline in the future; changing the schedule moves the deadline to the next occurrence of
  the new schedule from now; and without either the deadline stays.
\<close>

theorem update_moves_the_deadline:
  assumes "cron_contract occ (ce_cron env)" and "checks_ok (store_db st)"
    and "check_by_id i (store_db st) = Some c" and "fst (update env i r st) = Inr dto"
  shows "\<exists>d. check_by_id i (store_db (snd (update env i r st))) = Some d
    \<and> (up_paused r = Some True \<longrightarrow> state d = PAUSED \<and> (\<forall>t. \<not> overdue t d))
    \<and> (up_paused r = Some False \<and> state c = PAUSED \<longrightarrow>
         state d = NEW \<and> (\<exists>due. nextDueAt d = Some due \<and> ce_now env < due))
    \<and> (rq_scheduleType r \<noteq> None \<longrightarrow>
         toScheduleFromRow d = toSchedule r
         \<and> nextDueAt d = computeNextDueAt (ce_cron env) (toSchedule r) (ce_now env) \<and> nextDueAt d \<noteq> None)
    \<and> (rq_scheduleType r = None \<and> up_paused r \<noteq> Some False \<longrightarrow>
         nextDueAt d = nextDueAt c \<and> toScheduleFromRow d = toScheduleFromRow c)"
proof -
  obtain due where due: "update_due env c r = Inr due"
    using assms(3,4) by (auto simp: update_def split: sum.splits)
  let ?d = "apply_update env c r due c"
  have set_due: "\<exists>t. due = Some (Some t) \<and> ce_now env < t
      \<and> computeNextDueAt (ce_cron env) (if rq_scheduleType r \<noteq> None then toSchedule r else toScheduleFromRow c)
          (ce_now env) = Some t"
    if "rq_scheduleType r \<noteq> None \<or> up_paused r = Some False \<and> state c = PAUSED"
    using that due next_due_after [OF assms(1)]
    by (auto simp: update_due_def Let_def nextDueOrThrow_Inr split: sum.splits if_splits)
  have "due = None" if "rq_scheduleType r = None" "up_paused r \<noteq> Some False"
    using that due by (simp add: update_due_def)
  then show ?thesis
    using set_due unfolding update_Some [OF assms(2,3) due]
    by (auto simp: apply_update_def Let_def set_field_def update_state_def overdue_def
        toScheduleFromRow_def toSchedule_def)
qed


definition no_change :: update_request where
  "no_change = \<lparr>rq_scheduleType = None, rq_periodSeconds = None, rq_cronExpression = None,
     rq_timezone = None, up_name = None, up_graceSeconds = None, up_environment = None,
     up_tags = None, up_description = None, up_paused = None\<rparr>"

theorem update_moves_the_deadline_witness:
  "\<exists>d. check_by_id 1 (store_db (snd (update sample_checks_env 1 (no_change\<lparr>up_paused := Some False\<rparr>)
        (sample_state PAUSED)))) = Some d \<and> state d = NEW \<and> (\<exists>due > 1000. nextDueAt d = Some due)"
proof -
  have c: "check_by_id 1 (store_db (sample_state PAUSED)) = Some (sample_check PAUSED)"
    by (simp add: sample_state_def sample_db_def check_by_id_def sample_check_def empty_db_def)
  have ok: "checks_ok (store_db (sample_state PAUSED))" by (simp add: sample_state_def)
  have cron: "cron_contract (\<lambda>e z. range (\<lambda>k. k * 60000)) (ce_cron sample_checks_env)"
    using minutely_contract by (simp add: sample_checks_env_def)
  have "\<exists>dto. fst (update sample_checks_env 1 (no_change\<lparr>up_paused := Some False\<rparr>) (sample_state PAUSED)) = Inr dto"
    by (simp add: update_def c [unfolded One_nat_def] update_due_def nextDueOrThrow_def computeNextDueAt_def toScheduleFromRow_def
        sample_check_def no_change_def Let_def)
  then obtain dto where u: "fst (update sample_checks_env 1 (no_change\<lparr>up_paused := Some False\<rparr>) (sample_state PAUSED)) = Inr dto" ..
  show ?thesis
    using update_moves_the_deadline [OF cron ok c u]
    by (auto simp: no_change_def sample_check_def sample_checks_env_def)
qed

section \<open>A resumed check escapes the plan\<close>

text \<open>
  Resuming, through the API, a check that quota had paused restarts it (NEW, with a
  deadline) but leaves it marked as paused by quota: the enforcer goes on counting the
  account as before, so that one check more than it counts is running, and its next pass
  pauses nothing for it.
\<close>

theorem resume_escapes_the_plan:
  assumes "checks_ok (store_db st)" and "check_by_id i (store_db st) = Some c"
    and "state c = PAUSED" and "quota_paused c"
    and "computeNextDueAt (ce_cron env) (toScheduleFromRow c) (ce_now env) = Some due"
  shows "\<exists>d. check_by_id i (store_db (snd (update env i (no_change\<lparr>up_paused := Some False\<rparr>) st))) = Some d
    \<and> state d = NEW \<and> nextDueAt d = Some due \<and> quota_paused d
    \<and> active u (store_db (snd (update env i (no_change\<lparr>up_paused := Some False\<rparr>) st)))
        = active u (store_db st)"
proof -
  let ?r = "no_change\<lparr>up_paused := Some False\<rparr>"
  let ?f = "apply_update env c ?r (Some (Some due))"
  have due: "update_due env c ?r = Inr (Some (Some due))"
    using assms(3,5) by (simp add: update_due_def no_change_def nextDueOrThrow_def)
  have db: "store_db (snd (update env i ?r st)) = (store_db st)\<lparr>checks := update_where (\<lambda>x. c_id x = i)
        ?f (checks (store_db st))\<rparr>"
    using assms(2) due by (simp add: update_def Let_def)
  have f: "projectId (?f x) = projectId x" "quota_paused (?f x) = quota_paused x" for x
    by (simp_all add: apply_update_def no_change_def Let_def quota_paused_def)
  have "length (filter (\<lambda>c. owns (store_db st) u (projectId c) \<and> \<not> quota_paused c) (update_where p ?f xs))
      = length (filter (\<lambda>c. owns (store_db st) u (projectId c) \<and> \<not> quota_paused c) xs)" for p xs
    by (induction xs) (simp_all add: f)
  then have "active u (store_db (snd (update env i ?r st))) = active u (store_db st)"
    by (simp add: db active_def)
  then show ?thesis
    using update_Some [OF assms(1,2) due] f(2) assms(3,4)
    by (simp add: apply_update_def no_change_def Let_def set_field_def update_state_def quota_paused_def)
qed

section \<open>A schedule without its type is ignored\<close>

text \<open>
  An update that changes the period without naming the schedule type passes the
  schema (the period is within its limits) and is answered with success, but the check keeps
  its old schedule and its old deadline.
\<close>

theorem period_alone_is_ignored:
  assumes "checks_ok (store_db st)" and "check_by_id i (store_db st) = Some c"
    and "30 \<le> n" and "n \<le> 31536000"
  shows "updateCheckRequestSchema intl (no_change\<lparr>rq_periodSeconds := Some n\<rparr>)
           = Some (no_change\<lparr>rq_periodSeconds := Some n\<rparr>)
    \<and> (\<exists>d dto. fst (update env i (no_change\<lparr>rq_periodSeconds := Some n\<rparr>) st) = Inr dto
         \<and> check_by_id i (store_db (snd (update env i (no_change\<lparr>rq_periodSeconds := Some n\<rparr>) st))) = Some d
         \<and> toScheduleFromRow d = toScheduleFromRow c \<and> nextDueAt d = nextDueAt c)"
proof -
  let ?r = "no_change\<lparr>rq_periodSeconds := Some n\<rparr>"
  have due: "update_due env c ?r = Inr None" by (simp add: update_due_def no_change_def)
  have "updateCheckRequestSchema intl ?r = Some ?r"
    using assms(3,4)
    by (simp add: updateCheckRequestSchema_def no_change_def schedule_fields_def within_def limit_defs
        refineSchedule_def)
  moreover have "\<exists>dto. fst (update env i ?r st) = Inr dto"
    using assms(2) due by (simp add: update_def Let_def)
  moreover have "toScheduleFromRow (apply_update env c ?r None c) = toScheduleFromRow c"
    "nextDueAt (apply_update env c ?r None c) = nextDueAt c"
    by (simp_all add: apply_update_def no_change_def Let_def toScheduleFromRow_def set_field_def)
  ultimately show ?thesis using update_Some [OF assms(1,2) due] by blast
qed

section \<open>Reading every page\<close>

lemma distinct_ordered: "distinct (map f xs) \<Longrightarrow> distinct (map f (rev (sort_key k (filter p xs))))"
  by (auto simp: distinct_map inj_on_def)

lemma distinct_list_rows: "checks_ok s \<Longrightarrow> distinct (map c_id (list_rows ic ps q s))"
  by (simp only: list_rows_def checks_ok_def distinct_ordered)

interpretation check_pages: keyset c_id checks_ok "list_rows ic ps q" "list_fetch ic ps q"
  for ic ps q
  by unfold_locales
    (use fetch_page_next [OF distinct_list_rows] in \<open>auto simp: list_fetch_def fetch_page_first\<close>)

lemma distinct_incident_rows: "incidents_ok s \<Longrightarrow> distinct (map i_id (incident_rows c s))"
  by (simp only: incident_rows_def incidents_ok_def distinct_ordered)

interpretation incident_pages: keyset i_id incidents_ok "incident_rows c"
    "\<lambda>s. fetch_page i_id (incident_rows c s)" for c
  by unfold_locales
    (use fetch_page_next [OF distinct_incident_rows] in \<open>auto simp: fetch_page_first\<close>)

lemma list_rows_cursor: "list_rows ic ps (q\<lparr>q_cursor := cur\<rparr>) s = list_rows ic ps q s"
  by (simp add: list_rows_def list_where_def [abs_def])


definition paged_db :: db where
  "paged_db = two_checks\<lparr>checks := map (\<lambda>c. c\<lparr>pingKey := [char_of (c_id c)]\<rparr>) (checks two_checks), next_id := 9\<rparr>"

definition one_per_page :: list_query where
  "one_per_page = \<lparr>q_state = None, q_environment = None, q_tag = None, q_search = None,
     q_orphaned = None, q_limit = 1, q_cursor = None\<rparr>"


text \<open>Two more witnesses, on a check the quota had paused and on a running one.\<close>

definition quota_state :: ingest_state where
  "quota_state = (sample_state PAUSED)\<lparr>store_db := (sample_db PAUSED)\<lparr>checks :=
     map (\<lambda>c. c\<lparr>pausedReason := Some ''quota''\<rparr>) (checks (sample_db PAUSED))\<rparr>\<rparr>"

lemma quota_state_check:
  "check_by_id 1 (store_db quota_state) = Some ((sample_check PAUSED)\<lparr>pausedReason := Some ''quota''\<rparr>)"
  "checks_ok (store_db quota_state)"
  by (simp_all add: quota_state_def sample_db_def check_by_id_def sample_check_def empty_db_def checks_ok_def)

theorem resume_escapes_the_plan_witness:
  "\<exists>d. check_by_id 1 (store_db (snd (update sample_checks_env 1 (no_change\<lparr>up_paused := Some False\<rparr>) quota_state))) = Some d
    \<and> state d = NEW \<and> quota_paused d"
proof -
  have "computeNextDueAt (ce_cron sample_checks_env)
      (toScheduleFromRow ((sample_check PAUSED)\<lparr>pausedReason := Some ''quota''\<rparr>)) (ce_now sample_checks_env) = Some 61000"
    "state ((sample_check PAUSED)\<lparr>pausedReason := Some ''quota''\<rparr>) = PAUSED"
    "quota_paused ((sample_check PAUSED)\<lparr>pausedReason := Some ''quota''\<rparr>)"
    by (simp_all add: computeNextDueAt_def toScheduleFromRow_def sample_check_def sample_checks_env_def quota_paused_def)
  then show ?thesis
    using resume_escapes_the_plan [OF quota_state_check(2,1), of sample_checks_env 61000] by auto
qed

theorem period_alone_is_ignored_witness:
  "\<exists>d. check_by_id 1 (store_db (snd (update sample_checks_env 1 (no_change\<lparr>rq_periodSeconds := Some 3600\<rparr>) quota_state))) = Some d
    \<and> periodSeconds d = Some 60"
  using period_alone_is_ignored [OF quota_state_check(2,1), of 3600 "\<lambda>_. True" sample_checks_env]
  by (auto simp: toScheduleFromRow_def sample_check_def)

text \<open>
  C-ORPHANED. Asking a listing for the checks that are not orphaned (\<open>orphaned=false\<close>) gives
  exactly the orphaned ones: the text is coerced by its emptiness.
\<close>

theorem orphaned_false_lists_orphans:
  assumes "listChecksQuerySchema raw = Some q" and "raw_orphaned raw = Some ''false''"
    and "c \<in> set (list_rows ic ps q s)"
  shows "orphanedAt c \<noteq> None"
  using assms
  by (auto simp: listChecksQuerySchema_def list_rows_def list_where_def coerce_boolean_def
      split: option.splits prod.splits bool.splits if_splits)


theorem orphaned_false_lists_orphans_witness:
  "list_rows (\<lambda>_ _. True) [2] (one_per_page\<lparr>q_orphaned := Some (coerce_boolean ''false'')\<rparr>) two_checks = []"
proof -
  let ?raw = "\<lparr>raw_state = None, raw_environment = None, raw_tag = None, raw_search = None,
     raw_orphaned = Some ''false'', raw_limit = Some 1, raw_cursor = None\<rparr>"
  have "listChecksQuerySchema ?raw = Some (one_per_page\<lparr>q_orphaned := Some (coerce_boolean ''false'')\<rparr>)"
    by (simp add: listChecksQuerySchema_def within_def one_per_page_def)
  from orphaned_false_lists_orphans [OF this]
  have "orphanedAt c \<noteq> None" if "c \<in> set (list_rows (\<lambda>_ _. True) [2]
      (one_per_page\<lparr>q_orphaned := Some (coerce_boolean ''false'')\<rparr>) two_checks)" for c
    using that by simp
  moreover have "orphanedAt c = None" if "c \<in> set (checks two_checks)" for c
    using that by (auto simp: two_checks_def sample_account_def sample_alerting_def)
  ultimately show ?thesis by (force simp: list_rows_def filter_empty_conv)
qed

end
