(* ===== verification/Access.thy ===== *)
theory Access
  imports Checks
begin

text \<open>
  Who may touch what: \<^verbatim>\<open>packages/server/src/access/principal.ts\<close>,
  \<^verbatim>\<open>project-access.service.ts\<close> with \<^verbatim>\<open>project-access.repository.ts\<close>, the credential half of
  \<^verbatim>\<open>auth.guard.ts\<close>, and \<^verbatim>\<open>admin/administrator.service.ts\<close>. The roles are ordered as
  their ranks are, so that a role satisfies every lower requirement.
\<close>

section \<open>Roles\<close>

fun RANK :: "project_role \<Rightarrow> nat" where
  "RANK Member = 1"
| "RANK Admin = 2"
| "RANK Owner = 3"

lemma RANK_inj: "RANK r = RANK r' \<Longrightarrow> r = r'"
  by (cases r; cases r') simp_all

instantiation project_role :: linorder
begin

definition less_eq_project_role :: "project_role \<Rightarrow> project_role \<Rightarrow> bool" where
  "r \<le> r' \<longleftrightarrow> RANK r \<le> RANK r'"

definition less_project_role :: "project_role \<Rightarrow> project_role \<Rightarrow> bool" where
  "r < r' \<longleftrightarrow> RANK r < RANK r'"

instance
  by standard (auto simp: less_eq_project_role_def less_project_role_def intro: RANK_inj)

end

lemma member_least [simp]: "Member \<le> (r :: project_role)"
  by (cases r) (simp_all add: less_eq_project_role_def)

lemma owner_greatest [simp]: "(r :: project_role) \<le> Owner"
  by (cases r) (simp_all add: less_eq_project_role_def)

section \<open>Principals\<close>

datatype principal =
    UserSession uuid uuid millis
  | KeyHolder uuid uuid

text \<open>\<open>UserSession user session signedInAt\<close> and \<open>KeyHolder apiKey project\<close>.\<close>

definition FRESH_SESSION_SECONDS :: int where "FRESH_SESSION_SECONDS = 600"

fun assertUser :: "principal \<Rightarrow> http_error + uuid \<times> uuid" where
  "assertUser (UserSession u session _) = Inr (u, session)"
| "assertUser (KeyHolder _ _) = Inl Unauthorized"

definition assertRecentUser :: "millis \<Rightarrow> principal \<Rightarrow> http_error + uuid \<times> uuid" where
  "assertRecentUser now pr =
     (case assertUser pr of
        Inl e \<Rightarrow> Inl e
      | Inr user \<Rightarrow>
          (case pr of
             UserSession _ _ signedInAt \<Rightarrow>
               if FRESH_SESSION_SECONDS * 1000 \<le> now - signedInAt then Inl ReauthRequired else Inr user
           | KeyHolder _ _ \<Rightarrow> Inr user))"

section \<open>Projects\<close>

definition findRole :: "uuid \<Rightarrow> uuid \<Rightarrow> db \<Rightarrow> project_role option" where
  "findRole p u s = map_option role (find (\<lambda>m. m_project m = p \<and> m_user m = u) (members s))"

definition listProjectIds :: "uuid \<Rightarrow> db \<Rightarrow> uuid list" where
  "listProjectIds u s = map m_project (filter (\<lambda>m. m_user m = u) (members s))"

definition findCheckProjectId :: "uuid \<Rightarrow> db \<Rightarrow> uuid option" where
  "findCheckProjectId c s = map_option projectId (check_by_id c s)"

fun assertAccess :: "principal \<Rightarrow> uuid \<Rightarrow> project_role \<Rightarrow> db \<Rightarrow> http_error + unit" where
  "assertAccess (KeyHolder _ q) p minimum s =
     (if q \<noteq> p then Inl NotFound
      else if RANK Member < RANK minimum then Inl Forbidden else Inr ())"
| "assertAccess (UserSession u _ _) p minimum s =
     (case findRole p u s of
        None \<Rightarrow> Inl NotFound
      | Some r \<Rightarrow> if RANK r < RANK minimum then Inl Forbidden else Inr ())"

fun visibleProjectIds :: "principal \<Rightarrow> db \<Rightarrow> uuid list" where
  "visibleProjectIds (KeyHolder _ q) s = [q]"
| "visibleProjectIds (UserSession u _ _) s = listProjectIds u s"

definition assertCheckAccess :: "principal \<Rightarrow> uuid \<Rightarrow> project_role \<Rightarrow> db \<Rightarrow> http_error + uuid" where
  "assertCheckAccess pr c minimum s =
     (case findCheckProjectId c s of
        None \<Rightarrow> Inl NotFound
      | Some p \<Rightarrow> (case assertAccess pr p minimum s of Inl e \<Rightarrow> Inl e | Inr _ \<Rightarrow> Inr p))"

section \<open>The administrator\<close>

definition isAdministrator :: "string \<Rightarrow> uuid \<Rightarrow> db \<Rightarrow> bool" where
  "isAdministrator adminEmail u s =
     (case find (\<lambda>x. u_id x = u) (users s) of
        None \<Rightarrow> False | Some x \<Rightarrow> email x = to_lower adminEmail)"

definition assertAdministrator :: "string \<Rightarrow> principal \<Rightarrow> db \<Rightarrow> http_error + unit" where
  "assertAdministrator adminEmail pr s =
     (case assertUser pr of
        Inl e \<Rightarrow> Inl e
      | Inr (u, _) \<Rightarrow> if isAdministrator adminEmail u s then Inr () else Inl NotFound)"

section \<open>Credentials\<close>

text \<open>\<open>/^Bearer +(\S+)$/i\<close> on the trimmed header.\<close>

definition extractBearer :: "string option \<Rightarrow> string option" where
  "extractBearer header =
     (case header of
        None \<Rightarrow> None
      | Some raw \<Rightarrow>
          (let h = trim raw; rest = drop 6 h; tok = dropWhile (\<lambda>c. c = CHR '' '') rest
           in if to_lower (take 6 h) = ''bearer'' \<and> rest \<noteq> [] \<and> hd rest = CHR '' ''
                 \<and> tok \<noteq> [] \<and> list_all (\<lambda>c. \<not> is_space c) tok
              then Some tok else None))"

datatype http_method = GET | HEAD | OPTIONS | POST | PUT | PATCH | DELETE

definition UNSAFE_METHODS :: "http_method set" where
  "UNSAFE_METHODS = {POST, PUT, PATCH, DELETE}"

text \<open>
  What the session store and the key service answer are arguments: the user, session and
  instant of sign-in of a cookie, and the key and project of a token.
\<close>

record guarded_request =
  gr_public :: bool
  gr_method :: http_method
  gr_authorization :: "string option"
  gr_origin :: "string option"
  gr_session :: "(uuid \<times> uuid \<times> millis) option"

definition resolveApiKey :: "(string \<Rightarrow> (uuid \<times> uuid) option) \<Rightarrow> string \<Rightarrow> http_error + principal" where
  "resolveApiKey keys tok =
     (case (if take 3 tok = ''sw_'' then keys tok else None) of
        None \<Rightarrow> Inl Unauthorized | Some (k, p) \<Rightarrow> Inr (KeyHolder k p))"

definition resolveSession :: "string set \<Rightarrow> guarded_request \<Rightarrow> http_error + principal" where
  "resolveSession origins r =
     (case gr_session r of
        None \<Rightarrow> Inl Unauthorized
      | Some (u, session, at) \<Rightarrow>
          if gr_method r \<in> UNSAFE_METHODS
             \<and> (case gr_origin r of None \<Rightarrow> [] | Some o' \<Rightarrow> o') \<notin> origins
          then Inl Forbidden else Inr (UserSession u session at))"

text \<open>\<open>Inr None\<close>: a public route, reached without a principal.\<close>

definition canActivate :: "string set \<Rightarrow> (string \<Rightarrow> (uuid \<times> uuid) option) \<Rightarrow> guarded_request \<Rightarrow>
    http_error + principal option" where
  "canActivate origins keys r =
     (if gr_public r then Inr None
      else map_sum id Some
        (case extractBearer (gr_authorization r) of
           None \<Rightarrow> resolveSession origins r
         | Some tok \<Rightarrow> resolveApiKey keys tok))"

section \<open>What the rules give\<close>

text \<open>A principal's role in a project: an API key is a member of its own.\<close>

fun role_in :: "principal \<Rightarrow> uuid \<Rightarrow> db \<Rightarrow> project_role option" where
  "role_in (KeyHolder _ q) p s = (if q = p then Some Member else None)"
| "role_in (UserSession u _ _) p s = findRole p u s"

lemma findRole_visible: "findRole p u s \<noteq> None \<longleftrightarrow> p \<in> set (listProjectIds u s)"
  by (auto simp: findRole_def listProjectIds_def find_None_iff)

lemma role_in_visible: "role_in pr p s \<noteq> None \<longleftrightarrow> p \<in> set (visibleProjectIds pr s)"
  using findRole_visible by (cases pr) auto

text \<open>
  Access to a project is decided by the role there alone: it is granted exactly to
  the roles at least as high as required; a project where the principal has no role answers
  404, like one that does not exist, and those are exactly the projects missing from what
  the principal may list; anything else is 403.
\<close>

theorem access_is_role:
  "assertAccess pr p minimum s =
     (case role_in pr p s of
        None \<Rightarrow> Inl NotFound | Some r \<Rightarrow> if minimum \<le> r then Inr () else Inl Forbidden)
   \<and> (assertAccess pr p minimum s = Inl NotFound \<longleftrightarrow> p \<notin> set (visibleProjectIds pr s))"
proof -
  have "assertAccess pr p minimum s =
     (case role_in pr p s of
        None \<Rightarrow> Inl NotFound | Some r \<Rightarrow> if minimum \<le> r then Inr () else Inl Forbidden)"
    by (cases pr) (auto simp: less_eq_project_role_def split: option.splits)
  then show ?thesis using role_in_visible [of pr p s] by (auto split: option.splits)
qed

lemma assertAccess_Inr: "assertAccess pr p minimum s = Inr () \<Longrightarrow> p \<in> set (visibleProjectIds pr s)"
  using role_in_visible [of pr p s] by (cases pr) (auto split: option.splits if_splits)

lemma assertCheckAccess_Inr:
  assumes "assertCheckAccess pr c minimum s = Inr p"
  shows "findCheckProjectId c s = Some p" "p \<in> set (visibleProjectIds pr s)"
  using assms assertAccess_Inr by (auto simp: assertCheckAccess_def split: option.splits sum.splits)

text \<open>
  A request gets past the guard with a principal only by a token the key service
  knows or by a session cookie, and a cookie is not enough for a request that changes
  something unless it comes from one of the server's own origins. A token that is present
  and wrong is refused even with a valid cookie.
\<close>

theorem guard_needs_credentials:
  assumes "canActivate origins keys r = Inr (Some pr)"
  shows "(\<exists>tok k p. extractBearer (gr_authorization r) = Some tok \<and> take 3 tok = ''sw_''
            \<and> keys tok = Some (k, p) \<and> pr = KeyHolder k p)
    \<or> (\<exists>u session at. extractBearer (gr_authorization r) = None \<and> gr_session r = Some (u, session, at)
            \<and> pr = UserSession u session at
            \<and> (gr_method r \<in> UNSAFE_METHODS \<longrightarrow> gr_origin r \<in> Some ` origins \<or> gr_origin r = None \<and> [] \<in> origins))"
  using assms
  by (auto simp: canActivate_def resolveApiKey_def resolveSession_def
      split: if_splits option.splits sum.splits prod.splits)

definition key_request :: guarded_request where
  "key_request = \<lparr>gr_public = False, gr_method = POST, gr_authorization = Some '' bearer  sw_a'',
     gr_origin = None, gr_session = Some (1, 2, 3)\<rparr>"

theorem guard_needs_credentials_witness:
  "canActivate {} (\<lambda>t. if t = ''sw_a'' then Some (5, 6) else None) key_request = Inr (Some (KeyHolder 5 6))
   \<and> (\<exists>tok. extractBearer (gr_authorization key_request) = Some tok)"
proof
  have b: "extractBearer (gr_authorization key_request) = Some ''sw_a''" by code_simp
  show c: "canActivate {} (\<lambda>t. if t = ''sw_a'' then Some (5, 6) else None) key_request
      = Inr (Some (KeyHolder 5 6))"
    by (simp add: canActivate_def b resolveApiKey_def) (simp add: key_request_def)
  show "\<exists>tok. extractBearer (gr_authorization key_request) = Some tok"
    using guard_needs_credentials [OF c] by auto
qed

end
