(* ===== verification/ApiKeys.thy ===== *)
theory ApiKeys
  imports Access
begin

text \<open>
  API keys of a project: \<^verbatim>\<open>packages/server/src/api-keys/api-key.service.ts\<close> and
  \<^verbatim>\<open>api-keys.repository.ts\<close>. The key table and the service's memory of when it last wrote
  ``last used'' are the state; the hash function and the random bytes are parameters.
\<close>

record api_key =
  ak_id :: uuid
  ak_projectId :: uuid
  ak_name :: string
  ak_lookupId :: string
  ak_secretHash :: string
  ak_prefix :: string
  ak_lastUsedAt :: "millis option"
  ak_expiresAt :: "millis option"
  ak_createdAt :: millis
  ak_revokedAt :: "millis option"

record key_service =
  api_keys :: "api_key list"
  lastUsedWrites :: "(uuid, millis) js_map"
  next_key :: uuid

definition MAX_LIVE_KEYS_PER_PROJECT :: nat where "MAX_LIVE_KEYS_PER_PROJECT = 25"

definition DEAD_KEY_RETENTION_MS :: int where "DEAD_KEY_RETENTION_MS = 30 * 86400000"

section \<open>The statements\<close>

definition live :: "millis \<Rightarrow> api_key \<Rightarrow> bool" where
  "live now k \<longleftrightarrow> ak_revokedAt k = None
     \<and> (case ak_expiresAt k of None \<Rightarrow> True | Some t \<Rightarrow> now < t)"

definition countLive :: "millis \<Rightarrow> uuid \<Rightarrow> key_service \<Rightarrow> nat" where
  "countLive now p ks = length (filter (\<lambda>k. ak_projectId k = p \<and> live now k) (api_keys ks))"

definition dead_before :: "millis \<Rightarrow> api_key \<Rightarrow> bool" where
  "dead_before cutoff k \<longleftrightarrow>
     (case ak_revokedAt k of None \<Rightarrow> False | Some t \<Rightarrow> t < cutoff)
     \<or> (case ak_expiresAt k of None \<Rightarrow> False | Some t \<Rightarrow> t < cutoff)"

definition deleteDeadBefore :: "millis \<Rightarrow> key_service \<Rightarrow> nat \<times> key_service" where
  "deleteDeadBefore cutoff ks =
     (length (filter (dead_before cutoff) (api_keys ks)),
      ks\<lparr>api_keys := filter (\<lambda>k. \<not> dead_before cutoff k) (api_keys ks)\<rparr>)"

definition revoke_row :: "millis \<Rightarrow> uuid \<Rightarrow> uuid \<Rightarrow> key_service \<Rightarrow> bool \<times> key_service" where
  "revoke_row now p i ks =
     (\<exists>k \<in> set (api_keys ks). ak_id k = i \<and> ak_projectId k = p,
      ks\<lparr>api_keys := update_where (\<lambda>k. ak_id k = i \<and> ak_projectId k = p \<and> ak_revokedAt k = None)
          (\<lambda>k. k\<lparr>ak_revokedAt := Some now\<rparr>) (api_keys ks)\<rparr>)"

text \<open>A project all of whose owners are disabled is suspended with them.\<close>

definition suspended :: "uuid \<Rightarrow> db \<Rightarrow> bool" where
  "suspended p s \<longleftrightarrow>
     (let owners = filter (\<lambda>m. m_project m = p \<and> role m = Owner) (members s)
      in owners \<noteq> []
         \<and> list_all (\<lambda>m. case find (\<lambda>u. u_id u = m_user m) (users s) of
                None \<Rightarrow> True | Some u \<Rightarrow> disabledAt u \<noteq> None) owners)"

definition findByLookupId :: "string \<Rightarrow> key_service \<Rightarrow> api_key option" where
  "findByLookupId l ks = find (\<lambda>k. ak_lookupId k = l) (api_keys ks)"

definition touch_row :: "millis \<Rightarrow> uuid \<Rightarrow> key_service \<Rightarrow> key_service" where
  "touch_row now i ks =
     ks\<lparr>api_keys := update_where (\<lambda>k. ak_id k = i) (\<lambda>k. k\<lparr>ak_lastUsedAt := Some now\<rparr>) (api_keys ks)\<rparr>"

section \<open>The service\<close>

record api_key_dto =
  kd_id :: string
  kd_projectId :: string
  kd_name :: string
  kd_prefix :: string
  kd_lastUsedAt :: "string option"
  kd_expiresAt :: "string option"
  kd_createdAt :: string
  kd_revokedAt :: "string option"

definition toApiKeyDto :: "(uuid \<Rightarrow> string) \<Rightarrow> api_key \<Rightarrow> api_key_dto" where
  "toApiKeyDto uuid_text k =
     \<lparr>kd_id = uuid_text (ak_id k), kd_projectId = uuid_text (ak_projectId k), kd_name = ak_name k,
      kd_prefix = ak_prefix k, kd_lastUsedAt = iso_option (ak_lastUsedAt k),
      kd_expiresAt = iso_option (ak_expiresAt k), kd_createdAt = toISOString (ak_createdAt k),
      kd_revokedAt = iso_option (ak_revokedAt k)\<rparr>"

record keys_env =
  ke_now :: millis
  ke_sha :: "string \<Rightarrow> string"
  ke_bytes8 :: "byte list"
  ke_bytes32 :: "byte list"
  ke_uuid_text :: "uuid \<Rightarrow> string"
  ke_writes :: bool

text \<open>The answer carries the full token, this once.\<close>

definition create_key :: "keys_env \<Rightarrow> uuid \<Rightarrow> string \<Rightarrow> int option \<Rightarrow> key_service \<Rightarrow>
    (http_error + api_key_dto \<times> string) \<times> key_service" where
  "create_key env p nm expiresInDays ks =
     (if MAX_LIVE_KEYS_PER_PROJECT \<le> countLive (ke_now env) p ks then (Inl Conflict, ks)
      else
        let g = generateApiKey (ke_sha env) (ke_bytes8 env) (ke_bytes32 env);
            k = \<lparr>ak_id = next_key ks, ak_projectId = p, ak_name = nm,
                 ak_lookupId = gen_lookupId g, ak_secretHash = gen_secretHash g,
                 ak_prefix = gen_prefix g, ak_lastUsedAt = None,
                 ak_expiresAt = map_option (\<lambda>d. ke_now env + d * 86400000) expiresInDays,
                 ak_createdAt = ke_now env, ak_revokedAt = None\<rparr>
        in (Inr (toApiKeyDto (ke_uuid_text env) k, token g),
            ks\<lparr>api_keys := api_keys ks @ [k], next_key := Suc (next_key ks)\<rparr>))"

text \<open>\<open>orderBy: { createdAt: 'desc' }\<close>\<close>

definition list_keys :: "(uuid \<Rightarrow> string) \<Rightarrow> uuid \<Rightarrow> key_service \<Rightarrow> api_key_dto list" where
  "list_keys uuid_text p ks =
     map (toApiKeyDto uuid_text)
       (sort_key (\<lambda>k. - ak_createdAt k) (filter (\<lambda>k. ak_projectId k = p) (api_keys ks)))"

definition purgeDead :: "millis \<Rightarrow> key_service \<Rightarrow> nat \<times> key_service" where
  "purgeDead now ks = deleteDeadBefore (now - DEAD_KEY_RETENTION_MS) ks"

definition revoke_key :: "millis \<Rightarrow> uuid \<Rightarrow> uuid \<Rightarrow> key_service \<Rightarrow> (http_error + unit) \<times> key_service" where
  "revoke_key now p i ks =
     (let (known, ks') = revoke_row now p i ks in (if known then Inr () else Inl NotFound, ks'))"

definition lastUsedThrottleMs :: int where "lastUsedThrottleMs = 60000"

text \<open>\<open>ke_writes\<close>: whether the unawaited write succeeds.\<close>

definition touch :: "keys_env \<Rightarrow> uuid \<Rightarrow> key_service \<Rightarrow> key_service" where
  "touch env i ks =
     (let last_write = (case map_of (lastUsedWrites ks) i of None \<Rightarrow> 0 | Some t \<Rightarrow> t)
      in if ke_now env - last_write < lastUsedThrottleMs then ks
         else let m = js_set i (ke_now env) (lastUsedWrites ks);
                  ks' = ks\<lparr>lastUsedWrites := (if 10000 < length m then [] else m)\<rparr>
              in if ke_writes env then touch_row (ke_now env) i ks' else ks')"

definition resolve_key :: "keys_env \<Rightarrow> db \<Rightarrow> string \<Rightarrow> key_service \<Rightarrow> (uuid \<times> uuid) option \<times> key_service" where
  "resolve_key env s tok ks =
     (case parseApiKey (ke_sha env) tok of
        None \<Rightarrow> (None, ks)
      | Some parsed \<Rightarrow>
          (case findByLookupId (lookupId parsed) ks of
             None \<Rightarrow> (None, ks)
           | Some k \<Rightarrow>
               if \<not> timingSafeEqualHex (ak_secretHash k) (secretHash parsed) then (None, ks)
               else if ak_revokedAt k \<noteq> None then (None, ks)
               else if suspended (ak_projectId k) s then (None, ks)
               else if (case ak_expiresAt k of None \<Rightarrow> False | Some t \<Rightarrow> t \<le> ke_now env) then (None, ks)
               else (Some (ak_id k, ak_projectId k), touch env (ak_id k) ks)))"

section \<open>Invariants\<close>

definition keys_ok :: "key_service \<Rightarrow> bool" where
  "keys_ok ks \<longleftrightarrow> distinct (map ak_id (api_keys ks)) \<and> distinct (map ak_lookupId (api_keys ks))
     \<and> (\<forall>i \<in> set (map ak_id (api_keys ks)). i < next_key ks) \<and> length (lastUsedWrites ks) \<le> 10000"

lemma touch_keys:
  "map ak_id (api_keys (touch env i ks)) = map ak_id (api_keys ks)"
  "map ak_lookupId (api_keys (touch env i ks)) = map ak_lookupId (api_keys ks)"
  "next_key (touch env i ks) = next_key ks"
  by (simp_all add: touch_def touch_row_def Let_def map_update_where)

lemma touch_ok: "keys_ok ks \<Longrightarrow> keys_ok (touch env i ks)"
proof -
  assume ok: "keys_ok ks"
  have "length (lastUsedWrites (touch env i ks)) \<le> 10000"
    using ok by (simp add: keys_ok_def touch_def touch_row_def Let_def)
  then show ?thesis using ok unfolding keys_ok_def touch_keys by blast
qed

lemma resolve_ok: "keys_ok ks \<Longrightarrow> keys_ok (snd (resolve_key env s tok ks))"
  by (simp add: resolve_key_def touch_ok split: option.splits)

lemma revoke_ok: "keys_ok ks \<Longrightarrow> keys_ok (snd (revoke_key now p i ks))"
  by (auto simp: keys_ok_def revoke_key_def revoke_row_def map_update_where set_update_where)

lemma purge_ok: "keys_ok ks \<Longrightarrow> keys_ok (snd (purgeDead now ks))"
  by (auto simp: keys_ok_def purgeDead_def deleteDeadBefore_def distinct_map_filter)

text \<open>A purge never deletes a key that still opens the API.\<close>

lemma purge_keeps_live:
  "k \<in> set (api_keys ks) \<Longrightarrow> live now k \<Longrightarrow> k \<in> set (api_keys (snd (purgeDead now ks)))"
  by (auto simp: purgeDead_def deleteDeadBefore_def dead_before_def live_def DEAD_KEY_RETENTION_MS_def
      split: option.splits)

lemma findByLookupId_row:
  assumes "keys_ok ks" "k \<in> set (api_keys ks)"
  shows "findByLookupId (ak_lookupId k) ks = Some k"
  using assms find_unique [of ak_lookupId "api_keys ks" k] by (simp add: findByLookupId_def keys_ok_def)

section \<open>Which keys open the API\<close>

text \<open>
  C29. A token resolves only to a stored key that is neither revoked nor expired, whose
  project is not suspended, and whose stored hash is the hash of the secret in the token; the
  principal it gives is a member of that key's project and nothing else.
\<close>

theorem only_live_keys_resolve:
  assumes "keys_ok ks" and "\<forall>x. even (length (ke_sha env x))"
    and "fst (resolve_key env s tok ks) = Some (i, p)"
  shows "\<exists>k \<in> set (api_keys ks). ak_id k = i \<and> ak_projectId k = p \<and> live (ke_now env) k
    \<and> \<not> suspended p s \<and> API_KEY_PATTERN tok \<and> ak_lookupId k = take 16 (drop 3 tok)
    \<and> ak_secretHash k = ke_sha env (drop 20 tok)
    \<and> visibleProjectIds (KeyHolder i p) s = [p]"
proof -
  obtain parsed k where r: "parseApiKey (ke_sha env) tok = Some parsed"
    "findByLookupId (lookupId parsed) ks = Some k"
    "timingSafeEqualHex (ak_secretHash k) (secretHash parsed)" "ak_revokedAt k = None"
    "\<not> suspended (ak_projectId k) s"
    "\<not> (case ak_expiresAt k of None \<Rightarrow> False | Some t \<Rightarrow> t \<le> ke_now env)"
    "i = ak_id k" "p = ak_projectId k"
    using assms(3) by (auto simp: resolve_key_def split: option.splits if_splits)
  have k: "k \<in> set (api_keys ks)" "ak_lookupId k = lookupId parsed"
    using r(2) by (auto simp: findByLookupId_def dest: find_SomeD)
  have pr: "API_KEY_PATTERN tok" "lookupId parsed = take 16 (drop 3 tok)" "secretHash parsed = ke_sha env (drop 20 tok)"
    using r(1) by (auto simp: parseApiKey_def split: if_splits)
  have "timingSafeEqualHex (secretHash parsed) (ak_secretHash k)"
    using r(3) by (auto simp: timingSafeEqualHex_def split: if_splits)
  then have "ak_secretHash k = secretHash parsed"
    using digest_even [of "secretHash parsed"] assms(2) pr(3) by simp
  then show ?thesis
    using k pr r by (intro bexI [of _ k]) (auto simp: live_def split: option.splits)
qed


text \<open>A stand-in for the hash: even length, lower-case hexadecimal.\<close>

definition toy_sha :: "string \<Rightarrow> string" where
  "toy_sha s = to_hex (255 # map (\<lambda>c. word_of_nat (of_char c)) s)"

definition toy_env :: "millis \<Rightarrow> keys_env" where
  "toy_env now = \<lparr>ke_now = now, ke_sha = toy_sha, ke_bytes8 = replicate 8 1, ke_bytes32 = replicate 32 2,
     ke_uuid_text = show_nat, ke_writes = True\<rparr>"

definition no_keys :: key_service where
  "no_keys = \<lparr>api_keys = [], lastUsedWrites = [], next_key = 0\<rparr>"

text \<open>
  The token handed out at creation resolves to the new key and its project for as
  long as the key is neither expired, revoked nor suspended; once the key is revoked the same
  token never resolves again, at any later time and in whatever state of the accounts.
\<close>

theorem created_key_until_revoked:
  assumes "keys_ok ks" and "create_key env p nm days ks = (Inr (dto, tok), ks1)"
    and "length (ke_bytes8 env) = 8" and "length (ke_bytes32 env) = 32"
    and "\<forall>k \<in> set (api_keys ks). ak_lookupId k \<noteq> to_hex (ke_bytes8 env)"
    and "\<forall>x. even (length (ke_sha env x)) \<and> ke_sha env x \<noteq> [] \<and> list_all is_hex_lower (ke_sha env x)"
    and "ke_sha later = ke_sha env" and "\<not> suspended p s"
    and "\<forall>d. days = Some d \<longrightarrow> ke_now later < ke_now env + d * 86400000"
    and "ke_sha later' = ke_sha env"
  shows "fst (resolve_key later s tok ks1) = Some (next_key ks, p)
    \<and> fst (resolve_key later' s' tok (snd (revoke_key t p (next_key ks) ks1))) = None"
proof -
  let ?g = "generateApiKey (ke_sha env) (ke_bytes8 env) (ke_bytes32 env)"
  let ?k = "\<lparr>ak_id = next_key ks, ak_projectId = p, ak_name = nm, ak_lookupId = gen_lookupId ?g,
     ak_secretHash = gen_secretHash ?g, ak_prefix = gen_prefix ?g, ak_lastUsedAt = None,
     ak_expiresAt = map_option (\<lambda>d. ke_now env + d * 86400000) days, ak_createdAt = ke_now env,
     ak_revokedAt = None\<rparr>"
  have ks1: "tok = token ?g" "api_keys ks1 = api_keys ks @ [?k]"
    using assms(2) by (auto simp: create_key_def Let_def split: if_splits)
  have look: "gen_lookupId ?g = to_hex (ke_bytes8 env)" by (simp add: generateApiKey_def Let_def)
  have parsed: "parseApiKey (ke_sha env) tok = Some \<lparr>lookupId = gen_lookupId ?g, secretHash = gen_secretHash ?g\<rparr>"
    unfolding ks1(1) by (rule parse_generated [OF assms(3,4)])
  have absent: "find (\<lambda>k. ak_lookupId k = gen_lookupId ?g) (api_keys ks) = None"
    using assms(5) by (simp add: find_None_iff look)
  have find_app: "find q xs = None \<Longrightarrow> find q (xs @ [x]) = (if q x then Some x else None)" for q and xs :: "api_key list" and x
    by (induction xs) (auto split: if_splits)
  have found: "findByLookupId (gen_lookupId ?g) ks1 = Some ?k"
    by (simp add: findByLookupId_def ks1(2) find_app [OF absent])
  have same: "timingSafeEqualHex (gen_secretHash ?g) (gen_secretHash ?g)"
    using digest_even [of "gen_secretHash ?g" "gen_secretHash ?g"] assms(6)
    by (simp add: generateApiKey_def Let_def)
  have "fst (resolve_key later s tok ks1) = Some (next_key ks, p)"
    using parsed found same assms(7-9) by (auto simp: resolve_key_def split: option.splits)
  moreover have "fst (resolve_key later' s' tok (snd (revoke_key t p (next_key ks) ks1))) = None"
  proof -
    let ?f = "\<lambda>k :: api_key. k\<lparr>ak_revokedAt := Some t\<rparr>"
    let ?q = "\<lambda>k. ak_id k = next_key ks \<and> ak_projectId k = p \<and> ak_revokedAt k = None"
    have ids: "\<not> ?q k" if "k \<in> set (api_keys ks)" for k
      using assms(1) that by (auto simp: keys_ok_def)
    have rows: "api_keys (snd (revoke_key t p (next_key ks) ks1)) = api_keys ks @ [?f ?k]"
      by (simp add: revoke_key_def revoke_row_def ks1(2) update_where_id [OF ids])
    then have "findByLookupId (gen_lookupId ?g) (snd (revoke_key t p (next_key ks) ks1)) = Some (?f ?k)"
      by (simp add: findByLookupId_def find_app [OF absent])
    then show ?thesis using parsed same assms(10) by (simp add: resolve_key_def)
  qed
  ultimately show ?thesis by blast
qed


lemma toy_sha_ok: "even (length (toy_sha x)) \<and> toy_sha x \<noteq> [] \<and> list_all is_hex_lower (toy_sha x)"
proof -
  have "length (toy_sha x) = 2 * Suc (length x)" by (simp add: toy_sha_def length_to_hex)
  then show ?thesis using to_hex_digits by (auto simp: toy_sha_def simp flip: length_0_conv)
qed

lemma no_keys_ok: "keys_ok no_keys"
  by (simp add: keys_ok_def no_keys_def)

theorem created_key_until_revoked_witness:
  "\<exists>dto tok ks1. create_key (toy_env 0) 7 ''ci'' (Some 1) no_keys = (Inr (dto, tok), ks1)
     \<and> fst (resolve_key (toy_env 9) empty_db tok ks1) = Some (0, 7)
     \<and> fst (resolve_key (toy_env 9) empty_db tok (snd (revoke_key 5 7 0 ks1))) = None"
proof -
  obtain dto tok ks1 where c: "create_key (toy_env 0) 7 ''ci'' (Some 1) no_keys = (Inr (dto, tok), ks1)"
    by (simp add: create_key_def countLive_def no_keys_def MAX_LIVE_KEYS_PER_PROJECT_def Let_def)
  have "fst (resolve_key (toy_env 9) empty_db tok ks1) = Some (next_key no_keys, 7)
     \<and> fst (resolve_key (toy_env 9) empty_db tok (snd (revoke_key 5 7 (next_key no_keys) ks1))) = None"
    by (rule created_key_until_revoked [OF no_keys_ok c])
      (use toy_sha_ok in \<open>simp_all add: toy_env_def no_keys_def suspended_def empty_db_def\<close>)
  then show ?thesis using c by (auto simp: no_keys_def)
qed

theorem only_live_keys_resolve_witness:
  "\<exists>tok ks1. fst (resolve_key (toy_env 9) empty_db tok ks1) = Some (0, 7)
     \<and> (\<exists>k \<in> set (api_keys ks1). live 9 k \<and> ak_secretHash k = toy_sha (drop 20 tok))"
proof -
  let ?g = "generateApiKey toy_sha (replicate 8 1) (replicate 32 2)"
  define k where "k = \<lparr>ak_id = 0, ak_projectId = 7, ak_name = ''ci'', ak_lookupId = gen_lookupId ?g,
     ak_secretHash = gen_secretHash ?g, ak_prefix = gen_prefix ?g, ak_lastUsedAt = None,
     ak_expiresAt = None, ak_createdAt = 0, ak_revokedAt = None\<rparr>"
  let ?ks = "\<lparr>api_keys = [k], lastUsedWrites = [], next_key = 1\<rparr>"
  have ok: "keys_ok ?ks" by (simp add: keys_ok_def k_def)
  have p: "parseApiKey toy_sha (token ?g) = Some \<lparr>lookupId = gen_lookupId ?g, secretHash = gen_secretHash ?g\<rparr>"
    by (rule parse_generated) simp_all
  have "timingSafeEqualHex (gen_secretHash ?g) (gen_secretHash ?g)"
    using digest_even [of "gen_secretHash ?g" "gen_secretHash ?g"] toy_sha_ok
    by (simp add: generateApiKey_def Let_def)
  then have r: "fst (resolve_key (toy_env 9) empty_db (token ?g) ?ks) = Some (0, 7)"
    using p by (simp add: resolve_key_def toy_env_def findByLookupId_def k_def suspended_def empty_db_def)
  have "\<forall>x. even (length (ke_sha (toy_env 9) x))" using toy_sha_ok by (simp add: toy_env_def)
  from only_live_keys_resolve [OF ok this r] show ?thesis
    using r by (intro exI [of _ "token ?g"] exI [of _ ?ks]) (auto simp: toy_env_def)
qed

end
