(* ===== verification/AuditTrail.thy ===== *)
theory AuditTrail
  imports Access
begin

text \<open>
  The audit trail: \<^verbatim>\<open>packages/server/src/audit/audit.service.ts\<close>, \<^verbatim>\<open>audit-actor.ts\<close> and the
  two routes of \<^verbatim>\<open>audit.controller.ts\<close>. Events carry numbers from a sequence; the detail is
  its JSON text. A write that fails is swallowed, so whether it succeeds is an argument.
\<close>

record audit_actor =
  a_userId :: "uuid option"
  a_email :: "string option"
  a_apiKeyId :: "uuid option"
  a_ip :: "string option"
  a_userAgent :: "string option"

record audit_record =
  r_action :: string
  r_actor :: audit_actor
  r_projectId :: "uuid option"
  r_targetType :: "string option"
  r_targetId :: "string option"
  r_targetLabel :: "string option"
  r_detail :: "string option"

record audit_event =
  ev_id :: nat
  ev_occurredAt :: millis
  ev_action :: string
  ev_actorUserId :: "uuid option"
  ev_actorEmail :: "string option"
  ev_actorApiKeyId :: "uuid option"
  ev_projectId :: "uuid option"
  ev_targetType :: "string option"
  ev_targetId :: "string option"
  ev_targetLabel :: "string option"
  ev_ip :: "string option"
  ev_userAgent :: "string option"
  ev_detail :: "string option"

record audit_service =
  au_events :: "audit_event list"
  au_emails :: "(uuid, string) js_map"
  au_next :: nat

section \<open>Recording\<close>

definition auditActor :: "string option \<Rightarrow> string option \<Rightarrow> principal \<Rightarrow> audit_actor" where
  "auditActor ip agent pr =
     (case pr of
        KeyHolder k _ \<Rightarrow> \<lparr>a_userId = None, a_email = None, a_apiKeyId = Some k, a_ip = ip, a_userAgent = agent\<rparr>
      | UserSession u _ _ \<Rightarrow>
          \<lparr>a_userId = Some u, a_email = None, a_apiKeyId = None, a_ip = ip, a_userAgent = agent\<rparr>)"

definition resolveEmail :: "db \<Rightarrow> uuid option \<Rightarrow> audit_service \<Rightarrow> string option \<times> audit_service" where
  "resolveEmail s u au =
     (case u of
        None \<Rightarrow> (None, au)
      | Some i \<Rightarrow>
          (case map_of (au_emails au) i of
             Some e \<Rightarrow> (Some e, au)
           | None \<Rightarrow>
               (case find (\<lambda>x. u_id x = i) (users s) of
                  None \<Rightarrow> (None, au)
                | Some x \<Rightarrow>
                    (Some (email x),
                     au\<lparr>au_emails := js_set i (email x)
                          (if 5000 < length (au_emails au) then [] else au_emails au)\<rparr>))))"

definition write_event :: "millis \<Rightarrow> bool \<Rightarrow> db \<Rightarrow> audit_record \<Rightarrow> audit_service \<Rightarrow> audit_service" where
  "write_event now ok s r au =
     (let (actorEmail, au1) = (case a_email (r_actor r) of
             Some e \<Rightarrow> (Some e, au) | None \<Rightarrow> resolveEmail s (a_userId (r_actor r)) au)
      in if \<not> ok then au1
         else au1\<lparr>au_events := au_events au1 @
               [\<lparr>ev_id = au_next au1, ev_occurredAt = now, ev_action = r_action r,
                 ev_actorUserId = a_userId (r_actor r), ev_actorEmail = actorEmail,
                 ev_actorApiKeyId = a_apiKeyId (r_actor r), ev_projectId = r_projectId r,
                 ev_targetType = r_targetType r, ev_targetId = r_targetId r,
                 ev_targetLabel = r_targetLabel r, ev_ip = a_ip (r_actor r),
                 ev_userAgent = map_option (take 300) (a_userAgent (r_actor r)),
                 ev_detail = r_detail r\<rparr>],
               au_next := Suc (au_next au1)\<rparr>)"

section \<open>Reading\<close>

record audit_event_dto =
  ed_id :: string
  ed_occurredAt :: string
  ed_action :: string
  ed_actorEmail :: "string option"
  ed_actorIsApiKey :: bool
  ed_targetType :: "string option"
  ed_targetId :: "string option"
  ed_targetLabel :: "string option"
  ed_ip :: "string option"
  ed_detail :: "string option"

definition toAuditDto :: "audit_event \<Rightarrow> audit_event_dto" where
  "toAuditDto e =
     \<lparr>ed_id = show_nat (ev_id e), ed_occurredAt = toISOString (ev_occurredAt e), ed_action = ev_action e,
      ed_actorEmail = ev_actorEmail e, ed_actorIsApiKey = (ev_actorApiKeyId e \<noteq> None),
      ed_targetType = ev_targetType e, ed_targetId = ev_targetId e, ed_targetLabel = ev_targetLabel e,
      ed_ip = ev_ip e, ed_detail = ev_detail e\<rparr>"

text \<open>\<open>id < cursor\<close>, newest first.\<close>

definition audit_rows :: "(audit_event \<Rightarrow> bool) \<Rightarrow> audit_service \<Rightarrow> audit_event list" where
  "audit_rows w au = rev (sort_key ev_id (filter w (au_events au)))"

definition audit_fetch :: "(audit_event \<Rightarrow> bool) \<Rightarrow> audit_service \<Rightarrow> nat \<Rightarrow> nat option \<Rightarrow> audit_event list" where
  "audit_fetch w au n cursor =
     take n (audit_rows (\<lambda>e. w e \<and> (case cursor of None \<Rightarrow> True | Some i \<Rightarrow> ev_id e < i)) au)"

definition listForProject :: "uuid \<Rightarrow> nat \<Rightarrow> nat option \<Rightarrow> audit_service \<Rightarrow> (nat, audit_event_dto) page" where
  "listForProject p lim cursor au =
     paginate ev_id (audit_fetch (\<lambda>e. ev_projectId e = Some p) au (Suc lim) cursor) lim toAuditDto"

definition listForUser :: "uuid \<Rightarrow> nat \<Rightarrow> nat option \<Rightarrow> audit_service \<Rightarrow> (nat, audit_event_dto) page" where
  "listForUser u lim cursor au =
     paginate ev_id (audit_fetch (\<lambda>e. ev_actorUserId e = Some u \<and> ev_projectId e = None) au (Suc lim) cursor)
       lim toAuditDto"

definition countRecent :: "string \<Rightarrow> uuid \<Rightarrow> millis \<Rightarrow> audit_service \<Rightarrow> nat" where
  "countRecent action u since au =
     length (filter (\<lambda>e. ev_action e = action \<and> ev_actorUserId e = Some u \<and> since \<le> ev_occurredAt e)
       (au_events au))"

definition purge_events :: "millis \<Rightarrow> nat \<Rightarrow> audit_service \<Rightarrow> nat \<times> audit_service" where
  "purge_events now days au =
     (let old = (\<lambda>e. ev_occurredAt e < now - int days * 86400000)
      in (length (filter old (au_events au)),
          au\<lparr>au_events := filter (\<lambda>e. \<not> old e) (au_events au)\<rparr>))"

section \<open>The routes\<close>

definition DEFAULT_LIMIT :: nat where "DEFAULT_LIMIT = 50"
definition MAX_LIMIT :: nat where "MAX_LIMIT = 200"

text \<open>\<open>Number(raw)\<close> of the text is an argument where it is an integer.\<close>

definition parseLimit :: "int option \<Rightarrow> nat" where
  "parseLimit parsed =
     (case parsed of None \<Rightarrow> DEFAULT_LIMIT
      | Some n \<Rightarrow> if n < 1 then DEFAULT_LIMIT else min (nat n) MAX_LIMIT)"

definition parseCursor :: "string option \<Rightarrow> string option" where
  "parseCursor raw = (case raw of None \<Rightarrow> None | Some s \<Rightarrow> if digits 1 19 s then Some s else None)"

text \<open>The column is a 64-bit integer: a larger cursor makes the query fail.\<close>

definition bigint_max :: nat where "bigint_max = 9223372036854775807"

definition audit_route_project ::
  "principal \<Rightarrow> uuid \<Rightarrow> int option \<Rightarrow> string option \<Rightarrow> db \<Rightarrow> audit_service \<Rightarrow> http_error + (nat, audit_event_dto) page" where
  "audit_route_project pr p lim cursor s au =
     (case assertUser pr of
        Inl e \<Rightarrow> Inl e
      | Inr _ \<Rightarrow>
          (case assertAccess pr p Admin s of
             Inl e \<Rightarrow> Inl e
           | Inr _ \<Rightarrow>
               let c = map_option number_of (parseCursor cursor)
               in if (case c of None \<Rightarrow> False | Some n \<Rightarrow> bigint_max < n) then Inl ServerError
                  else Inr (listForProject p (parseLimit lim) c au)))"

definition audit_route_account ::
  "principal \<Rightarrow> int option \<Rightarrow> string option \<Rightarrow> audit_service \<Rightarrow> http_error + (nat, audit_event_dto) page" where
  "audit_route_account pr lim cursor au =
     (case assertUser pr of
        Inl e \<Rightarrow> Inl e
      | Inr (u, _) \<Rightarrow>
          let c = map_option number_of (parseCursor cursor)
          in if (case c of None \<Rightarrow> False | Some n \<Rightarrow> bigint_max < n) then Inl ServerError
             else Inr (listForUser u (parseLimit lim) c au))"

section \<open>The trail can be read to its end\<close>

definition trail_ok :: "audit_service \<Rightarrow> bool" where
  "trail_ok au \<longleftrightarrow> distinct (map ev_id (au_events au)) \<and> (\<forall>e \<in> set (au_events au). ev_id e < au_next au)
     \<and> length (au_emails au) \<le> 5001"

lemma resolveEmail_ok:
  assumes "trail_ok au"
  shows "trail_ok (snd (resolveEmail s u au))"
    and "au_events (snd (resolveEmail s u au)) = au_events au"
    and "au_next (snd (resolveEmail s u au)) = au_next au"
  using assms length_js_set_le [of "the u" _ "au_emails au"]
  by (auto simp: resolveEmail_def trail_ok_def js_set_def split: option.splits)

lemma write_event_ok:
  assumes "trail_ok au"
  shows "trail_ok (write_event now ok s r au)"
proof -
  obtain e au1 where m: "(case a_email (r_actor r) of Some e \<Rightarrow> (Some e, au)
      | None \<Rightarrow> resolveEmail s (a_userId (r_actor r)) au) = (e, au1)" by fastforce
  then have "trail_ok au1"
    using assms resolveEmail_ok(1) [OF assms, of s "a_userId (r_actor r)"] by (auto split: option.splits)
  then show ?thesis by (fastforce simp: write_event_def m Let_def trail_ok_def)
qed

lemma purge_events_ok: "trail_ok au \<Longrightarrow> trail_ok (snd (purge_events now days au))"
  by (auto simp: trail_ok_def purge_events_def Let_def distinct_map_filter)

text \<open>Descending distinct numbers: those below a row's number are the rows after it.\<close>

lemma below_row:
  assumes "sorted_wrt (\<lambda>x y. k y < k x) (xs @ r # ys)"
  shows "filter (\<lambda>e. k e < (k r :: nat)) (xs @ r # ys) = ys"
  using assms by (force simp: sorted_wrt_append filter_empty_conv intro: filter_True)

lemma rows_descending:
  assumes "distinct (map ev_id (au_events au))"
  shows "sorted_wrt (\<lambda>x y. ev_id y < ev_id x) (audit_rows w au)"
proof -
  have "distinct (map ev_id (sort_key ev_id (filter w (au_events au))))"
    using assms by (simp add: distinct_map inj_on_def)
  then have "sorted_wrt (<) (map ev_id (sort_key ev_id (filter w (au_events au))))"
    by (simp add: strict_sorted_iff)
  then show ?thesis by (simp add: audit_rows_def sorted_wrt_rev sorted_wrt_map)
qed

lemma audit_rows_filter: "audit_rows (\<lambda>e. w e \<and> q e) au = filter q (audit_rows w au)"
  by (simp only: audit_rows_def rev_filter [symmetric] filter_sort filter_filter)

interpretation audit_pages: keyset ev_id trail_ok "audit_rows w" "audit_fetch w" for w
proof
  show "audit_fetch w au n None = take n (audit_rows w au)" for au n
    by (simp add: audit_fetch_def)
  show "audit_fetch w au n (Some (ev_id r)) = take n ys"
    if "trail_ok au" "audit_rows w au = xs @ r # ys" for au n xs r ys
    using below_row [of ev_id xs r ys] rows_descending [of au w] that
    by (simp add: audit_fetch_def audit_rows_filter trail_ok_def)
qed

text \<open>
  An administrator of a project who follows the cursors of its trail reads every
  event of the project exactly once, newest first, and is told the end; a user's own trail is
  the same for the events of no project that the user caused. Recording and purging keep
  what this rests on: distinct numbers, below the next one, and a bounded address cache.
\<close>

theorem trail_read_to_its_end:
  assumes "trail_ok au" and "0 < n"
  shows "walk (\<lambda>c. listForProject p n c au) (Suc (length (au_events au))) None
      = (map toAuditDto (audit_rows (\<lambda>e. ev_projectId e = Some p) au), True)
    \<and> walk (\<lambda>c. listForUser u n c au) (Suc (length (au_events au))) None
      = (map toAuditDto (audit_rows (\<lambda>e. ev_actorUserId e = Some u \<and> ev_projectId e = None) au), True)
    \<and> trail_ok (write_event now ok s r au) \<and> trail_ok (snd (purge_events now days au))"
proof -
  have len: "length (audit_rows w au) < Suc (length (au_events au))" for w
    by (simp add: audit_rows_def less_Suc_eq_le)
  show ?thesis
    unfolding listForProject_def listForUser_def
    using audit_pages.walk_all [OF assms(1,2) len] write_event_ok [OF assms(1)] purge_events_ok [OF assms(1)]
    by blast
qed

definition sample_record :: "uuid option \<Rightarrow> audit_record" where
  "sample_record p = \<lparr>r_action = ''check.created'', r_actor = auditActor None None (UserSession 9 1 0),
     r_projectId = p, r_targetType = None, r_targetId = None, r_targetLabel = None, r_detail = None\<rparr>"

definition sample_trail :: audit_service where
  "sample_trail = fold (\<lambda>p. write_event 5 True sample_account (sample_record p)) [Some 2, None, Some 2, Some 4]
     \<lparr>au_events = [], au_emails = [], au_next = 0\<rparr>"

theorem trail_read_to_its_end_witness:
  "map ed_actorEmail (fst (walk (\<lambda>c. listForProject 2 1 c sample_trail) 5 None))
     = [Some ''a@example.org'', Some ''a@example.org'']
   \<and> snd (walk (\<lambda>c. listForUser 9 1 c sample_trail) 5 None)"
proof -
  have ok: "trail_ok sample_trail"
    by (simp add: sample_trail_def) (intro write_event_ok, simp add: trail_ok_def)
  have ev: "map ev_id (au_events sample_trail) = [0, 1, 2, 3]"
    "map ev_projectId (au_events sample_trail) = [Some 2, None, Some 2, Some 4]"
    "map ev_actorEmail (au_events sample_trail) = replicate 4 (Some ''a@example.org'')"
    by (simp_all add: sample_trail_def write_event_def sample_record_def auditActor_def resolveEmail_def
        sample_account_def js_set_def Let_def numeral_eq_Suc)
  then have "length (au_events sample_trail) = 4" by (metis length_map length_replicate)
  then obtain a b c d where l: "au_events sample_trail = [a, b, c, d]"
    by (auto simp: numeral_eq_Suc length_Suc_conv)
  have "map ev_actorEmail (audit_rows (\<lambda>e. ev_projectId e = Some 2) sample_trail)
      = [Some ''a@example.org'', Some ''a@example.org'']"
    using ev unfolding l by (auto simp: audit_rows_def l numeral_eq_Suc)
  moreover have "map ed_actorEmail (map toAuditDto es) = map ev_actorEmail es" for es
    by (simp add: toAuditDto_def)
  moreover have n: "Suc (length (au_events sample_trail)) = 5" by (simp add: l)
  ultimately show ?thesis
    using trail_read_to_its_end [OF ok, of 1 2 9, unfolded n] by (simp del: map_map)
qed

text \<open>
  A cursor of nineteen digits passes the filter, but the largest of them are no 64-bit
  numbers: the query fails and the route answers 500 where a first page was meant.
\<close>

lemma large_cursor_fails:
  assumes "findRole p u s = Some Owner"
  shows "audit_route_project (UserSession u x t) p lim (Some ''9999999999999999999'') s au = Inl ServerError"
proof -
  have "parseCursor (Some ''9999999999999999999'') = Some ''9999999999999999999''"
    "bigint_max < number_of ''9999999999999999999''"
    by (simp_all add: parseCursor_def digits_def is_digit_def bigint_max_def number_of_def)
  then show ?thesis using assms by (simp add: audit_route_project_def)
qed

end
