(* ===== verification/Projects.thy ===== *)
theory Projects
  imports Access
begin

text \<open>
  Projects: \<^verbatim>\<open>packages/server/src/projects/projects.service.ts\<close>, \<^verbatim>\<open>projects.repository.ts\<close> and
  \<^verbatim>\<open>project.mapper.ts\<close>. Deleting a project takes with it, by the foreign keys of the
  schema, its memberships, channels and checks, and with these their pings, incidents and
  deliveries.
\<close>

section \<open>What is answered\<close>

record create_project_request =
  cp_name :: string
  cp_slug :: "string option"

record update_project_request =
  pu_name :: "string option"
  pu_retention :: "nat option option"

record project_dto =
  pd_id :: string
  pd_name :: string
  pd_slug :: string
  pd_role :: project_role
  pd_retention :: "nat option"
  pd_createdAt :: string
  pd_checkCount :: "nat option"
  pd_downCount :: "nat option"

definition toProjectDto ::
  "(uuid \<Rightarrow> string) \<Rightarrow> project \<Rightarrow> project_role \<Rightarrow> nat option \<Rightarrow> nat option \<Rightarrow> project_dto" where
  "toProjectDto txt p r checkCount downCount =
     \<lparr>pd_id = txt (pr_id p), pd_name = pr_name p, pd_slug = pr_slug p, pd_role = r,
      pd_retention = pingRetentionDays p, pd_createdAt = toISOString (pr_createdAt p),
      pd_checkCount = checkCount, pd_downCount = downCount\<rparr>"

section \<open>Queries\<close>

definition project_by_id :: "uuid \<Rightarrow> db \<Rightarrow> project option" where
  "project_by_id p s = find (\<lambda>x. pr_id x = p) (projects s)"

definition checks_of :: "uuid \<Rightarrow> db \<Rightarrow> check list" where
  "checks_of p s = filter (\<lambda>c. projectId c = p) (checks s)"

definition findWithCheckCount :: "uuid \<Rightarrow> db \<Rightarrow> (project \<times> nat) option" where
  "findWithCheckCount p s = map_option (\<lambda>x. (x, length (checks_of p s))) (project_by_id p s)"

text \<open>A membership refers to an existing project, by its foreign key.\<close>

definition listMemberships :: "uuid \<Rightarrow> db \<Rightarrow> (project_role \<times> project \<times> nat) list" where
  "listMemberships u s =
     List.map_filter (\<lambda>m. map_option (\<lambda>(x, n). (role m, x, n)) (findWithCheckCount (m_project m) s))
       (sort_key m_createdAt (filter (\<lambda>m. m_user m = u) (members s)))"

definition countMemberships :: "uuid \<Rightarrow> db \<Rightarrow> nat" where
  "countMemberships u s = length (filter (\<lambda>m. m_user m = u) (members s))"

text \<open>\<open>GROUP BY\<close>: projects without a check that is down are absent.\<close>

definition countDownChecks :: "uuid list \<Rightarrow> db \<Rightarrow> uuid \<Rightarrow> nat option" where
  "countDownChecks ps s p =
     (let n = length (filter (\<lambda>c. state c = DOWN) (checks_of p s))
      in if p \<in> set ps \<and> 0 < n then Some n else None)"

definition isProjectSlugTaken :: "db \<Rightarrow> string \<Rightarrow> bool" where
  "isProjectSlugTaken s candidate \<longleftrightarrow> candidate \<in> pr_slug ` set (projects s)"

text \<open>The unique index on the slug and the foreign key of the membership may refuse the rows.\<close>

definition createOwnedBy :: "millis \<Rightarrow> uuid \<Rightarrow> string \<Rightarrow> string \<Rightarrow> db \<Rightarrow> http_error + project \<times> db" where
  "createOwnedBy now u nm sl s =
     (if isProjectSlugTaken s sl \<or> u \<notin> u_id ` set (users s) then Inl ServerError
      else let x = \<lparr>pr_id = next_id s, pr_name = nm, pr_slug = sl, pingRetentionDays = None, pr_createdAt = now\<rparr>
           in Inr (x, s\<lparr>projects := projects s @ [x],
                members := members s @ [\<lparr>m_project = next_id s, m_user = u, role = Owner, m_createdAt = now\<rparr>],
                next_id := Suc (next_id s)\<rparr>))"

definition patch_project :: "update_project_request \<Rightarrow> project \<Rightarrow> project" where
  "patch_project r x =
     x\<lparr>pr_name := set_field (pu_name r) (pr_name x),
       pingRetentionDays := set_field (pu_retention r) (pingRetentionDays x)\<rparr>"

text \<open>Updating or deleting a row that is not there is an unexpected error of the client library.\<close>

definition update_row :: "uuid \<Rightarrow> update_project_request \<Rightarrow> db \<Rightarrow> http_error + (project \<times> nat) \<times> db" where
  "update_row p r s =
     (let s' = s\<lparr>projects := update_where (\<lambda>x. pr_id x = p) (patch_project r) (projects s)\<rparr>
      in case findWithCheckCount p s' of None \<Rightarrow> Inl ServerError | Some x \<Rightarrow> Inr (x, s'))"

definition delete_project :: "uuid \<Rightarrow> db \<Rightarrow> http_error + db" where
  "delete_project p s =
     (if project_by_id p s = None then Inl ServerError
      else let gone = c_id ` set (checks_of p s);
               lost = i_id ` set (filter (\<lambda>i. i_check i \<in> gone) (incidents s));
               silent = ch_id ` set (filter (\<lambda>ch. ch_project ch = p) (channels s))
           in Inr (s\<lparr>projects := filter (\<lambda>x. pr_id x \<noteq> p) (projects s),
                members := filter (\<lambda>m. m_project m \<noteq> p) (members s),
                channels := filter (\<lambda>ch. ch_project ch \<noteq> p) (channels s),
                checks := filter (\<lambda>c. projectId c \<noteq> p) (checks s),
                pings := filter (\<lambda>g. p_check g \<notin> gone) (pings s),
                incidents := filter (\<lambda>i. i_check i \<notin> gone) (incidents s),
                deliveries := filter (\<lambda>d. d_incident d \<notin> lost \<and> d_channel d \<notin> silent) (deliveries s)\<rparr>))"

section \<open>The service\<close>

fun listForPrincipal :: "(uuid \<Rightarrow> string) \<Rightarrow> principal \<Rightarrow> db \<Rightarrow> project_dto list" where
  "listForPrincipal txt (KeyHolder _ p) s =
     (case findWithCheckCount p s of
        None \<Rightarrow> [] | Some (x, n) \<Rightarrow> [toProjectDto txt x Member (Some n) None])"
| "listForPrincipal txt (UserSession u _ _) s =
     (let ms = listMemberships u s; down = countDownChecks (map (\<lambda>(_, x, _). pr_id x) ms) s
      in map (\<lambda>(r, x, n). toProjectDto txt x r (Some n)
             (Some (case down (pr_id x) of None \<Rightarrow> 0 | Some k \<Rightarrow> k))) ms)"

definition create_project :: "checks_env \<Rightarrow> uuid \<Rightarrow> create_project_request \<Rightarrow> db \<Rightarrow> (http_error + project_dto) \<times> db" where
  "create_project env u r s =
     (case assertCanAddProject (ce_quotas env) u s of
        Inl e \<Rightarrow> (Inl e, s)
      | Inr _ \<Rightarrow>
          let base = (case cp_slug r of None \<Rightarrow> cp_name r | Some x \<Rightarrow> x);
              sl = uniqueSlug (ce_nfkd env) (ce_bytes4 env) (ce_bytes3 env) (units_of base)
                     (isProjectSlugTaken s) 5
          in (case createOwnedBy (ce_now env) u (cp_name r) sl s of
                Inl e \<Rightarrow> (Inl e, s)
              | Inr (x, s') \<Rightarrow> (Inr (toProjectDto (ce_uuid_text env) x Owner (Some 0) (Some 0)), s')))"

definition get_project :: "(uuid \<Rightarrow> string) \<Rightarrow> uuid \<Rightarrow> db \<Rightarrow> http_error + project_dto" where
  "get_project txt p s =
     (case findWithCheckCount p s of
        None \<Rightarrow> Inl NotFound
      | Some (x, n) \<Rightarrow>
          Inr (toProjectDto txt x Member (Some n)
            (Some (case countDownChecks [p] s p of None \<Rightarrow> 0 | Some k \<Rightarrow> k))))"

definition update_project :: "(uuid \<Rightarrow> string) \<Rightarrow> uuid \<Rightarrow> update_project_request \<Rightarrow> db \<Rightarrow> (http_error + project_dto) \<times> db" where
  "update_project txt p r s =
     (case update_row p r s of
        Inl e \<Rightarrow> (Inl e, s)
      | Inr ((x, n), s') \<Rightarrow> (Inr (toProjectDto txt x Member (Some n) None), s'))"

definition remove_project :: "uuid \<Rightarrow> uuid \<Rightarrow> db \<Rightarrow> (http_error + unit) \<times> db" where
  "remove_project u p s =
     (if countMemberships u s \<le> 1 then (Inl Conflict, s)
      else case delete_project p s of Inl e \<Rightarrow> (Inl e, s) | Inr s' \<Rightarrow> (Inr (), s'))"

section \<open>Every row belongs to a project that exists\<close>

definition projects_ok :: "db \<Rightarrow> bool" where
  "projects_ok s \<longleftrightarrow> distinct (map pr_id (projects s)) \<and> distinct (map pr_slug (projects s))
     \<and> (\<forall>x \<in> set (projects s). pr_id x < next_id s)
     \<and> distinct (map (\<lambda>m. (m_project m, m_user m)) (members s))"

definition refs_ok :: "db \<Rightarrow> bool" where
  "refs_ok s \<longleftrightarrow>
     (\<forall>m \<in> set (members s). m_project m \<in> pr_id ` set (projects s))
     \<and> (\<forall>ch \<in> set (channels s). ch_project ch \<in> pr_id ` set (projects s))
     \<and> (\<forall>c \<in> set (checks s). projectId c \<in> pr_id ` set (projects s))
     \<and> (\<forall>g \<in> set (pings s). p_check g \<in> c_id ` set (checks s))
     \<and> (\<forall>i \<in> set (incidents s). i_check i \<in> c_id ` set (checks s))
     \<and> (\<forall>d \<in> set (deliveries s). d_incident d \<in> i_id ` set (incidents s) \<and> d_channel d \<in> ch_id ` set (channels s))"

definition tenants_ok :: "db \<Rightarrow> bool" where
  "tenants_ok s \<longleftrightarrow> store_inv s \<and> projects_ok s \<and> refs_ok s"

lemmas tenants_defs = tenants_ok_def projects_ok_def refs_ok_def

text \<open>The foreign keys stay intact when a parent goes with its children.\<close>

lemma cascade:
  assumes "\<forall>x \<in> set xs. f x \<in> g ` set ys"
    and "\<And>x y. x \<in> set xs \<Longrightarrow> y \<in> set ys \<Longrightarrow> f x = g y \<Longrightarrow> K x \<Longrightarrow> Q y"
  shows "\<forall>x \<in> set (filter K xs). f x \<in> g ` set (filter Q ys)"
  using assms by fastforce

lemma distinct_map_filter_conj:
  assumes "distinct (map f (filter P xs))"
  shows "distinct (map f (filter (\<lambda>x. Q x \<and> P x) xs))"
  using distinct_map_filter [OF assms, of Q] by (simp add: conj_commute)

lemma deleted_rows:
  assumes "delete_project p s = Inr s'"
  shows "projects s' = filter (\<lambda>x. pr_id x \<noteq> p) (projects s)"
    and "members s' = filter (\<lambda>m. m_project m \<noteq> p) (members s)"
    and "channels s' = filter (\<lambda>ch. ch_project ch \<noteq> p) (channels s)"
    and "checks s' = filter (\<lambda>c. projectId c \<noteq> p) (checks s)"
    and "pings s' = filter (\<lambda>g. p_check g \<notin> c_id ` set (checks_of p s)) (pings s)"
    and "incidents s' = filter (\<lambda>i. i_check i \<notin> c_id ` set (checks_of p s)) (incidents s)"
    and "deliveries s' = filter (\<lambda>d.
        d_incident d \<notin> i_id ` set (filter (\<lambda>i. i_check i \<in> c_id ` set (checks_of p s)) (incidents s))
        \<and> d_channel d \<notin> ch_id ` set (filter (\<lambda>ch. ch_project ch = p) (channels s))) (deliveries s)"
    and "users s' = users s" and "next_id s' = next_id s" and "project_by_id p s \<noteq> None"
  using assms by (auto simp: delete_project_def Let_def simp del: set_filter split: if_splits)

lemma delete_project_refs:
  assumes refs: "refs_ok s" and del: "delete_project p s = Inr s'"
  shows "refs_ok s'"
proof -
  have "\<forall>m \<in> set (members s'). m_project m \<in> pr_id ` set (projects s')"
    "\<forall>ch \<in> set (channels s'). ch_project ch \<in> pr_id ` set (projects s')"
    "\<forall>c \<in> set (checks s'). projectId c \<in> pr_id ` set (projects s')"
    using refs unfolding refs_ok_def deleted_rows [OF del] by - (rule cascade; force)+
  moreover have "\<forall>g \<in> set (pings s'). p_check g \<in> c_id ` set (checks s')"
    "\<forall>i \<in> set (incidents s'). i_check i \<in> c_id ` set (checks s')"
    using refs unfolding refs_ok_def deleted_rows [OF del] checks_of_def by - (rule cascade; force)+
  moreover have "\<forall>x \<in> set (deliveries s'). d_incident x \<in> i_id ` set (incidents s')"
    "\<forall>x \<in> set (deliveries s'). d_channel x \<in> ch_id ` set (channels s')"
    using refs unfolding refs_ok_def deleted_rows [OF del] by - (rule cascade; force)+
  ultimately show ?thesis by (simp add: refs_ok_def)
qed

lemma delete_project_store:
  assumes "store_inv s" "delete_project p s = Inr s'"
  shows "store_inv s'"
  using assms(1) unfolding store_inv_defs deleted_rows [OF assms(2)]
  by (auto simp: distinct_map_filter intro: distinct_map_filter_conj)

lemma delete_project_projects:
  "projects_ok s \<Longrightarrow> delete_project p s = Inr s' \<Longrightarrow> projects_ok s'"
  by (simp add: projects_ok_def deleted_rows distinct_map_filter)

lemma delete_project_ok: "tenants_ok s \<Longrightarrow> delete_project p s = Inr s' \<Longrightarrow> tenants_ok s'"
  using delete_project_refs delete_project_store delete_project_projects by (simp add: tenants_ok_def) blast

lemma createOwnedBy_ok:
  assumes ok: "tenants_ok s" and new: "createOwnedBy now u nm sl s = Inr (x, s')"
  shows "tenants_ok s'"
proof -
  have x: "x = \<lparr>pr_id = next_id s, pr_name = nm, pr_slug = sl, pingRetentionDays = None, pr_createdAt = now\<rparr>"
    and s': "s' = s\<lparr>projects := projects s @ [x],
      members := members s @ [\<lparr>m_project = next_id s, m_user = u, role = Owner, m_createdAt = now\<rparr>],
      next_id := Suc (next_id s)\<rparr>" and free: "\<not> isProjectSlugTaken s sl"
    using new by (auto simp: createOwnedBy_def Let_def split: if_splits)
  have new_id: "next_id s \<notin> pr_id ` set (projects s)"
    using ok by (auto simp: tenants_defs)
  moreover have "\<forall>m \<in> set (members s). m_project m \<in> pr_id ` set (projects s)"
    using ok by (simp add: tenants_defs)
  ultimately have "\<forall>m \<in> set (members s). m_project m \<noteq> next_id s" by metis
  then have "projects_ok s'"
    using ok free new_id by (auto simp: tenants_ok_def projects_ok_def s' x isProjectSlugTaken_def less_Suc_eq)
  moreover have "store_inv s'"
    using ok by (auto simp: tenants_ok_def store_inv_defs s' less_Suc_eq)
  moreover have "refs_ok s'"
    using ok by (auto simp: tenants_ok_def refs_ok_def s' x)
  ultimately show ?thesis by (simp add: tenants_ok_def)
qed

lemma update_row_ok:
  assumes ok: "tenants_ok s" and upd: "update_row p r s = Inr (x, s')"
  shows "tenants_ok s'"
proof -
  have s': "s' = s\<lparr>projects := update_where (\<lambda>x. pr_id x = p) (patch_project r) (projects s)\<rparr>"
    using upd by (auto simp: update_row_def Let_def split: option.splits)
  have "map pr_id (projects s') = map pr_id (projects s)" "map pr_slug (projects s') = map pr_slug (projects s)"
    by (simp_all add: s' map_update_where patch_project_def)
  moreover from this have "pr_id ` set (projects s') = pr_id ` set (projects s)" by (metis set_map)
  moreover have "next_id s' = next_id s" "members s' = members s" "channels s' = channels s" "checks s' = checks s"
    "pings s' = pings s" "incidents s' = incidents s" "deliveries s' = deliveries s"
    by (simp_all add: s')
  moreover have "(\<forall>x \<in> set (projects s'). pr_id x < n) \<longleftrightarrow> (\<forall>y \<in> pr_id ` set (projects s'). y < n)" for n
    by simp
  ultimately show ?thesis using ok by (simp add: tenants_defs store_inv_defs)
qed

text \<open>A user with two memberships has one left when a project goes.\<close>

lemma membership_left:
  assumes "projects_ok s" "1 < countMemberships u s" "delete_project p s = Inr s'"
  shows "countMemberships u s = countMemberships u s' + (if p \<in> set (listProjectIds u s) then 1 else 0)"
    and "0 < countMemberships u s'"
proof -
  let ?mine = "filter (\<lambda>m. m_user m = u) (members s)"
  have dist: "distinct (map m_project ?mine)"
    using assms(1) by (auto simp: projects_ok_def distinct_map inj_on_def)
  have mine': "filter (\<lambda>m. m_user m = u) (members s') = filter (\<lambda>m. m_project m \<noteq> p) ?mine"
    by (simp add: deleted_rows(2) [OF assms(3)] conj_commute)
  have "length ?mine = length (filter (\<lambda>m. m_project m \<noteq> p) ?mine) + length (filter (\<lambda>m. m_project m = p) ?mine)"
    using sum_length_filter_compl [of "\<lambda>m. m_project m \<noteq> p" ?mine] by simp
  then show "countMemberships u s = countMemberships u s' + (if p \<in> set (listProjectIds u s) then 1 else 0)"
    using filter_distinct_key [OF dist, of p]
    by (simp add: countMemberships_def mine' listProjectIds_def)
  then show "0 < countMemberships u s'" using assms(2) by (auto split: if_splits)
qed

section \<open>Theorems\<close>

text \<open>
  C27. Removing a project succeeds only for a user who keeps another one. It leaves no
  row of the project behind and no row that refers to one, keeps every row of the other
  projects, and keeps every key and reference of the store.
\<close>

theorem removed_project_leaves_nothing:
  assumes "tenants_ok s" and "remove_project u p s = (Inr (), s')"
  shows "tenants_ok s' \<and> 0 < countMemberships u s' \<and> p \<notin> pr_id ` set (projects s') \<and> checks_of p s' = []
    \<and> (\<forall>q. q \<noteq> p \<longrightarrow> checks_of q s' = checks_of q s \<and> (\<forall>v. findRole q v s' = findRole q v s))"
proof -
  have del: "delete_project p s = Inr s'" and two: "1 < countMemberships u s"
    using assms(2) by (auto simp: remove_project_def split: if_splits sum.splits)
  have "tenants_ok s'" by (rule delete_project_ok [OF assms(1) del])
  moreover have "0 < countMemberships u s'"
    using membership_left(2) [OF _ two del] assms(1) by (simp add: tenants_ok_def)
  moreover have "p \<notin> pr_id ` set (projects s') \<and> checks_of p s' = []"
    by (auto simp: checks_of_def deleted_rows [OF del] filter_empty_conv)
  moreover have "checks_of q s' = checks_of q s" if "q \<noteq> p" for q
    using that by (auto simp: checks_of_def deleted_rows [OF del] intro: filter_cong)
  moreover have "findRole q v s' = findRole q v s" if "q \<noteq> p" for q v
    unfolding findRole_def deleted_rows [OF del] by (subst find_filter) (use that in auto)
  ultimately show ?thesis by blast
qed

text \<open>Two projects of user 9; the second is shared with user 8, who has nothing else.\<close>

definition shared_account :: db where
  "shared_account = empty_db\<lparr>
     projects := [\<lparr>pr_id = 1, pr_name = ''a'', pr_slug = ''a'', pingRetentionDays = None, pr_createdAt = 0\<rparr>,
                  \<lparr>pr_id = 2, pr_name = ''b'', pr_slug = ''b'', pingRetentionDays = None, pr_createdAt = 0\<rparr>],
     members := [\<lparr>m_project = 1, m_user = 9, role = Owner, m_createdAt = 0\<rparr>,
                 \<lparr>m_project = 2, m_user = 9, role = Owner, m_createdAt = 0\<rparr>,
                 \<lparr>m_project = 2, m_user = 8, role = Admin, m_createdAt = 0\<rparr>],
     next_id := 10\<rparr>"

lemma shared_account_ok: "tenants_ok shared_account"
  by (simp add: tenants_defs store_inv_defs shared_account_def empty_db_def)

lemma shared_account_counts [simp]:
  "countMemberships 9 shared_account = 2" "project_by_id 2 shared_account \<noteq> None"
  by (simp_all add: countMemberships_def project_by_id_def shared_account_def empty_db_def)

theorem removed_project_leaves_nothing_witness:
  "\<exists>s'. remove_project 9 2 shared_account = (Inr (), s') \<and> tenants_ok s' \<and> 0 < countMemberships 9 s'"
proof -
  obtain s' where "remove_project 9 2 shared_account = (Inr (), s')"
    by (auto simp: remove_project_def delete_project_def Let_def)
  then show ?thesis using removed_project_leaves_nothing [OF shared_account_ok] by blast
qed

text \<open>
  C-STRANDED. The rule is checked for the caller alone. Another member whose only project it
  was is left without one, which the comment of \<open>remove\<close> excludes: ``an account with no
  project is not a state this application has a screen for''.
\<close>

theorem removal_strands_other_members:
  assumes "1 < countMemberships u s" and "project_by_id p s \<noteq> None"
    and "set (listProjectIds v s) \<subseteq> {p}"
  shows "fst (remove_project u p s) = Inr ()
    \<and> listForPrincipal txt (UserSession v x t) (snd (remove_project u p s)) = []"
proof -
  obtain s' where del: "delete_project p s = Inr s'"
    using assms(2) by (simp add: delete_project_def Let_def)
  then have rem: "remove_project u p s = (Inr (), s')" using assms(1) by (simp add: remove_project_def)
  have "filter (\<lambda>m. m_user m = v) (members s') = []"
    using assms(3) by (auto simp: deleted_rows(2) [OF del] listProjectIds_def filter_empty_conv)
  then show ?thesis
    by (simp add: rem listMemberships_def map_filter_simps)
qed

theorem removal_strands_other_members_witness:
  "fst (remove_project 9 2 shared_account) = Inr ()
   \<and> listForPrincipal show_nat (UserSession 8 0 0) (snd (remove_project 9 2 shared_account)) = []"
proof -
  have "set (listProjectIds 8 shared_account) \<subseteq> {2}"
    by (simp add: listProjectIds_def shared_account_def empty_db_def)
  then show ?thesis
    using removal_strands_other_members [of 9 shared_account 2 8 show_nat] by simp
qed

definition newcomer :: db where
  "newcomer = empty_db\<lparr>users := [\<lparr>u_id = 9, email = ''a@example.org'', u_plan = None, disabledAt = None\<rparr>]\<rparr>"

lemma newcomer_ok: "tenants_ok newcomer"
  by (simp add: tenants_defs store_inv_defs newcomer_def empty_db_def)

text \<open>
  A project that was created belongs to its creator as owner, under a slug no other
  project has, and keys and references stay intact; nobody's role anywhere else changes.
\<close>

theorem created_project_owned:
  assumes "tenants_ok s" and "create_project env u r s = (Inr d, s')"
  shows "tenants_ok s' \<and> (\<forall>q \<in> pr_id ` set (projects s). \<forall>v. findRole q v s' = findRole q v s)
    \<and> (\<exists>x. projects s' = projects s @ [x] \<and> pd_slug d = pr_slug x \<and> pd_role d = Owner
      \<and> findRole (pr_id x) u s' = Some Owner \<and> pr_slug x \<notin> pr_slug ` set (projects s))"
proof -
  obtain x sl where new: "createOwnedBy (ce_now env) u (cp_name r) sl s = Inr (x, s')"
    and d: "d = toProjectDto (ce_uuid_text env) x Owner (Some 0) (Some 0)"
    using assms(2) by (auto simp: create_project_def Let_def split: sum.splits)
  have "tenants_ok s'" by (rule createOwnedBy_ok [OF assms(1) new])
  have rows: "projects s' = projects s @ [x]" "pr_slug x \<notin> pr_slug ` set (projects s)" "pr_id x = next_id s"
    "members s' = members s @ [\<lparr>m_project = next_id s, m_user = u, role = Owner, m_createdAt = ce_now env\<rparr>]"
    using new by (auto simp: createOwnedBy_def Let_def isProjectSlugTaken_def split: if_splits)
  have old: "q < next_id s" if "q \<in> pr_id ` set (projects s)" for q
    using assms(1) that by (auto simp: tenants_defs)
  have "\<forall>m \<in> set (members s). m_project m \<in> pr_id ` set (projects s)"
    using assms(1) by (simp add: tenants_defs)
  then have "find (\<lambda>m. m_project m = next_id s \<and> m_user m = u) (members s) = None"
    using old by (fastforce simp: find_None_iff)
  then have "findRole (pr_id x) u s' = Some Owner"
    by (simp add: findRole_def rows find_append)
  then have "\<exists>x. projects s' = projects s @ [x] \<and> pd_slug d = pr_slug x \<and> pd_role d = Owner
      \<and> findRole (pr_id x) u s' = Some Owner \<and> pr_slug x \<notin> pr_slug ` set (projects s)"
    using rows by (intro exI [of _ x]) (simp add: d toProjectDto_def)
  moreover have "\<forall>q \<in> pr_id ` set (projects s). \<forall>v. findRole q v s' = findRole q v s"
    using old by (auto simp: findRole_def rows(4) find_append split: option.splits)
  ultimately show ?thesis using \<open>tenants_ok s'\<close> by blast
qed

theorem created_project_owned_witness:
  "\<exists>d s'. create_project sample_checks_env 9 \<lparr>cp_name = ''New'', cp_slug = None\<rparr> newcomer = (Inr d, s')
     \<and> tenants_ok s' \<and> pd_role d = Owner"
proof -
  obtain d s' where c: "create_project sample_checks_env 9 \<lparr>cp_name = ''New'', cp_slug = None\<rparr> newcomer = (Inr d, s')"
    by (auto simp: create_project_def assertCanAddProject_def sample_checks_env_def createOwnedBy_def Let_def
        newcomer_def empty_db_def isProjectSlugTaken_def)
  then show ?thesis using created_project_owned [OF newcomer_ok c] by blast
qed

text \<open>The role a reader sees on the project's own page is always \<open>member\<close>.\<close>

lemma get_reports_member: "get_project txt p s = Inr d \<Longrightarrow> pd_role d = Member"
  by (auto simp: get_project_def toProjectDto_def split: option.splits)

end
