(* ===== verification/Sync.thy ===== *)
theory Sync
  imports Projects
begin

text \<open>
  \<open>POST /v1/checks/sync\<close>, the declaration of an application's jobs when it starts:
  \<^verbatim>\<open>packages/server/src/checks/check-sync.service.ts\<close> and the two statements of
  \<^verbatim>\<open>check-sync.repository.ts\<close>. SHA-256 and the database's default ping key are parameters.
\<close>

record sync_env = checks_env +
  se_sha256 :: "string \<Rightarrow> string"
  se_pingKey :: "uuid \<Rightarrow> string"

record sync_row = schedule +
  k_key :: string
  k_name :: string
  k_slug :: string
  k_grace :: int
  k_tags :: "string list"
  k_due :: millis

record upserted =
  us_id :: uuid
  us_key :: string
  us_pingKey :: string
  us_created :: bool

section \<open>The payload\<close>

definition DEFAULT_GRACE_SECONDS :: int where "DEFAULT_GRACE_SECONDS = 300"

definition sync_schedule :: "sync_check \<Rightarrow> schedule" where
  "sync_schedule c =
     (let zone = (case sy_timezone c of None \<Rightarrow> DEFAULT_TIMEZONE | Some z \<Rightarrow> z)
      in case sy_cron c of
           None \<Rightarrow> \<lparr>scheduleType = Interval, periodSeconds = sy_interval c, cronExpression = None, timezone = zone\<rparr>
         | Some e \<Rightarrow> \<lparr>scheduleType = Cron, periodSeconds = None, cronExpression = Some e, timezone = zone\<rparr>)"

definition to_sync_row :: "sync_env \<Rightarrow> string option \<Rightarrow> sync_check \<Rightarrow> millis \<Rightarrow> sync_row" where
  "to_sync_row env e c due =
     (let sch = sync_schedule c
      in \<lparr>scheduleType = scheduleType sch, periodSeconds = periodSeconds sch,
          cronExpression = cronExpression sch, timezone = timezone sch,
          k_key = sy_key c, k_name = sy_name c,
          k_slug = syncSlug (ce_nfkd env) (ce_bytes4 env) (se_sha256 env) (units_of (sy_name c)) (sy_key c) e,
          k_grace = (case sy_grace c of None \<Rightarrow> DEFAULT_GRACE_SECONDS | Some g \<Rightarrow> g),
          k_tags = (case sy_tags c of None \<Rightarrow> [] | Some ts \<Rightarrow> ts), k_due = due\<rparr>)"

fun sync_rows :: "sync_env \<Rightarrow> string option \<Rightarrow> string list \<Rightarrow> sync_check list \<Rightarrow> http_error + sync_row list" where
  "sync_rows env e seen [] = Inr []"
| "sync_rows env e seen (c # cs) =
     (if sy_key c \<in> set seen then Inl BadRequest
      else case computeNextDueAt (ce_cron env) (sync_schedule c) (ce_now env) of
             None \<Rightarrow> Inl BadRequest
           | Some due \<Rightarrow>
               (case sync_rows env e (sy_key c # seen) cs of
                  Inl x \<Rightarrow> Inl x
                | Inr rs \<Rightarrow> Inr (to_sync_row env e c due # rs)))"

section \<open>The statements\<close>

text \<open>The identity index: project, key, and environment with null read as empty.\<close>

definition coalesce :: "string option \<Rightarrow> string" where
  "coalesce e = (case e of None \<Rightarrow> [] | Some x \<Rightarrow> x)"

definition same_identity :: "uuid \<Rightarrow> string option \<Rightarrow> string \<Rightarrow> check \<Rightarrow> bool" where
  "same_identity p e k c \<longleftrightarrow> projectId c = p \<and> key c = Some k \<and> coalesce (environment c) = coalesce e"

definition same_schedule :: "('a schedule_scheme) \<Rightarrow> ('b schedule_scheme) \<Rightarrow> bool" where
  "same_schedule a b \<longleftrightarrow> scheduleType a = scheduleType b \<and> periodSeconds a = periodSeconds b
     \<and> cronExpression a = cronExpression b \<and> timezone a = timezone b"

definition declared_check :: "sync_env \<Rightarrow> uuid \<Rightarrow> string option \<Rightarrow> sync_row \<Rightarrow> uuid \<Rightarrow> check" where
  "declared_check env p e r i =
     \<lparr>scheduleType = scheduleType r, periodSeconds = periodSeconds r,
      cronExpression = cronExpression r, timezone = timezone r,
      c_id = i, projectId = p, c_name = k_name r, slug = k_slug r, key = Some (k_key r),
      pingKey = se_pingKey env i, pingKeyRotatedAt = None, graceSeconds = k_grace r,
      state = NEW, pausedReason = None, lastPingAt = None, lastStartedAt = None,
      lastDurationMs = None, nextDueAt = Some (k_due r), source = Auto,
      environment = e, tags = k_tags r, description = None, orphanedAt = None,
      c_createdAt = ce_now env, c_updatedAt = ce_now env\<rparr>"

definition redeclared :: "sync_env \<Rightarrow> sync_row \<Rightarrow> check \<Rightarrow> check" where
  "redeclared env r c =
     c\<lparr>c_name := k_name r, scheduleType := scheduleType r, periodSeconds := periodSeconds r,
       cronExpression := cronExpression r, timezone := timezone r, graceSeconds := k_grace r,
       tags := k_tags r, orphanedAt := None, c_updatedAt := ce_now env,
       nextDueAt := (if same_schedule c r then nextDueAt c else Some (k_due r))\<rparr>"

text \<open>
  One incoming row: on a conflict with the identity index the row there is updated; a new
  row may still violate the slug index or the foreign key, which fails the statement.
\<close>

definition upsert_row :: "sync_env \<Rightarrow> uuid \<Rightarrow> string option \<Rightarrow> sync_row \<Rightarrow> db \<Rightarrow> http_error + upserted \<times> db" where
  "upsert_row env p e r s =
     (case find (same_identity p e (k_key r)) (checks s) of
        Some c \<Rightarrow>
          Inr (\<lparr>us_id = c_id c, us_key = k_key r, us_pingKey = pingKey c, us_created = False\<rparr>,
               s\<lparr>checks := update_where (same_identity p e (k_key r)) (redeclared env r) (checks s)\<rparr>)
      | None \<Rightarrow>
          (case insert_check (declared_check env p e r (next_id s)) s of
             Inl x \<Rightarrow> Inl x
           | Inr s' \<Rightarrow>
               Inr (\<lparr>us_id = next_id s, us_key = k_key r, us_pingKey = se_pingKey env (next_id s), us_created = True\<rparr>, s')))"

fun UPSERT_SQL :: "sync_env \<Rightarrow> uuid \<Rightarrow> string option \<Rightarrow> sync_row list \<Rightarrow> db \<Rightarrow> http_error + upserted list \<times> db" where
  "UPSERT_SQL env p e [] s = Inr ([], s)"
| "UPSERT_SQL env p e (r # rs) s =
     (case upsert_row env p e r s of
        Inl x \<Rightarrow> Inl x
      | Inr (u, s1) \<Rightarrow>
          (case UPSERT_SQL env p e rs s1 of
             Inl x \<Rightarrow> Inl x | Inr (us, s2) \<Rightarrow> Inr (u # us, s2)))"

definition orphaned_by :: "uuid \<Rightarrow> string option \<Rightarrow> string list \<Rightarrow> check \<Rightarrow> bool" where
  "orphaned_by p e keep c \<longleftrightarrow> projectId c = p \<and> source c = Auto \<and> orphanedAt c = None
     \<and> environment c = e \<and> (case key c of None \<Rightarrow> False | Some k \<Rightarrow> k \<notin> set keep)"

definition ORPHAN_SQL :: "sync_env \<Rightarrow> uuid \<Rightarrow> string option \<Rightarrow> string list \<Rightarrow> db \<Rightarrow> string list \<times> db" where
  "ORPHAN_SQL env p e keep s =
     (map (\<lambda>c. the (key c)) (filter (orphaned_by p e keep) (checks s)),
      s\<lparr>checks := update_where (orphaned_by p e keep)
          (\<lambda>c. c\<lparr>orphanedAt := Some (ce_now env), c_updatedAt := ce_now env\<rparr>) (checks s)\<rparr>)"

definition findExistingKeys :: "uuid \<Rightarrow> string list \<Rightarrow> string option \<Rightarrow> db \<Rightarrow> string list" where
  "findExistingKeys p ks e s =
     List.map_filter key
       (filter (\<lambda>c. projectId c = p \<and> environment c = e \<and> key c \<in> Some ` set ks) (checks s))"

definition upsert ::
  "sync_env \<Rightarrow> uuid \<Rightarrow> string option \<Rightarrow> sync_row list \<Rightarrow> string list option \<Rightarrow> db \<Rightarrow>
     http_error + (upserted list \<times> string list) \<times> db" where
  "upsert env p e accepted keep s =
     (case UPSERT_SQL env p e accepted s of
        Inl x \<Rightarrow> Inl x
      | Inr (us, s1) \<Rightarrow>
          (case keep of
             None \<Rightarrow> Inr ((us, []), s1)
           | Some ks \<Rightarrow> let (gone, s2) = ORPHAN_SQL env p e ks s1 in Inr ((us, gone), s2)))"

section \<open>The service\<close>

record sync_check_dto =
  sc_key :: string
  sc_id :: string
  sc_pingKey :: string
  sc_pingUrl :: string
  sc_created :: bool

record sync_result =
  so_checks :: "sync_check_dto list"
  so_orphaned :: "string list"
  so_skipped :: "string list option"

definition applyCheckQuota :: "sync_env \<Rightarrow> uuid \<Rightarrow> sync_row list \<Rightarrow> string option \<Rightarrow> db \<Rightarrow> string list" where
  "applyCheckQuota env p rows e s =
     (case remainingChecks (ce_quotas env) p s of
        None \<Rightarrow> []
      | Some remaining \<Rightarrow>
          let known = findExistingKeys p (map k_key rows) e s;
              wouldCreate = filter (\<lambda>r. k_key r \<notin> set known) rows
          in if length wouldCreate \<le> remaining then [] else map k_key (drop remaining wouldCreate))"

definition syncWithinQuota :: "sync_env \<Rightarrow> uuid \<Rightarrow> sync_request \<Rightarrow> db \<Rightarrow> (http_error + sync_result) \<times> db" where
  "syncWithinQuota env p q s =
     (let e = sr_environment q
      in case sync_rows env e [] (sr_checks q) of
           Inl x \<Rightarrow> (Inl x, s)
         | Inr rows \<Rightarrow>
             let skipped = applyCheckQuota env p rows e s;
                 accepted = filter (\<lambda>r. k_key r \<notin> set skipped) rows;
                 keep = (if sr_prune q \<noteq> Some False then Some (map k_key rows) else None)
             in case upsert env p e accepted keep s of
                  Inl x \<Rightarrow> (Inl x, s)
                | Inr ((us, gone), s') \<Rightarrow>
                    (Inr \<lparr>so_checks = map (\<lambda>u. \<lparr>sc_key = us_key u, sc_id = ce_uuid_text env (us_id u),
                                 sc_pingKey = us_pingKey u,
                                 sc_pingUrl = ce_baseUrl env @ ''/p/'' @ us_pingKey u,
                                 sc_created = us_created u\<rparr>) us,
                          so_orphaned = gone, so_skipped = (if skipped = [] then None else Some skipped)\<rparr>, s'))"

text \<open>Under the account's lock, like every creation.\<close>

definition sync :: "sync_env \<Rightarrow> uuid \<Rightarrow> sync_request \<Rightarrow> ingest_state \<Rightarrow> (http_error + sync_result) \<times> ingest_state" where
  "sync env p q st =
     (let (res, s) = syncWithinQuota env p q (store_db st) in (res, st\<lparr>store_db := s\<rparr>))"

section \<open>The upsert, row by row, is one map and one append\<close>

text \<open>What the payload does to a check that exists, and the rows it has no check for.\<close>

definition redeclare :: "sync_env \<Rightarrow> uuid \<Rightarrow> string option \<Rightarrow> sync_row list \<Rightarrow> check \<Rightarrow> check" where
  "redeclare env p e rows c =
     (case find (\<lambda>r. same_identity p e (k_key r) c) rows of None \<Rightarrow> c | Some r \<Rightarrow> redeclared env r c)"

definition missing :: "uuid \<Rightarrow> string option \<Rightarrow> sync_row list \<Rightarrow> db \<Rightarrow> sync_row list" where
  "missing p e rows s = filter (\<lambda>r. \<forall>c \<in> set (checks s). \<not> same_identity p e (k_key r) c) rows"

definition declared_from :: "sync_env \<Rightarrow> uuid \<Rightarrow> string option \<Rightarrow> sync_row list \<Rightarrow> uuid \<Rightarrow> check list" where
  "declared_from env p e rows n = map2 (declared_check env p e) rows [n..<n + length rows]"

definition upserted_db :: "sync_env \<Rightarrow> uuid \<Rightarrow> string option \<Rightarrow> sync_row list \<Rightarrow> db \<Rightarrow> db" where
  "upserted_db env p e rows s =
     s\<lparr>checks := map (redeclare env p e rows) (checks s) @ declared_from env p e (missing p e rows s) (next_id s),
       next_id := next_id s + length (missing p e rows s)\<rparr>"

lemma redeclared_identity [simp]: "same_identity p e k (redeclared env r c) = same_identity p e k c"
  by (simp add: redeclared_def same_identity_def)

lemma declared_identity [simp]: "same_identity p e k (declared_check env p e r i) \<longleftrightarrow> k_key r = k"
  by (auto simp: declared_check_def same_identity_def)

lemma same_identity_key: "same_identity p e k c \<Longrightarrow> same_identity p e k' c \<Longrightarrow> k = k'"
  by (simp add: same_identity_def)

lemma redeclare_Nil [simp]: "redeclare env p e [] = id"
  by (rule ext) (simp add: redeclare_def)

lemma upserted_Nil [simp]: "upserted_db env p e [] s = s"
  by (simp add: upserted_db_def missing_def declared_from_def)

lemma redeclare_other:
  "(\<And>r. r \<in> set rows \<Longrightarrow> \<not> same_identity p e (k_key r) c) \<Longrightarrow> redeclare env p e rows c = c"
  by (auto simp: redeclare_def dest: find_SomeD split: option.splits)

lemma redeclare_Cons:
  assumes "k_key r \<notin> k_key ` set rs"
  shows "redeclare env p e (r # rs) c =
     redeclare env p e rs (if same_identity p e (k_key r) c then redeclared env r c else c)"
proof (cases "same_identity p e (k_key r) c")
  case True
  have "\<not> same_identity p e (k_key x) (redeclared env r c)" if "x \<in> set rs" for x
    unfolding redeclared_identity using same_identity_key [OF True, of "k_key x"] assms that by (metis imageI)
  then show ?thesis using True by (simp add: redeclare_other) (simp add: redeclare_def)
next
  case False
  then show ?thesis by (simp add: redeclare_def)
qed

lemma declared_from_Cons:
  "declared_from env p e (r # rows) n = declared_check env p e r n # declared_from env p e rows (Suc n)"
  by (simp add: declared_from_def upt_conv_Cons del: upt_Suc)

lemma declared_origin:
  "c \<in> set (declared_from env p e rows n) \<Longrightarrow> \<exists>r \<in> set rows. \<exists>i. c = declared_check env p e r i"
  by (auto simp: declared_from_def elim!: in_set_zipE)

lemma upsert_row_known:
  assumes "\<exists>c \<in> set (checks s). same_identity p e (k_key r) c"
  shows "\<exists>u. upsert_row env p e r s = Inr (u, upserted_db env p e [r] s)
    \<and> us_key u = k_key r \<and> \<not> us_created u"
proof -
  obtain c where "find (same_identity p e (k_key r)) (checks s) = Some c"
    using assms by (meson find_None_iff not_Some_eq)
  moreover have "missing p e [r] s = []" using assms by (auto simp: missing_def)
  moreover have "map (redeclare env p e [r]) (checks s)
      = update_where (same_identity p e (k_key r)) (redeclared env r) (checks s)"
    by (simp add: update_where_def redeclare_def)
  ultimately show ?thesis by (simp add: upsert_row_def upserted_db_def declared_from_def)
qed

lemma upsert_row_new:
  assumes "\<forall>c \<in> set (checks s). \<not> same_identity p e (k_key r) c"
    and "upsert_row env p e r s = Inr (u, s')"
  shows "s' = upserted_db env p e [r] s \<and> us_key u = k_key r \<and> us_created u"
proof -
  have "find (same_identity p e (k_key r)) (checks s) = None" using assms(1) by (auto simp: find_None_iff)
  moreover have "missing p e [r] s = [r]" using assms(1) by (auto simp: missing_def)
  moreover have "map (redeclare env p e [r]) (checks s) = checks s"
    using assms(1) by (intro map_idI redeclare_other) auto
  moreover have "declared_check env p e r i\<lparr>c_id := i\<rparr> = declared_check env p e r i" for i
    by (simp add: declared_check_def)
  ultimately show ?thesis
    using assms(2) by (auto simp: upsert_row_def upserted_db_def insert_check_def declared_from_def split: if_splits)
qed

lemma upserted_step:
  assumes "k_key r \<notin> k_key ` set rs"
  shows "upserted_db env p e rs (upserted_db env p e [r] s) = upserted_db env p e (r # rs) s"
proof -
  have one: "redeclare env p e [r] c = (if same_identity p e (k_key r) c then redeclared env r c else c)" for c
    by (simp add: redeclare_def)
  have ids: "same_identity p e k (redeclare env p e [r] c) = same_identity p e k c" for k c
    by (simp add: one)
  have new: "redeclare env p e rs (declared_check env p e r i) = declared_check env p e r i" for i
    using assms by (intro redeclare_other) auto
  have rest: "missing p e rs (upserted_db env p e [r] s) = missing p e rs s"
  proof -
    have "(\<forall>c \<in> set (checks (upserted_db env p e [r] s)). \<not> same_identity p e (k_key x) c)
        = (\<forall>c \<in> set (checks s). \<not> same_identity p e (k_key x) c)" if "x \<in> set rs" for x
    proof -
      have "k_key r \<noteq> k_key x" using assms that by (metis imageI)
      then show ?thesis by (auto simp: upserted_db_def declared_from_def ids missing_def)
    qed
    then show ?thesis unfolding missing_def by (intro filter_cong refl)
  qed
  have map: "map (redeclare env p e rs) (map (redeclare env p e [r]) cs) = map (redeclare env p e (r # rs)) cs" for cs
    using assms by (simp add: redeclare_Cons one)
  show ?thesis
  proof (cases "\<forall>c \<in> set (checks s). \<not> same_identity p e (k_key r) c")
    case True
    then have m: "missing p e (r # rs) s = r # missing p e rs s" "missing p e [r] s = [r]"
      by (auto simp: missing_def)
    have "upserted_db env p e [r] s = s\<lparr>checks := map (redeclare env p e [r]) (checks s) @ [declared_check env p e r (next_id s)],
        next_id := Suc (next_id s)\<rparr>"
      by (simp add: upserted_db_def m declared_from_def)
    then show ?thesis using rest
      by (simp add: upserted_db_def [of env p e rs] upserted_db_def [of env p e "r # rs"] m new declared_from_Cons
          map [simplified])
  next
    case False
    then have m: "missing p e (r # rs) s = missing p e rs s" "missing p e [r] s = []"
      by (auto simp: missing_def)
    have "upserted_db env p e [r] s = s\<lparr>checks := map (redeclare env p e [r]) (checks s)\<rparr>"
      by (simp add: upserted_db_def m declared_from_def)
    then show ?thesis using rest
      by (simp add: upserted_db_def [of env p e rs] upserted_db_def [of env p e "r # rs"] m map [simplified])
  qed
qed

text \<open>
  A successful statement has exactly this effect, answers the payload's keys in order, and
  reports as created the rows that had no check.
\<close>

lemma UPSERT_SQL_exact:
  assumes "UPSERT_SQL env p e rows s = Inr (us, s')" "distinct (map k_key rows)"
  shows "s' = upserted_db env p e rows s \<and> map us_key us = map k_key rows
    \<and> length (filter us_created us) = length (missing p e rows s)"
  using assms
proof (induction rows arbitrary: s us)
  case Nil
  then show ?case by (simp add: missing_def)
next
  case (Cons r rs)
  then obtain u s1 us' where first: "upsert_row env p e r s = Inr (u, s1)"
    and rest: "UPSERT_SQL env p e rs s1 = Inr (us', s')" and us: "us = u # us'"
    by (auto split: sum.splits)
  have u: "s1 = upserted_db env p e [r] s \<and> us_key u = k_key r
      \<and> us_created u = (\<forall>c \<in> set (checks s). \<not> same_identity p e (k_key r) c)"
    using first upsert_row_known [of s p e r env] upsert_row_new [of s p e r env u s1] by force
  have key: "k_key r \<notin> k_key ` set rs" using Cons.prems(2) by simp
  have "length (missing p e rs s1) = length (missing p e rs s)"
  proof -
    have "next_id (upserted_db env p e rs s1) = next_id (upserted_db env p e (r # rs) s)"
      using u upserted_step [OF key] by metis
    then show ?thesis using u by (auto simp: upserted_db_def missing_def split: if_splits)
  qed
  then show ?case
    using Cons.IH [OF rest] Cons.prems(2) u us upserted_step [OF key, of env p e s] by (auto simp: missing_def)
qed

lemma UPSERT_SQL_known:
  assumes "missing p e rows s = []" "distinct (map k_key rows)"
  shows "\<exists>us. UPSERT_SQL env p e rows s = Inr (us, upserted_db env p e rows s)"
  using assms
proof (induction rows arbitrary: s)
  case Nil
  then show ?case by simp
next
  case (Cons r rs)
  have key: "k_key r \<notin> k_key ` set rs" using Cons.prems(2) by simp
  have known: "\<exists>c \<in> set (checks s). same_identity p e (k_key r) c" "missing p e rs s = []"
    using Cons.prems(1) by (auto simp: missing_def split: if_splits)
  let ?s1 = "upserted_db env p e [r] s"
  obtain u where u: "upsert_row env p e r s = Inr (u, ?s1)" using upsert_row_known [OF known(1)] by blast
  have "missing p e rs ?s1 = []"
  proof -
    have "next_id (upserted_db env p e rs ?s1) = next_id s"
      using upserted_step [OF key, of env p e s] Cons.prems(1) by (simp add: upserted_db_def)
    then show ?thesis using known by (auto simp: upserted_db_def missing_def split: if_splits)
  qed
  then obtain us where "UPSERT_SQL env p e rs ?s1 = Inr (us, upserted_db env p e rs ?s1)"
    using Cons.IH Cons.prems(2) by fastforce
  then show ?case using u upserted_step [OF key, of env p e s] by simp
qed

section \<open>The whole request\<close>

lemma sync_rows_payload:
  "sync_rows env e seen cs = Inr rows \<Longrightarrow>
     list_all2 (\<lambda>c r. \<exists>due. r = to_sync_row env e c due) cs rows
     \<and> distinct (map sy_key cs) \<and> sy_key ` set cs \<inter> set seen = {}"
  by (induction cs arbitrary: seen rows) (fastforce split: if_splits option.splits sum.splits)+

lemma sync_row_key [simp]: "k_key (to_sync_row env e c due) = sy_key c"
  by (simp add: to_sync_row_def Let_def)

lemma sync_row_schedule [simp]: "same_schedule c' (to_sync_row env e c due) = same_schedule c' (sync_schedule c)"
  by (simp add: to_sync_row_def Let_def same_schedule_def)

lemma sync_rows_keys:
  assumes "sync_rows env e seen cs = Inr rows"
  shows "map k_key rows = map sy_key cs" and "distinct (map k_key rows)"
proof -
  have "list_all2 (\<lambda>c r. \<exists>due. r = to_sync_row env e c due) cs rows"
    using sync_rows_payload [OF assms] by simp
  then show "map k_key rows = map sy_key cs" by (induction rule: list_all2_induct) auto
  then show "distinct (map k_key rows)" using sync_rows_payload [OF assms] by simp
qed

lemma sync_rows_origin:
  assumes "sync_rows env e seen cs = Inr rows" "r \<in> set rows"
  obtains d due where "d \<in> set cs" "r = to_sync_row env e d due"
proof -
  have "list_all2 (\<lambda>c r. \<exists>due. r = to_sync_row env e c due) cs rows"
    using sync_rows_payload [OF assms(1)] by simp
  then have "\<exists>d \<in> set cs. \<exists>due. r = to_sync_row env e d due"
    using assms(2) by (induction rule: list_all2_induct) auto
  then show ?thesis using that by blast
qed

definition accepted_rows :: "sync_env \<Rightarrow> uuid \<Rightarrow> string option \<Rightarrow> sync_row list \<Rightarrow> db \<Rightarrow> sync_row list" where
  "accepted_rows env p e rows s = filter (\<lambda>r. k_key r \<notin> set (applyCheckQuota env p rows e s)) rows"

definition orphan :: "sync_env \<Rightarrow> uuid \<Rightarrow> string option \<Rightarrow> string list option \<Rightarrow> check \<Rightarrow> check" where
  "orphan env p e keep c =
     (case keep of
        None \<Rightarrow> c
      | Some ks \<Rightarrow> if orphaned_by p e ks c then c\<lparr>orphanedAt := Some (ce_now env), c_updatedAt := ce_now env\<rparr> else c)"

definition keep_of :: "sync_request \<Rightarrow> string list option" where
  "keep_of q = (if sr_prune q \<noteq> Some False then Some (map sy_key (sr_checks q)) else None)"

lemma sync_exact:
  assumes "syncWithinQuota env p q s = (Inr res, s')"
  obtains rows where "sync_rows env (sr_environment q) [] (sr_checks q) = Inr rows"
    and "s' = (let s1 = upserted_db env p (sr_environment q) (accepted_rows env p (sr_environment q) rows s) s
          in s1\<lparr>checks := map (orphan env p (sr_environment q) (keep_of q)) (checks s1)\<rparr>)"
    and "length (filter sc_created (so_checks res))
        = length (missing p (sr_environment q) (accepted_rows env p (sr_environment q) rows s) s)"
    and "so_skipped res = (let sk = applyCheckQuota env p rows (sr_environment q) s in if sk = [] then None else Some sk)"
proof -
  let ?e = "sr_environment q"
  obtain rows where rows: "sync_rows env ?e [] (sr_checks q) = Inr rows"
    using assms by (auto simp: syncWithinQuota_def Let_def split: sum.splits)
  let ?a = "accepted_rows env p ?e rows s"
  have keys: "distinct (map k_key ?a)"
    using sync_rows_keys(2) [OF rows] by (simp add: accepted_rows_def distinct_map_filter)
  obtain us s1 where ups: "UPSERT_SQL env p ?e ?a s = Inr (us, s1)"
    using assms rows
    by (auto simp: syncWithinQuota_def Let_def upsert_def accepted_rows_def split: sum.splits prod.splits)
  have eff: "s1 = upserted_db env p ?e ?a s" "length (filter us_created us) = length (missing p ?e ?a s)"
    using UPSERT_SQL_exact [OF ups keys] by simp_all
  have "s' = s1\<lparr>checks := map (orphan env p ?e (keep_of q)) (checks s1)\<rparr>"
    "length (filter sc_created (so_checks res)) = length (filter us_created us)"
    "so_skipped res = (let sk = applyCheckQuota env p rows ?e s in if sk = [] then None else Some sk)"
    using assms ups rows sync_rows_keys(1) [OF rows]
    by (auto simp: syncWithinQuota_def Let_def upsert_def accepted_rows_def ORPHAN_SQL_def orphan_def [abs_def]
        keep_of_def update_where_def filter_map comp_def split: if_splits)
  then show ?thesis using that [OF rows] eff by (simp add: Let_def)
qed

text \<open>What belongs to the check and not to its declaration.\<close>

definition history where
  "history c = ((c_id c, projectId c, slug c, key c, pingKey c, pingKeyRotatedAt c),
     (state c, pausedReason c, lastPingAt c, lastStartedAt c, lastDurationMs c),
     (source c, environment c, description c, c_createdAt c))" for c :: check

lemma history_redeclare [simp]: "history (redeclare env p e rows c) = history c"
  by (simp add: redeclare_def redeclared_def history_def split: option.splits)

lemma history_orphan [simp]: "history (orphan env p e keep c) = history c"
  by (simp add: orphan_def history_def split: option.splits)

lemma history_fields:
  assumes "history c = history d"
  shows "c_id c = c_id d" "projectId c = projectId d" "key c = key d" "pingKey c = pingKey d"
    "environment c = environment d" "slug c = slug d"
  using assms by (simp_all add: history_def)

lemma orphan_deadline [simp]: "nextDueAt (orphan env p e keep c) = nextDueAt c"
  by (simp add: orphan_def split: option.splits)

lemma orphan_other:
  assumes "projectId c \<noteq> p \<or> environment c \<noteq> e \<or> key c = None"
  shows "orphan env p e keep c = c"
  using assms by (auto simp: orphan_def orphaned_by_def split: option.splits)

text \<open>
  C15. A sync never deletes a check and never touches one of another project or
  environment. The checks it knows keep their identity, ping key, state and history, and
  their deadline moves only when the payload declares a different schedule, so that
  restarting an application does not grant its jobs a fresh grace period. What it adds
  are new checks of this project and environment.
\<close>

theorem sync_keeps_history:
  assumes "syncWithinQuota env p q s = (Inr res, s')"
  shows "\<exists>f new. checks s' = map f (checks s) @ new \<and> pings s' = pings s \<and> incidents s' = incidents s
    \<and> (\<forall>c \<in> set new. projectId c = p \<and> environment c = sr_environment q \<and> state c = NEW
         \<and> key c \<in> Some ` sy_key ` set (sr_checks q))
    \<and> (\<forall>c \<in> set (checks s). history (f c) = history c
         \<and> (projectId c \<noteq> p \<or> coalesce (environment c) \<noteq> coalesce (sr_environment q) \<or> key c = None \<longrightarrow> f c = c)
         \<and> (nextDueAt (f c) = nextDueAt c
            \<or> (\<exists>d \<in> set (sr_checks q). key c = Some (sy_key d) \<and> \<not> same_schedule c (sync_schedule d))))"
proof -
  let ?e = "sr_environment q"
  obtain rows where rows: "sync_rows env ?e [] (sr_checks q) = Inr rows"
    and s': "s' = (let s1 = upserted_db env p ?e (accepted_rows env p ?e rows s) s
          in s1\<lparr>checks := map (orphan env p ?e (keep_of q)) (checks s1)\<rparr>)"
    using sync_exact [OF assms] by metis
  let ?a = "accepted_rows env p ?e rows s"
  let ?f = "\<lambda>c. orphan env p ?e (keep_of q) (redeclare env p ?e ?a c)"
  let ?new = "map (orphan env p ?e (keep_of q)) (declared_from env p ?e (missing p ?e ?a s) (next_id s))"
  have origin: "\<exists>d \<in> set (sr_checks q). \<exists>due. r = to_sync_row env ?e d due" if "r \<in> set ?a" for r
  proof -
    have "r \<in> set rows" using that by (simp add: accepted_rows_def)
    then show ?thesis by (rule sync_rows_origin [OF rows]) blast
  qed
  have "checks s' = map ?f (checks s) @ ?new" "pings s' = pings s" "incidents s' = incidents s"
    by (simp_all add: s' Let_def upserted_db_def comp_def)
  moreover have "projectId c = p \<and> environment c = ?e \<and> state c = NEW \<and> key c \<in> Some ` sy_key ` set (sr_checks q)"
    if c: "c \<in> set ?new" for c
  proof -
    obtain x where "x \<in> set (declared_from env p ?e (missing p ?e ?a s) (next_id s))" "history c = history x"
      using c by auto
    moreover obtain r i where "r \<in> set (missing p ?e ?a s)" "x = declared_check env p ?e r i"
      using declared_origin [OF calculation(1)] by blast
    moreover from this have r: "r \<in> set ?a" by (simp add: missing_def)
    ultimately have "history c = history (declared_check env p ?e r i)" by simp
    then show ?thesis using origin [OF r] by (auto simp: history_def declared_check_def)
  qed
  moreover have "?f c = c" if "projectId c \<noteq> p \<or> coalesce (environment c) \<noteq> coalesce ?e \<or> key c = None" for c
  proof -
    have "redeclare env p ?e ?a c = c" using that by (intro redeclare_other) (auto simp: same_identity_def)
    then show ?thesis using that orphan_other [of c p ?e env "keep_of q"] by auto
  qed
  moreover have "nextDueAt (?f c) = nextDueAt c
      \<or> (\<exists>d \<in> set (sr_checks q). key c = Some (sy_key d) \<and> \<not> same_schedule c (sync_schedule d))" for c
  proof (cases "find (\<lambda>r. same_identity p ?e (k_key r) c) ?a")
    case None
    then show ?thesis by (simp add: redeclare_def)
  next
    case (Some r)
    then obtain d due where "d \<in> set (sr_checks q)" "r = to_sync_row env ?e d due" "key c = Some (k_key r)"
      using origin [of r] find_SomeD [OF Some] by (auto simp: same_identity_def)
    then show ?thesis using Some by (auto simp: redeclare_def redeclared_def)
  qed
  ultimately show ?thesis by (intro exI [of _ ?f] exI [of _ ?new]) auto
qed

section \<open>The plan's ceiling\<close>

lemma missing_not_known:
  assumes "\<forall>c \<in> set (checks s). \<not> same_identity p e k c"
  shows "k \<notin> set (findExistingKeys p ks e s)"
  using assms by (auto simp: findExistingKeys_def List.map_filter_def same_identity_def)

lemma accepted_within_room:
  assumes "remainingChecks (ce_quotas env) p s = Some room"
  shows "length (missing p e (accepted_rows env p e rows s) s) \<le> room"
proof -
  let ?known = "findExistingKeys p (map k_key rows) e s"
  let ?wc = "filter (\<lambda>r. k_key r \<notin> set ?known) rows"
  let ?skipped = "applyCheckQuota env p rows e s"
  have skipped: "?skipped = (if length ?wc \<le> room then [] else map k_key (drop room ?wc))"
    using assms by (simp add: applyCheckQuota_def Let_def)
  have eq: "missing p e (accepted_rows env p e rows s) s
      = filter (\<lambda>r. \<forall>c \<in> set (checks s). \<not> same_identity p e (k_key r) c) (filter (\<lambda>r. k_key r \<notin> set ?skipped) ?wc)"
  proof -
    have "(\<forall>c \<in> set (checks s). \<not> same_identity p e (k_key r) c) \<longrightarrow> k_key r \<notin> set ?known" for r
      using missing_not_known by blast
    then show ?thesis unfolding missing_def accepted_rows_def filter_filter by (intro filter_cong refl) blast
  qed
  have "length (missing p e (accepted_rows env p e rows s) s) \<le> length (filter (\<lambda>r. k_key r \<notin> set ?skipped) ?wc)"
    unfolding eq by (rule length_filter_le)
  also have "\<dots> \<le> room"
  proof (cases "length ?wc \<le> room")
    case True
    then show ?thesis using length_filter_le [of "\<lambda>r. k_key r \<notin> set ?skipped" ?wc] by linarith
  next
    case False
    then have "filter (\<lambda>r. k_key r \<notin> set ?skipped) (drop room ?wc) = []"
      by (simp add: skipped filter_empty_conv)
    then have "filter (\<lambda>r. k_key r \<notin> set ?skipped) ?wc = filter (\<lambda>r. k_key r \<notin> set ?skipped) (take room ?wc)"
      by (metis append_Nil2 append_take_drop_id filter_append)
    then show ?thesis
      using length_filter_le [of "\<lambda>r. k_key r \<notin> set ?skipped" "take room ?wc"]
      by (metis (no_types, lifting) length_take min.cobounded2 min.commute order_trans)
  qed
  finally show ?thesis .
qed

text \<open>
  A sync never takes an account past its plan: the owned checks grow by exactly
  the number of checks reported as created, and stay within the limit or, where the account
  was already past it, do not grow. A payload that does not fit is not refused: the rest of
  it is accepted, and the keys left out are reported.
\<close>

theorem sync_respects_plan:
  assumes "syncWithinQuota env p q s = (Inr res, s')"
    and "quotas_enabled (ce_quotas env)" "ownerOf p s = Some (u, plan)"
    and "pl_checks (limitsFor (ce_quotas env) plan) = Some l"
  shows "countOwnedChecks u s' = countOwnedChecks u s + length (filter sc_created (so_checks res))
    \<and> countOwnedChecks u s' \<le> max l (countOwnedChecks u s)"
proof -
  let ?e = "sr_environment q"
  obtain rows where s': "s' = (let s1 = upserted_db env p ?e (accepted_rows env p ?e rows s) s
          in s1\<lparr>checks := map (orphan env p ?e (keep_of q)) (checks s1)\<rparr>)"
    and created: "length (filter sc_created (so_checks res)) = length (missing p ?e (accepted_rows env p ?e rows s) s)"
    using sync_exact [OF assms(1)] by metis
  let ?miss = "missing p ?e (accepted_rows env p ?e rows s) s"
  have owns: "owns s' v x = owns s v x" for v x
    by (simp add: owns_def s' Let_def upserted_db_def)
  have old: "projectId (orphan env p ?e k (redeclare env p ?e rs c)) = projectId c" for k rs c
    using history_fields(2) [of "orphan env p ?e k (redeclare env p ?e rs c)" c] by simp
  have new: "projectId c = p" if c: "c \<in> set (map (orphan env p ?e k) (declared_from env p ?e rs n))" for c k rs n
  proof -
    obtain x where "x \<in> set (declared_from env p ?e rs n)" "history c = history x"
      using c by auto
    then obtain r i where "history c = history (declared_check env p ?e r i)"
      using declared_origin by metis
    then show ?thesis by (simp add: history_def declared_check_def)
  qed
  have mine: "owns s u p"
    using assms(3) by (auto simp: ownerOf_def owns_def dest!: find_SomeD split: option.splits)
  let ?f = "\<lambda>c. orphan env p ?e (keep_of q) (redeclare env p ?e (accepted_rows env p ?e rows s) c)"
  let ?new = "map (orphan env p ?e (keep_of q)) (declared_from env p ?e ?miss (next_id s))"
  have checks': "checks s' = map ?f (checks s) @ ?new" by (simp add: s' Let_def upserted_db_def)
  have "filter (\<lambda>c. owns s u (projectId c)) ?new = ?new"
    using new mine by (intro filter_True) (metis (no_types, lifting))
  moreover have "length ?new = length ?miss" by (simp add: declared_from_def)
  moreover have "length (filter (\<lambda>c. owns s u (projectId c)) (map ?f (checks s))) = countOwnedChecks u s"
    by (simp only: countOwnedChecks_def filter_map comp_def old length_map)
  ultimately have count: "countOwnedChecks u s' = countOwnedChecks u s + length ?miss"
    by (simp only: countOwnedChecks_def [of u s'] owns checks' filter_append length_append)
  have "remainingChecks (ce_quotas env) p s = Some (l - countOwnedChecks u s)"
    using assms(2-4) by (simp add: remainingChecks_def)
  then have "length ?miss \<le> l - countOwnedChecks u s" by (rule accepted_within_room)
  then show ?thesis using count created by linarith
qed

section \<open>An application with two jobs, on a plan of two checks\<close>

definition job :: "string \<Rightarrow> sync_check" where
  "job k = \<lparr>sy_key = k, sy_name = k, sy_cron = None, sy_interval = Some 60, sy_timezone = None,
     sy_grace = None, sy_tags = None\<rparr>"

definition two_jobs :: sync_request where
  "two_jobs = \<lparr>sr_environment = None, sr_source = None, sr_prune = None, sr_checks = [job ''a'', job ''b'']\<rparr>"

definition sample_sync_env :: sync_env where
  "sample_sync_env = \<lparr>ce_quotas = \<lparr>quotas_enabled = True, DEFAULT_PLAN = ''free'',
       planLimits = [(''free'', \<lparr>pl_checks = Some 2, pl_projects = None, pl_channelsPerProject = None,
          pl_retentionDays = None\<rparr>)]\<rparr>,
     ce_cron = minutely, ce_now = 1000, ce_newPingKey = ''fresh'', ce_nfkd = id, ce_bytes4 = [0, 0, 0, 0],
     ce_bytes3 = [0, 0, 0], ce_baseUrl = ''https://w'', ce_uuid_text = show_nat,
     se_sha256 = id, se_pingKey = show_nat\<rparr>"

definition synced :: "http_error + sync_result \<Rightarrow> (nat \<times> string list option) option" where
  "synced x = (case x of Inl _ \<Rightarrow> None | Inr r \<Rightarrow> Some (length (filter sc_created (so_checks r)), so_skipped r))"

lemma sample_sync: "synced (fst (syncWithinQuota sample_sync_env 2 two_jobs sample_account)) = Some (1, Some [''b''])"
  by code_simp

lemma sample_sync_Inr:
  obtains res s' where "syncWithinQuota sample_sync_env 2 two_jobs sample_account = (Inr res, s')"
    and "length (filter sc_created (so_checks res)) = 1"
  using sample_sync by (cases "syncWithinQuota sample_sync_env 2 two_jobs sample_account")
    (auto simp: synced_def split: sum.splits)

theorem sync_respects_plan_witness:
  "\<exists>res s'. syncWithinQuota sample_sync_env 2 two_jobs sample_account = (Inr res, s')
     \<and> countOwnedChecks 9 s' = 2"
proof -
  obtain res s' where r: "syncWithinQuota sample_sync_env 2 two_jobs sample_account = (Inr res, s')"
    and one: "length (filter sc_created (so_checks res)) = 1"
    by (rule sample_sync_Inr)
  have "countOwnedChecks 9 sample_account = 1"
    by (simp add: countOwnedChecks_def owns_def sample_account_def sample_alerting_def sample_member_def)
  then have "countOwnedChecks 9 s' = 2"
    using sync_respects_plan [OF r, of 9 "Some ''free''" 2] one
    by (simp add: sample_sync_env_def ownerOf_def sample_account_def sample_member_def limitsFor_def)
  then show ?thesis using r by blast
qed

theorem sync_keeps_history_witness:
  "\<exists>res s'. syncWithinQuota sample_sync_env 2 two_jobs sample_account = (Inr res, s')
     \<and> hd (checks s') = hd (checks sample_account)"
proof -
  obtain res s' where r: "syncWithinQuota sample_sync_env 2 two_jobs sample_account = (Inr res, s')"
    by (rule sample_sync_Inr)
  obtain f new where "checks s' = map f (checks sample_account) @ new"
    and "\<forall>c \<in> set (checks sample_account). key c = None \<longrightarrow> f c = c"
    using sync_keeps_history [OF r] by blast
  then have "hd (checks s') = hd (checks sample_account)"
    by (simp add: sample_account_def sample_alerting_def)
  then show ?thesis using r by blast
qed

end
