(* ===== verification/Retention.thy ===== *)
theory Retention
  imports ApiKeys AuditTrail
begin

text \<open>
  The nightly purge: \<^verbatim>\<open>packages/server/src/retention/retention.service.ts\<close>. A statement's
  \<open>LIMIT\<close> takes rows of the join in its order; a row that the join yields once per owner of
  its project counts once per owner. Which statements the database carries out is an
  argument, since one that throws ends the purge.
\<close>

record login_session =
  ls_user :: uuid
  ls_expiresAt :: millis

record verification =
  vf_identifier :: string
  vf_value :: string
  vf_expiresAt :: millis

record signup_attempt =
  at_network :: string
  at_accepted :: bool
  at_createdAt :: millis

record retention_state =
  rt_db :: db
  rt_sessions :: "login_session list"
  rt_verifications :: "verification list"
  rt_attempts :: "signup_attempt list"
  rt_keys :: key_service
  rt_audit :: audit_service

record retention_config =
  rc_quotas :: quota_settings
  rc_pingDays :: nat
  rc_auditDays :: nat

section \<open>The window of a project\<close>

text \<open>Plans whose retention is capped; \<open>null\<close> and absent are no cap.\<close>

definition retentionCaps :: "quota_settings \<Rightarrow> (string \<times> nat) list" where
  "retentionCaps q =
     (if \<not> quotas_enabled q then []
      else List.map_filter (\<lambda>(plan, l). map_option (Pair plan) (pl_retentionDays l)) (planLimits q))"

text \<open>\<open>project_retention\<close>: one row per owner, one row without a cap where there is none.\<close>

definition owner_plans :: "uuid \<Rightarrow> db \<Rightarrow> string option list" where
  "owner_plans p s =
     (let os = filter (\<lambda>m. m_project m = p \<and> role m = Owner) (members s)
      in if os = [] then [None]
         else map (\<lambda>m. Option.bind (find (\<lambda>u. u_id u = m_user m) (users s)) u_plan) os)"

definition project_retention :: "retention_config \<Rightarrow> project \<Rightarrow> db \<Rightarrow> nat list" where
  "project_retention cfg x s =
     map (\<lambda>plan. min (case pingRetentionDays x of None \<Rightarrow> rc_pingDays cfg | Some d \<Rightarrow> d)
            (case Option.bind plan (map_of (retentionCaps (rc_quotas cfg))) of
               None \<Rightarrow> 2147483647 | Some d \<Rightarrow> d))
       (owner_plans (pr_id x) s)"

definition days_before :: "millis \<Rightarrow> nat \<Rightarrow> millis" where
  "days_before now d = now - int d * 86400000"

text \<open>How many rows the join yields for something of a check, older than its project's window.\<close>

definition expired_rows :: "retention_config \<Rightarrow> millis \<Rightarrow> db \<Rightarrow> uuid \<Rightarrow> millis \<Rightarrow> nat" where
  "expired_rows cfg now s cid at =
     (\<Sum>c\<leftarrow>filter (\<lambda>c. c_id c = cid) (checks s).
       \<Sum>x\<leftarrow>filter (\<lambda>x. pr_id x = projectId c) (projects s).
         length (filter (\<lambda>d. at < days_before now d) (project_retention cfg x s)))"

section \<open>The statements\<close>

fun purge_rows :: "('a \<Rightarrow> nat) \<Rightarrow> nat \<Rightarrow> 'a list \<Rightarrow> nat \<times> 'a list" where
  "purge_rows w lim [] = (0, [])"
| "purge_rows w lim (x # xs) =
     (if w x = 0 \<or> lim = 0 then let (n, ys) = purge_rows w lim xs in (n, x # ys)
      else let (n, ys) = purge_rows w (lim - w x) xs in (Suc n, ys))"

definition BATCH_SIZE :: nat where "BATCH_SIZE = 10000"
definition MAX_BATCHES :: nat where "MAX_BATCHES = 200"

definition PURGE_PINGS_SQL :: "retention_config \<Rightarrow> millis \<Rightarrow> db \<Rightarrow> nat \<times> db" where
  "PURGE_PINGS_SQL cfg now s =
     (let (n, ps) = purge_rows (\<lambda>p. expired_rows cfg now s (p_check p) (receivedAt p)) BATCH_SIZE (pings s)
      in (n, s\<lparr>pings := ps\<rparr>))"

text \<open>A resolved incident; its deliveries go with it.\<close>

definition PURGE_INCIDENTS_SQL :: "retention_config \<Rightarrow> millis \<Rightarrow> db \<Rightarrow> nat \<times> db" where
  "PURGE_INCIDENTS_SQL cfg now s =
     (let (n, xs) = purge_rows (\<lambda>i. case resolvedAt i of None \<Rightarrow> 0 | Some t \<Rightarrow> expired_rows cfg now s (i_check i) t)
            BATCH_SIZE (incidents s)
      in (n, s\<lparr>incidents := xs, deliveries := filter (\<lambda>d. d_incident d \<in> i_id ` set xs) (deliveries s)\<rparr>))"

definition PURGE_DELIVERIES_SQL :: "millis \<Rightarrow> db \<Rightarrow> nat \<times> db" where
  "PURGE_DELIVERIES_SQL now s =
     (let old = (\<lambda>d. status d \<noteq> Pending \<and> d_createdAt d < days_before now 30)
      in (length (filter old (deliveries s)), s\<lparr>deliveries := filter (\<lambda>d. \<not> old d) (deliveries s)\<rparr>))"

definition purgeExpired :: "millis \<Rightarrow> verification list \<Rightarrow> nat \<times> verification list" where
  "purgeExpired now vs =
     (length (filter (\<lambda>v. vf_expiresAt v < now) vs), filter (\<lambda>v. \<not> vf_expiresAt v < now) vs)"

definition purgeOldAttempts :: "millis \<Rightarrow> signup_attempt list \<Rightarrow> nat \<times> signup_attempt list" where
  "purgeOldAttempts now xs =
     (length (filter (\<lambda>a. at_createdAt a < now - 7 * 86400000) xs),
      filter (\<lambda>a. \<not> at_createdAt a < now - 7 * 86400000) xs)"

section \<open>The pass\<close>

datatype purge_step =
    Pings nat
  | Incidents nat
  | Deliveries
  | Sessions
  | ApiKeys
  | Verifications
  | Attempts
  | AuditEvents

text \<open>At most \<open>MAX_BATCHES\<close> batches, and no more after one that was not full.\<close>

fun purge_loop :: "(nat \<Rightarrow> bool) \<Rightarrow> (db \<Rightarrow> nat \<times> db) \<Rightarrow> nat \<Rightarrow> nat \<Rightarrow> nat \<Rightarrow> db \<Rightarrow> nat option \<times> db" where
  "purge_loop up statement 0 batch purged s = (Some purged, s)"
| "purge_loop up statement (Suc left) batch purged s =
     (if \<not> up batch then (None, s)
      else let (n, s') = statement s
           in if n < BATCH_SIZE then (Some (purged + n), s')
              else purge_loop up statement left (Suc batch) (purged + n) s')"

record purge_summary =
  pg_pings :: nat
  pg_incidents :: nat
  pg_deliveries :: nat
  pg_sessions :: nat
  pg_verifications :: nat
  pg_auditEvents :: nat

definition failed_purge :: "nat \<Rightarrow> nat \<Rightarrow> purge_summary" where
  "failed_purge ps is = \<lparr>pg_pings = ps, pg_incidents = is, pg_deliveries = 0, pg_sessions = 0,
     pg_verifications = 0, pg_auditEvents = 0\<rparr>"

definition purge_rest ::
  "retention_config \<Rightarrow> millis \<Rightarrow> (purge_step \<Rightarrow> bool) \<Rightarrow> nat \<Rightarrow> nat \<Rightarrow> retention_state \<Rightarrow> purge_summary \<times> retention_state" where
  "purge_rest cfg now up ps is st =
     (if \<not> up Deliveries then (failed_purge ps is, st) else
      let (d, s1) = PURGE_DELIVERIES_SQL now (rt_db st); st1 = st\<lparr>rt_db := s1\<rparr> in
      if \<not> up Sessions then (failed_purge ps is, st1) else
      let over = (\<lambda>x. ls_expiresAt x < now);
          n = length (filter over (rt_sessions st1));
          st2 = st1\<lparr>rt_sessions := filter (\<lambda>x. \<not> over x) (rt_sessions st1)\<rparr> in
      if \<not> up ApiKeys then (failed_purge ps is, st2) else
      let st3 = st2\<lparr>rt_keys := snd (purgeDead now (rt_keys st2))\<rparr> in
      if \<not> up Verifications then (failed_purge ps is, st3) else
      let (v, vs) = purgeExpired now (rt_verifications st3); st4 = st3\<lparr>rt_verifications := vs\<rparr> in
      if \<not> up Attempts then (failed_purge ps is, st4) else
      let st5 = st4\<lparr>rt_attempts := snd (purgeOldAttempts now (rt_attempts st4))\<rparr> in
      if \<not> up AuditEvents then (failed_purge ps is, st5) else
      let (a, au) = purge_events now (rc_auditDays cfg) (rt_audit st5) in
      (\<lparr>pg_pings = ps, pg_incidents = is, pg_deliveries = d, pg_sessions = n, pg_verifications = v,
         pg_auditEvents = a\<rparr>, st5\<lparr>rt_audit := au\<rparr>))"

definition purge :: "retention_config \<Rightarrow> millis \<Rightarrow> (purge_step \<Rightarrow> bool) \<Rightarrow> retention_state \<Rightarrow> purge_summary \<times> retention_state" where
  "purge cfg now up st =
     (case purge_loop (\<lambda>b. up (Pings b)) (PURGE_PINGS_SQL cfg now) MAX_BATCHES 0 0 (rt_db st) of
        (None, s1) \<Rightarrow> (failed_purge 0 0, st\<lparr>rt_db := s1\<rparr>)
      | (Some ps, s1) \<Rightarrow>
          (case purge_loop (\<lambda>b. up (Incidents b)) (PURGE_INCIDENTS_SQL cfg now) MAX_BATCHES 0 0 s1 of
             (None, s2) \<Rightarrow> (failed_purge ps 0, st\<lparr>rt_db := s2\<rparr>)
           | (Some is, s2) \<Rightarrow> purge_rest cfg now up ps is (st\<lparr>rt_db := s2\<rparr>)))"

section \<open>Batches\<close>

lemma purge_rows_spares: "filter (\<lambda>x. w x = 0) (snd (purge_rows w lim xs)) = filter (\<lambda>x. w x = 0) xs"
  by (induction w lim xs rule: purge_rows.induct) (auto simp: split_beta)

lemma purge_rows_sublist: "set (snd (purge_rows w lim xs)) \<subseteq> set xs"
  by (induction w lim xs rule: purge_rows.induct) (auto simp: split_beta)

lemma purge_rows_distinct: "distinct (map f (filter P xs)) \<Longrightarrow> distinct (map f (filter P (snd (purge_rows w lim xs))))"
proof (induction w lim xs rule: purge_rows.induct)
  case (2 w lim x xs)
  have "set (snd (purge_rows w lim xs)) \<subseteq> set xs" by (rule purge_rows_sublist)
  then show ?case using 2 by (auto simp: split_beta split: if_splits)
qed simp

lemma purge_rows_count:
  assumes "\<And>x. w x \<le> 1"
  shows "fst (purge_rows w lim xs) = min lim (length (filter (\<lambda>x. w x \<noteq> 0) xs))"
    and "length (filter (\<lambda>x. w x \<noteq> 0) (snd (purge_rows w lim xs))) = length (filter (\<lambda>x. w x \<noteq> 0) xs) - lim"
proof -
  have "fst (purge_rows w lim xs) = min lim (length (filter (\<lambda>x. w x \<noteq> 0) xs))
    \<and> length (filter (\<lambda>x. w x \<noteq> 0) (snd (purge_rows w lim xs))) = length (filter (\<lambda>x. w x \<noteq> 0) xs) - lim"
  proof (induction xs arbitrary: lim)
    case (Cons x xs)
    have "w x = 0 \<or> w x = 1" using assms [of x] by linarith
    then show ?case using Cons [of lim] Cons [of "lim - 1"]
      by (cases lim) (auto simp: split_beta min_def)
  qed simp
  then show "fst (purge_rows w lim xs) = min lim (length (filter (\<lambda>x. w x \<noteq> 0) xs))"
    "length (filter (\<lambda>x. w x \<noteq> 0) (snd (purge_rows w lim xs))) = length (filter (\<lambda>x. w x \<noteq> 0) xs) - lim"
    by simp_all
qed

text \<open>
  What the loop needs of a statement: it keeps what matters, and deletes a full batch or
  everything there is.
\<close>

locale batched =
  fixes statement :: "db \<Rightarrow> nat \<times> db" and todo :: "db \<Rightarrow> nat" and good :: "db \<Rightarrow> bool" and keeps :: "db \<Rightarrow> db \<Rightarrow> bool"
  assumes deletes: "good s \<Longrightarrow> fst (statement s) = min BATCH_SIZE (todo s)"
    and progress: "good s \<Longrightarrow> todo (snd (statement s)) = todo s - BATCH_SIZE"
    and stays_good: "good s \<Longrightarrow> good (snd (statement s))"
    and spares: "keeps s (snd (statement s))"
    and keeps_refl: "keeps s s"
    and keeps_trans: "keeps s t \<Longrightarrow> keeps t u \<Longrightarrow> keeps s u"
begin

lemma loop_keeps: "keeps s (snd (purge_loop up statement left batch purged s))"
proof (induction left arbitrary: batch purged s)
  case (Suc left)
  then show ?case using spares keeps_trans keeps_refl by (fastforce simp: split_beta)
qed (simp add: keeps_refl)

lemma loop_finishes:
  assumes "\<And>b. up b" "good s" "todo s \<le> left * BATCH_SIZE"
  shows "fst (purge_loop up statement left batch purged s) = Some (purged + todo s)
    \<and> todo (snd (purge_loop up statement left batch purged s)) = 0"
  using assms(2,3)
proof (induction left arbitrary: batch purged s)
  case (Suc left)
  obtain n s' where st: "statement s = (n, s')" by fastforce
  have n: "n = min BATCH_SIZE (todo s)" "todo s' = todo s - BATCH_SIZE" "good s'"
    using deletes progress stays_good Suc.prems(1) st by (metis fst_conv snd_conv)+
  show ?case
  proof (cases "n < BATCH_SIZE")
    case True
    then have "todo s < BATCH_SIZE" using n(1) by simp
    then show ?thesis using n assms(1) by (simp add: st)
  next
    case False
    moreover have "todo s' \<le> left * BATCH_SIZE" using n(2) Suc.prems(2) by simp
    ultimately show ?thesis using Suc.IH [OF n(3)] n(1,2) assms(1) by (simp add: st)
  qed
qed simp

end

section \<open>Pings\<close>

definition one_window :: "retention_config \<Rightarrow> millis \<Rightarrow> db \<Rightarrow> bool" where
  "one_window cfg now s \<longleftrightarrow> (\<forall>cid at. expired_rows cfg now s cid at \<le> 1)"

definition ping_expired :: "retention_config \<Rightarrow> millis \<Rightarrow> db \<Rightarrow> ping \<Rightarrow> bool" where
  "ping_expired cfg now s p \<longleftrightarrow> expired_rows cfg now s (p_check p) (receivedAt p) \<noteq> 0"

definition incident_expired :: "retention_config \<Rightarrow> millis \<Rightarrow> db \<Rightarrow> incident \<Rightarrow> bool" where
  "incident_expired cfg now s i \<longleftrightarrow>
     (case resolvedAt i of None \<Rightarrow> False | Some t \<Rightarrow> expired_rows cfg now s (i_check i) t \<noteq> 0)"

text \<open>What a purge of one kind leaves alone: the windows, and every row still inside its own.\<close>

definition same_windows :: "db \<Rightarrow> db \<Rightarrow> bool" where
  "same_windows s t \<longleftrightarrow> checks t = checks s \<and> projects t = projects s \<and> members t = members s
     \<and> users t = users s \<and> channels t = channels s"

lemma expired_rows_frame:
  assumes "same_windows s t"
  shows "expired_rows cfg now t = expired_rows cfg now s"
proof (intro ext)
  fix cid at
  have eqs: "checks t = checks s" "projects t = projects s" "members t = members s" "users t = users s"
    using assms by (simp_all add: same_windows_def)
  show "expired_rows cfg now t cid at = expired_rows cfg now s cid at"
    unfolding expired_rows_def project_retention_def owner_plans_def eqs by (rule refl)
qed

definition keeps_pings :: "retention_config \<Rightarrow> millis \<Rightarrow> db \<Rightarrow> db \<Rightarrow> bool" where
  "keeps_pings cfg now s t \<longleftrightarrow> same_windows s t \<and> incidents t = incidents s \<and> deliveries t = deliveries s
     \<and> filter (\<lambda>p. \<not> ping_expired cfg now s p) (pings t) = filter (\<lambda>p. \<not> ping_expired cfg now s p) (pings s)"

lemma purge_pings_result:
  "snd (PURGE_PINGS_SQL cfg now s) = s\<lparr>pings := snd (purge_rows (\<lambda>p. expired_rows cfg now s (p_check p) (receivedAt p)) BATCH_SIZE (pings s))\<rparr>"
  "fst (PURGE_PINGS_SQL cfg now s) = fst (purge_rows (\<lambda>p. expired_rows cfg now s (p_check p) (receivedAt p)) BATCH_SIZE (pings s))"
  by (simp_all add: PURGE_PINGS_SQL_def split_beta)

lemma same_windows_pings [simp]: "same_windows s (s\<lparr>pings := ps\<rparr>)"
  by (simp add: same_windows_def)

interpretation ping_batches:
  batched "PURGE_PINGS_SQL cfg now" "\<lambda>s. length (filter (ping_expired cfg now s) (pings s))"
    "one_window cfg now" "keeps_pings cfg now" for cfg now
proof
  fix s t u
  have frame: "expired_rows cfg now (s\<lparr>pings := ps\<rparr>) = expired_rows cfg now s" for ps
    by (rule expired_rows_frame) simp
  show "keeps_pings cfg now s s" by (simp add: keeps_pings_def same_windows_def)
  show "keeps_pings cfg now s (snd (PURGE_PINGS_SQL cfg now s))"
    by (simp add: keeps_pings_def purge_pings_result ping_expired_def purge_rows_spares)
  show "keeps_pings cfg now s u" if "keeps_pings cfg now s t" "keeps_pings cfg now t u"
  proof -
    have "expired_rows cfg now t = expired_rows cfg now s"
      using that(1) expired_rows_frame by (simp add: keeps_pings_def)
    then show ?thesis using that by (auto simp: keeps_pings_def same_windows_def ping_expired_def)
  qed
  assume "one_window cfg now s"
  then have one: "expired_rows cfg now s (p_check p) (receivedAt p) \<le> 1" for p
    by (simp add: one_window_def)
  show "fst (PURGE_PINGS_SQL cfg now s) = min BATCH_SIZE (length (filter (ping_expired cfg now s) (pings s)))"
    using purge_rows_count(1) [OF one] by (simp add: purge_pings_result ping_expired_def [abs_def])
  show "length (filter (ping_expired cfg now (snd (PURGE_PINGS_SQL cfg now s))) (pings (snd (PURGE_PINGS_SQL cfg now s))))
      = length (filter (ping_expired cfg now s) (pings s)) - BATCH_SIZE"
    using purge_rows_count(2) [OF one] by (simp add: purge_pings_result ping_expired_def [abs_def] frame)
  show "one_window cfg now (snd (PURGE_PINGS_SQL cfg now s))"
    using \<open>one_window cfg now s\<close> by (simp add: one_window_def purge_pings_result frame)
qed

section \<open>Incidents\<close>

definition keeps_incidents :: "retention_config \<Rightarrow> millis \<Rightarrow> db \<Rightarrow> db \<Rightarrow> bool" where
  "keeps_incidents cfg now s t \<longleftrightarrow> same_windows s t \<and> pings t = pings s
     \<and> filter (\<lambda>i. \<not> incident_expired cfg now s i) (incidents t) = filter (\<lambda>i. \<not> incident_expired cfg now s i) (incidents s)
     \<and> (\<forall>d. d_incident d \<in> i_id ` set (incidents t) \<longrightarrow> d \<in> set (deliveries s) \<longrightarrow> d \<in> set (deliveries t))
     \<and> set (incidents t) \<subseteq> set (incidents s)"

definition incident_weight :: "retention_config \<Rightarrow> millis \<Rightarrow> db \<Rightarrow> incident \<Rightarrow> nat" where
  "incident_weight cfg now s i = (case resolvedAt i of None \<Rightarrow> 0 | Some t \<Rightarrow> expired_rows cfg now s (i_check i) t)"

lemma incident_expired_rows: "incident_expired cfg now s i \<longleftrightarrow> incident_weight cfg now s i \<noteq> 0"
  by (simp add: incident_expired_def incident_weight_def split: option.splits)

lemma purge_incidents_result:
  "snd (PURGE_INCIDENTS_SQL cfg now s) =
     s\<lparr>incidents := snd (purge_rows (incident_weight cfg now s) BATCH_SIZE (incidents s)),
       deliveries := filter (\<lambda>d. d_incident d \<in> i_id ` set (snd (purge_rows (incident_weight cfg now s) BATCH_SIZE (incidents s)))) (deliveries s)\<rparr>"
  "fst (PURGE_INCIDENTS_SQL cfg now s) = fst (purge_rows (incident_weight cfg now s) BATCH_SIZE (incidents s))"
  by (simp_all add: PURGE_INCIDENTS_SQL_def incident_weight_def [abs_def] split_beta)

lemma same_windows_incidents [simp]: "same_windows s (s\<lparr>incidents := xs, deliveries := ds\<rparr>)"
  by (simp add: same_windows_def)

interpretation incident_batches:
  batched "PURGE_INCIDENTS_SQL cfg now" "\<lambda>s. length (filter (incident_expired cfg now s) (incidents s))"
    "one_window cfg now" "keeps_incidents cfg now" for cfg now
proof
  fix s t u
  have frame: "expired_rows cfg now (s\<lparr>incidents := xs, deliveries := ds\<rparr>) = expired_rows cfg now s" for xs ds
    by (rule expired_rows_frame) simp
  show "keeps_incidents cfg now s s" by (simp add: keeps_incidents_def same_windows_def)
  show "keeps_incidents cfg now s (snd (PURGE_INCIDENTS_SQL cfg now s))"
    using purge_rows_sublist
    by (simp add: keeps_incidents_def purge_incidents_result incident_expired_rows purge_rows_spares)
  show "keeps_incidents cfg now s u" if "keeps_incidents cfg now s t" "keeps_incidents cfg now t u"
  proof -
    have "expired_rows cfg now t = expired_rows cfg now s"
      using that(1) expired_rows_frame by (simp add: keeps_incidents_def)
    then have same: "incident_expired cfg now t = incident_expired cfg now s"
      by (intro ext) (simp add: incident_expired_def split: option.splits)
    note k1 = that(1) [unfolded keeps_incidents_def] and k2 = that(2) [unfolded keeps_incidents_def same]
    have "i_id ` set (incidents u) \<subseteq> i_id ` set (incidents t)" using k2 by (simp add: image_mono)
    then have "\<forall>d. d_incident d \<in> i_id ` set (incidents u) \<longrightarrow> d \<in> set (deliveries s) \<longrightarrow> d \<in> set (deliveries u)"
      using k1 k2 by blast
    moreover have "set (incidents u) \<subseteq> set (incidents s)" using k1 k2 by blast
    moreover have "same_windows s u" using k1 k2 by (simp add: same_windows_def)
    ultimately show ?thesis using k1 k2 by (simp add: keeps_incidents_def)
  qed
  assume "one_window cfg now s"
  then have one: "incident_weight cfg now s i \<le> 1" for i
    by (simp add: one_window_def incident_weight_def split: option.splits)
  have rows: "incident_weight cfg now (snd (PURGE_INCIDENTS_SQL cfg now s)) = incident_weight cfg now s"
    by (intro ext) (simp add: incident_weight_def purge_incidents_result frame split: option.splits)
  show "fst (PURGE_INCIDENTS_SQL cfg now s) = min BATCH_SIZE (length (filter (incident_expired cfg now s) (incidents s)))"
    using purge_rows_count(1) [of "incident_weight cfg now s", OF one]
    by (simp add: purge_incidents_result incident_expired_rows [abs_def])
  show "length (filter (incident_expired cfg now (snd (PURGE_INCIDENTS_SQL cfg now s))) (incidents (snd (PURGE_INCIDENTS_SQL cfg now s))))
      = length (filter (incident_expired cfg now s) (incidents s)) - BATCH_SIZE"
    using purge_rows_count(2) [of "incident_weight cfg now s", OF one]
    by (simp add: incident_expired_rows [abs_def] rows) (simp add: purge_incidents_result)
  show "one_window cfg now (snd (PURGE_INCIDENTS_SQL cfg now s))"
    using \<open>one_window cfg now s\<close> by (simp add: one_window_def purge_incidents_result frame)
qed

section \<open>What a purge leaves, and what it removes\<close>

lemma keeps_pings_facts:
  assumes "keeps_pings cfg now s t"
  shows "\<forall>p \<in> set (pings s). \<not> ping_expired cfg now s p \<longrightarrow> p \<in> set (pings t)"
    and "incidents t = incidents s" "deliveries t = deliveries s" "same_windows s t"
proof -
  have f: "set (filter (\<lambda>p. \<not> ping_expired cfg now s p) (pings t)) = set (filter (\<lambda>p. \<not> ping_expired cfg now s p) (pings s))"
    using assms by (simp add: keeps_pings_def)
  show "\<forall>p \<in> set (pings s). \<not> ping_expired cfg now s p \<longrightarrow> p \<in> set (pings t)" using f by auto
qed (use assms in \<open>simp_all add: keeps_pings_def\<close>)

lemma keeps_incidents_facts:
  assumes "keeps_incidents cfg now s t"
  shows "\<forall>i \<in> set (incidents s). \<not> incident_expired cfg now s i \<longrightarrow> i \<in> set (incidents t)"
    and "\<forall>d \<in> set (deliveries s). d_incident d \<in> i_id ` set (incidents t) \<longrightarrow> d \<in> set (deliveries t)"
    and "pings t = pings s" "same_windows s t"
proof -
  have f: "set (filter (\<lambda>p. \<not> incident_expired cfg now s p) (incidents t)) = set (filter (\<lambda>p. \<not> incident_expired cfg now s p) (incidents s))"
    using assms by (simp add: keeps_incidents_def)
  show "\<forall>i \<in> set (incidents s). \<not> incident_expired cfg now s i \<longrightarrow> i \<in> set (incidents t)" using f by auto
qed (use assms in \<open>auto simp: keeps_incidents_def\<close>)

lemma purge_rest_db:
  "\<exists>ds. rt_db (snd (purge_rest cfg now up ps is st)) = (rt_db st)\<lparr>deliveries := ds\<rparr>
     \<and> (\<forall>d \<in> set (deliveries (rt_db st)). status d = Pending \<longrightarrow> d \<in> set ds)"
proof (cases "up Deliveries")
  case False
  then have "rt_db (snd (purge_rest cfg now up ps is st)) = (rt_db st)\<lparr>deliveries := deliveries (rt_db st)\<rparr>"
    by (simp add: purge_rest_def)
  then show ?thesis by blast
next
  case True
  then have "rt_db (snd (purge_rest cfg now up ps is st)) = (rt_db st)\<lparr>deliveries :=
      filter (\<lambda>d. \<not> (status d \<noteq> Pending \<and> d_createdAt d < days_before now 30)) (deliveries (rt_db st))\<rparr>"
    by (simp add: purge_rest_def PURGE_DELIVERIES_SQL_def Let_def split_beta)
  moreover have "\<forall>d \<in> set (deliveries (rt_db st)). status d = Pending \<longrightarrow>
      d \<in> set (filter (\<lambda>d. \<not> (status d \<noteq> Pending \<and> d_createdAt d < days_before now 30)) (deliveries (rt_db st)))"
    by simp
  ultimately show ?thesis by blast
qed


text \<open>One owner per project, as sign-up and project creation make them: the join yields a row at most once.\<close>

lemma sum_list_short: "length xs \<le> 1 \<Longrightarrow> (\<And>x. x \<in> set xs \<Longrightarrow> f x \<le> (1::nat)) \<Longrightarrow> (\<Sum>x\<leftarrow>xs. f x) \<le> 1"
  by (cases xs) auto

lemma one_owner_one_window:
  assumes "distinct (map c_id (checks s))" "distinct (map pr_id (projects s))"
    and "\<And>p. length (filter (\<lambda>m. m_project m = p \<and> role m = Owner) (members s)) \<le> 1"
  shows "one_window cfg now s"
  unfolding one_window_def expired_rows_def
proof (intro allI sum_list_short)
  fix cid at and c x
  show "length (filter (\<lambda>c. c_id c = cid) (checks s)) \<le> 1"
    "length (filter (\<lambda>x. pr_id x = projectId c) (projects s)) \<le> 1"
    using filter_distinct_key [OF assms(1)] filter_distinct_key [OF assms(2)] by simp_all
  have "length (project_retention cfg x s) \<le> 1"
    using assms(3) [of "pr_id x"] by (simp add: project_retention_def owner_plans_def Let_def)
  then show "length (filter (\<lambda>d. at < days_before now d) (project_retention cfg x s)) \<le> 1"
    using length_filter_le order_trans by blast
qed

text \<open>
  C36. A purge whose statements all succeed, with at most two million rows of a kind to
  remove, finishes the work: no heartbeat and no resolved incident older than its project's
  window is left, and the numbers it reports are those it removed.
\<close>

theorem purge_clears_the_expired:
  assumes "\<And>x. up x" and "one_window cfg now (rt_db st)"
    and "length (filter (ping_expired cfg now (rt_db st)) (pings (rt_db st))) \<le> MAX_BATCHES * BATCH_SIZE"
    and "length (filter (incident_expired cfg now (rt_db st)) (incidents (rt_db st))) \<le> MAX_BATCHES * BATCH_SIZE"
    and "purge cfg now up st = (summary, st')"
  shows "\<not> list_ex (ping_expired cfg now (rt_db st)) (pings (rt_db st'))
    \<and> \<not> list_ex (incident_expired cfg now (rt_db st)) (incidents (rt_db st'))
    \<and> pg_pings summary = length (filter (ping_expired cfg now (rt_db st)) (pings (rt_db st)))
    \<and> pg_incidents summary = length (filter (incident_expired cfg now (rt_db st)) (incidents (rt_db st)))"
proof -
  let ?s = "rt_db st"
  obtain r1 s1 where l1: "purge_loop (\<lambda>b. up (Pings b)) (PURGE_PINGS_SQL cfg now) MAX_BATCHES 0 0 ?s = (r1, s1)"
    by fastforce
  obtain r2 s2 where l2: "purge_loop (\<lambda>b. up (Incidents b)) (PURGE_INCIDENTS_SQL cfg now) MAX_BATCHES 0 0 s1 = (r2, s2)"
    by fastforce
  have f1: "r1 = Some (length (filter (ping_expired cfg now ?s) (pings ?s)))" "filter (ping_expired cfg now s1) (pings s1) = []"
    using ping_batches.loop_finishes [of "\<lambda>b. up (Pings b)" cfg now ?s MAX_BATCHES 0 0] assms(1-3) l1 by simp_all
  have k1: "keeps_pings cfg now ?s s1" using ping_batches.loop_keeps l1 by (metis snd_conv)
  note rows = expired_rows_frame [OF keeps_pings_facts(4) [OF k1]]
  have same: "incident_expired cfg now s1 = incident_expired cfg now ?s" "ping_expired cfg now s1 = ping_expired cfg now ?s"
    "one_window cfg now s1"
    using rows assms(2)
    by (auto simp: incident_expired_def [abs_def] ping_expired_def [abs_def] one_window_def split: option.splits)
  have f2: "r2 = Some (length (filter (incident_expired cfg now ?s) (incidents ?s)))"
    "filter (incident_expired cfg now s2) (incidents s2) = []"
    using incident_batches.loop_finishes [of "\<lambda>b. up (Incidents b)" cfg now s1 MAX_BATCHES 0 0] assms(1,4) l2 same
      keeps_pings_facts(2) [OF k1] by simp_all
  have k2: "keeps_incidents cfg now s1 s2" using incident_batches.loop_keeps l2 by (metis snd_conv)
  have same2: "incident_expired cfg now s2 = incident_expired cfg now ?s"
    using expired_rows_frame [OF keeps_incidents_facts(4) [OF k2]] same(1)
    by (auto simp: incident_expired_def [abs_def] split: option.splits)
  have run: "purge cfg now up st = purge_rest cfg now up (the r1) (the r2) (st\<lparr>rt_db := s2\<rparr>)"
    by (simp add: purge_def l1 [unfolded f1(1)] l2 [unfolded f2(1)] f1(1) f2(1))
  obtain ds where "rt_db st' = s2\<lparr>deliveries := ds\<rparr>"
    using assms(5) purge_rest_db [of cfg now up "the r1" "the r2" "st\<lparr>rt_db := s2\<rparr>"] run by auto
  moreover have "pg_pings summary = the r1 \<and> pg_incidents summary = the r2"
  proof -
    have "fst (purge_rest cfg now up a b st) = summary \<Longrightarrow> pg_pings summary = a \<and> pg_incidents summary = b" for a b st
      by (auto simp: purge_rest_def failed_purge_def Let_def split_beta)
    then show ?thesis using assms(5) run by (metis fst_conv)
  qed
  ultimately show ?thesis
    using f1 f2 keeps_incidents_facts(3) [OF k2] same(2) same2
    by (auto simp: list_ex_iff filter_empty_conv)
qed

section \<open>The query and the quota service agree\<close>

lemma find_hd: "filter p xs = x # ys \<Longrightarrow> find p xs = Some x"
  by (induction xs) (auto split: if_splits)

lemma map_of_caps:
  "quotas_enabled q \<Longrightarrow> distinct (map fst (planLimits q)) \<Longrightarrow>
     map_of (retentionCaps q) p = Option.bind (map_of (planLimits q) p) pl_retentionDays"
proof -
  have none: "p \<notin> fst ` set ps \<Longrightarrow> map_of (List.map_filter (\<lambda>(plan, l). map_option (Pair plan) (pl_retentionDays l)) ps) p = None" for ps
    by (induction ps) (auto simp: map_filter_simps split: option.splits)
  have "distinct (map fst ps) \<Longrightarrow>
    map_of (List.map_filter (\<lambda>(plan, l). map_option (Pair plan) (pl_retentionDays l)) ps) p = Option.bind (map_of ps p) pl_retentionDays" for ps
    by (induction ps) (auto simp: map_filter_simps none split: option.splits)
  then show "quotas_enabled q \<Longrightarrow> distinct (map fst (planLimits q)) \<Longrightarrow>
     map_of (retentionCaps q) p = Option.bind (map_of (planLimits q) p) pl_retentionDays"
    by (simp add: retentionCaps_def)
qed

text \<open>
  The window the purge computes in SQL is the one the quota service computes for the
  interface: what the project asked for, or the server's default, capped by its owner's plan.
\<close>

theorem retention_query_agrees:
  assumes "filter (\<lambda>m. m_project m = pr_id x \<and> role m = Owner) (members s) = [m]"
    and "find (\<lambda>u. u_id u = m_user m) (users s) = Some u"
    and "distinct (map fst (planLimits (rc_quotas cfg)))"
    and "(case pingRetentionDays x of None \<Rightarrow> rc_pingDays cfg | Some d \<Rightarrow> d) \<le> 2147483647"
  shows "project_retention cfg x s =
    [retentionDaysFor (rc_quotas cfg) (pr_id x) (case pingRetentionDays x of None \<Rightarrow> rc_pingDays cfg | Some d \<Rightarrow> d) s]"
proof -
  let ?q = "rc_quotas cfg"
  have "find (\<lambda>m. m_project m = pr_id x \<and> role m = Owner) (members s) = Some m"
    using find_hd [OF assms(1)] .
  then have owner: "ownerOf (pr_id x) s = Some (u_id u, u_plan u)"
    using assms(2) by (simp add: ownerOf_def)
  have plans: "owner_plans (pr_id x) s = [u_plan u]"
    using assms(1,2) by (simp add: owner_plans_def Let_def)
  show ?thesis
  proof (cases "quotas_enabled ?q")
    case False
    then show ?thesis using assms(4)
      by (cases "u_plan u") (simp_all add: project_retention_def plans retentionCaps_def retentionDaysFor_def limitsForProject_def UNLIMITED_def)
  next
    case True
    then show ?thesis using assms(4) map_of_caps [OF True assms(3)]
      by (cases "u_plan u")
        (auto simp: project_retention_def plans retentionDaysFor_def limitsForProject_def owner limitsFor_def UNLIMITED_def
          split: option.splits)
  qed
qed

section \<open>A long outage\<close>

text \<open>
  A recovery message goes only to a channel's incident whose alert was sent, and the
  trace of that is the delivery row, which the purge removes after thirty days whatever the
  state of the incident: an outage longer than that ends without a word.
\<close>

theorem long_outage_recovers_silently:
  assumes "\<forall>d \<in> set (deliveries s). d_incident d = i \<and> status d = Sent \<longrightarrow> d_createdAt d < days_before now 30"
  shows "enqueue later [(i, c)] UpAlert (snd (PURGE_DELIVERIES_SQL now s)) = (0, snd (PURGE_DELIVERIES_SQL now s))"
proof -
  have "\<not> down_was_sent (snd (PURGE_DELIVERIES_SQL now s)) i"
    using assms by (auto simp: down_was_sent_def PURGE_DELIVERIES_SQL_def Let_def)
  then show ?thesis by (simp add: enqueue_def ENQUEUE_SQL_def enqueue_targets_def)
qed

section \<open>Examples\<close>

definition day :: millis where "day = 86400000"

definition two_pings :: db where
  "two_pings = sample_account\<lparr>pings := map (\<lambda>t. \<lparr>p_check = 1, receivedAt = t, p_kind = SuccessPing, exitCode = None,
     durationMs = None, body = None, sourceIp = None, userAgent = None\<rparr>) [0, 9 * day]\<rparr>"

definition sample_retention :: retention_state where
  "sample_retention = \<lparr>rt_db = two_pings, rt_sessions = [], rt_verifications = [], rt_attempts = [],
     rt_keys = \<lparr>api_keys = [], lastUsedWrites = [], next_key = 0\<rparr>,
     rt_audit = \<lparr>au_events = [], au_emails = [], au_next = 0\<rparr>\<rparr>"

definition sample_retention_config :: retention_config where
  "sample_retention_config = \<lparr>rc_quotas = sample_plans, rc_pingDays = 30, rc_auditDays = 365\<rparr>"

lemmas retention_samples = sample_retention_def two_pings_def sample_retention_config_def sample_plans_def
  sample_account_def sample_alerting_def sample_member_def empty_db_def

lemma sample_retention_window: "project_retention sample_retention_config x two_pings = [7]" if "pr_id x = 2" "pingRetentionDays x = None"
  using that by (simp add: project_retention_def owner_plans_def retentionCaps_def retention_samples map_filter_simps)

lemma sample_pings_expired:
  "filter (ping_expired sample_retention_config (10 * day) two_pings) (pings two_pings) = [hd (pings two_pings)]"
proof -
  have "expired_rows sample_retention_config (10 * day) two_pings 1 t = (if t < 3 * day then 1 else 0)" for t
  proof -
    have "filter (\<lambda>c. c_id c = 1) (checks two_pings) = checks two_pings" "map projectId (checks two_pings) = [2]"
      "filter (\<lambda>x. pr_id x = 2) (projects two_pings) = projects two_pings" "length (projects two_pings) = 1"
      "pingRetentionDays (hd (projects two_pings)) = None" "pr_id (hd (projects two_pings)) = 2"
      by (simp_all add: two_pings_def sample_account_def sample_alerting_def)
    moreover from this obtain c x where "checks two_pings = [c]" "projectId c = 2" "projects two_pings = [x]"
      by (cases "checks two_pings"; cases "projects two_pings") auto
    ultimately show ?thesis
      using sample_retention_window [of x] by (simp add: expired_rows_def days_before_def day_def)
  qed
  then show ?thesis by (simp add: ping_expired_def two_pings_def day_def)
qed

theorem purge_clears_the_expired_witness:
  "pg_pings (fst (purge sample_retention_config (10 * day) (\<lambda>_. True) sample_retention)) = 1"
proof -
  obtain summary st' where p: "purge sample_retention_config (10 * day) (\<lambda>_. True) sample_retention = (summary, st')"
    by fastforce
  have db: "rt_db sample_retention = two_pings" by (simp add: sample_retention_def)
  have "one_window sample_retention_config (10 * day) two_pings"
    by (rule one_owner_one_window) (simp_all add: two_pings_def sample_account_def sample_alerting_def)
  moreover have "filter (incident_expired sample_retention_config (10 * day) two_pings) (incidents two_pings) = []"
    by (simp add: incident_expired_def two_pings_def sample_account_def sample_alerting_def)
  moreover note sample_pings_expired
  ultimately have "pg_pings summary = 1"
    using purge_clears_the_expired [OF _ _ _ _ p] by (simp add: db MAX_BATCHES_def BATCH_SIZE_def)
  then show ?thesis by (simp add: p)
qed


theorem retention_query_agrees_witness:
  "project_retention sample_retention_config (hd (projects sample_account)) sample_account = [7]"
  using retention_query_agrees [of "hd (projects sample_account)" sample_account "sample_member 2 9"
      "hd (users sample_account)" sample_retention_config]
  by (simp add: retention_samples retentionDaysFor_def limitsForProject_def ownerOf_def limitsFor_def)

definition announced :: db where
  "announced = sample_account\<lparr>deliveries := [sample_delivery\<lparr>status := Sent, sentAt := Some 0\<rparr>]\<rparr>"

theorem long_outage_recovers_silently_witness:
  "fst (enqueue (32 * day) [(3, 1)] UpAlert announced) = 1
   \<and> fst (enqueue (32 * day) [(3, 1)] UpAlert (snd (PURGE_DELIVERIES_SQL (31 * day) announced))) = 0"
proof
  show "fst (enqueue (32 * day) [(3, 1)] UpAlert announced) = 1"
    by (simp add: enqueue_def ENQUEUE_SQL_def enqueue_targets_def down_was_sent_def insert_delivery_def announced_def
        sample_account_def sample_alerting_def sample_delivery_def delivery_key_def)
  have "enqueue (32 * day) [(3, 1)] UpAlert (snd (PURGE_DELIVERIES_SQL (31 * day) announced))
      = (0, snd (PURGE_DELIVERIES_SQL (31 * day) announced))"
    by (rule long_outage_recovers_silently)
      (simp add: announced_def sample_delivery_def days_before_def day_def)
  then show "fst (enqueue (32 * day) [(3, 1)] UpAlert (snd (PURGE_DELIVERIES_SQL (31 * day) announced))) = 0" by simp
qed

end
