(* ===== verification/Stripe.thy ===== *)
theory Stripe
  imports Crypto Json "HOL-Library.List_Lexorder" "HOL-Library.Char_ord" "HOL-Library.Multiset"
begin

text \<open>
  What is exchanged with Stripe: reading and deciding on its events
  (\<^verbatim>\<open>packages/server/src/billing/stripe-events.ts\<close>), the signature of the webhook
  (\<^verbatim>\<open>stripe-signature.ts\<close>) and the requests of \<^verbatim>\<open>stripe.api.ts\<close>. Texts are byte lists.
  HMAC, SHA-256, \<open>JSON.stringify\<close> and \<open>fetch\<close> are parameters; times are whole numbers.
\<close>

section \<open>Reading JSON values\<close>

definition optional_field :: "string \<Rightarrow> json option \<Rightarrow> json option" where
  "optional_field k v = (case v of None \<Rightarrow> None | Some j \<Rightarrow> field k j)"

definition asString :: "json option \<Rightarrow> string option" where
  "asString v = (case v of Some (JStr s) \<Rightarrow> if s = [] then None else Some s | _ \<Rightarrow> None)"

definition idOf :: "json option \<Rightarrow> string option" where
  "idOf v = (case asString v of Some s \<Rightarrow> Some s | None \<Rightarrow> asString (optional_field ''id'' v))"

section \<open>Events\<close>

text \<open>\<open>data.object\<close> is \<open>None\<close> where the event carries none.\<close>

record stripe_event =
  st_id :: string
  st_type :: string
  st_created :: "int option"
  st_object :: "json option"

record subscription_change =
  su_customer :: string
  su_subscription :: string
  su_status :: string
  su_price :: "string option"
  su_periodEnd :: "int option"
  su_cancelAtEnd :: bool

definition LIVE_STATUSES :: "string list" where
  "LIVE_STATUSES = [''active'', ''trialing'', ''past_due'']"

definition ENDED_STATUSES :: "string list" where
  "ENDED_STATUSES = [''canceled'', ''unpaid'', ''incomplete_expired'', ''paused'']"

definition SUBSCRIPTION_EVENTS :: "string list" where
  "SUBSCRIPTION_EVENTS = [''customer.subscription.created'', ''customer.subscription.updated'',
     ''customer.subscription.deleted'', ''customer.subscription.paused'', ''customer.subscription.resumed'']"

text \<open>
  \<open>None\<close>: reading a property of a missing object throws. \<open>Some None\<close>: not an event to act on.
\<close>

definition readSubscriptionEvent :: "stripe_event \<Rightarrow> subscription_change option option" where
  "readSubscriptionEvent ev =
     (if st_type ev \<notin> set SUBSCRIPTION_EVENTS then Some None
      else case st_object ev of
        None \<Rightarrow> None
      | Some JNull \<Rightarrow> None
      | Some sub \<Rightarrow>
          (case (idOf (field ''customer'' sub), asString (field ''id'' sub)) of
             (Some customer, Some sid) \<Rightarrow>
               let status = (if st_type ev = ''customer.subscription.deleted'' then ''canceled''
                             else case asString (field ''status'' sub) of None \<Rightarrow> ''incomplete'' | Some s \<Rightarrow> s);
                   item = (case optional_field ''data'' (field ''items'' sub) of
                             Some (JArr (x # _)) \<Rightarrow> Some x | _ \<Rightarrow> None);
                   periodEnd = (case field ''current_period_end'' sub of
                             None \<Rightarrow> optional_field ''current_period_end'' item
                           | Some JNull \<Rightarrow> optional_field ''current_period_end'' item
                           | Some v \<Rightarrow> Some v)
               in Some (Some \<lparr>su_customer = customer, su_subscription = sid, su_status = status,
                    su_price = idOf (optional_field ''price'' item),
                    su_periodEnd = (case periodEnd of Some (JNum n) \<Rightarrow> Some (n * 1000) | _ \<Rightarrow> None),
                    su_cancelAtEnd = (field ''cancel_at_period_end'' sub = Some (JBool True))\<rparr>)
           | _ \<Rightarrow> Some None))"

record stripe_plan =
  sp_price :: string
  sp_amount :: nat

datatype plan_decision =
    Grant string
  | EndPlan
  | KeepUnknownPrice
  | KeepNotSettled

definition decidePlan :: "subscription_change \<Rightarrow> (string \<times> stripe_plan) list \<Rightarrow> plan_decision" where
  "decidePlan ch plans =
     (if su_status ch \<in> set ENDED_STATUSES then EndPlan
      else if su_status ch \<notin> set LIVE_STATUSES then KeepNotSettled
      else case find (\<lambda>(_, c). Some (sp_price c) = su_price ch) plans of
             None \<Rightarrow> KeepUnknownPrice | Some (p, _) \<Rightarrow> Grant p)"

section \<open>The signature\<close>

definition SIGNATURE_TOLERANCE_SECONDS :: nat where "SIGNATURE_TOLERANCE_SECONDS = 300"

fun read_part :: "(nat option \<times> string list) \<Rightarrow> string \<Rightarrow> nat option \<times> string list" where
  "read_part (t, sigs) part =
     (if CHR ''='' \<notin> set part then (t, sigs)
      else let name = trim (takeWhile (\<lambda>c. c \<noteq> CHR ''='') part);
               val = trim (tl (dropWhile (\<lambda>c. c \<noteq> CHR ''='') part))
           in if name = ''t'' \<and> digits 1 12 val then (Some (number_of val), sigs)
              else if name = ''v1'' \<and> length val = 64 \<and> list_all is_hex val then (t, sigs @ [to_lower val])
              else (t, sigs))"

definition verifyStripeSignature ::
  "(string \<Rightarrow> string \<Rightarrow> byte list) \<Rightarrow> string \<Rightarrow> string option \<Rightarrow> string \<Rightarrow> nat \<Rightarrow> nat \<Rightarrow> bool" where
  "verifyStripeSignature hmac payload header secret nowSeconds toleranceSeconds =
     (case header of
        None \<Rightarrow> False
      | Some h \<Rightarrow>
          h \<noteq> [] \<and>
          (case fold (\<lambda>part st. read_part st part) (split_on CHR '','' h) (None, []) of
             (None, _) \<Rightarrow> False
           | (Some timestamp, sigs) \<Rightarrow>
               sigs \<noteq> [] \<and> \<bar>int nowSeconds - int timestamp\<bar> \<le> int toleranceSeconds
               \<and> list_ex (\<lambda>x. from_hex x = hmac secret (show_nat timestamp @ ''.'' @ payload)) sigs))"

definition signStripePayload :: "(string \<Rightarrow> string \<Rightarrow> byte list) \<Rightarrow> string \<Rightarrow> string \<Rightarrow> nat \<Rightarrow> string" where
  "signStripePayload hmac payload secret atSeconds =
     ''t='' @ show_nat atSeconds @ '',v1='' @ to_hex (hmac secret (show_nat atSeconds @ ''.'' @ payload))"

lemma hex_no_comma: "list_all is_hex_lower s \<Longrightarrow> CHR '','' \<notin> set s \<and> CHR ''='' \<notin> set s"
  by (auto simp: list_all_iff is_hex_lower_def is_digit_def)

lemma digits_no_comma: "list_all is_digit s \<Longrightarrow> CHR '','' \<notin> set s \<and> CHR ''='' \<notin> set s"
  by (auto simp: list_all_iff is_digit_def)

lemma trim_id: "list_all (\<lambda>c. \<not> is_space c) s \<Longrightarrow> trim s = s"
proof -
  have "dropWhile is_space t = t" if "\<forall>c \<in> set t. \<not> is_space c" for t
    using that by (cases t) auto
  from this [of s] this [of "rev s"] show "list_all (\<lambda>c. \<not> is_space c) s \<Longrightarrow> trim s = s"
    by (simp add: trim_def list_all_iff)
qed

lemma hex_plain: "list_all is_hex_lower s \<Longrightarrow> trim s = s \<and> list_all is_hex s \<and> to_lower s = s"
proof -
  assume h: "list_all is_hex_lower s"
  have "\<not> is_space c" "lower_char c = c" if "is_hex_lower c" for c
    using that by (auto simp: is_hex_lower_def is_digit_def is_space_def lower_char_def is_upper_def)
  with h have "list_all (\<lambda>c. \<not> is_space c) s" "to_lower s = s"
    by (auto simp: list_all_iff to_lower_def intro: map_idI)
  then show ?thesis using h trim_id by (auto simp: list_all_iff is_hex_def)
qed

lemma digits_plain: "list_all is_digit s \<Longrightarrow> trim s = s"
  by (rule trim_id) (auto simp: list_all_iff is_digit_def is_space_def)

text \<open>
  C17. A header Stripe would have sent is accepted exactly while its timestamp is within
  the tolerance: a replay of a captured request is refused once it is too old.
\<close>

theorem signature_roundtrip:
  assumes "\<And>k d. length (hmac k d) = 32" and "atSeconds < 10 ^ 12"
  shows "verifyStripeSignature hmac payload (Some (signStripePayload hmac payload secret atSeconds)) secret now tol
    \<longleftrightarrow> \<bar>int now - int atSeconds\<bar> \<le> int tol"
proof -
  let ?n = "show_nat atSeconds" and ?x = "to_hex (hmac secret (show_nat atSeconds @ ''.'' @ payload))"
  have n: "CHR '','' \<notin> set ?n \<and> CHR ''='' \<notin> set ?n" "trim ?n = ?n" "digits 1 12 ?n"
    using digits_no_comma digits_plain show_nat_digits digits_show_nat [of 12 atSeconds] assms(2) by auto
  have x: "CHR '','' \<notin> set ?x \<and> CHR ''='' \<notin> set ?x" "trim ?x = ?x" "list_all is_hex ?x" "to_lower ?x = ?x"
    "length ?x = 64"
    using hex_no_comma hex_plain to_hex_digits assms(1) by simp_all
  have "signStripePayload hmac payload secret atSeconds = join '','' [''t='' @ ?n, ''v1='' @ ?x]"
    by (simp add: signStripePayload_def)
  moreover have "split_on CHR '','' (join '','' [''t='' @ ?n, ''v1='' @ ?x]) = [''t='' @ ?n, ''v1='' @ ?x]"
    by (rule split_on_join) (use n x in auto)
  ultimately have parts: "split_on CHR '','' (signStripePayload hmac payload secret atSeconds) = [''t='' @ ?n, ''v1='' @ ?x]"
    by simp
  have small: "trim ''t'' = ''t''" "trim ''v1'' = ''v1''" by code_simp+
  show ?thesis
    using n(2,3) x(2-5)
    by (simp add: verifyStripeSignature_def parts small Let_def from_to_hex)
      (simp add: signStripePayload_def)
qed

theorem signature_roundtrip_witness:
  "verifyStripeSignature (\<lambda>_ _. replicate 32 7) ''{}'' (Some (signStripePayload (\<lambda>_ _. replicate 32 7) ''{}'' ''s'' 5)) ''s'' 305 300
   \<and> \<not> verifyStripeSignature (\<lambda>_ _. replicate 32 7) ''{}'' (Some (signStripePayload (\<lambda>_ _. replicate 32 7) ''{}'' ''s'' 5)) ''s'' 306 300"
  using signature_roundtrip [of "\<lambda>_ _. replicate 32 7" 5 "''{}''" "''s''"] by simp

section \<open>Requests\<close>

text \<open>\<open>encodeURIComponent\<close> of the bytes of a text.\<close>

definition hex_upper :: string where "hex_upper = ''0123456789ABCDEF''"

definition unreserved :: "char \<Rightarrow> bool" where
  "unreserved c \<longleftrightarrow> is_digit c \<or> is_lower c \<or> is_upper c \<or> c \<in> set ''-_.!~*()'' \<or> code c = 39"

definition encodeURIComponent :: "string \<Rightarrow> string" where
  "encodeURIComponent s =
     concat (map (\<lambda>c. if unreserved c then [c]
       else [CHR ''%'', hex_upper ! (code c div 16), hex_upper ! (code c mod 16)]) s)"

text \<open>\<open>String(v)\<close> of a scalar.\<close>

definition show_int :: "int \<Rightarrow> string" where
  "show_int n = (if n < 0 then CHR ''-'' # show_nat (nat (- n)) else show_nat (nat n))"

fun scalar_text :: "json \<Rightarrow> string" where
  "scalar_text (JStr s) = s"
| "scalar_text (JBool b) = (if b then ''true'' else ''false'')"
| "scalar_text (JNum n) = show_int n"
| "scalar_text _ = []"

text \<open>\<open>a[b]=1\<close>, \<open>a[0][b]=1\<close>: the pairs of one value, under its name.\<close>

fun add_pairs :: "string \<Rightarrow> json \<Rightarrow> string list"
  and add_items :: "string \<Rightarrow> nat \<Rightarrow> json list \<Rightarrow> string list"
  and add_fields :: "string \<Rightarrow> (string \<times> json) list \<Rightarrow> string list" where
  "add_pairs name JNull = []"
| "add_pairs name (JArr xs) = add_items name 0 xs"
| "add_pairs name (JObj fs) = add_fields name fs"
| "add_pairs name v = [encodeURIComponent name @ ''='' @ encodeURIComponent (scalar_text v)]"
| "add_items name i [] = []"
| "add_items name i (x # xs) = add_pairs (name @ ''['' @ show_nat i @ '']'') x @ add_items name (Suc i) xs"
| "add_fields name [] = []"
| "add_fields name ((k, x) # fs) = add_pairs (name @ ''['' @ k @ '']'') x @ add_fields name fs"

definition encodeForm :: "(string \<times> json) list \<Rightarrow> string" where
  "encodeForm params = join ''&'' (concat (map (\<lambda>(k, v). add_pairs k v) params))"

text \<open>The value with its keys in a fixed order.\<close>

fun stable :: "json \<Rightarrow> json" where
  "stable (JArr xs) = JArr (map stable xs)"
| "stable (JObj fs) = JObj (sort_key fst (map (\<lambda>(k, v). (k, stable v)) fs))"
| "stable v = v"

definition CHECKOUT_WINDOW_MS :: int where "CHECKOUT_WINDOW_MS = 60000"

definition checkoutIdempotencyKey ::
  "(json \<Rightarrow> string) \<Rightarrow> (string \<Rightarrow> string) \<Rightarrow> (string \<times> json) list \<Rightarrow> millis \<Rightarrow> string" where
  "checkoutIdempotencyKey stringify sha256Hex params now =
     ''silencewatch-checkout-'' @
       take 48 (sha256Hex (stringify (JArr [JNum (now div CHECKOUT_WINDOW_MS), stable (JObj params)])))"

text \<open>
  The idempotency key of a payment page depends on what is asked and on the minute,
  not on the order in which the parameters are written: the same request made twice within
  a minute carries the same key.
\<close>

lemma filter_same_key: "distinct (map f zs) \<Longrightarrow> k \<in> set zs \<Longrightarrow> filter (\<lambda>x. f k = f x) zs = [k]"
proof (induction zs)
  case (Cons z zs)
  show ?case
  proof (cases "k = z")
    case True
    then have "filter (\<lambda>x. f k = f x) zs = []"
      using Cons.prems(1) by (simp add: filter_empty_conv) (metis imageI)
    then show ?thesis using True by simp
  next
    case False
    then have "k \<in> set zs" using Cons.prems by auto
    moreover from this have "f k \<noteq> f z" using Cons.prems(1) by (metis distinct.simps(2) image_eqI list.set_map list.simps(9))
    ultimately show ?thesis using Cons by simp
  qed
qed simp

lemma sort_key_permuted:
  assumes "mset xs = mset ys" "distinct (map f xs)"
  shows "sort_key f xs = sort_key (f :: 'a \<Rightarrow> 'b::linorder) ys"
proof (rule properties_for_sort_key)
  show "mset (sort_key f ys) = mset xs" using assms(1) by simp
  show "sorted (map f (sort_key f ys))" by simp
  fix k assume "k \<in> set (sort_key f ys)"
  moreover have "set ys = set xs" by (rule mset_eq_setD [OF assms(1) [symmetric]])
  ultimately have "k \<in> set xs" by simp
  have "mset (map f (sort_key f ys)) = mset (map f xs)" by (simp add: assms(1))
  then have dist: "distinct (map f (sort_key f ys))"
    using assms(2) by (rule mset_eq_imp_distinct_iff [THEN iffD2])
  have "filter (\<lambda>x. f k = f x) (sort_key f ys) = [k]" by (rule filter_same_key [OF dist \<open>k \<in> set (sort_key f ys)\<close>])
  moreover have "filter (\<lambda>x. f k = f x) xs = [k]" by (rule filter_same_key [OF assms(2) \<open>k \<in> set xs\<close>])
  ultimately show "filter (\<lambda>x. f k = f x) (sort_key f ys) = filter (\<lambda>x. f k = f x) xs" by simp
qed

theorem idempotency_key_ignores_order:
  assumes "mset params = mset params'" and "distinct (map fst params)"
    and "now div 60000 = later div 60000"
  shows "checkoutIdempotencyKey stringify sha params now = checkoutIdempotencyKey stringify sha params' later"
proof -
  let ?g = "\<lambda>(k, v). (k, stable v)"
  have "distinct (map fst (map ?g params))"
    using assms(2) by (simp add: comp_def case_prod_unfold)
  moreover have "mset (map ?g params) = mset (map ?g params')"
    using assms(1) by simp
  ultimately have "stable (JObj params) = stable (JObj params')"
    using sort_key_permuted [of "map ?g params" "map ?g params'" fst] by simp
  then show ?thesis using assms(3) by (simp add: checkoutIdempotencyKey_def CHECKOUT_WINDOW_MS_def)
qed

theorem idempotency_key_ignores_order_witness:
  "checkoutIdempotencyKey (\<lambda>_. ''x'') id [(''a'', JNum 1), (''b'', JNum 2)] 60000
     = checkoutIdempotencyKey (\<lambda>_. ''x'') id [(''b'', JNum 2), (''a'', JNum 1)] 119999"
  by (rule idempotency_key_ignores_order) (simp_all add: add_mset_commute)

section \<open>The four calls\<close>

datatype stripe_failure =
    StripeError "nat option" "string option"
  | UnexpectedShape

record stripe_request =
  rq_method :: string
  rq_path :: string
  rq_body :: "string option"
  rq_idempotency :: "string option"

datatype fetch_outcome =
    Unreachable
  | Responded nat "json option"

record stripe_env =
  se_fetch :: "stripe_request \<Rightarrow> fetch_outcome"
  se_stringify :: "json \<Rightarrow> string"
  se_sha256Hex :: "string \<Rightarrow> string"
  se_now :: millis

definition stripe_call ::
  "stripe_env \<Rightarrow> string \<Rightarrow> string \<Rightarrow> (string \<times> json) list option \<Rightarrow> string option \<Rightarrow> stripe_failure + json option" where
  "stripe_call env method path params idem =
     (case se_fetch env \<lparr>rq_method = method, rq_path = path, rq_body = map_option encodeForm params,
                         rq_idempotency = idem\<rparr> of
        Unreachable \<Rightarrow> Inl (StripeError None None)
      | Responded status body \<Rightarrow>
          if 200 \<le> status \<and> status < 300 then Inr body
          else Inl (StripeError (Some status)
                 (case optional_field ''code'' (optional_field ''error'' body) of
                    Some (JStr c) \<Rightarrow> Some c | _ \<Rightarrow> None)))"

text \<open>A property of an answer that is null throws.\<close>

definition answer_field :: "string \<Rightarrow> json option \<Rightarrow> stripe_failure + json option" where
  "answer_field k body =
     (case body of None \<Rightarrow> Inl UnexpectedShape | Some JNull \<Rightarrow> Inl UnexpectedShape | Some j \<Rightarrow> Inr (field k j))"

definition createCustomer :: "stripe_env \<Rightarrow> string \<Rightarrow> string \<Rightarrow> stripe_failure + json option" where
  "createCustomer env address userId =
     (case stripe_call env ''POST'' ''/v1/customers''
             (Some [(''email'', JStr address), (''metadata'', JObj [(''user_id'', JStr userId)])])
             (Some (''silencewatch-customer-'' @ userId)) of
        Inl e \<Rightarrow> Inl e | Inr body \<Rightarrow> answer_field ''id'' body)"

record checkout_input =
  ck_customerId :: string
  ck_priceId :: string
  ck_userId :: string
  ck_successUrl :: string
  ck_cancelUrl :: string
  ck_automaticTax :: bool
  ck_locale :: "string option"
  ck_acceptance :: "string option"

definition checkout_params :: "checkout_input \<Rightarrow> (string \<times> json) list" where
  "checkout_params i =
     [(''mode'', JStr ''subscription''), (''customer'', JStr (ck_customerId i)),
      (''client_reference_id'', JStr (ck_userId i)),
      (''line_items'', JArr [JObj [(''price'', JStr (ck_priceId i)), (''quantity'', JNum 1)]]),
      (''success_url'', JStr (ck_successUrl i)), (''cancel_url'', JStr (ck_cancelUrl i)),
      (''billing_address_collection'', JStr ''auto''),
      (''locale'', JStr (case ck_locale i of None \<Rightarrow> ''auto'' | Some l \<Rightarrow> l)),
      (''subscription_data'', JObj [(''metadata'', JObj [(''user_id'', JStr (ck_userId i))])])]
     @ (case ck_acceptance i of None \<Rightarrow> []
        | Some m \<Rightarrow> [(''consent_collection'', JObj [(''terms_of_service'', JStr ''required'')]),
                     (''custom_text'', JObj [(''terms_of_service_acceptance'', JObj [(''message'', JStr m)])])])
     @ (if ck_automaticTax i
        then [(''automatic_tax'', JObj [(''enabled'', JBool True)]),
              (''customer_update'', JObj [(''address'', JStr ''auto'')])]
        else [])"

definition createCheckoutSession :: "stripe_env \<Rightarrow> checkout_input \<Rightarrow> stripe_failure + string" where
  "createCheckoutSession env i =
     (let params = checkout_params i
      in case stripe_call env ''POST'' ''/v1/checkout/sessions'' (Some params)
                (Some (checkoutIdempotencyKey (se_stringify env) (se_sha256Hex env) params (se_now env))) of
           Inl e \<Rightarrow> Inl e
         | Inr body \<Rightarrow>
             (case answer_field ''url'' body of
                Inl e \<Rightarrow> Inl e
              | Inr (Some (JStr url)) \<Rightarrow> Inr url
              | Inr _ \<Rightarrow> Inl (StripeError None None)))"

definition createPortalSession :: "stripe_env \<Rightarrow> string \<Rightarrow> string \<Rightarrow> stripe_failure + json option" where
  "createPortalSession env customerId returnUrl =
     (case stripe_call env ''POST'' ''/v1/billing_portal/sessions''
             (Some [(''customer'', JStr customerId), (''return_url'', JStr returnUrl)]) None of
        Inl e \<Rightarrow> Inl e | Inr body \<Rightarrow> answer_field ''url'' body)"

definition cancelSubscription :: "stripe_env \<Rightarrow> string \<Rightarrow> stripe_failure + unit" where
  "cancelSubscription env sid =
     (case stripe_call env ''DELETE'' (''/v1/subscriptions/'' @ encodeURIComponent sid) None None of
        Inr _ \<Rightarrow> Inr ()
      | Inl (StripeError st why) \<Rightarrow>
          if why = Some ''resource_missing'' then Inr () else Inl (StripeError st why)
      | Inl UnexpectedShape \<Rightarrow> Inl UnexpectedShape)"

end
