(* ===== verification/Billing.thy ===== *)
theory Billing
  imports Stripe AuditTrail
begin

text \<open>
  Subscriptions: \<^verbatim>\<open>packages/server/src/billing/billing.repository.ts\<close> (one event applied in one
  transaction), \<^verbatim>\<open>billing.service.ts\<close> and the webhook of \<^verbatim>\<open>billing-webhook.plugin.ts\<close>. An
  \<open>Inl\<close> of the transaction is a rollback. The sentences a buyer accepts are a parameter;
  which one and with which address is modelled.
\<close>

record subscription =
  sb_user :: uuid
  sb_customer :: string
  sb_subscription :: "string option"
  sb_plan :: "string option"
  sb_status :: string
  sb_periodEnd :: "millis option"
  sb_cancelAtEnd :: bool
  sb_lastEventAt :: "millis option"

record billing_db =
  bl_subs :: "subscription list"
  bl_events :: "string list"
  bl_store :: db

record billing_env =
  be_enabled :: bool
  be_quotas :: quota_settings
  be_plans :: "(string \<times> stripe_plan) list"
  be_currency :: string
  be_automaticTax :: bool
  be_termsUrl :: "string option"
  be_termsUrlFr :: "string option"
  be_professional :: bool
  be_baseUrl :: string
  be_text :: "uuid \<Rightarrow> string"
  be_sentence :: "string \<Rightarrow> bool \<Rightarrow> string \<Rightarrow> string"
  be_stripe :: stripe_env

section \<open>The repository\<close>

datatype apply_outcome =
    Duplicate
  | UnknownCustomer
  | Stale
  | OtherSubscription
  | Applied uuid string "string option" "string option" string bool
  | Ignored

text \<open>\<open>Applied user email from to status unknownPrice\<close>\<close>

definition sub_of_user :: "uuid \<Rightarrow> billing_db \<Rightarrow> subscription option" where
  "sub_of_user u b = find (\<lambda>x. sb_user x = u) (bl_subs b)"

definition sub_of_customer :: "string \<Rightarrow> billing_db \<Rightarrow> subscription option" where
  "sub_of_customer c b = find (\<lambda>x. sb_customer x = c) (bl_subs b)"

text \<open>\<open>createMany(skipDuplicates)\<close>, then the row there is: none where the customer is another's.\<close>

definition rememberCustomer :: "uuid \<Rightarrow> string \<Rightarrow> billing_db \<Rightarrow> (http_error + subscription) \<times> billing_db" where
  "rememberCustomer u customer b =
     (let b' = (if sub_of_user u b \<noteq> None \<or> sub_of_customer customer b \<noteq> None then b
                else b\<lparr>bl_subs := bl_subs b @
                  [\<lparr>sb_user = u, sb_customer = customer, sb_subscription = None, sb_plan = None,
                    sb_status = ''none'', sb_periodEnd = None, sb_cancelAtEnd = False, sb_lastEventAt = None\<rparr>]\<rparr>)
      in (case sub_of_user u b' of None \<Rightarrow> (Inl ServerError, b') | Some x \<Rightarrow> (Inr x, b')))"

definition changed_sub :: "subscription_change \<Rightarrow> string option \<Rightarrow> millis \<Rightarrow> subscription \<Rightarrow> subscription" where
  "changed_sub ch plan at x =
     x\<lparr>sb_subscription := Some (su_subscription ch), sb_plan := plan, sb_status := su_status ch,
       sb_periodEnd := su_periodEnd ch, sb_cancelAtEnd := su_cancelAtEnd ch, sb_lastEventAt := Some at\<rparr>"

text \<open>
  An event without a creation time gives an invalid date: it compares as false and cannot be
  stored. The subscription's id has a unique index.
\<close>

definition apply_event ::
  "stripe_event \<Rightarrow> subscription_change \<Rightarrow> (string \<times> stripe_plan) list \<Rightarrow> string option \<Rightarrow> billing_db \<Rightarrow>
     http_error + apply_outcome \<times> billing_db" where
  "apply_event ev ch plans default_plan b =
     (if st_id ev \<in> set (bl_events b) then Inr (Duplicate, b)
      else let b1 = b\<lparr>bl_events := bl_events b @ [st_id ev]\<rparr> in
        case sub_of_customer (su_customer ch) b of
          None \<Rightarrow> Inr (UnknownCustomer, b1)
        | Some row \<Rightarrow>
            (let createdAt = map_option (\<lambda>n. n * 1000) (st_created ev) in
             if (case (sb_lastEventAt row, createdAt) of (Some l, Some t) \<Rightarrow> t < l | _ \<Rightarrow> False)
             then Inr (Stale, b1)
             else if (case sb_subscription row of None \<Rightarrow> False | Some x \<Rightarrow> x \<noteq> su_subscription ch)
                     \<and> sb_status row \<in> set LIVE_STATUSES
             then Inr (OtherSubscription, b1)
             else case find (\<lambda>u. u_id u = sb_user row) (users (bl_store b)) of
               None \<Rightarrow> Inl ServerError
             | Some u \<Rightarrow>
                 (let decision = decidePlan ch plans;
                      plan = (case decision of Grant p \<Rightarrow> Some p | EndPlan \<Rightarrow> None | _ \<Rightarrow> sb_plan row);
                      userPlan = (case decision of Grant p \<Rightarrow> Some p | EndPlan \<Rightarrow> default_plan | _ \<Rightarrow> u_plan u)
                  in case createdAt of
                       None \<Rightarrow> Inl ServerError
                     | Some at \<Rightarrow>
                         if \<exists>x \<in> set (bl_subs b). sb_user x \<noteq> sb_user row \<and> sb_subscription x = Some (su_subscription ch)
                         then Inl ServerError
                         else Inr (Applied (sb_user row) (email u) (u_plan u) userPlan (su_status ch)
                                     (decision = KeepUnknownPrice),
                            b1\<lparr>bl_subs := update_where (\<lambda>x. sb_user x = sb_user row) (changed_sub ch plan at) (bl_subs b),
                               bl_store := (bl_store b)\<lparr>users := update_where (\<lambda>x. u_id x = sb_user row)
                                  (\<lambda>x. x\<lparr>u_plan := userPlan\<rparr>) (users (bl_store b))\<rparr>\<rparr>))))"

section \<open>The service\<close>

record billing_plan_dto =
  bd_id :: string
  bd_amount :: nat
  bd_currency :: string
  bd_limits :: plan_limits
  bd_purchasable :: bool

record subscription_dto =
  sd_status :: string
  sd_plan :: "string option"
  sd_periodEnd :: "string option"
  sd_cancelAtEnd :: bool

record billing_state_dto =
  bs_enabled :: bool
  bs_plan :: "string option"
  bs_plans :: "billing_plan_dto list"
  bs_usage :: "(nat \<times> nat) option"
  bs_subscription :: "subscription_dto option"

definition DISABLED :: billing_state_dto where
  "DISABLED = \<lparr>bs_enabled = False, bs_plan = None, bs_plans = [], bs_usage = None, bs_subscription = None\<rparr>"

definition limitsDto :: "plan_limits option \<Rightarrow> plan_limits" where
  "limitsDto l = (case l of None \<Rightarrow> UNLIMITED | Some x \<Rightarrow> x)"

definition toSubscriptionDto :: "subscription \<Rightarrow> subscription_dto" where
  "toSubscriptionDto x =
     \<lparr>sd_status = sb_status x, sd_plan = sb_plan x, sd_periodEnd = iso_option (sb_periodEnd x),
      sd_cancelAtEnd = sb_cancelAtEnd x\<rparr>"

definition catalogue :: "billing_env \<Rightarrow> billing_plan_dto list" where
  "catalogue env =
     (let limits = planLimits (be_quotas env); d = DEFAULT_PLAN (be_quotas env)
      in (case map_of limits d of
            None \<Rightarrow> []
          | Some l \<Rightarrow> [\<lparr>bd_id = d, bd_amount = 0, bd_currency = be_currency env, bd_limits = limitsDto (Some l),
                        bd_purchasable = False\<rparr>])
         @ map (\<lambda>(i, p). \<lparr>bd_id = i, bd_amount = sp_amount p, bd_currency = be_currency env,
                           bd_limits = limitsDto (map_of limits i), bd_purchasable = True\<rparr>)
             (sort_key (\<lambda>(_, p). sp_amount p) (be_plans env)))"

definition billing_state :: "billing_env \<Rightarrow> uuid \<Rightarrow> billing_db \<Rightarrow> http_error + billing_state_dto" where
  "billing_state env u b =
     (if \<not> be_enabled env then Inr DISABLED
      else case find (\<lambda>x. u_id x = u) (users (bl_store b)) of
        None \<Rightarrow> Inl ServerError
      | Some x \<Rightarrow>
          Inr \<lparr>bs_enabled = True, bs_plan = u_plan x, bs_plans = catalogue env,
               bs_usage = Some (usageOf u (bl_store b)),
               bs_subscription = map_option toSubscriptionDto (sub_of_user u b)\<rparr>)"

definition returnUrl :: "billing_env \<Rightarrow> string option \<Rightarrow> string" where
  "returnUrl env query =
     be_baseUrl env @ ''/settings?tab=subscription'' @ (case query of None \<Rightarrow> [] | Some x \<Rightarrow> ''&'' @ x)"

definition acceptance :: "billing_env \<Rightarrow> string option \<Rightarrow> string option" where
  "acceptance env lang =
     (case be_termsUrl env of
        None \<Rightarrow> None
      | Some english \<Rightarrow>
          let french = (case be_termsUrlFr env of None \<Rightarrow> english | Some x \<Rightarrow> x)
          in Some (if lang = Some ''fr'' then be_sentence env ''fr'' (be_professional env) french
                   else be_sentence env ''en'' (be_professional env) english))"

text \<open>Whatever fails in here is answered 502.\<close>

definition customer_of :: "billing_env \<Rightarrow> uuid \<Rightarrow> billing_db \<Rightarrow> (http_error + string) \<times> billing_db" where
  "customer_of env u b =
     (case find (\<lambda>x. u_id x = u) (users (bl_store b)) of
        None \<Rightarrow> (Inl ServerError, b)
      | Some x \<Rightarrow>
          (case createCustomer (be_stripe env) (email x) (be_text env u) of
             Inr (Some (JStr i)) \<Rightarrow>
               (case rememberCustomer u i b of
                  (Inl e, b') \<Rightarrow> (Inl e, b') | (Inr row, b') \<Rightarrow> (Inr (sb_customer row), b'))
           | _ \<Rightarrow> (Inl ServerError, b)))"

definition has_live_subscription :: "uuid \<Rightarrow> billing_db \<Rightarrow> bool" where
  "has_live_subscription u b \<longleftrightarrow>
     (case sub_of_user u b of None \<Rightarrow> False
      | Some x \<Rightarrow> sb_subscription x \<noteq> None \<and> sb_subscription x \<noteq> Some [] \<and> sb_status x \<in> set LIVE_STATUSES)"

definition startCheckout ::
  "billing_env \<Rightarrow> uuid \<Rightarrow> string \<Rightarrow> string option \<Rightarrow> billing_db \<Rightarrow> (http_error + string) \<times> billing_db" where
  "startCheckout env u planName lang b =
     (if \<not> be_enabled env then (Inl NotFound, b)
      else case map_of (be_plans env) planName of
        None \<Rightarrow> (Inl BadRequest, b)
      | Some plan \<Rightarrow>
          if has_live_subscription u b then (Inl Conflict, b)
          else
            let (customer, b') = (case sub_of_user u b of
                    Some x \<Rightarrow> (Inr (sb_customer x), b) | None \<Rightarrow> customer_of env u b)
            in (case customer of
                  Inl _ \<Rightarrow> (Inl BadGateway, b')
                | Inr c \<Rightarrow>
                    (case createCheckoutSession (be_stripe env)
                        \<lparr>ck_customerId = c, ck_priceId = sp_price plan, ck_userId = be_text env u,
                         ck_successUrl = returnUrl env (Some ''checkout=success''),
                         ck_cancelUrl = returnUrl env (Some ''checkout=cancelled''),
                         ck_automaticTax = be_automaticTax env, ck_locale = lang,
                         ck_acceptance = acceptance env lang\<rparr> of
                       Inl _ \<Rightarrow> (Inl BadGateway, b') | Inr url \<Rightarrow> (Inr url, b'))))"

definition openPortal :: "billing_env \<Rightarrow> uuid \<Rightarrow> billing_db \<Rightarrow> http_error + json option" where
  "openPortal env u b =
     (if \<not> be_enabled env then Inl NotFound
      else case sub_of_user u b of
        None \<Rightarrow> Inl NotFound
      | Some x \<Rightarrow>
          (case createPortalSession (be_stripe env) (sb_customer x) (returnUrl env None) of
             Inl _ \<Rightarrow> Inl BadGateway | Inr url \<Rightarrow> Inr url))"

definition cancelForAccount :: "billing_env \<Rightarrow> uuid \<Rightarrow> billing_db \<Rightarrow> http_error + unit" where
  "cancelForAccount env u b =
     (if \<not> be_enabled env then Inr ()
      else case sub_of_user u b of
        None \<Rightarrow> Inr ()
      | Some x \<Rightarrow>
          (case sb_subscription x of
             None \<Rightarrow> Inr ()
           | Some sid \<Rightarrow>
               if sb_status x = ''canceled'' then Inr ()
               else case cancelSubscription (be_stripe env) sid of
                 Inl _ \<Rightarrow> Inl BadGateway | Inr _ \<Rightarrow> Inr ()))"

definition plan_changed_record :: "billing_env \<Rightarrow> uuid \<Rightarrow> string \<Rightarrow> string option \<Rightarrow> string option \<Rightarrow> string \<Rightarrow> audit_record" where
  "plan_changed_record env u address from_plan to_plan word =
     (let txt = (\<lambda>p. case p of None \<Rightarrow> JNull | Some x \<Rightarrow> JStr x)
      in \<lparr>r_action = ''billing.plan_changed'',
          r_actor = \<lparr>a_userId = Some u, a_email = Some address, a_apiKeyId = None, a_ip = None, a_userAgent = None\<rparr>,
          r_projectId = None, r_targetType = Some ''user'', r_targetId = Some (be_text env u), r_targetLabel = None,
          r_detail = Some (se_stringify (be_stripe env)
            (JObj [(''from'', txt from_plan), (''to'', txt to_plan), (''status'', JStr word)]))\<rparr>)"

definition handleEvent ::
  "billing_env \<Rightarrow> stripe_event \<Rightarrow> billing_db \<Rightarrow> (http_error + apply_outcome \<times> audit_record option) \<times> billing_db" where
  "handleEvent env ev b =
     (case readSubscriptionEvent ev of
        None \<Rightarrow> (Inl ServerError, b)
      | Some None \<Rightarrow> (Inr (Ignored, None), b)
      | Some (Some ch) \<Rightarrow>
          (case apply_event ev ch (be_plans env) (defaultPlan (be_quotas env)) b of
             Inl e \<Rightarrow> (Inl e, b)
           | Inr (out, b') \<Rightarrow>
               (Inr (out, case out of
                    Applied u address from_plan to_plan word _ \<Rightarrow>
                      if from_plan \<noteq> to_plan
                      then Some (plan_changed_record env u address from_plan to_plan word) else None
                  | _ \<Rightarrow> None), b')))"

section \<open>The webhook\<close>

text \<open>The parsed body; a body that is no event is refused.\<close>

definition decode_event :: "json \<Rightarrow> stripe_event option" where
  "decode_event j =
     (case (field ''id'' j, field ''type'' j) of
        (Some (JStr i), Some (JStr t)) \<Rightarrow>
          Some \<lparr>st_id = i, st_type = t,
                st_created = (case field ''created'' j of Some (JNum n) \<Rightarrow> Some n | _ \<Rightarrow> None),
                st_object = optional_field ''object'' (field ''data'' j)\<rparr>
      | _ \<Rightarrow> None)"

definition webhook ::
  "billing_env \<Rightarrow> (string \<Rightarrow> string \<Rightarrow> byte list) \<Rightarrow> string \<Rightarrow> nat \<Rightarrow> (string \<Rightarrow> json option) \<Rightarrow>
     string option \<Rightarrow> string option \<Rightarrow> billing_db \<Rightarrow> nat \<times> billing_db" where
  "webhook env hmac secret nowSeconds parse payload header b =
     (case payload of
        None \<Rightarrow> (400, b)
      | Some bytes \<Rightarrow>
          if \<not> verifyStripeSignature hmac bytes header secret nowSeconds SIGNATURE_TOLERANCE_SECONDS then (400, b)
          else case Option.bind (parse bytes) decode_event of
            None \<Rightarrow> (400, b)
          | Some ev \<Rightarrow>
              (case handleEvent env ev b of
                 (Inl _, b') \<Rightarrow> (500, b') | (Inr _, b') \<Rightarrow> (200, b')))"

section \<open>The controller\<close>

definition billing_route_state :: "billing_env \<Rightarrow> principal \<Rightarrow> billing_db \<Rightarrow> http_error + billing_state_dto" where
  "billing_route_state env pr b =
     (case assertUser pr of Inl e \<Rightarrow> Inl e | Inr (u, _) \<Rightarrow> billing_state env u b)"

definition billing_route_checkout ::
  "billing_env \<Rightarrow> principal \<Rightarrow> string \<Rightarrow> string option \<Rightarrow> billing_db \<Rightarrow> (http_error + string) \<times> billing_db" where
  "billing_route_checkout env pr planName lang b =
     (case assertUser pr of Inl e \<Rightarrow> (Inl e, b) | Inr (u, _) \<Rightarrow> startCheckout env u planName lang b)"

definition billing_route_portal :: "billing_env \<Rightarrow> principal \<Rightarrow> billing_db \<Rightarrow> http_error + json option" where
  "billing_route_portal env pr b =
     (case assertUser pr of Inl e \<Rightarrow> Inl e | Inr (u, _) \<Rightarrow> openPortal env u b)"

section \<open>One event, one effect\<close>

lemma handleEvent_failed: "fst (handleEvent env ev b) = Inl e \<Longrightarrow> snd (handleEvent env ev b) = b"
  by (auto simp: handleEvent_def split: option.splits sum.splits prod.splits)

lemma apply_event_records:
  "apply_event ev ch plans d b = Inr (out, b') \<Longrightarrow> st_id ev \<in> set (bl_events b') \<and> out \<noteq> Ignored"
  by (auto simp: apply_event_def Let_def split: if_splits option.splits)

lemma handleEvent_records:
  assumes "handleEvent env ev b = (Inr (out, a), b')"
  shows "out = Ignored \<and> b' = b \<or> out \<noteq> Ignored \<and> st_id ev \<in> set (bl_events b')"
  using assms apply_event_records
  by (auto simp: handleEvent_def split: option.splits sum.splits prod.splits)

lemma recorded_is_duplicate:
  assumes "st_id ev \<in> set (bl_events b)" "readSubscriptionEvent ev = Some (Some ch)"
  shows "handleEvent env ev b = (Inr (Duplicate, None), b)"
  using assms by (simp add: handleEvent_def apply_event_def)

lemma handled_is_subscription:
  "handleEvent env ev b = (Inr (out, a), b') \<Longrightarrow> out \<noteq> Ignored \<Longrightarrow> \<exists>ch. readSubscriptionEvent ev = Some (Some ch)"
  by (auto simp: handleEvent_def split: option.splits)

text \<open>
  C16. Every delivery of the webhook ends in one of three ways. 400: the signature or the
  body is not Stripe's, and nothing changed. 500: the event could not be applied, nothing
  changed, and a later delivery starts afresh. 200: the event is in, once: delivering it
  again answers 200 and changes nothing.
\<close>

theorem webhook_applies_once:
  assumes "webhook env hmac secret t parse payload header b = (status_code, b')"
  shows "status_code \<in> {400, 500} \<and> b' = b
    \<or> status_code = 200 \<and> (\<exists>bytes. payload = Some bytes
        \<and> verifyStripeSignature hmac bytes header secret t SIGNATURE_TOLERANCE_SECONDS)
      \<and> webhook env hmac secret t parse payload header b' = (200, b')"
proof (cases "status_code = 200")
  case False
  then show ?thesis
    using assms handleEvent_failed [of env _ b]
    by (auto simp: webhook_def split: option.splits if_splits prod.splits sum.splits) (metis fst_conv snd_conv)+
next
  case True
  then obtain bytes ev r where p: "payload = Some bytes"
    and v: "verifyStripeSignature hmac bytes header secret t SIGNATURE_TOLERANCE_SECONDS"
    and e: "Option.bind (parse bytes) decode_event = Some ev"
    and h: "handleEvent env ev b = (Inr r, b')"
    using assms by (auto simp: webhook_def split: option.splits if_splits prod.splits sum.splits)
  obtain out a where r: "r = (out, a)" by fastforce
  have "\<exists>r'. handleEvent env ev b' = (Inr r', b')"
  proof (cases "out = Ignored")
    case True
    then show ?thesis using handleEvent_records [OF h [unfolded r]] h by auto
  next
    case False
    then show ?thesis
      using handleEvent_records [OF h [unfolded r]] handled_is_subscription [OF h [unfolded r]] recorded_is_duplicate by blast
  qed
  then have "webhook env hmac secret t parse payload header b' = (200, b')"
    using p v e by (auto simp: webhook_def)
  then show ?thesis using True p v by auto
qed

text \<open>
  An event created before the newest one applied, or about another subscription
  while the account's own is live, is recorded and changes neither the plan nor the
  subscription. An event that is applied leaves everything but the account's plan and its
  subscription as it was.
\<close>

theorem late_event_changes_nothing:
  assumes "sub_of_customer (su_customer ch) b = Some row"
    and "(\<exists>l n. sb_lastEventAt row = Some l \<and> st_created ev = Some n \<and> n * 1000 < l)
      \<or> sb_status row \<in> set LIVE_STATUSES \<and> sb_subscription row \<notin> {None, Some (su_subscription ch)}"
  shows "\<exists>out b'. apply_event ev ch plans d b = Inr (out, b') \<and> bl_subs b' = bl_subs b \<and> bl_store b' = bl_store b"
  using assms by (auto simp: apply_event_def Let_def split: option.splits)

lemma applied_frame:
  assumes "apply_event ev ch plans d b = Inr (out, b')"
  shows "checks (bl_store b') = checks (bl_store b)" "members (bl_store b') = members (bl_store b)"
    "map sb_customer (bl_subs b') = map sb_customer (bl_subs b)"
    "map u_id (users (bl_store b')) = map u_id (users (bl_store b))"
  using assms
  by (auto simp: apply_event_def Let_def map_update_where changed_sub_def split: if_splits option.splits)

lemma paid_plan_of_event:
  assumes "st_id ev \<notin> set (bl_events b)" and "sub_of_customer (su_customer ch) b = Some row"
    and "st_created ev = Some n" and "case sb_lastEventAt row of None \<Rightarrow> True | Some l \<Rightarrow> l \<le> n * 1000"
    and "sb_subscription row \<in> {None, Some (su_subscription ch)}"
    and "find (\<lambda>u. u_id u = sb_user row) (users (bl_store b)) = Some u"
    and "\<forall>x \<in> set (bl_subs b). sb_user x \<noteq> sb_user row \<longrightarrow> sb_subscription x \<noteq> Some (su_subscription ch)"
  shows "\<exists>out b' u'. apply_event ev ch plans d b = Inr (out, b')
    \<and> find (\<lambda>u. u_id u = sb_user row) (users (bl_store b')) = Some u'
    \<and> u_plan u' = (if su_status ch \<in> set ENDED_STATUSES then d
        else if su_status ch \<in> set LIVE_STATUSES
        then case find (\<lambda>(_, c). Some (sp_price c) = su_price ch) plans of None \<Rightarrow> u_plan u | Some (p, _) \<Rightarrow> Some p
        else u_plan u)"
proof -
  have upd: "find (\<lambda>u. u_id u = i) (update_where (\<lambda>x. u_id x = i) (\<lambda>x. x\<lparr>u_plan := v\<rparr>) us)
      = map_option (\<lambda>x. x\<lparr>u_plan := v\<rparr>) (find (\<lambda>u. u_id u = i) us)" for i v and us :: "user list"
    by (induction us) auto
  have order: "\<not> (case (sb_lastEventAt row, Some (n * 1000)) of (Some l, Some t) \<Rightarrow> t < l | _ \<Rightarrow> False)"
    using assms(4) by (auto split: option.splits)
  have own: "\<not> (case sb_subscription row of None \<Rightarrow> False | Some x \<Rightarrow> x \<noteq> su_subscription ch)"
    using assms(5) by auto
  have no: "\<not> (\<exists>x \<in> set (bl_subs b). sb_user x \<noteq> sb_user row \<and> sb_subscription x = Some (su_subscription ch))"
    using assms(7) by blast
  show ?thesis
    using assms(1,2,3,6) order own no
    by (simp add: apply_event_def Let_def upd decidePlan_def split: option.splits)
qed

text \<open>
  A timely event about the account's own subscription decides the plan: a live status
  with a price on offer grants that plan, an ended status returns the account to the plan
  everyone starts on, and a price that is not on offer leaves the plan alone.
\<close>

theorem event_decides_plan:
  assumes "st_id ev \<notin> set (bl_events b)" and "sub_of_customer (su_customer ch) b = Some row"
    and "st_created ev = Some n" and "case sb_lastEventAt row of None \<Rightarrow> True | Some l \<Rightarrow> l \<le> n * 1000"
    and "sb_subscription row \<in> {None, Some (su_subscription ch)}"
    and "find (\<lambda>u. u_id u = sb_user row) (users (bl_store b)) = Some u"
    and "\<forall>x \<in> set (bl_subs b). sb_user x \<noteq> sb_user row \<longrightarrow> sb_subscription x \<noteq> Some (su_subscription ch)"
  shows "\<exists>out b' u'. apply_event ev ch plans d b = Inr (out, b')
    \<and> find (\<lambda>u. u_id u = sb_user row) (users (bl_store b')) = Some u'
    \<and> u_plan u' = (if su_status ch \<in> set ENDED_STATUSES then d
        else if su_status ch \<in> set LIVE_STATUSES
        then case find (\<lambda>(_, c). Some (sp_price c) = su_price ch) plans of None \<Rightarrow> u_plan u | Some (p, _) \<Rightarrow> Some p
        else u_plan u)"
  using assms by (rule paid_plan_of_event)

section \<open>Two events of the same second\<close>

text \<open>
  Creation times are whole seconds and only an earlier one is refused: where a
  subscription is updated and cancelled within one second and the deliveries arrive the
  other way round, the cancelled account gets its paid plan back. The schema says of the
  column that ``a late one cannot undo a later one''.
\<close>

theorem same_second_update_undoes_cancellation:
  assumes "sub_of_customer (su_customer ch) b = Some row" and "sb_status row = ''canceled''"
    and "sb_lastEventAt row = Some (n * 1000)" and "st_created ev = Some n"
    and "sb_subscription row = Some (su_subscription ch)" and "st_id ev \<notin> set (bl_events b)"
    and "su_status ch \<in> set LIVE_STATUSES" and "find (\<lambda>(_, c). Some (sp_price c) = su_price ch) plans = Some (p, pl)"
    and "find (\<lambda>u. u_id u = sb_user row) (users (bl_store b)) = Some u"
    and "\<forall>x \<in> set (bl_subs b). sb_user x \<noteq> sb_user row \<longrightarrow> sb_subscription x \<noteq> Some (su_subscription ch)"
  shows "\<exists>out b' u'. apply_event ev ch plans d b = Inr (out, b')
    \<and> find (\<lambda>u. u_id u = sb_user row) (users (bl_store b')) = Some u' \<and> u_plan u' = Some p"
proof -
  have "su_status ch \<notin> set ENDED_STATUSES"
    using assms(7) by (auto simp: LIVE_STATUSES_def ENDED_STATUSES_def)
  moreover have "\<exists>out b' u'. apply_event ev ch plans d b = Inr (out, b')
    \<and> find (\<lambda>u. u_id u = sb_user row) (users (bl_store b')) = Some u'
    \<and> u_plan u' = (if su_status ch \<in> set ENDED_STATUSES then d
        else if su_status ch \<in> set LIVE_STATUSES
        then case find (\<lambda>(_, c). Some (sp_price c) = su_price ch) plans of None \<Rightarrow> u_plan u | Some (p, _) \<Rightarrow> Some p
        else u_plan u)"
    using assms by (intro paid_plan_of_event) auto
  ultimately show ?thesis using assms(7,8) by simp
qed

text \<open>Somebody who pays is never sent to pay again.\<close>

lemma no_second_subscription:
  "has_live_subscription u b \<Longrightarrow> snd (startCheckout env u p lang b) = b
     \<and> fst (startCheckout env u p lang b) \<in> {Inl NotFound, Inl BadRequest, Inl Conflict}"
  by (auto simp: startCheckout_def split: option.splits)

section \<open>An account that pays\<close>

definition paying :: "string \<Rightarrow> billing_db" where
  "paying word = \<lparr>bl_subs = [\<lparr>sb_user = 9, sb_customer = ''cus_1'', sb_subscription = Some ''sub_1'',
      sb_plan = Some ''pro'', sb_status = word, sb_periodEnd = None, sb_cancelAtEnd = False,
      sb_lastEventAt = Some 5000\<rparr>],
     bl_events = [], bl_store = sample_account\<rparr>"

definition sold :: "(string \<times> stripe_plan) list" where
  "sold = [(''pro'', \<lparr>sp_price = ''price_1'', sp_amount = 499\<rparr>)]"

definition sub_event :: "int \<Rightarrow> stripe_event" where
  "sub_event n = \<lparr>st_id = ''evt_1'', st_type = ''customer.subscription.updated'', st_created = Some n, st_object = None\<rparr>"

definition active_change :: "string \<Rightarrow> subscription_change" where
  "active_change sid = \<lparr>su_customer = ''cus_1'', su_subscription = sid, su_status = ''active'',
     su_price = Some ''price_1'', su_periodEnd = None, su_cancelAtEnd = False\<rparr>"

lemmas paying_defs = paying_def sold_def sub_event_def active_change_def sub_of_customer_def

lemma paying_user: "find (\<lambda>u. u_id u = 9) (users sample_account)
    = Some \<lparr>u_id = 9, email = ''a@example.org'', u_plan = Some ''free'', disabledAt = None\<rparr>"
  by (simp add: sample_account_def)

theorem same_second_update_undoes_cancellation_witness:
  "\<exists>out b' u'. apply_event (sub_event 5) (active_change ''sub_1'') sold None (paying ''canceled'') = Inr (out, b')
     \<and> find (\<lambda>u. u_id u = 9) (users (bl_store b')) = Some u' \<and> u_plan u' = Some ''pro''"
  using same_second_update_undoes_cancellation [of "active_change ''sub_1''" "paying ''canceled''"
      "hd (bl_subs (paying ''canceled''))" 5 "sub_event 5" sold "''pro''" "snd (hd sold)" _ None]
  by (simp add: paying_defs paying_user LIVE_STATUSES_def)

theorem late_event_changes_nothing_witness:
  "\<exists>out b'. apply_event (sub_event 4) (active_change ''sub_1'') sold None (paying ''canceled'') = Inr (out, b')
     \<and> bl_subs b' = bl_subs (paying ''canceled'')"
  using late_event_changes_nothing [of "active_change ''sub_1''" "paying ''canceled''"
      "hd (bl_subs (paying ''canceled''))" "sub_event 4" sold None]
  by (force simp: paying_defs)

theorem event_decides_plan_witness:
  "\<exists>out b' u'. apply_event (sub_event 6) (active_change ''sub_1'') sold None (paying ''active'') = Inr (out, b')
     \<and> find (\<lambda>u. u_id u = 9) (users (bl_store b')) = Some u' \<and> u_plan u' = Some ''pro''"
  using event_decides_plan [of "sub_event 6" "paying ''active''" "active_change ''sub_1''"
      "hd (bl_subs (paying ''active''))" 6 _ sold None]
  by (simp add: paying_defs paying_user LIVE_STATUSES_def ENDED_STATUSES_def)

definition billing_sample :: billing_env where
  "billing_sample = \<lparr>be_enabled = True,
     be_quotas = \<lparr>quotas_enabled = True, DEFAULT_PLAN = ''free'', planLimits = []\<rparr>,
     be_plans = sold, be_currency = ''eur'', be_automaticTax = False, be_termsUrl = None, be_termsUrlFr = None,
     be_professional = False, be_baseUrl = ''https://w'', be_text = show_nat, be_sentence = (\<lambda>_ _ u. u),
     be_stripe = \<lparr>se_fetch = (\<lambda>_. Unreachable), se_stringify = (\<lambda>_. ''{}''), se_sha256Hex = id, se_now = 0\<rparr>\<rparr>"

definition delivered :: json where
  "delivered = JObj [(''id'', JStr ''evt_1''), (''type'', JStr ''customer.subscription.deleted''), (''created'', JNum 6),
     (''data'', JObj [(''object'', JObj [(''id'', JStr ''sub_1''), (''customer'', JStr ''cus_1'')])])]"

lemma delivered_event: "\<exists>b'. webhook billing_sample (\<lambda>_ _. replicate 32 7) ''s'' 5 (\<lambda>_. Some delivered) (Some ''{}'')
     (Some (signStripePayload (\<lambda>_ _. replicate 32 7) ''{}'' ''s'' 5)) (paying ''active'') = (200, b')"
proof -
  have v: "verifyStripeSignature (\<lambda>_ _. replicate 32 7) ''{}''
      (Some (signStripePayload (\<lambda>_ _. replicate 32 7) ''{}'' ''s'' 5)) ''s'' 5 SIGNATURE_TOLERANCE_SECONDS"
    by code_simp
  have d: "Option.bind (Some delivered) decode_event = Some \<lparr>st_id = ''evt_1'', st_type = ''customer.subscription.deleted'',
      st_created = Some 6, st_object = Some (JObj [(''id'', JStr ''sub_1''), (''customer'', JStr ''cus_1'')])\<rparr>"
    by (simp add: delivered_def decode_event_def optional_field_def)
  have "\<exists>r b'. handleEvent billing_sample \<lparr>st_id = ''evt_1'', st_type = ''customer.subscription.deleted'',
      st_created = Some 6, st_object = Some (JObj [(''id'', JStr ''sub_1''), (''customer'', JStr ''cus_1'')])\<rparr>
      (paying ''active'') = (Inr r, b')"
    by (simp add: handleEvent_def readSubscriptionEvent_def SUBSCRIPTION_EVENTS_def idOf_def asString_def Let_def
        apply_event_def paying_defs paying_user)
  then show ?thesis using v d by (auto simp: webhook_def)
qed

theorem webhook_applies_once_witness:
  "\<exists>b'. webhook billing_sample (\<lambda>_ _. replicate 32 7) ''s'' 5 (\<lambda>_. Some delivered) (Some ''{}'')
     (Some (signStripePayload (\<lambda>_ _. replicate 32 7) ''{}'' ''s'' 5)) (paying ''active'') = (200, b')
   \<and> webhook billing_sample (\<lambda>_ _. replicate 32 7) ''s'' 5 (\<lambda>_. Some delivered) (Some ''{}'')
     (Some (signStripePayload (\<lambda>_ _. replicate 32 7) ''{}'' ''s'' 5)) b' = (200, b')"
proof -
  obtain b' where w: "webhook billing_sample (\<lambda>_ _. replicate 32 7) ''s'' 5 (\<lambda>_. Some delivered) (Some ''{}'')
     (Some (signStripePayload (\<lambda>_ _. replicate 32 7) ''{}'' ''s'' 5)) (paying ''active'') = (200, b')"
    using delivered_event by blast
  then show ?thesis using webhook_applies_once [OF w] by blast
qed

end
