(* ===== verification/Network.thy ===== *)
theory Network
  imports JsText
begin

text \<open>
  Who is asking, as sign-up sees it: the network and the connection behind an address
  (\<^verbatim>\<open>packages/server/src/auth/signup/network.ts\<close>), the suffixes of a mail domain
  (\<^verbatim>\<open>disposable-domains.ts\<close>) and the masking of addresses in logs (\<^verbatim>\<open>auth/masking.ts\<close>).
\<close>

section \<open>Addresses\<close>

definition isIPv4 :: "string list \<Rightarrow> bool" where
  "isIPv4 octets \<longleftrightarrow> length octets = 4 \<and> list_all (\<lambda>o'. digits 1 3 o' \<and> number_of o' \<le> 255) octets"

text \<open>\<open>s.split('::')\<close>\<close>

fun split_pairs :: "string \<Rightarrow> string list" where
  "split_pairs [] = [[]]"
| "split_pairs [c] = [[c]]"
| "split_pairs (c # d # s) =
     (if c = CHR '':'' \<and> d = CHR '':'' then [] # split_pairs s
      else (case split_pairs (d # s) of [] \<Rightarrow> [[c]] | p # ps \<Rightarrow> (c # p) # ps))"

text \<open>\<open>replace(/^0+(?=.)/, '')\<close>: leading zeros go, one character stays.\<close>

fun strip_zeros :: "string \<Rightarrow> string" where
  "strip_zeros (c # d # s) = (if c = CHR ''0'' then strip_zeros (d # s) else c # d # s)"
| "strip_zeros s = s"

definition hex_group :: "string \<Rightarrow> bool" where
  "hex_group g \<longleftrightarrow> 1 \<le> length g \<and> length g \<le> 4 \<and> list_all is_hex g"

definition colon_parts :: "string \<Rightarrow> string list" where
  "colon_parts s = (if s = [] then [] else split_on CHR '':'' s)"

definition expandIPv6 :: "string \<Rightarrow> string list option" where
  "expandIPv6 address =
     (let halves = split_pairs address
      in if 2 < length halves then None
         else let head = colon_parts (hd halves);
                  tail = (if length halves = 2 then colon_parts (halves ! 1) else []);
                  groups = (if length halves = 2
                            then head @ replicate (8 - length head - length tail) ''0'' @ tail else head)
              in if length groups \<noteq> 8 \<or> \<not> list_all hex_group groups then None
                 else Some (map (\<lambda>g. strip_zeros (to_lower g)) groups))"

text \<open>\<open>/^::ffff:(\d+\.\d+\.\d+\.\d+)$/i\<close>: the IPv4 address inside, if it is one of these.\<close>

definition mapped_v4 :: "string \<Rightarrow> string option" where
  "mapped_v4 ip =
     (let rest = drop 7 ip; parts = split_on CHR ''.'' rest
      in if to_lower (take 7 ip) = ''::ffff:'' \<and> length parts = 4
            \<and> list_all (\<lambda>p. p \<noteq> [] \<and> list_all is_digit p) parts
         then Some rest else None)"

definition address_in :: "string \<Rightarrow> string" where
  "address_in ip = (case mapped_v4 ip of None \<Rightarrow> ip | Some a \<Rightarrow> a)"

definition networkOf :: "string option \<Rightarrow> string" where
  "networkOf ip =
     (case ip of
        None \<Rightarrow> ''unknown''
      | Some s \<Rightarrow>
          if s = [] then ''unknown''
          else let address = address_in s
               in if CHR '':'' \<in> set address
                  then (case expandIPv6 address of
                          None \<Rightarrow> ''unknown'' | Some gs \<Rightarrow> join '':'' (take 3 gs) @ ''::/48'')
                  else let octets = split_on CHR ''.'' address
                       in if isIPv4 octets then join ''.'' (take 3 octets) @ ''.0/24'' else ''unknown'')"

definition addressOf :: "string option \<Rightarrow> string" where
  "addressOf ip =
     (case ip of
        None \<Rightarrow> ''unknown''
      | Some s \<Rightarrow>
          if s = [] then ''unknown''
          else let address = address_in s
               in if CHR '':'' \<in> set address
                  then (case expandIPv6 address of
                          None \<Rightarrow> ''unknown'' | Some gs \<Rightarrow> join '':'' (take 4 gs) @ ''::/64'')
                  else if isIPv4 (split_on CHR ''.'' address) then address else ''unknown'')"

section \<open>Mail domains\<close>

text \<open>The list of the source.\<close>

definition DISPOSABLE_EMAIL_DOMAINS :: "string list" where
  "DISPOSABLE_EMAIL_DOMAINS = [
    ''0-mail.com'', ''10minutemail.com'', ''10minutemail.net'', ''20minutemail.com'',
    ''33mail.com'', ''anonbox.net'', ''byom.de'', ''dispostable.com'', ''dropmail.me'',
    ''emailfake.com'', ''emailondeck.com'', ''fakeinbox.com'', ''fakemail.net'',
    ''getairmail.com'', ''getnada.com'', ''grr.la'', ''guerrillamail.biz'', ''guerrillamail.com'',
    ''guerrillamail.de'', ''guerrillamail.info'', ''guerrillamail.net'', ''guerrillamail.org'',
    ''guerrillamailblock.com'', ''harakirimail.com'', ''inboxbear.com'', ''inboxkitten.com'',
    ''mail-temporaire.fr'', ''mail7.io'', ''mailcatch.com'', ''maildrop.cc'', ''mailinator.com'',
    ''mailnesia.com'', ''mailsac.com'', ''mailtemp.info'', ''mintemail.com'', ''moakt.com'',
    ''mohmal.com'', ''mytemp.email'', ''nowmymail.com'', ''pokemail.net'', ''sharklasers.com'',
    ''spam4.me'', ''spamgourmet.com'', ''temp-mail.io'', ''temp-mail.org'', ''tempail.com'',
    ''tempinbox.com'', ''tempm.com'', ''tempmail.dev'', ''tempmail.plus'', ''tempmailo.com'',
    ''tempr.email'', ''throwawaymail.com'', ''trashmail.com'', ''trashmail.de'', ''trashmail.me'',
    ''trashmail.net'', ''tmpmail.net'', ''yopmail.com'', ''yopmail.fr'', ''yopmail.net'']"

text \<open>Each suffix that still has a dot.\<close>

fun label_suffixes :: "string list \<Rightarrow> string list" where
  "label_suffixes (l # m # ls) = join ''.'' (l # m # ls) # label_suffixes (m # ls)"
| "label_suffixes _ = []"

definition domainSuffixes :: "string \<Rightarrow> string list" where
  "domainSuffixes domain = label_suffixes (split_on CHR ''.'' domain)"

section \<open>Masking\<close>

definition maskEmail :: "string \<Rightarrow> string" where
  "maskEmail address =
     (case split_on CHR ''@'' address of
        local # domain # _ \<Rightarrow> take 2 local @ ''***@'' @ domain
      | _ \<Rightarrow> ''***'')"

section \<open>One address, one bucket\<close>

lemma isIPv4_parts:
  assumes "isIPv4 os"
  shows "os \<noteq> []" "\<forall>p \<in> set os. CHR ''.'' \<notin> set p \<and> CHR '':'' \<notin> set p \<and> p \<noteq> []"
    and "\<forall>p \<in> set os. list_all is_digit p"
proof -
  have d: "\<forall>p \<in> set os. list_all is_digit p \<and> p \<noteq> []"
    using assms by (auto simp: isIPv4_def list_all_iff digits_def)
  moreover have "\<not> is_digit CHR ''.''" "\<not> is_digit CHR '':''" by (simp_all add: is_digit_def)
  ultimately show "\<forall>p \<in> set os. CHR ''.'' \<notin> set p \<and> CHR '':'' \<notin> set p \<and> p \<noteq> []"
    "\<forall>p \<in> set os. list_all is_digit p"
    by (metis list_all_iff)+
  show "os \<noteq> []" using assms by (auto simp: isIPv4_def)
qed

lemma no_colon_join:
  assumes "isIPv4 os"
  shows "CHR '':'' \<notin> set (join ''.'' os)"
proof
  assume "CHR '':'' \<in> set (join ''.'' os)"
  then have "CHR '':'' \<in> (\<Union>p \<in> set os. set p) \<union> set ''.''" using set_join [of "''.''" os] by blast
  then show False using isIPv4_parts(2) [OF assms] by auto
qed

lemma plain_v4:
  assumes "isIPv4 os"
  shows "join ''.'' os \<noteq> []" "address_in (join ''.'' os) = join ''.'' os"
    "split_on CHR ''.'' (join ''.'' os) = os"
proof -
  obtain p ps where os: "os = p # ps" "p \<noteq> []"
    using isIPv4_parts [OF assms] by (cases os) auto
  then have hd: "hd (join ''.'' os) = hd p" "hd p \<in> set p" by (auto simp: hd_join)
  show ne: "join ''.'' os \<noteq> []" using os by (cases ps) auto
  have "is_digit (hd p)" using isIPv4_parts(3) [OF assms] os hd(2) by (auto simp: list_all_iff)
  then have "lower_char (hd (join ''.'' os)) = hd (join ''.'' os)" "hd (join ''.'' os) \<noteq> CHR '':''"
    using hd(1) by (auto simp: lower_char_def is_upper_def is_digit_def)
  moreover have "hd (to_lower (take 7 (join ''.'' os))) = lower_char (hd (join ''.'' os))"
    using ne by (cases "join ''.'' os") (simp_all add: to_lower_def)
  ultimately have "to_lower (take 7 (join ''.'' os)) \<noteq> ''::ffff:''" by (metis list.sel(1))
  then show "address_in (join ''.'' os) = join ''.'' os"
    by (simp add: address_in_def mapped_v4_def Let_def)
  show "split_on CHR ''.'' (join ''.'' os) = os"
    by (rule split_on_join) (use isIPv4_parts [OF assms] in auto)
qed

lemma v4_buckets:
  assumes "isIPv4 os"
  shows "networkOf (Some (join ''.'' os)) = join ''.'' (take 3 os) @ ''.0/24''"
    and "addressOf (Some (join ''.'' os)) = join ''.'' os"
  using plain_v4 [OF assms] no_colon_join [OF assms] assms
  by (simp_all add: networkOf_def addressOf_def Let_def)

text \<open>
  An IPv4 address written as an IPv6 one, in either case, is the same network and
  the same connection as the plain address.
\<close>

theorem mapped_address_same_bucket:
  assumes "isIPv4 os" and "to_lower prefix = ''::ffff:''"
  shows "networkOf (Some (prefix @ join ''.'' os)) = networkOf (Some (join ''.'' os))
    \<and> addressOf (Some (prefix @ join ''.'' os)) = addressOf (Some (join ''.'' os))"
proof -
  have len: "length prefix = 7"
    using arg_cong [OF assms(2), of length] by (simp add: to_lower_def)
  have "list_all (\<lambda>p. p \<noteq> [] \<and> list_all is_digit p) os" "length os = 4"
    using isIPv4_parts [OF assms(1)] assms(1) by (auto simp: list_all_iff isIPv4_def)
  then have "mapped_v4 (prefix @ join ''.'' os) = Some (join ''.'' os)"
    using assms(2) plain_v4(3) [OF assms(1)] by (simp add: mapped_v4_def len)
  then have "address_in (prefix @ join ''.'' os) = address_in (join ''.'' os)"
    using plain_v4(2) [OF assms(1)] by (simp add: address_in_def)
  moreover have "prefix @ join ''.'' os \<noteq> []" using len by auto
  ultimately show ?thesis using plain_v4(1) [OF assms(1)] by (simp add: networkOf_def addressOf_def)
qed

theorem mapped_address_same_bucket_witness:
  "networkOf (Some ''::FFFF:203.0.113.4'') = networkOf (Some ''203.0.113.4'')"
proof -
  have "to_lower ''::FFFF:'' = ''::ffff:''" "isIPv4 [''203'', ''0'', ''113'', ''4'']" by code_simp+
  from mapped_address_same_bucket [OF this(2,1)] show ?thesis by simp
qed

text \<open>
  C-PADDED. An octet with leading zeros is the same number, and the range check accepts it,
  but the bucket is named after its spelling: each spelling of one address is a network and
  a connection of its own. The comment of \<open>networkOf\<close> says what a lax parser would let a
  forged header do: ``mint an unlimited supply of fresh buckets''.
\<close>

theorem padded_octet_is_another_bucket:
  assumes "isIPv4 (a # os)" and "length a < 3"
  shows "isIPv4 ((CHR ''0'' # a) # os) \<and> number_of (CHR ''0'' # a) = number_of a
    \<and> networkOf (Some (CHR ''0'' # join ''.'' (a # os))) \<noteq> networkOf (Some (join ''.'' (a # os)))
    \<and> addressOf (Some (CHR ''0'' # join ''.'' (a # os))) \<noteq> addressOf (Some (join ''.'' (a # os)))"
proof -
  have num: "number_of (CHR ''0'' # a) = number_of a" by (simp add: number_of_def)
  have padded: "isIPv4 ((CHR ''0'' # a) # os)"
    using assms num by (simp add: isIPv4_def digits_def is_digit_def)
  have len: "length os = 3" using assms(1) by (simp add: isIPv4_def)
  then have j: "join ''.'' ((CHR ''0'' # a) # os) = CHR ''0'' # join ''.'' (a # os)"
    by (cases os) auto
  obtain b c d where os: "os = [b, c, d]" using len by (auto simp: numeral_eq_Suc length_Suc_conv)
  have "CHR ''0'' # join ''.'' (a # os) \<noteq> join ''.'' (a # os)" by (metis not_Cons_self2)
  moreover have "join ''.'' (take 3 ((CHR ''0'' # a) # os)) = CHR ''0'' # join ''.'' (take 3 (a # os))"
    by (simp add: os numeral_eq_Suc)
  moreover have "CHR ''0'' # xs \<noteq> xs" for xs by simp
  ultimately show ?thesis
    using num padded v4_buckets [OF assms(1)] v4_buckets [OF padded] by (simp only: j) simp
qed

theorem padded_octet_is_another_bucket_witness:
  "networkOf (Some ''01.2.3.4'') \<noteq> networkOf (Some ''1.2.3.4'')"
  using padded_octet_is_another_bucket [of "''1''" "[''2'', ''3'', ''4'']"]
  by (simp add: isIPv4_def digits_def is_digit_def number_of_def)

section \<open>Suffixes\<close>

lemma label_suffixes_append:
  "1 < length ls \<Longrightarrow> join ''.'' ls \<in> set (label_suffixes (ks @ ls))"
proof (induction ks)
  case Nil
  then show ?case by (cases ls rule: label_suffixes.cases) auto
next
  case (Cons k ks)
  obtain m ms where "ks @ ls = m # ms" using Cons.prems by (cases "ks @ ls") auto
  then show ?case using Cons by simp
qed

lemma suffix_listed:
  assumes "CHR ''.'' \<in> set d"
  shows "d \<in> set (domainSuffixes d)" "d \<in> set (domainSuffixes (sub @ ''.'' @ d))"
proof -
  let ?ls = "split_on CHR ''.'' d"
  have "1 < length ?ls"
  proof (rule ccontr)
    assume "\<not> 1 < length ?ls"
    moreover have "?ls \<noteq> []" by simp
    ultimately obtain p where p: "?ls = [p]" by (cases ?ls) auto
    then have "d = p" using join_split_on [of "CHR ''.''" d] by simp
    then show False using assms p split_on_parts_no_sep [of p "CHR ''.''" d] by simp
  qed
  moreover have "split_on CHR ''.'' (sub @ ''.'' @ d) = split_on CHR ''.'' sub @ ?ls"
  proof (induction sub)
    case (Cons x sub)
    obtain p ps where "split_on CHR ''.'' sub = p # ps" by (cases "split_on CHR ''.'' sub") auto
    then show ?case using Cons by simp
  qed simp
  ultimately show "d \<in> set (domainSuffixes d)" "d \<in> set (domainSuffixes (sub @ ''.'' @ d))"
    using label_suffixes_append [of ?ls "[]"] label_suffixes_append [of ?ls "split_on CHR ''.'' sub"]
      join_split_on [of "CHR ''.''" d] by (simp_all add: domainSuffixes_def)
qed

end
