(* ===== verification/Signup.thy ===== *)
theory Signup
  imports Retention Network Projects
begin

text \<open>
  Who may create an account: \<^verbatim>\<open>packages/server/src/auth/signup/signup-guard.service.ts\<close>,
  \<^verbatim>\<open>signup-policy.service.ts\<close>, \<^verbatim>\<open>setup-link.service.ts\<close> and \<^verbatim>\<open>signup-attempts.repository.ts\<close>.
  The hash functions are parameters; inserting the user row is the authentication
  library's, between the two hooks modelled here (\<^verbatim>\<open>better-auth/auth.factory.ts\<close>).
\<close>

record signup_config =
  sg_adminEmail :: string
  sg_enabled :: bool
  sg_blockDisposable :: bool
  sg_blocked :: "string list"
  sg_maxPerAddress :: nat
  sg_maxPerNetwork :: nat
  sg_secret :: string

record signup_env = checks_env +
  sv_hmac :: "string \<Rightarrow> string \<Rightarrow> string"
  sv_sha256 :: "string \<Rightarrow> string"
  sv_written :: bool

text \<open>\<open>sv_written\<close>: whether a best-effort write of this request goes through.\<close>

record signup_state =
  sn_db :: db
  sn_networks :: "(uuid \<times> string option) list"
  sn_attempts :: "signup_attempt list"
  sn_links :: "verification list"
  sn_audit :: audit_service

record signup_request =
  sq_email :: string
  sq_ip :: "string option"
  sq_userAgent :: "string option"
  sq_setupToken :: "string option"

section \<open>SignupGuardService\<close>

definition extraBlocked :: "signup_config \<Rightarrow> string list" where
  "extraBlocked cfg = filter (\<lambda>d. d \<noteq> []) (map (\<lambda>d. to_lower (trim d)) (sg_blocked cfg))"

definition email_domain :: "string \<Rightarrow> string" where
  "email_domain address = to_lower (rev (takeWhile (\<lambda>c. c \<noteq> CHR ''@'') (rev address)))"

definition isEmailAllowed :: "signup_config \<Rightarrow> string \<Rightarrow> bool" where
  "isEmailAllowed cfg address \<longleftrightarrow>
     email_domain address \<noteq> []
     \<and> list_all (\<lambda>s. s \<notin> set (extraBlocked cfg) \<and> \<not> (sg_blockDisposable cfg \<and> s \<in> set DISPOSABLE_EMAIL_DOMAINS))
         (domainSuffixes (email_domain address))"

definition signupNetworkOf :: "signup_config \<Rightarrow> signup_env \<Rightarrow> string option \<Rightarrow> string option" where
  "signupNetworkOf cfg env ip =
     (if sg_maxPerAddress cfg = 0 then None
      else Some (take 32 (sv_hmac env (sg_secret cfg) (''silencewatch:signup-network:'' @ addressOf ip))))"

definition countFromNetwork :: "string \<Rightarrow> signup_state \<Rightarrow> nat" where
  "countFromNetwork net st = length (filter (\<lambda>(_, n). n = Some net) (sn_networks st))"

definition isAddressWithinQuota :: "signup_config \<Rightarrow> string option \<Rightarrow> signup_state \<Rightarrow> bool" where
  "isAddressWithinQuota cfg signupNetwork st \<longleftrightarrow>
     (case signupNetwork of None \<Rightarrow> True
      | Some net \<Rightarrow> sg_maxPerAddress cfg = 0 \<or> countFromNetwork net st < sg_maxPerAddress cfg)"

definition countAcceptedSince :: "string \<Rightarrow> millis \<Rightarrow> signup_state \<Rightarrow> nat" where
  "countAcceptedSince network since st =
     length (filter (\<lambda>a. at_network a = network \<and> at_accepted a \<and> since \<le> at_createdAt a) (sn_attempts st))"

definition isNetworkWithinQuota :: "signup_config \<Rightarrow> millis \<Rightarrow> string \<Rightarrow> signup_state \<Rightarrow> bool" where
  "isNetworkWithinQuota cfg now network st \<longleftrightarrow>
     sg_maxPerNetwork cfg = 0 \<or> countAcceptedSince network (now - 3600000) st < sg_maxPerNetwork cfg"

definition record_attempt :: "signup_config \<Rightarrow> signup_env \<Rightarrow> string \<Rightarrow> bool \<Rightarrow> signup_state \<Rightarrow> signup_state" where
  "record_attempt cfg env network accepted st =
     (if sg_maxPerNetwork cfg = 0 \<or> \<not> sv_written env then st
      else st\<lparr>sn_attempts := sn_attempts st @
             [\<lparr>at_network = network, at_accepted = accepted, at_createdAt = ce_now env\<rparr>]\<rparr>)"

section \<open>SetupLinkService\<close>

definition SETUP_LINK_TTL_MS :: int where "SETUP_LINK_TTL_MS = 30 * 60000"

definition identifierOf :: "signup_env \<Rightarrow> string \<Rightarrow> string" where
  "identifierOf env tok = ''setup:'' @ sv_sha256 env tok"

text \<open>The link row; the address, token and expiry are what the link is made of.\<close>

definition issue_link :: "signup_config \<Rightarrow> signup_env \<Rightarrow> string \<Rightarrow> signup_state \<Rightarrow> (string \<times> string \<times> millis) \<times> signup_state" where
  "issue_link cfg env tok st =
     (let expiresAt = ce_now env + SETUP_LINK_TTL_MS
      in ((sg_adminEmail cfg, tok, expiresAt),
          st\<lparr>sn_links := sn_links st @
            [\<lparr>vf_identifier = identifierOf env tok, vf_value = sg_adminEmail cfg, vf_expiresAt = expiresAt\<rparr>]\<rparr>))"

definition accepts :: "signup_config \<Rightarrow> signup_env \<Rightarrow> string option \<Rightarrow> string \<Rightarrow> signup_state \<Rightarrow> bool" where
  "accepts cfg env tok address st \<longleftrightarrow>
     (case tok of
        None \<Rightarrow> False
      | Some t \<Rightarrow>
          t \<noteq> [] \<and> to_lower address = sg_adminEmail cfg
          \<and> (case find (\<lambda>v. vf_identifier v = identifierOf env t \<and> ce_now env < vf_expiresAt v) (sn_links st) of
               None \<Rightarrow> False | Some v \<Rightarrow> vf_value v = to_lower address))"

definition spend_link :: "signup_env \<Rightarrow> string \<Rightarrow> signup_state \<Rightarrow> signup_state" where
  "spend_link env tok st =
     st\<lparr>sn_links := filter (\<lambda>v. vf_identifier v \<noteq> identifierOf env tok) (sn_links st)\<rparr>"

section \<open>SignupPolicyService\<close>

datatype signup_decision =
    Allowed "string option" "string option"
  | Refused nat

text \<open>\<open>Allowed plan signupNetwork\<close>; a refusal carries its status code.\<close>

definition nobody :: audit_actor where
  "nobody = \<lparr>a_userId = None, a_email = None, a_apiKeyId = None, a_ip = None, a_userAgent = None\<rparr>"

definition plain_record :: "string \<Rightarrow> audit_actor \<Rightarrow> string option \<Rightarrow> audit_record" where
  "plain_record action actor detail =
     \<lparr>r_action = action, r_actor = actor, r_projectId = None, r_targetType = None, r_targetId = None,
      r_targetLabel = None, r_detail = detail\<rparr>"

definition log_event :: "signup_env \<Rightarrow> audit_record \<Rightarrow> signup_state \<Rightarrow> signup_state" where
  "log_event env r st = st\<lparr>sn_audit := write_event (ce_now env) (sv_written env) (sn_db st) r (sn_audit st)\<rparr>"

definition refused :: "signup_env \<Rightarrow> string \<Rightarrow> nat \<Rightarrow> signup_state \<Rightarrow> signup_decision \<times> signup_state" where
  "refused env reason answer st =
     (Refused answer,
      log_event env (plain_record ''signup.refused'' nobody (Some (''{\"reason\":\"'' @ reason @ ''\"}''))) st)"

definition checkAbuseRules ::
  "signup_config \<Rightarrow> signup_env \<Rightarrow> string \<Rightarrow> string option \<Rightarrow> string \<Rightarrow> signup_state \<Rightarrow>
     (signup_decision \<times> signup_state) option" where
  "checkAbuseRules cfg env address ip network st =
     (if \<not> isEmailAllowed cfg address
      then Some (refused env ''email_provider'' 400 (record_attempt cfg env network False st))
      else if \<not> isAddressWithinQuota cfg (signupNetworkOf cfg env ip) st
      then Some (refused env ''address_quota'' 429 (record_attempt cfg env network False st))
      else if \<not> isNetworkWithinQuota cfg (ce_now env) network st
      then Some (refused env ''network_quota'' 429 (record_attempt cfg env network False st))
      else None)"

definition decide :: "signup_config \<Rightarrow> signup_env \<Rightarrow> signup_request \<Rightarrow> signup_state \<Rightarrow> signup_decision \<times> signup_state" where
  "decide cfg env r st =
     (let address = to_lower (sq_email r); network = networkOf (sq_ip r);
          allowed = Allowed (defaultPlan (ce_quotas env)) (signupNetworkOf cfg env (sq_ip r))
      in if address = sg_adminEmail cfg
         then if accepts cfg env (sq_setupToken r) address st then (allowed, st)
              else refused env ''admin_without_link'' 403 st
         else if \<not> sg_enabled cfg then refused env ''signup_closed'' 403 st
         else case checkAbuseRules cfg env address (sq_ip r) network st of
                Some out \<Rightarrow> out
              | None \<Rightarrow> (allowed, st))"

definition first_project_name :: "string option \<Rightarrow> string" where
  "first_project_name nm =
     (case nm of None \<Rightarrow> ''My project''
      | Some s \<Rightarrow> if trim s = [] then ''My project'' else trim s @ [CHR 0x27] @ ''s project'')"

text \<open>Never throws: a failure is logged and the account has no project.\<close>

definition createFirstProject :: "signup_env \<Rightarrow> uuid \<Rightarrow> string option \<Rightarrow> db \<Rightarrow> db" where
  "createFirstProject env u nm s =
     (let title = first_project_name nm;
          sl = uniqueSlug (ce_nfkd env) (ce_bytes4 env) (ce_bytes3 env) (units_of title) (isProjectSlugTaken s) 5
      in case createOwnedBy (ce_now env) u title sl s of Inl _ \<Rightarrow> s | Inr (_, s') \<Rightarrow> s')"

definition created ::
  "signup_config \<Rightarrow> signup_env \<Rightarrow> uuid \<Rightarrow> string \<Rightarrow> string option \<Rightarrow> signup_request \<Rightarrow> signup_state \<Rightarrow> signup_state" where
  "created cfg env u address nm r st =
     (let st1 = (case sq_setupToken r of None \<Rightarrow> st | Some t \<Rightarrow> spend_link env t st);
          st2 = record_attempt cfg env (networkOf (sq_ip r)) True st1;
          st3 = log_event env (plain_record ''account.registered''
                  \<lparr>a_userId = Some u, a_email = Some address, a_apiKeyId = None, a_ip = sq_ip r,
                   a_userAgent = sq_userAgent r\<rparr> None) st2
      in st3\<lparr>sn_db := createFirstProject env u nm (sn_db st3)\<rparr>)"

text \<open>
  The hooks around the library's insert: the decision is made, the row is written with the
  plan and network it gave, under a fresh id, and \<open>created\<close> follows. Two requests may
  both have decided before either row is written.
\<close>

definition insert_user :: "signup_decision \<Rightarrow> signup_request \<Rightarrow> signup_state \<Rightarrow> signup_state" where
  "insert_user decision r st =
     (case decision of
        Refused _ \<Rightarrow> st
      | Allowed plan net \<Rightarrow>
          st\<lparr>sn_db := (sn_db st)\<lparr>users := users (sn_db st) @
                [\<lparr>u_id = next_id (sn_db st), email = to_lower (sq_email r), u_plan = plan, disabledAt = None\<rparr>],
              next_id := Suc (next_id (sn_db st))\<rparr>,
             sn_networks := sn_networks st @ [(next_id (sn_db st), net)]\<rparr>)"

definition register :: "signup_config \<Rightarrow> signup_env \<Rightarrow> signup_request \<Rightarrow> signup_state \<Rightarrow> signup_decision \<times> signup_state" where
  "register cfg env r st =
     (case decide cfg env r st of
        (Refused answer, st1) \<Rightarrow> (Refused answer, st1)
      | (Allowed plan net, st1) \<Rightarrow>
          (Allowed plan net,
           created cfg env (next_id (sn_db st1)) (to_lower (sq_email r)) None r
             (insert_user (Allowed plan net) r st1)))"

section \<open>The administrator's account\<close>

lemma write_event_frame: "sn_links (log_event env r st) = sn_links st" "sn_db (log_event env r st) = sn_db st"
  "sn_networks (log_event env r st) = sn_networks st" "sn_attempts (log_event env r st) = sn_attempts st"
  by (simp_all add: log_event_def)

lemma record_attempt_frame [simp]:
  "sn_links (record_attempt cfg env n a st) = sn_links st" "sn_db (record_attempt cfg env n a st) = sn_db st"
  "sn_networks (record_attempt cfg env n a st) = sn_networks st" "sn_audit (record_attempt cfg env n a st) = sn_audit st"
  by (simp_all add: record_attempt_def)

lemmas signup_frames = write_event_frame record_attempt_frame

lemma refused_frame: "refused env reason answer st = (Refused answer, st') \<Longrightarrow> sn_db st' = sn_db st \<and> sn_networks st' = sn_networks st \<and> sn_links st' = sn_links st"
  by (auto simp: refused_def signup_frames)

lemma decide_frame:
  assumes "decide cfg env r st = (out, st')"
  shows "sn_db st' = sn_db st" "sn_networks st' = sn_networks st" "sn_links st' = sn_links st"
    "(\<exists>plan net. out = Allowed plan net) \<Longrightarrow> st' = st"
  using assms
  by (auto simp: decide_def checkAbuseRules_def refused_def signup_frames Let_def split: if_splits)

lemma createFirstProject_users: "users (createFirstProject env u nm s) = users s"
  by (auto simp: createFirstProject_def createOwnedBy_def Let_def)

lemma created_frame [simp]:
  "sn_networks (created cfg env u a nm r st) = sn_networks st"
  "users (sn_db (created cfg env u a nm r st)) = users (sn_db st)"
  by (simp_all add: created_def Let_def signup_frames createFirstProject_users spend_link_def split: option.splits)

text \<open>
  The administrator's address is registered by a live setup link issued for it and
  in no other way, whether sign-up is open or not; the link is spent by the registration, so
  that the same request made again is refused. Any other address is registered only while
  sign-up is open and only past the abuse rules.
\<close>

theorem administrator_needs_link:
  assumes "register cfg env r st = (Allowed plan net, st')"
  shows "(if to_lower (sq_email r) = sg_adminEmail cfg
       then accepts cfg env (sq_setupToken r) (to_lower (sq_email r)) st
         \<and> (\<forall>env'. sv_sha256 env' = sv_sha256 env \<longrightarrow> fst (decide cfg env' r st') = Refused 403)
       else sg_enabled cfg \<and> isEmailAllowed cfg (to_lower (sq_email r))
         \<and> isAddressWithinQuota cfg (signupNetworkOf cfg env (sq_ip r)) st
         \<and> isNetworkWithinQuota cfg (ce_now env) (networkOf (sq_ip r)) st)
    \<and> (\<exists>u. users (sn_db st') = users (sn_db st) @ [u] \<and> email u = to_lower (sq_email r) \<and> u_plan u = plan)"
proof -
  obtain st1 where d: "decide cfg env r st = (Allowed plan net, st1)"
    and st': "st' = created cfg env (next_id (sn_db st1)) (to_lower (sq_email r)) None r (insert_user (Allowed plan net) r st1)"
    using assms by (auto simp: register_def split: prod.splits signup_decision.splits)
  have st1: "st1 = st" using decide_frame(4) [OF d] by blast
  have user: "\<exists>u. users (sn_db st') = users (sn_db st) @ [u] \<and> email u = to_lower (sq_email r) \<and> u_plan u = plan"
    by (simp add: st' st1 insert_user_def)
  show ?thesis
  proof (cases "to_lower (sq_email r) = sg_adminEmail cfg")
    case True
    then have acc: "accepts cfg env (sq_setupToken r) (to_lower (sq_email r)) st"
      using d by (auto simp: decide_def Let_def refused_def split: if_splits)
    then obtain t where t: "sq_setupToken r = Some t" by (auto simp: accepts_def split: option.splits)
    have links: "sn_links st' = filter (\<lambda>v. vf_identifier v \<noteq> identifierOf env t) (sn_links st)"
      by (simp add: st' st1 created_def t Let_def signup_frames insert_user_def spend_link_def)
    have "\<not> accepts cfg env' (sq_setupToken r) (to_lower (sq_email r)) st'" if "sv_sha256 env' = sv_sha256 env" for env'
    proof -
      have "identifierOf env' t = identifierOf env t" using that by (simp add: identifierOf_def)
      then have "find (\<lambda>v. vf_identifier v = identifierOf env' t \<and> ce_now env' < vf_expiresAt v) (sn_links st') = None"
        by (auto simp: links find_None_iff)
      then show ?thesis by (simp add: accepts_def t)
    qed
    then show ?thesis using True acc user by (simp add: decide_def Let_def refused_def)
  next
    case False
    then show ?thesis
      using d user by (auto simp: decide_def Let_def refused_def checkAbuseRules_def split: if_splits)
  qed
qed

section \<open>Blocked domains\<close>

text \<open>
  A domain on the operator's list refuses every address under it and under its
  subdomains, however the list and the address are spelled.
\<close>

theorem blocked_domain_blocks_subdomains:
  assumes "d \<in> set (sg_blocked cfg)" and "CHR ''.'' \<in> set (trim d)"
    and "email_domain address = to_lower (trim d) \<or> email_domain address = sub @ ''.'' @ to_lower (trim d)"
  shows "\<not> isEmailAllowed cfg address"
proof -
  have "lower_char CHR ''.'' = CHR ''.''" by (simp add: lower_char_def is_upper_def)
  then have dot: "CHR ''.'' \<in> set (to_lower (trim d))" using assms(2) by (force simp: to_lower_def)
  then have "to_lower (trim d) \<in> set (extraBlocked cfg)"
    using assms(1) by (auto simp: extraBlocked_def)
  moreover have "to_lower (trim d) \<in> set (domainSuffixes (email_domain address))"
    using assms(3) suffix_listed [OF dot] by auto
  ultimately show ?thesis by (auto simp: isEmailAllowed_def list_all_iff)
qed

section \<open>One account per connection\<close>

text \<open>
  Requests handled one after the other never take a connection past its number of
  accounts. The rule counts rows and then inserts, without the lock that serialises the plan
  limits: two requests that decide before either row is written are both let in.
\<close>

lemma countFromNetwork_register:
  assumes "register cfg env r st = (Allowed plan (Some net), st')"
  shows "countFromNetwork net st' = Suc (countFromNetwork net st)"
proof -
  obtain st1 where d: "decide cfg env r st = (Allowed plan (Some net), st1)"
    and st': "st' = created cfg env (next_id (sn_db st1)) (to_lower (sq_email r)) None r (insert_user (Allowed plan (Some net)) r st1)"
    using assms by (auto simp: register_def split: prod.splits signup_decision.splits)
  have "st1 = st" using decide_frame(4) [OF d] by blast
  then show ?thesis by (simp add: st' countFromNetwork_def insert_user_def)
qed

theorem connection_quota_sequential_only:
  assumes "to_lower (sq_email r) \<noteq> sg_adminEmail cfg" and "to_lower (sq_email r') \<noteq> sg_adminEmail cfg"
    and "sq_ip r' = sq_ip r" and "0 < sg_maxPerAddress cfg"
    and "fst (decide cfg env r st) = Allowed plan (Some net)" and "fst (decide cfg env r' st) = Allowed plan (Some net)"
    and "countFromNetwork net st = sg_maxPerAddress cfg - 1"
  shows "(\<exists>st'. register cfg env r st = (Allowed plan (Some net), st') \<and> countFromNetwork net st' = sg_maxPerAddress cfg
      \<and> fst (decide cfg env r' st') = Refused 429)
    \<and> countFromNetwork net (insert_user (fst (decide cfg env r' st)) r' (insert_user (fst (decide cfg env r st)) r st))
        = Suc (sg_maxPerAddress cfg)"
proof -
  have d: "decide cfg env r st = (Allowed plan (Some net), st)"
    using assms(5) decide_frame(4) by (metis prod.collapse)
  then obtain st' where reg: "register cfg env r st = (Allowed plan (Some net), st')"
    by (simp add: register_def)
  have net: "signupNetworkOf cfg env (sq_ip r) = Some net" "isEmailAllowed cfg (to_lower (sq_email r'))" "sg_enabled cfg"
    using assms(1,2,5,6) by (auto simp: decide_def Let_def refused_def checkAbuseRules_def split: if_splits)
  have "countFromNetwork net st' = sg_maxPerAddress cfg"
    using countFromNetwork_register [OF reg] assms(4,7) by simp
  moreover from this have "fst (decide cfg env r' st') = Refused 429"
    using assms(2,3,4) net by (simp add: decide_def Let_def checkAbuseRules_def isAddressWithinQuota_def refused_def)
  moreover have "countFromNetwork net (insert_user (Allowed plan (Some net)) r' (insert_user (Allowed plan (Some net)) r st))
      = Suc (sg_maxPerAddress cfg)"
    using assms(4,7) by (simp add: countFromNetwork_def insert_user_def)
  ultimately show ?thesis using reg assms(5,6) by auto
qed

section \<open>Examples\<close>

definition sample_signup :: signup_config where
  "sample_signup = \<lparr>sg_adminEmail = ''root@w.io'', sg_enabled = True, sg_blockDisposable = True,
     sg_blocked = ['' Spam.example ''], sg_maxPerAddress = 1, sg_maxPerNetwork = 5, sg_secret = ''s''\<rparr>"

definition sample_signup_env :: signup_env where
  "sample_signup_env = \<lparr>ce_quotas = \<lparr>quotas_enabled = False, DEFAULT_PLAN = ''free'', planLimits = []\<rparr>,
     ce_cron = minutely, ce_now = 1000, ce_newPingKey = ''fresh'', ce_nfkd = id, ce_bytes4 = [0, 0, 0, 0],
     ce_bytes3 = [0, 0, 0], ce_baseUrl = ''https://w'', ce_uuid_text = show_nat,
     sv_hmac = (\<lambda>k d. d), sv_sha256 = id, sv_written = True\<rparr>"

definition nobody_yet :: signup_state where
  "nobody_yet = \<lparr>sn_db = empty_db, sn_networks = [], sn_attempts = [], sn_links = [],
     sn_audit = \<lparr>au_events = [], au_emails = [], au_next = 0\<rparr>\<rparr>"

definition asks :: "string \<Rightarrow> string option \<Rightarrow> signup_request" where
  "asks address tok = \<lparr>sq_email = address, sq_ip = Some ''203.0.113.4'', sq_userAgent = None, sq_setupToken = tok\<rparr>"

definition allowed :: "signup_decision \<Rightarrow> bool" where
  "allowed d = (case d of Allowed _ _ \<Rightarrow> True | Refused _ \<Rightarrow> False)"

lemma first_comes_in: "decide sample_signup sample_signup_env (asks ''a@w.io'' None) nobody_yet
    = (Allowed None (Some ''silencewatch:signup-network:203.''), nobody_yet)"
proof -
  have "networkOf (Some ''203.0.113.4'') = ''203.0.113.0/24''" "addressOf (Some ''203.0.113.4'') = ''203.0.113.4''"
    "isEmailAllowed sample_signup ''a@w.io''" "to_lower ''a@w.io'' = ''a@w.io''"
    by code_simp+
  then show ?thesis
    by (simp add: decide_def asks_def checkAbuseRules_def isAddressWithinQuota_def isNetworkWithinQuota_def
        countFromNetwork_def countAcceptedSince_def sample_signup_env_def sample_signup_def nobody_yet_def
        signupNetworkOf_def defaultPlan_def Let_def)
qed

theorem connection_quota_sequential_only_witness:
  "countFromNetwork ''silencewatch:signup-network:203.''
     (insert_user (fst (decide sample_signup sample_signup_env (asks ''a@w.io'' None) nobody_yet)) (asks ''a@w.io'' None)
       (insert_user (fst (decide sample_signup sample_signup_env (asks ''a@w.io'' None) nobody_yet)) (asks ''a@w.io'' None) nobody_yet))
     = 2"
proof -
  have "to_lower ''a@w.io'' = ''a@w.io''" by code_simp
  then show ?thesis
    using connection_quota_sequential_only [of "asks ''a@w.io'' None" sample_signup "asks ''a@w.io'' None"
        sample_signup_env nobody_yet None "''silencewatch:signup-network:203.''"] first_comes_in
    by (simp add: sample_signup_def asks_def countFromNetwork_def nobody_yet_def)
qed

theorem administrator_needs_link_witness:
  "\<exists>plan net st'. register sample_signup sample_signup_env (asks ''Root@w.io'' (Some ''t''))
       (snd (issue_link sample_signup sample_signup_env ''t'' nobody_yet)) = (Allowed plan net, st')
     \<and> fst (decide sample_signup sample_signup_env (asks ''Root@w.io'' (Some ''t'')) st') = Refused 403"
proof -
  let ?st = "snd (issue_link sample_signup sample_signup_env ''t'' nobody_yet)"
  have low: "to_lower ''Root@w.io'' = ''root@w.io''" "to_lower ''root@w.io'' = ''root@w.io''" by code_simp+
  have "accepts sample_signup sample_signup_env (Some ''t'') ''root@w.io'' ?st"
    by (simp add: accepts_def low issue_link_def sample_signup_def sample_signup_env_def nobody_yet_def identifierOf_def
        SETUP_LINK_TTL_MS_def Let_def)
  then have "\<exists>plan net. decide sample_signup sample_signup_env (asks ''Root@w.io'' (Some ''t'')) ?st = (Allowed plan net, ?st)"
    by (simp add: decide_def asks_def low Let_def) (simp add: sample_signup_def)
  then obtain plan net st' where r: "register sample_signup sample_signup_env (asks ''Root@w.io'' (Some ''t'')) ?st = (Allowed plan net, st')"
    by (auto simp: register_def)
  have "sq_email (asks ''Root@w.io'' (Some ''t'')) = ''Root@w.io''" by (simp add: asks_def)
  then show ?thesis using administrator_needs_link [OF r] r low by (auto simp: sample_signup_def)
qed

theorem blocked_domain_blocks_subdomains_witness:
  "\<not> isEmailAllowed sample_signup ''a@Mail.SPAM.example''"
proof -
  have "CHR ''.'' \<in> set (trim '' Spam.example '')"
    "email_domain ''a@Mail.SPAM.example'' = ''mail'' @ ''.'' @ to_lower (trim '' Spam.example '')" by code_simp+
  then show ?thesis
    using blocked_domain_blocks_subdomains [of "'' Spam.example ''" sample_signup] by (simp add: sample_signup_def)
qed

end
