(* ===== verification/SignIn.thy ===== *)
theory SignIn
  imports JsText "HOL-Library.Multiset"
begin

text \<open>
  Getting back in: \<^verbatim>\<open>packages/server/src/auth/recovery/recovery-codes.service.ts\<close> and
  \<^verbatim>\<open>recovery-codes.plugin.ts\<close>, the lockout of \<^verbatim>\<open>lockout/login-lockout.service.ts\<close>, and what
  every sign-in does to sessions (the session hooks of \<^verbatim>\<open>better-auth/auth.factory.ts\<close> with
  \<^verbatim>\<open>users.repository.ts\<close>). The keyed hash and the random numbers are parameters.
\<close>

record auth_user =
  wu_id :: uuid
  wu_email :: string
  wu_failed :: nat
  wu_lockedUntil :: "millis option"
  wu_lastLoginAt :: "millis option"
  wu_disabledAt :: "millis option"

record recovery_code =
  rv_user :: uuid
  rv_hash :: string
  rv_usedAt :: "millis option"

record auth_session =
  as_id :: uuid
  as_user :: uuid
  as_createdAt :: millis

record auth_db =
  ad_users :: "auth_user list"
  ad_codes :: "recovery_code list"
  ad_sessions :: "auth_session list"
  ad_passkeys :: "uuid list"
  ad_accounts :: "uuid list"
  ad_next :: uuid

section \<open>Recovery codes\<close>

definition RECOVERY_CODE_COUNT :: nat where "RECOVERY_CODE_COUNT = 8"

definition ALPHABET :: string where "ALPHABET = ''0123456789ABCDEFGHJKMNPQRSTVWXYZ''"

definition GROUPS :: nat where "GROUPS = 3"
definition GROUP_LENGTH :: nat where "GROUP_LENGTH = 4"

text \<open>The random numbers are drawn group by group: \<open>ns g i\<close> is below 32.\<close>

definition generateRecoveryCode :: "(nat \<Rightarrow> nat \<Rightarrow> nat) \<Rightarrow> string" where
  "generateRecoveryCode ns =
     join ''-'' (map (\<lambda>g. map (\<lambda>i. ALPHABET ! ns g i) [0..<GROUP_LENGTH]) [0..<GROUPS])"

text \<open>\<open>toUpperCase\<close> of a code unit, ASCII; the others are not part of any code.\<close>

definition upper_char :: "char \<Rightarrow> char" where
  "upper_char c = (if is_lower c then char_of (code c - 32) else c)"

definition look_alike :: "char \<Rightarrow> char" where
  "look_alike c = (if c = CHR ''O'' then CHR ''0'' else if c = CHR ''I'' \<or> c = CHR ''L'' then CHR ''1'' else c)"

definition normaliseRecoveryCode :: "string \<Rightarrow> string" where
  "normaliseRecoveryCode s =
     map look_alike (filter (\<lambda>c. \<not> is_space c \<and> c \<noteq> CHR ''-'') (map upper_char s))"

definition replaceAll :: "(string \<Rightarrow> string) \<Rightarrow> uuid \<Rightarrow> (nat \<Rightarrow> nat \<Rightarrow> nat \<Rightarrow> nat) \<Rightarrow> auth_db \<Rightarrow> string list \<times> auth_db" where
  "replaceAll hash u draws a =
     (let codes = map (\<lambda>k. generateRecoveryCode (draws k)) [0..<RECOVERY_CODE_COUNT]
      in (codes, a\<lparr>ad_codes := filter (\<lambda>c. rv_user c \<noteq> u) (ad_codes a)
           @ map (\<lambda>c. \<lparr>rv_user = u, rv_hash = hash (normaliseRecoveryCode c), rv_usedAt = None\<rparr>) codes\<rparr>))"

definition spendable :: "(string \<Rightarrow> string) \<Rightarrow> uuid \<Rightarrow> string \<Rightarrow> recovery_code \<Rightarrow> bool" where
  "spendable hash u s c \<longleftrightarrow> rv_user c = u \<and> rv_hash c = hash (normaliseRecoveryCode s) \<and> rv_usedAt c = None"

definition spend :: "(string \<Rightarrow> string) \<Rightarrow> millis \<Rightarrow> uuid \<Rightarrow> string \<Rightarrow> auth_db \<Rightarrow> bool \<times> auth_db" where
  "spend hash now u s a =
     (length (filter (spendable hash u s) (ad_codes a)) = 1,
      a\<lparr>ad_codes := update_where (spendable hash u s) (\<lambda>c. c\<lparr>rv_usedAt := Some now\<rparr>) (ad_codes a)\<rparr>)"

definition remaining :: "uuid \<Rightarrow> auth_db \<Rightarrow> nat" where
  "remaining u a = length (filter (\<lambda>c. rv_user c = u \<and> rv_usedAt c = None) (ad_codes a))"

section \<open>The lockout\<close>

definition MAX_FAILED_LOGINS :: nat where "MAX_FAILED_LOGINS = 10"
definition LOCKOUT_MS :: int where "LOCKOUT_MS = 15 * 60000"

definition isLocked :: "millis \<Rightarrow> auth_user \<Rightarrow> bool" where
  "isLocked now u \<longleftrightarrow> (case wu_lockedUntil u of None \<Rightarrow> False | Some t \<Rightarrow> now < t)"

text \<open>The count comes from the row the caller read, and is written back.\<close>

definition recordFailure :: "millis \<Rightarrow> auth_user \<Rightarrow> auth_db \<Rightarrow> nat \<times> auth_db" where
  "recordFailure now u a =
     (let failures = wu_failed u + 1
      in (failures,
          a\<lparr>ad_users := update_where (\<lambda>x. wu_id x = wu_id u)
             (\<lambda>x. x\<lparr>wu_failed := failures,
                    wu_lockedUntil := (if MAX_FAILED_LOGINS \<le> failures then Some (now + LOCKOUT_MS) else None)\<rparr>)
             (ad_users a)\<rparr>))"

definition recordSuccessfulLogin :: "millis \<Rightarrow> uuid \<Rightarrow> auth_db \<Rightarrow> auth_db" where
  "recordSuccessfulLogin now u a =
     a\<lparr>ad_users := update_where (\<lambda>x. wu_id x = u)
        (\<lambda>x. x\<lparr>wu_failed := 0, wu_lockedUntil := None, wu_lastLoginAt := Some now\<rparr>) (ad_users a)\<rparr>"

section \<open>Sessions\<close>

definition MAX_LIVE_SESSIONS_PER_USER :: nat where "MAX_LIVE_SESSIONS_PER_USER = 20"

definition trimSessions :: "uuid \<Rightarrow> nat \<Rightarrow> auth_db \<Rightarrow> auth_db" where
  "trimSessions u keep a =
     (let surplus = map as_id (drop keep (rev (sort_key as_createdAt (filter (\<lambda>x. as_user x = u) (ad_sessions a)))))
      in a\<lparr>ad_sessions := filter (\<lambda>x. as_id x \<notin> set surplus) (ad_sessions a)\<rparr>)"

datatype session_outcome =
    SignedIn uuid
  | AccountDisabled
  | Refused401

text \<open>Every way in: refused for a disabled account, and the hooks after the row is there.\<close>

definition createSession :: "millis \<Rightarrow> uuid \<Rightarrow> auth_db \<Rightarrow> session_outcome \<times> auth_db" where
  "createSession now u a =
     (if (case find (\<lambda>x. wu_id x = u) (ad_users a) of None \<Rightarrow> False | Some x \<Rightarrow> wu_disabledAt x \<noteq> None)
      then (AccountDisabled, a)
      else let a1 = a\<lparr>ad_sessions := ad_sessions a @ [\<lparr>as_id = ad_next a, as_user = u, as_createdAt = now\<rparr>],
                      ad_next := Suc (ad_next a)\<rparr>
           in (SignedIn (ad_next a), trimSessions u MAX_LIVE_SESSIONS_PER_USER (recordSuccessfulLogin now u a1)))"

definition isUnfinishedRegistration :: "uuid \<Rightarrow> auth_db \<Rightarrow> bool" where
  "isUnfinishedRegistration u a \<longleftrightarrow>
     (case find (\<lambda>x. wu_id x = u) (ad_users a) of
        None \<Rightarrow> False
      | Some x \<Rightarrow> wu_lastLoginAt x = None
          \<and> length (filter (\<lambda>i. i = u) (ad_passkeys a)) + length (filter (\<lambda>i. i = u) (ad_accounts a))
            + length (filter (\<lambda>c. rv_user c = u) (ad_codes a))
            + length (filter (\<lambda>x. as_user x = u) (ad_sessions a)) = 0)"

text \<open>Signing in with a code. The address arrives trimmed and in lower case.\<close>

definition signIn :: "(string \<Rightarrow> string) \<Rightarrow> millis \<Rightarrow> string \<Rightarrow> string \<Rightarrow> auth_db \<Rightarrow> session_outcome \<times> auth_db" where
  "signIn hash now address s a =
     (case find (\<lambda>x. wu_email x = address) (ad_users a) of
        None \<Rightarrow> (Refused401, a)
      | Some u \<Rightarrow>
          if isLocked now u then (Refused401, a)
          else case spend hash now (wu_id u) s a of
                 (False, a1) \<Rightarrow> (Refused401, snd (recordFailure now u a1))
               | (True, a1) \<Rightarrow> createSession now (wu_id u) a1)"

section \<open>Codes survive being copied\<close>

definition plain_letter :: "char \<Rightarrow> bool" where
  "plain_letter c \<longleftrightarrow> upper_char c = c \<and> look_alike c = c \<and> \<not> is_space c \<and> c \<noteq> CHR ''-'' \<and> upper_char (lower_char c) = c
     \<and> \<not> is_space (lower_char c) \<and> lower_char c \<noteq> CHR ''-''"

lemma alphabet_plain: "n < 32 \<Longrightarrow> plain_letter (ALPHABET ! n)"
proof -
  have "list_all plain_letter ALPHABET" "length ALPHABET = 32" by code_simp+
  then show "n < 32 \<Longrightarrow> plain_letter (ALPHABET ! n)" by (simp add: list_all_length)
qed

lemma alphabet_inj: "m < 32 \<Longrightarrow> n < 32 \<Longrightarrow> ALPHABET ! m = ALPHABET ! n \<Longrightarrow> m = n"
proof -
  have "distinct ALPHABET" "length ALPHABET = 32" by code_simp+
  then show "m < 32 \<Longrightarrow> n < 32 \<Longrightarrow> ALPHABET ! m = ALPHABET ! n \<Longrightarrow> m = n"
    by (simp add: nth_eq_iff_index_eq)
qed

lemma normalise_append: "normaliseRecoveryCode (s @ t) = normaliseRecoveryCode s @ normaliseRecoveryCode t"
  by (simp add: normaliseRecoveryCode_def)

lemma normalise_plain: "list_all plain_letter s \<Longrightarrow> normaliseRecoveryCode s = s \<and> normaliseRecoveryCode (to_lower s) = s"
  by (induction s) (auto simp: normaliseRecoveryCode_def plain_letter_def to_lower_def)

lemma normalise_dash [simp]: "normaliseRecoveryCode ''-'' = []"
  by code_simp

lemma normalise_dash_cons [simp]: "normaliseRecoveryCode (CHR ''-'' # s) = normaliseRecoveryCode s"
  using normalise_append [of "''-''" s] by simp

definition letters :: "(nat \<Rightarrow> nat \<Rightarrow> nat) \<Rightarrow> nat \<Rightarrow> string" where
  "letters ns g = map (\<lambda>i. ALPHABET ! ns g i) [0..<4]"

lemma generated_code: "generateRecoveryCode ns = letters ns 0 @ ''-'' @ letters ns 1 @ ''-'' @ letters ns 2"
  by (simp add: generateRecoveryCode_def letters_def GROUP_LENGTH_def GROUPS_def upt_rec numeral_eq_Suc)

text \<open>
  A code is recognised however it is copied: in lower case, without its dashes or
  with spaces for them. Different codes stay different.
\<close>

theorem recovery_code_roundtrip:
  assumes "\<And>g i. ns g i < 32" and "\<And>g i. ms g i < 32"
  shows "normaliseRecoveryCode (to_lower (letters ns 0 @ letters ns 1 @ '' '' @ letters ns 2))
      = normaliseRecoveryCode (generateRecoveryCode ns)
    \<and> (normaliseRecoveryCode (generateRecoveryCode ns) = normaliseRecoveryCode (generateRecoveryCode ms)
        \<longleftrightarrow> (\<forall>g i. g < 3 \<and> i < 4 \<longrightarrow> ns g i = ms g i))"
proof -
  have plain: "list_all plain_letter (letters ks g)" if "\<And>g i. ks g i < 32" for ks g
    using alphabet_plain that by (simp add: letters_def list_all_length)
  have norm: "normaliseRecoveryCode (generateRecoveryCode ks) = letters ks 0 @ letters ks 1 @ letters ks 2"
    if "\<And>g i. ks g i < 32" for ks
    using normalise_plain plain [of ks, OF that] by (simp add: generated_code normalise_append)
  have "lower_char CHR '' '' = CHR '' ''" "normaliseRecoveryCode '' '' = []" by code_simp+
  moreover have "normaliseRecoveryCode (CHR '' '' # t) = normaliseRecoveryCode t" for t
    using normalise_append [of "'' ''" t] calculation(2) by simp
  ultimately have "normaliseRecoveryCode (to_lower (letters ns 0 @ letters ns 1 @ '' '' @ letters ns 2))
      = letters ns 0 @ letters ns 1 @ letters ns 2"
    using normalise_plain plain [of ns, OF assms(1)] by (simp add: to_lower_def normalise_append)
  moreover have "letters ns g = letters ms g \<longleftrightarrow> (\<forall>i < 4. ns g i = ms g i)" for g
    using alphabet_inj assms by (auto simp: letters_def)
  moreover have "length (letters ks g) = 4" for ks g by (simp add: letters_def)
  moreover have "(\<forall>g i. g < 3 \<and> i < 4 \<longrightarrow> ns g i = ms g i)
      \<longleftrightarrow> (\<forall>i < 4. ns 0 i = ms 0 i) \<and> (\<forall>i < 4. ns 1 i = ms 1 i) \<and> (\<forall>i < 4. ns 2 i = ms 2 i)"
    by (auto simp: numeral_eq_Suc less_Suc_eq)
  ultimately show ?thesis using norm [of ns, OF assms(1)] norm [of ms, OF assms(2)] by simp
qed

section \<open>A code is spent once\<close>

lemma filtered_length_mono: "(\<And>x. P x \<Longrightarrow> Q x) \<Longrightarrow> length (filter P xs) \<le> length (filter Q xs)"
  by (induction xs) (auto intro: le_SucI)

lemma one_code_at_most:
  assumes "distinct (map rv_hash (ad_codes a))"
  shows "length (filter (spendable hash u s) (ad_codes a)) \<le> 1"
proof -
  have "length (filter (\<lambda>c. rv_hash c = hash (normaliseRecoveryCode s)) (ad_codes a)) \<le> 1"
    by (simp add: filter_distinct_key [OF assms])
  moreover have "length (filter (spendable hash u s) (ad_codes a))
      \<le> length (filter (\<lambda>c. rv_hash c = hash (normaliseRecoveryCode s)) (ad_codes a))"
    by (rule filtered_length_mono) (simp add: spendable_def)
  ultimately show ?thesis by linarith
qed

lemma spend_exact:
  assumes "distinct (map rv_hash (ad_codes a))"
  shows "fst (spend hash now u s a) \<longleftrightarrow> (\<exists>c \<in> set (ad_codes a). spendable hash u s c)"
proof -
  have "length (filter (spendable hash u s) (ad_codes a)) = 1 \<longleftrightarrow> filter (spendable hash u s) (ad_codes a) \<noteq> []"
    using one_code_at_most [OF assms, of hash u s] by (cases "filter (spendable hash u s) (ad_codes a)") auto
  then show ?thesis by (auto simp: spend_def filter_empty_conv)
qed

lemma length_filter_update:
  assumes "\<And>x. q x \<Longrightarrow> p x" and "\<And>x. q x \<Longrightarrow> \<not> p (f x)"
  shows "length (filter p (update_where q f xs)) + length (filter q xs) = length (filter p xs)"
  using assms by (induction xs) auto

text \<open>
  A recovery code signs in once: when it is accepted, the same code is refused from
  then on and the account holds one code fewer; a refused code changes nothing.
\<close>

theorem recovery_code_single_use:
  assumes "distinct (map rv_hash (ad_codes a))"
  shows "(case spend hash now u s a of
            (True, a1) \<Rightarrow> remaining u a1 + 1 = remaining u a \<and> spend hash later u s a1 = (False, a1)
          | (False, a1) \<Rightarrow> a1 = a)"
proof -
  let ?q = "spendable hash u s" and ?f = "\<lambda>c. c\<lparr>rv_usedAt := Some now\<rparr>"
  have none: "filter ?q (update_where ?q ?f xs) = []" for xs
    by (induction xs) (auto simp: spendable_def)
  have same: "update_where ?q g (update_where ?q ?f xs) = update_where ?q ?f xs" for g xs
    using none [of xs] by (intro update_where_id) (simp add: filter_empty_conv)
  have "length (filter (\<lambda>c. rv_user c = u \<and> rv_usedAt c = None) (update_where ?q ?f (ad_codes a)))
      + length (filter ?q (ad_codes a)) = length (filter (\<lambda>c. rv_user c = u \<and> rv_usedAt c = None) (ad_codes a))"
    by (rule length_filter_update) (auto simp: spendable_def)
  moreover have "length (filter ?q (ad_codes a)) \<noteq> 1 \<Longrightarrow> update_where ?q ?f (ad_codes a) = ad_codes a"
    using one_code_at_most [OF assms, of hash u s]
    by (intro update_where_id) (force simp: filter_empty_conv le_Suc_eq)
  ultimately show ?thesis using none same
    by (cases "length (filter ?q (ad_codes a)) = 1") (simp_all add: spend_def remaining_def)
qed

definition pot_user :: auth_user where
  "pot_user = \<lparr>wu_id = 1, wu_email = ''ada@example.com'', wu_failed = 0, wu_lockedUntil = None,
     wu_lastLoginAt = None, wu_disabledAt = Some 5\<rparr>"

definition pot_db :: auth_db where
  "pot_db = \<lparr>ad_users = [pot_user], ad_codes = [\<lparr>rv_user = 1, rv_hash = ''ABCD'', rv_usedAt = None\<rparr>],
     ad_sessions = [], ad_passkeys = [], ad_accounts = [], ad_next = 7\<rparr>"

theorem recovery_code_single_use_witness:
  "(case spend id 10 1 ''ab-cd'' pot_db of
      (True, a1) \<Rightarrow> remaining 1 a1 + 1 = remaining 1 pot_db \<and> spend id 11 1 ''ab-cd'' a1 = (False, a1)
    | (False, a1) \<Rightarrow> a1 = pot_db) \<and> fst (spend id 10 1 ''ab-cd'' pot_db)"
proof -
  have "distinct (map rv_hash (ad_codes pot_db))" by (simp add: pot_db_def)
  moreover have "fst (spend id 10 1 ''ab-cd'' pot_db)" by code_simp
  ultimately show ?thesis by (intro conjI recovery_code_single_use)
qed

theorem recovery_code_roundtrip_witness:
  "normaliseRecoveryCode (generateRecoveryCode (\<lambda>g i. (g + i) mod 32))
     \<noteq> normaliseRecoveryCode (generateRecoveryCode (\<lambda>g i. i mod 32))"
proof -
  have "\<not> (\<forall>g i. g < 3 \<and> i < 4 \<longrightarrow> (g + i) mod 32 = i mod (32::nat))"
    by (intro notI, drule spec [of _ 1], drule spec [of _ 0]) simp
  then show ?thesis
    using recovery_code_roundtrip [of "\<lambda>g i. (g + i) mod 32" "\<lambda>g i. i mod 32"] by (simp only: mod_less_divisor) auto
qed

section \<open>Sessions stay bounded\<close>

lemma trimmed_sessions:
  assumes "distinct (map as_id (ad_sessions a))"
  shows "mset (filter (\<lambda>x. as_user x = u) (ad_sessions (trimSessions u keep a)))
       = mset (take keep (rev (sort_key as_createdAt (filter (\<lambda>x. as_user x = u) (ad_sessions a)))))"
proof -
  let ?own = "filter (\<lambda>x. as_user x = u) (ad_sessions a)"
  let ?sorted = "rev (sort_key as_createdAt ?own)"
  let ?gone = "as_id ` set (drop keep ?sorted)"
  have ids: "distinct (map as_id ?sorted)"
  proof -
    have "mset (map as_id ?sorted) = mset (map as_id ?own)" by simp
    then show ?thesis using assms distinct_map_filter mset_eq_imp_distinct_iff by metis
  qed
  have keep: "filter (\<lambda>x. as_id x \<notin> as_id ` set ys) (xs @ ys) = xs"
    if "distinct (map as_id (xs @ ys))" for xs ys :: "auth_session list"
    using that by (auto simp: filter_id_conv filter_empty_conv)
  have "mset (filter (\<lambda>x. as_id x \<notin> ?gone) ?own) = mset (filter (\<lambda>x. as_id x \<notin> ?gone) ?sorted)"
    by (simp only: mset_filter mset_rev mset_sort)
  also have "\<dots> = mset (take keep ?sorted)"
    using keep [of "take keep ?sorted" "drop keep ?sorted"] ids by simp
  finally show ?thesis by (simp add: trimSessions_def conj_commute)
qed

lemma last_sorted_newest:
  assumes "x \<in> set xs" and "\<And>y. y \<in> set xs \<Longrightarrow> y \<noteq> x \<Longrightarrow> f y < f x" and "0 < n"
  shows "x \<in> set (take n (rev (sort_key f xs)))"
proof -
  let ?ys = "sort_key f xs"
  have ne: "?ys \<noteq> []" using assms(1) by (cases xs) auto
  have last: "last ?ys \<in> set xs" using last_in_set [OF ne] by simp
  have "f x \<le> f (last ?ys)"
  proof -
    obtain i where i: "i < length ?ys" "?ys ! i = x" using assms(1) by (metis in_set_conv_nth set_sort)
    have "sorted (map f ?ys)" by simp
    then show ?thesis
      using sorted_nth_mono [of "map f ?ys" i "length ?ys - 1"] i ne by (simp add: last_conv_nth)
  qed
  then have "last ?ys = x" using assms(2) [OF last] by fastforce
  moreover obtain m where "n = Suc m" using assms(3) by (cases n) auto
  moreover have "rev ?ys = last ?ys # rev (butlast ?ys)" using ne by (metis append_butlast_last_id rev_eq_Cons_iff rev_rev_ident)
  ultimately show ?thesis by (metis list.set_intros(1) take_Suc_Cons)
qed

text \<open>
  After a sign-in the account holds at most twenty sessions, and the one just
  opened is among them; nobody else's session goes.
\<close>

theorem sessions_bounded:
  assumes "distinct (map as_id (ad_sessions a))"
    and "\<And>x. x \<in> set (ad_sessions a) \<Longrightarrow> as_id x < ad_next a \<and> as_createdAt x < now"
    and "createSession now u a = (SignedIn i, a1)"
  shows "length (filter (\<lambda>x. as_user x = u) (ad_sessions a1)) \<le> 20
    \<and> (\<exists>x \<in> set (ad_sessions a1). as_id x = i \<and> as_user x = u)
    \<and> filter (\<lambda>x. as_user x \<noteq> u) (ad_sessions a1) = filter (\<lambda>x. as_user x \<noteq> u) (ad_sessions a)"
proof -
  define new where "new = \<lparr>as_id = ad_next a, as_user = u, as_createdAt = now\<rparr>"
  define b where "b = recordSuccessfulLogin now u (a\<lparr>ad_sessions := ad_sessions a @ [new], ad_next := Suc (ad_next a)\<rparr>)"
  have i: "i = ad_next a" and a1: "a1 = trimSessions u 20 b"
    using assms(3) by (auto simp: createSession_def Let_def b_def new_def MAX_LIVE_SESSIONS_PER_USER_def split: if_splits)
  have sessions: "ad_sessions b = ad_sessions a @ [new]" by (simp add: b_def recordSuccessfulLogin_def)
  have ids: "distinct (map as_id (ad_sessions b))"
    using assms(1,2) by (force simp: sessions new_def)
  let ?own = "filter (\<lambda>x. as_user x = u) (ad_sessions b)"
  let ?kept = "take 20 (rev (sort_key as_createdAt ?own))"
  have kept: "mset (filter (\<lambda>x. as_user x = u) (ad_sessions a1)) = mset ?kept"
    unfolding a1 by (rule trimmed_sessions [OF ids])
  have "length (filter (\<lambda>x. as_user x = u) (ad_sessions a1)) = length ?kept"
    by (rule mset_eq_length [OF kept])
  then have "length (filter (\<lambda>x. as_user x = u) (ad_sessions a1)) \<le> 20" by simp
  moreover have "new \<in> set ?kept"
    by (rule last_sorted_newest) (use assms(2) in \<open>auto simp: sessions new_def\<close>)
  then have "new \<in> set (ad_sessions a1)" "as_id new = i" "as_user new = u"
    using mset_eq_setD [OF kept] by (auto simp: new_def i)
  moreover have "filter (\<lambda>x. as_user x \<noteq> u) (ad_sessions a1) = filter (\<lambda>x. as_user x \<noteq> u) (ad_sessions b)"
  proof -
    let ?gone = "drop 20 (rev (sort_key as_createdAt ?own))"
    have "as_id x \<notin> as_id ` set ?gone" if "x \<in> set (ad_sessions b)" "as_user x \<noteq> u" for x
    proof
      assume "as_id x \<in> as_id ` set ?gone"
      then obtain y where "y \<in> set ?gone" "as_id x = as_id y" by auto
      then have "y \<in> set ?own" using in_set_dropD by fastforce
      with ids that \<open>as_id x = as_id y\<close> have "x = y" by (auto simp: distinct_map inj_on_def)
      with \<open>y \<in> set ?own\<close> that show False by simp
    qed
    then show ?thesis by (auto simp: a1 trimSessions_def Let_def intro!: filter_cong)
  qed
  ultimately show ?thesis by (intro conjI bexI [of _ new]) (simp_all add: sessions new_def)
qed

theorem sessions_bounded_witness:
  "length (filter (\<lambda>x. as_user x = 1) (ad_sessions (snd (createSession 10 1 (pot_db\<lparr>ad_users := []\<rparr>))))) \<le> 20
   \<and> (\<exists>x \<in> set (ad_sessions (snd (createSession 10 1 (pot_db\<lparr>ad_users := []\<rparr>)))). as_id x = 7 \<and> as_user x = 1)"
proof -
  have "createSession 10 1 (pot_db\<lparr>ad_users := []\<rparr>) = (SignedIn 7, snd (createSession 10 1 (pot_db\<lparr>ad_users := []\<rparr>)))"
    by (simp add: createSession_def pot_db_def Let_def)
  then show ?thesis
    using sessions_bounded [of "pot_db\<lparr>ad_users := []\<rparr>" 10 1 7] by (simp add: pot_db_def)
qed

section \<open>Refusals\<close>

text \<open>
  A disabled account that presents a code of its own is answered with a message of its own,
  and the code is gone: the refusal comes from the session hook, after the code was spent.
\<close>

theorem disabled_account_burns_code:
  assumes "find (\<lambda>x. wu_email x = address) (ad_users a) = Some u"
    and "find (\<lambda>x. wu_id x = wu_id u) (ad_users a) = Some u"
    and "wu_disabledAt u \<noteq> None" and "\<not> isLocked now u" and "fst (spend hash now (wu_id u) s a)"
  shows "signIn hash now address s a = (AccountDisabled, snd (spend hash now (wu_id u) s a))"
  using assms by (auto simp: signIn_def createSession_def spend_def split: prod.splits)

theorem disabled_account_burns_code_witness:
  "fst (signIn id 10 ''ada@example.com'' ''ab-cd'' pot_db) = AccountDisabled
   \<and> remaining 1 (snd (signIn id 10 ''ada@example.com'' ''ab-cd'' pot_db)) = 0"
proof -
  have "fst (spend id 10 (wu_id pot_user) ''ab-cd'' pot_db)"
    "remaining 1 (snd (spend id 10 (wu_id pot_user) ''ab-cd'' pot_db)) = 0" by code_simp+
  then show ?thesis
    using disabled_account_burns_code [of "''ada@example.com''" pot_db pot_user 10 id "''ab-cd''"]
    by (simp add: pot_db_def pot_user_def isLocked_def)
qed

text \<open>Every way of failing that reveals nothing gives one answer and opens no session.\<close>

lemma refused_opens_nothing:
  "fst (signIn hash now address s a) = Refused401 \<Longrightarrow> ad_sessions (snd (signIn hash now address s a)) = ad_sessions a"
  by (auto simp: signIn_def createSession_def spend_def recordFailure_def Let_def
      split: option.splits prod.splits if_splits bool.splits)

text \<open>Wrong codes one after another, each counted on the row as it is then.\<close>

definition after_failure :: "millis \<Rightarrow> auth_user \<Rightarrow> auth_user" where
  "after_failure now u = hd (ad_users (snd (recordFailure now u
     \<lparr>ad_users = [u], ad_codes = [], ad_sessions = [], ad_passkeys = [], ad_accounts = [], ad_next = 0\<rparr>)))"

lemma after_failure [simp]:
  "wu_failed (after_failure now u) = Suc (wu_failed u)"
  "wu_lockedUntil (after_failure now u) = (if 10 \<le> Suc (wu_failed u) then Some (now + LOCKOUT_MS) else None)"
  by (simp_all add: after_failure_def recordFailure_def Let_def MAX_FAILED_LOGINS_def)

fun failures_in_turn :: "nat \<Rightarrow> millis \<Rightarrow> auth_user \<Rightarrow> auth_user" where
  "failures_in_turn 0 now u = u"
| "failures_in_turn (Suc n) now u = failures_in_turn n now (after_failure now u)"

lemma failures_counted: "wu_failed (failures_in_turn n now u) = wu_failed u + n"
  by (induction n arbitrary: u) auto

lemma failures_locked:
  "0 < n \<Longrightarrow> wu_lockedUntil (failures_in_turn n now u)
     = (if 10 \<le> wu_failed u + n then Some (now + LOCKOUT_MS) else None)"
proof (induction n arbitrary: u)
  case (Suc n)
  then show ?case by (cases n) auto
qed simp

text \<open>
  Ten failures in a row lock the account for a quarter of an hour, nine do not;
  while it is locked even a valid code is refused, untouched. The count is not reset by the
  lock running out, so the next failure locks the account again.
\<close>

theorem lockout_after_ten:
  assumes "wu_failed u = 0"
  shows "\<not> isLocked now (failures_in_turn 9 now u)
    \<and> (isLocked later (failures_in_turn 10 now u) \<longleftrightarrow> later < now + 15 * 60000)
    \<and> isLocked again (failures_in_turn 1 again (failures_in_turn 10 now u))
    \<and> (isLocked later v \<and> find (\<lambda>x. wu_email x = address) (ad_users a) = Some v
        \<longrightarrow> signIn hash later address s a = (Refused401, a))"
  using assms failures_locked [of 1 again "failures_in_turn 10 now u"]
  by (simp add: isLocked_def failures_locked failures_counted LOCKOUT_MS_def signIn_def)

theorem lockout_after_ten_witness:
  "isLocked 899999 (failures_in_turn 10 0 pot_user) \<and> \<not> isLocked 900000 (failures_in_turn 10 0 pot_user)"
proof -
  have "wu_failed pot_user = 0" by (simp add: pot_user_def)
  from lockout_after_ten [OF this, of 0 899999] lockout_after_ten [OF this, of 0 900000]
  show ?thesis by simp
qed

text \<open>
  Two wrong codes at the same moment, both counted on the row as it was: the second write
  repeats the first, so a burst of any size counts as one failure.
\<close>

theorem parallel_failures_count_once:
  "snd (recordFailure now u (snd (recordFailure now u a))) = snd (recordFailure now u a)"
  by (cases a) (simp add: recordFailure_def Let_def update_where_def)

end
