(* ===== verification/Account.thy ===== *)
theory Account
  imports Projects Billing
begin

text \<open>
  Deleting an account: \<^verbatim>\<open>packages/server/src/auth/account/account.service.ts\<close> with the queries of
  \<^verbatim>\<open>users.repository.ts\<close> and its route. The steps run in the order of the source: the
  subscription is ended at Stripe, then the projects are looked at, then rows go. What was
  asked of Stripe is listed, since nothing undoes it.
\<close>

record membership_with_peers =
  mp_project :: uuid
  mp_role :: project_role
  mp_name :: string
  mp_peers :: "project_role list"

definition listMembershipsWithPeers :: "uuid \<Rightarrow> db \<Rightarrow> membership_with_peers list" where
  "listMembershipsWithPeers u s =
     map (\<lambda>m. \<lparr>mp_project = m_project m, mp_role = role m,
               mp_name = (case project_by_id (m_project m) s of None \<Rightarrow> [] | Some x \<Rightarrow> pr_name x),
               mp_peers = map role (filter (\<lambda>x. m_project x = m_project m \<and> m_user x \<noteq> u) (members s))\<rparr>)
       (filter (\<lambda>m. m_user m = u) (members s))"

text \<open>The loop: a project nobody else is in goes, one that would lose its only owner refuses.\<close>

fun sole_projects :: "membership_with_peers list \<Rightarrow> http_error + uuid list" where
  "sole_projects [] = Inr []"
| "sole_projects (m # ms) =
     (if mp_peers m = [] then map_sum id ((#) (mp_project m)) (sole_projects ms)
      else if mp_role m = Owner \<and> Owner \<notin> set (mp_peers m) then Inl Conflict
      else sole_projects ms)"

definition projectsToDelete :: "uuid \<Rightarrow> db \<Rightarrow> http_error + uuid list" where
  "projectsToDelete u s = sole_projects (listMembershipsWithPeers u s)"

text \<open>One transaction; deleting projects that are gone already is no error, the user's row is.\<close>

definition delete_projects :: "uuid list \<Rightarrow> db \<Rightarrow> db" where
  "delete_projects ps s = foldl (\<lambda>s p. case delete_project p s of Inl _ \<Rightarrow> s | Inr s' \<Rightarrow> s') s ps"

definition deleteWithProjects :: "uuid \<Rightarrow> uuid list \<Rightarrow> billing_db \<Rightarrow> http_error + billing_db" where
  "deleteWithProjects u ps b =
     (if u \<notin> u_id ` set (users (bl_store b)) then Inl ServerError
      else let s = delete_projects ps (bl_store b)
           in Inr (b\<lparr>bl_subs := filter (\<lambda>x. sb_user x \<noteq> u) (bl_subs b),
                bl_store := s\<lparr>users := filter (\<lambda>x. u_id x \<noteq> u) (users s),
                               members := filter (\<lambda>m. m_user m \<noteq> u) (members s)\<rparr>\<rparr>))"

definition subscription_to_cancel :: "billing_env \<Rightarrow> uuid \<Rightarrow> billing_db \<Rightarrow> string option" where
  "subscription_to_cancel env u b =
     (if \<not> be_enabled env then None
      else case sub_of_user u b of
        None \<Rightarrow> None
      | Some x \<Rightarrow> if sb_status x = ''canceled'' then None else sb_subscription x)"

lemma cancelForAccount_asks:
  "cancelForAccount env u b =
     (case subscription_to_cancel env u b of
        None \<Rightarrow> Inr ()
      | Some sid \<Rightarrow> (case cancelSubscription (be_stripe env) sid of Inl _ \<Rightarrow> Inl BadGateway | Inr _ \<Rightarrow> Inr ()))"
  by (auto simp: cancelForAccount_def subscription_to_cancel_def split: option.splits)

definition deleted_record :: "(uuid \<Rightarrow> string) \<Rightarrow> (nat \<Rightarrow> string) \<Rightarrow> user \<Rightarrow> string option \<Rightarrow> string option \<Rightarrow> nat \<Rightarrow> audit_record" where
  "deleted_record txt detail u address agent n =
     \<lparr>r_action = ''account.deleted'',
      r_actor = \<lparr>a_userId = Some (u_id u), a_email = Some (email u), a_apiKeyId = None, a_ip = address, a_userAgent = agent\<rparr>,
      r_projectId = None, r_targetType = Some ''user'', r_targetId = Some (txt (u_id u)), r_targetLabel = None,
      r_detail = Some (detail n)\<rparr>"

definition delete_account ::
  "billing_env \<Rightarrow> (nat \<Rightarrow> string) \<Rightarrow> uuid \<Rightarrow> string option \<Rightarrow> string option \<Rightarrow> billing_db \<Rightarrow>
     (http_error + audit_record) \<times> string list \<times> billing_db" where
  "delete_account env detail u address agent b =
     (case find (\<lambda>x. u_id x = u) (users (bl_store b)) of
        None \<Rightarrow> (Inl ServerError, [], b)
      | Some x \<Rightarrow>
          (case cancelForAccount env u b of
             Inl e \<Rightarrow> (Inl e, [], b)
           | Inr _ \<Rightarrow>
               let asked = (case subscription_to_cancel env u b of None \<Rightarrow> [] | Some sid \<Rightarrow> [sid])
               in (case projectsToDelete u (bl_store b) of
                     Inl e \<Rightarrow> (Inl e, asked, b)
                   | Inr ps \<Rightarrow>
                       (case deleteWithProjects u ps b of
                          Inl e \<Rightarrow> (Inl e, asked, b)
                        | Inr b' \<Rightarrow> (Inr (deleted_record (be_text env) detail x address agent (length ps)), asked, b')))))"

definition route_delete_account ::
  "billing_env \<Rightarrow> (nat \<Rightarrow> string) \<Rightarrow> millis \<Rightarrow> principal \<Rightarrow> string option \<Rightarrow> string option \<Rightarrow> billing_db \<Rightarrow>
     (http_error + audit_record) \<times> string list \<times> billing_db" where
  "route_delete_account env detail now pr address agent b =
     (case assertRecentUser now pr of
        Inl e \<Rightarrow> (Inl e, [], b)
      | Inr (u, _) \<Rightarrow> delete_account env detail u address agent b)"

section \<open>What goes and what stays\<close>

lemma sole_projects_exact:
  "sole_projects ms = Inr ps \<Longrightarrow>
     ps = map mp_project (filter (\<lambda>m. mp_peers m = []) ms)
     \<and> (\<forall>m \<in> set ms. mp_role m = Owner \<longrightarrow> mp_peers m = [] \<or> Owner \<in> set (mp_peers m))"
  by (induction ms arbitrary: ps) (auto simp: map_sum_def split: sum.splits if_splits)

lemma projectsToDelete_alone:
  assumes "projectsToDelete u s = Inr ps" "n \<in> set (members s)" "m_project n \<in> set ps"
  shows "m_user n = u"
proof -
  have "set ps = mp_project ` {m \<in> set (listMembershipsWithPeers u s). mp_peers m = []}"
    using sole_projects_exact [OF assms(1) [unfolded projectsToDelete_def]] by auto
  with assms(3) obtain m where "m \<in> set (listMembershipsWithPeers u s)" "mp_peers m = []" "mp_project m = m_project n"
    by auto
  then have "filter (\<lambda>x. m_project x = m_project n \<and> m_user x \<noteq> u) (members s) = []"
    unfolding listMembershipsWithPeers_def by auto
  with assms(2) show ?thesis by (auto simp: filter_empty_conv)
qed

lemma projectsToDelete_owner:
  assumes "projectsToDelete u s = Inr ps" "m \<in> set (members s)" "m_user m = u" "role m = Owner" "m_project m \<notin> set ps"
  shows "\<exists>x \<in> set (members s). m_project x = m_project m \<and> m_user x \<noteq> u \<and> role x = Owner"
proof -
  let ?row = "\<lparr>mp_project = m_project m, mp_role = role m,
               mp_name = (case project_by_id (m_project m) s of None \<Rightarrow> [] | Some x \<Rightarrow> pr_name x),
               mp_peers = map role (filter (\<lambda>x. m_project x = m_project m \<and> m_user x \<noteq> u) (members s))\<rparr>"
  have row: "?row \<in> set (listMembershipsWithPeers u s)"
    using assms(2,3) unfolding listMembershipsWithPeers_def by auto
  note sole = sole_projects_exact [OF assms(1) [unfolded projectsToDelete_def]]
  then have "mp_role ?row = Owner \<longrightarrow> mp_peers ?row = [] \<or> Owner \<in> set (mp_peers ?row)"
    using row by blast
  then have "mp_peers ?row = [] \<or> Owner \<in> set (mp_peers ?row)"
    by (simp only: assms(4) membership_with_peers.simps simp_thms)
  moreover have "mp_peers ?row \<noteq> []"
  proof
    assume "mp_peers ?row = []"
    then have "?row \<in> set (filter (\<lambda>m. mp_peers m = []) (listMembershipsWithPeers u s))" using row by simp
    then have "mp_project ?row \<in> set ps" unfolding conjunct1 [OF sole] set_map by (rule imageI)
    with assms(5) show False by simp
  qed
  ultimately have "Owner \<in> set (mp_peers ?row)" by blast
  then show ?thesis by auto
qed

lemma delete_projects_kept:
  assumes "tenants_ok s"
  shows "tenants_ok (delete_projects ps s)
    \<and> projects (delete_projects ps s) = filter (\<lambda>x. pr_id x \<notin> set ps) (projects s)
    \<and> members (delete_projects ps s) = filter (\<lambda>m. m_project m \<notin> set ps) (members s)
    \<and> users (delete_projects ps s) = users s"
  using assms
proof (induction ps arbitrary: s)
  case (Cons p ps)
  show ?case
  proof (cases "delete_project p s")
    case (Inl e)
    then have none: "\<forall>x \<in> set (projects s). pr_id x \<noteq> p"
      by (auto simp: delete_project_def project_by_id_def Let_def find_None_iff split: if_splits)
    moreover have "\<forall>m \<in> set (members s). m_project m \<noteq> p"
      using Cons.prems none by (force simp: tenants_defs)
    ultimately show ?thesis
      using Cons.IH [OF Cons.prems] Inl by (auto simp: delete_projects_def intro!: filter_cong)
  next
    case (Inr s')
    then have "delete_projects (p # ps) s = delete_projects ps s'" by (simp add: delete_projects_def)
    moreover have "(\<lambda>x. pr_id x \<notin> set (p # ps)) = (\<lambda>x. pr_id x \<noteq> p \<and> pr_id x \<notin> set ps)"
      "(\<lambda>m. m_project m \<notin> set (p # ps)) = (\<lambda>m. m_project m \<noteq> p \<and> m_project m \<notin> set ps)" by auto
    ultimately show ?thesis
      using Cons.IH [OF delete_project_ok [OF Cons.prems Inr]] deleted_rows [OF Inr] by (simp add: conj_commute)
  qed
qed (simp add: delete_projects_def)

lemma findRole_iff:
  assumes "projects_ok s"
  shows "findRole q v s = Some r \<longleftrightarrow> (\<exists>m \<in> set (members s). m_project m = q \<and> m_user m = v \<and> role m = r)"
proof -
  have "distinct (map (\<lambda>m. (m_project m, m_user m)) (members s))" using assms by (simp add: projects_ok_def)
  then have unique: "m = n" if "m \<in> set (members s)" "n \<in> set (members s)" "m_project m = m_project n" "m_user m = m_user n" for m n
    using that by (auto dest: distinct_map_memD)
  show ?thesis
  proof (cases "find (\<lambda>m. m_project m = q \<and> m_user m = v) (members s)")
    case None
    then have "findRole q v s = None" by (simp add: findRole_def)
    then show ?thesis using None by (auto simp: find_None_iff)
  next
    case (Some n)
    then have "n \<in> set (members s)" "m_project n = q" "m_user n = v" by (auto simp: find_Some_iff)
    then show ?thesis using unique Some by (auto simp: findRole_def)
  qed
qed

lemma tenants_ok_leave:
  "tenants_ok s \<Longrightarrow> tenants_ok (s\<lparr>users := us, members := filter P (members s)\<rparr>)"
  by (simp add: tenants_ok_def store_inv_defs projects_ok_def refs_ok_def distinct_map_filter)

lemma find_filter_on: "(\<And>x. x \<in> set xs \<Longrightarrow> p x \<Longrightarrow> q x) \<Longrightarrow> find p (filter q xs) = find p xs"
  by (induction xs) auto

lemma delete_account_done:
  assumes ok: "tenants_ok (bl_store b)" and del: "delete_account env detail u address agent b = (Inr r, asked, b')"
  obtains ps where "projectsToDelete u (bl_store b) = Inr ps"
    "members (bl_store b') = filter (\<lambda>m. m_user m \<noteq> u) (filter (\<lambda>m. m_project m \<notin> set ps) (members (bl_store b)))"
    "projects (bl_store b') = filter (\<lambda>x. pr_id x \<notin> set ps) (projects (bl_store b))"
    "users (bl_store b') = filter (\<lambda>x. u_id x \<noteq> u) (users (bl_store b))"
    "bl_subs b' = filter (\<lambda>x. sb_user x \<noteq> u) (bl_subs b)"
    "tenants_ok (bl_store b')"
    "asked = (case subscription_to_cancel env u b of None \<Rightarrow> [] | Some sid \<Rightarrow> [sid])"
proof -
  obtain ps where ps: "projectsToDelete u (bl_store b) = Inr ps" and b': "deleteWithProjects u ps b = Inr b'"
    and asked: "asked = (case subscription_to_cancel env u b of None \<Rightarrow> [] | Some sid \<Rightarrow> [sid])"
    using del by (auto simp: delete_account_def Let_def split: option.splits sum.splits)
  let ?s = "delete_projects ps (bl_store b)"
  note kept = delete_projects_kept [OF ok, of ps]
  have store: "bl_store b' = ?s\<lparr>users := filter (\<lambda>x. u_id x \<noteq> u) (users ?s), members := filter (\<lambda>m. m_user m \<noteq> u) (members ?s)\<rparr>"
    and subs: "bl_subs b' = filter (\<lambda>x. sb_user x \<noteq> u) (bl_subs b)"
    using b' by (auto simp: deleteWithProjects_def Let_def split: if_splits)
  have "tenants_ok (bl_store b')"
    unfolding store by (rule tenants_ok_leave [OF conjunct1 [OF kept]])
  then show thesis using that ps asked kept subs by (simp add: store)
qed

text \<open>
  C28. A deleted account is gone with its memberships and its subscription row, which was
  ended at Stripe first when it was live. No other account's role changes in any project, every
  project that is left and had an owner has one, and every key and reference is intact.
\<close>

theorem account_deletion_complete:
  assumes "tenants_ok (bl_store b)" and "delete_account env detail u address agent b = (Inr r, asked, b')"
  shows "tenants_ok (bl_store b') \<and> u \<notin> u_id ` set (users (bl_store b')) \<and> listProjectIds u (bl_store b') = []
    \<and> sub_of_user u b' = None \<and> (\<forall>sid. subscription_to_cancel env u b = Some sid \<longrightarrow> asked = [sid])
    \<and> (\<forall>q v. v \<noteq> u \<longrightarrow> findRole q v (bl_store b') = findRole q v (bl_store b))
    \<and> (\<forall>q \<in> pr_id ` set (projects (bl_store b')).
         (\<exists>v. findRole q v (bl_store b) = Some Owner) \<longrightarrow> (\<exists>v. findRole q v (bl_store b') = Some Owner))"
proof -
  let ?s = "bl_store b" and ?t = "bl_store b'"
  obtain ps where ps: "projectsToDelete u ?s = Inr ps"
    and rows: "members ?t = filter (\<lambda>m. m_user m \<noteq> u) (filter (\<lambda>m. m_project m \<notin> set ps) (members ?s))"
      "projects ?t = filter (\<lambda>x. pr_id x \<notin> set ps) (projects ?s)"
      "users ?t = filter (\<lambda>x. u_id x \<noteq> u) (users ?s)" "bl_subs b' = filter (\<lambda>x. sb_user x \<noteq> u) (bl_subs b)"
    and ok: "tenants_ok ?t"
    and asked: "asked = (case subscription_to_cancel env u b of None \<Rightarrow> [] | Some sid \<Rightarrow> [sid])"
    using delete_account_done [OF assms] by blast
  note alone = projectsToDelete_alone [OF ps]
  have roles: "findRole q v ?t = findRole q v ?s" if "v \<noteq> u" for q v
    unfolding findRole_def rows filter_filter by (subst find_filter_on) (use that alone in auto)
  have "\<exists>v. findRole q v ?t = Some Owner" if there: "q \<in> pr_id ` set (projects ?t)" and owner: "findRole q w ?s = Some Owner" for q w
  proof (cases "w = u")
    case True
    have proj: "projects_ok ?s" using assms(1) by (simp add: tenants_ok_def)
    obtain m where m: "m \<in> set (members ?s)" "m_project m = q" "m_user m = u" "role m = Owner"
      using owner True by (auto simp: findRole_iff [OF proj])
    have "q \<notin> set ps" using there by (auto simp: rows)
    then obtain x where "x \<in> set (members ?s)" "m_project x = q" "m_user x \<noteq> u" "role x = Owner"
      using projectsToDelete_owner [OF ps m(1,3,4)] m(2) by auto
    then have "findRole q (m_user x) ?s = Some Owner" by (auto simp: findRole_iff [OF proj])
    then show ?thesis using roles [OF \<open>m_user x \<noteq> u\<close>] by metis
  next
    case False
    then show ?thesis using roles owner by metis
  qed
  then show ?thesis
    using ok roles asked
    by (auto simp: rows listProjectIds_def sub_of_user_def filter_empty_conv find_None_iff)
qed

text \<open>Nothing goes while Stripe cannot be reached.\<close>

lemma unreachable_stripe_keeps_account:
  "cancelForAccount env u b = Inl e \<Longrightarrow> snd (snd (delete_account env detail u address agent b)) = b"
  by (auto simp: delete_account_def split: option.splits)

text \<open>
  An account that is the only owner of a shared project is refused, and keeps
  everything but its subscription: Stripe was asked to end it before the rule was looked at.
\<close>

theorem refused_after_cancelling:
  assumes "x \<in> set (users (bl_store b))" and "u_id x = u" and "subscription_to_cancel env u b = Some sid"
    and "cancelSubscription (be_stripe env) sid = Inr ()" and "projectsToDelete u (bl_store b) = Inl Conflict"
  shows "delete_account env detail u address agent b = (Inl Conflict, [sid], b)"
proof -
  have "find (\<lambda>x. u_id x = u) (users (bl_store b)) \<noteq> None" using assms(1,2) by (auto simp: find_None_iff)
  then show ?thesis using assms(3-5) by (auto simp: delete_account_def cancelForAccount_asks)
qed

text \<open>User 9 alone in a project of its own, next to user 8 in a shared one; it pays.\<close>

definition leaver :: "project_role \<Rightarrow> billing_db" where
  "leaver r = \<lparr>bl_subs = [\<lparr>sb_user = 9, sb_customer = ''cus_1'', sb_subscription = Some ''sub_1'',
      sb_plan = Some ''pro'', sb_status = ''active'', sb_periodEnd = None, sb_cancelAtEnd = False,
      sb_lastEventAt = Some 5000\<rparr>],
     bl_events = [],
     bl_store = shared_account\<lparr>members := [\<lparr>m_project = 1, m_user = 9, role = Owner, m_createdAt = 0\<rparr>,
         \<lparr>m_project = 2, m_user = 9, role = Owner, m_createdAt = 0\<rparr>,
         \<lparr>m_project = 2, m_user = 8, role = r, m_createdAt = 0\<rparr>],
       users := [\<lparr>u_id = 9, email = ''a@example.org'', u_plan = None, disabledAt = None\<rparr>]\<rparr>\<rparr>"

definition stripe_up :: billing_env where
  "stripe_up = billing_sample\<lparr>be_stripe := (be_stripe billing_sample)\<lparr>se_fetch := (\<lambda>_. Responded 200 None)\<rparr>\<rparr>"

lemmas leaver_defs = leaver_def shared_account_def empty_db_def stripe_up_def billing_sample_def

lemma leaver_asks [simp]:
  "subscription_to_cancel stripe_up 9 (leaver r) = Some ''sub_1''"
  "cancelSubscription (be_stripe stripe_up) ''sub_1'' = Inr ()"
  "projectsToDelete 9 (bl_store (leaver Admin)) = Inl Conflict"
  "projectsToDelete 9 (bl_store (leaver Owner)) = Inr [Suc 0]"
  "users (bl_store (leaver r)) = [\<lparr>u_id = 9, email = ''a@example.org'', u_plan = None, disabledAt = None\<rparr>]"
  by (simp_all add: subscription_to_cancel_def sub_of_user_def cancelSubscription_def stripe_call_def
      projectsToDelete_def listMembershipsWithPeers_def project_by_id_def leaver_defs)

lemma leaver_ok: "tenants_ok (bl_store (leaver Owner))"
  by (simp add: tenants_defs store_inv_defs leaver_defs)

theorem account_deletion_complete_witness:
  "\<exists>r b'. delete_account stripe_up show_nat 9 None None (leaver Owner) = (Inr r, [''sub_1''], b')
     \<and> tenants_ok (bl_store b') \<and> sub_of_user 9 b' = None"
proof -
  obtain r b' where del: "delete_account stripe_up show_nat 9 None None (leaver Owner) = (Inr r, [''sub_1''], b')"
    by (simp add: delete_account_def cancelForAccount_asks deleteWithProjects_def Let_def)
  then show ?thesis using account_deletion_complete [OF leaver_ok del] by blast
qed

theorem refused_after_cancelling_witness:
  "delete_account stripe_up show_nat 9 None None (leaver Admin) = (Inl Conflict, [''sub_1''], leaver Admin)"
  by (rule refused_after_cancelling
      [where x = "\<lparr>u_id = 9, email = ''a@example.org'', u_plan = None, disabledAt = None\<rparr>"])
    simp_all

end
