(* ===== verification/Api.thy ===== *)
theory Api
  imports Sync ApiKeys AuditTrail
begin

text \<open>
  The routes of \<^verbatim>\<open>packages/server/src/checks/checks.controller.ts\<close> and
  \<^verbatim>\<open>packages/server/src/projects/projects.controller.ts\<close>: validation, access, the service and
  the audit record, in that order. Pipes run before the handler, so a malformed body is
  answered before the access is looked at. A path identifier is a value here: the routes
  refuse other texts before anything else.
\<close>

record api_env =
  ae_sync :: sync_env
  ae_keys :: keys_env
  ae_intl :: "string \<Rightarrow> bool"
  ae_icontains :: "string \<Rightarrow> string \<Rightarrow> bool"
  ae_pid :: "ping \<Rightarrow> nat"
  ae_ip :: "string option"
  ae_agent :: "string option"
  ae_updated_detail :: "project_dto \<Rightarrow> string"
  ae_deleted_detail :: "project_dto \<Rightarrow> string"
  ae_prefix_detail :: "string \<Rightarrow> string"

record api_state =
  ap_ingest :: ingest_state
  ap_keys :: key_service

datatype api_answer =
    ChecksPage "(uuid, check_dto) page"
  | OneCheck check_dto
  | Synced sync_result
  | PingsPage "(nat, ping_dto) page"
  | IncidentsPage "(uuid, incident_dto) page"
  | Projects "project_dto list"
  | OneProject project_dto
  | Keys "api_key_dto list"
  | NewKey api_key_dto string
  | NoContent

type_synonym reply = "(http_error + api_answer) \<times> audit_record option"

abbreviation ap_db :: "api_state \<Rightarrow> db" where
  "ap_db st \<equiv> store_db (ap_ingest st)"

definition ae_checks :: "api_env \<Rightarrow> checks_env" where
  "ae_checks env = checks_env.truncate (ae_sync env)"

definition ae_text :: "api_env \<Rightarrow> uuid \<Rightarrow> string" where
  "ae_text env = ce_uuid_text (ae_sync env)"

section \<open>How a handler is put together\<close>

text \<open>A refusal ends the request; a missing value is a body or query its schema refused.\<close>

definition guarded :: "http_error + 'a \<Rightarrow> ('a \<Rightarrow> reply \<times> api_state) \<Rightarrow> api_state \<Rightarrow> reply \<times> api_state" where
  "guarded r k st = (case r of Inl e \<Rightarrow> ((Inl e, None), st) | Inr x \<Rightarrow> k x)"

definition required :: "'a option \<Rightarrow> http_error + 'a" where
  "required x = (case x of None \<Rightarrow> Inl BadRequest | Some y \<Rightarrow> Inr y)"

definition answered :: "api_state \<Rightarrow> (http_error + 'a) \<Rightarrow> ('a \<Rightarrow> api_answer) \<Rightarrow> ('a \<Rightarrow> audit_record option) \<Rightarrow> reply \<times> api_state" where
  "answered st res f note =
     (case res of Inl e \<Rightarrow> ((Inl e, None), st) | Inr x \<Rightarrow> ((Inr (f x), note x), st))"

definition with_db :: "api_state \<Rightarrow> db \<Rightarrow> api_state" where
  "with_db st s = st\<lparr>ap_ingest := (ap_ingest st)\<lparr>store_db := s\<rparr>\<rparr>"

definition audited ::
  "api_env \<Rightarrow> principal \<Rightarrow> string \<Rightarrow> uuid option \<Rightarrow> string \<Rightarrow> string \<Rightarrow> string option \<Rightarrow> string option \<Rightarrow> audit_record option" where
  "audited env pr act p ttype tid label detail =
     Some \<lparr>r_action = act, r_actor = auditActor (ae_ip env) (ae_agent env) pr, r_projectId = p,
           r_targetType = Some ttype, r_targetId = Some tid, r_targetLabel = label, r_detail = detail\<rparr>"

definition historyQuerySchema :: "int option \<Rightarrow> 'c option \<Rightarrow> (nat \<times> 'c option) option" where
  "historyQuerySchema lim cursor =
     map_option (\<lambda>n. (nat n, cursor)) (within 1 200 (case lim of None \<Rightarrow> 50 | Some n \<Rightarrow> n))"

section \<open>Checks\<close>

definition route_checks_list :: "api_env \<Rightarrow> principal \<Rightarrow> raw_query \<Rightarrow> api_state \<Rightarrow> reply \<times> api_state" where
  "route_checks_list env pr raw st =
     guarded (required (listChecksQuerySchema raw)) (\<lambda>q.
       answered st (Inr (list_checks (ae_checks env) (ae_icontains env) (visibleProjectIds pr (ap_db st)) q (ap_db st)))
         ChecksPage (\<lambda>_. None)) st"

definition route_checks_of_project :: "api_env \<Rightarrow> principal \<Rightarrow> uuid \<Rightarrow> raw_query \<Rightarrow> api_state \<Rightarrow> reply \<times> api_state" where
  "route_checks_of_project env pr p raw st =
     guarded (required (listChecksQuerySchema raw)) (\<lambda>q.
       guarded (assertAccess pr p Member (ap_db st)) (\<lambda>_.
         answered st (Inr (list_checks (ae_checks env) (ae_icontains env) [p] q (ap_db st))) ChecksPage (\<lambda>_. None)) st) st"

definition route_check_create :: "api_env \<Rightarrow> principal \<Rightarrow> uuid \<Rightarrow> create_request \<Rightarrow> api_state \<Rightarrow> reply \<times> api_state" where
  "route_check_create env pr p raw st =
     guarded (required (createCheckRequestSchema (ae_intl env) raw)) (\<lambda>r.
       guarded (assertAccess pr p Member (ap_db st)) (\<lambda>_.
         let (res, i) = create (ae_checks env) p r (ap_ingest st)
         in answered (st\<lparr>ap_ingest := i\<rparr>) res OneCheck
              (\<lambda>c. audited env pr ''check.created'' (Some p) ''check'' (dto_id c) (Some (dto_name c)) None)) st) st"

text \<open>An API key implies its project, a session has to name one.\<close>

definition route_checks_sync :: "api_env \<Rightarrow> principal \<Rightarrow> uuid option \<Rightarrow> sync_request \<Rightarrow> api_state \<Rightarrow> reply \<times> api_state" where
  "route_checks_sync env pr named raw st =
     guarded (required (syncRequestSchema (ae_intl env) raw)) (\<lambda>r.
       guarded (required (case pr of KeyHolder _ q \<Rightarrow> Some q | UserSession _ _ _ \<Rightarrow> named)) (\<lambda>p.
         guarded (assertAccess pr p Member (ap_db st)) (\<lambda>_.
           let (res, i) = sync (ae_sync env) p r (ap_ingest st)
           in answered (st\<lparr>ap_ingest := i\<rparr>) res Synced (\<lambda>_. None)) st) st) st"

definition route_check_get :: "api_env \<Rightarrow> principal \<Rightarrow> uuid \<Rightarrow> api_state \<Rightarrow> reply \<times> api_state" where
  "route_check_get env pr c st =
     guarded (assertCheckAccess pr c Member (ap_db st)) (\<lambda>_.
       answered st (get_check (ae_checks env) c (ap_db st)) OneCheck (\<lambda>_. None)) st"

definition route_check_update :: "api_env \<Rightarrow> principal \<Rightarrow> uuid \<Rightarrow> update_request \<Rightarrow> api_state \<Rightarrow> reply \<times> api_state" where
  "route_check_update env pr c raw st =
     guarded (required (updateCheckRequestSchema (ae_intl env) raw)) (\<lambda>r.
       guarded (assertCheckAccess pr c Member (ap_db st)) (\<lambda>_.
         let (res, i) = update (ae_checks env) c r (ap_ingest st)
         in answered (st\<lparr>ap_ingest := i\<rparr>) res OneCheck (\<lambda>_. None)) st) st"

definition route_check_rotate :: "api_env \<Rightarrow> principal \<Rightarrow> uuid \<Rightarrow> api_state \<Rightarrow> reply \<times> api_state" where
  "route_check_rotate env pr c st =
     guarded (assertCheckAccess pr c Admin (ap_db st)) (\<lambda>p.
       let (res, i) = rotatePingKey (ae_checks env) c (ap_ingest st)
       in answered (st\<lparr>ap_ingest := i\<rparr>) res OneCheck
            (\<lambda>d. audited env pr ''check.ping_key_rotated'' (Some p) ''check'' (ae_text env c) (Some (dto_name d)) None)) st"

definition route_check_delete :: "api_env \<Rightarrow> principal \<Rightarrow> uuid \<Rightarrow> api_state \<Rightarrow> reply \<times> api_state" where
  "route_check_delete env pr c st =
     guarded (assertCheckAccess pr c Admin (ap_db st)) (\<lambda>p.
       guarded (get_check (ae_checks env) c (ap_db st)) (\<lambda>doomed.
         let (res, i) = remove_check c (ap_ingest st)
         in answered (st\<lparr>ap_ingest := i\<rparr>) res (\<lambda>_. NoContent)
              (\<lambda>_. audited env pr ''check.deleted'' (Some p) ''check'' (ae_text env c) (Some (dto_name doomed)) None)) st) st"

definition route_check_pings ::
  "api_env \<Rightarrow> principal \<Rightarrow> uuid \<Rightarrow> int option \<Rightarrow> string option \<Rightarrow> api_state \<Rightarrow> reply \<times> api_state" where
  "route_check_pings env pr c lim cursor st =
     guarded (if (case cursor of None \<Rightarrow> False | Some t \<Rightarrow> 64 < length t) then Inl BadRequest
              else required (historyQuerySchema lim cursor)) (\<lambda>(n, cur).
       guarded (assertCheckAccess pr c Member (ap_db st)) (\<lambda>_.
         answered st (Inr (listPings (ae_pid env) (ae_text env) c n cur (ap_db st))) PingsPage (\<lambda>_. None)) st) st"

definition route_check_incidents ::
  "api_env \<Rightarrow> principal \<Rightarrow> uuid \<Rightarrow> int option \<Rightarrow> uuid option \<Rightarrow> api_state \<Rightarrow> reply \<times> api_state" where
  "route_check_incidents env pr c lim cursor st =
     guarded (required (historyQuerySchema lim cursor)) (\<lambda>(n, cur).
       guarded (assertCheckAccess pr c Member (ap_db st)) (\<lambda>_.
         answered st (Inr (listIncidents (ae_text env) c n cur (ap_db st))) IncidentsPage (\<lambda>_. None)) st) st"

section \<open>Projects\<close>

definition createProjectRequestSchema :: "create_project_request \<Rightarrow> create_project_request option" where
  "createProjectRequestSchema r =
     (case (trimmedString nameMax (cp_name r), optional slugSchema (cp_slug r)) of
        (Some n, Some sl) \<Rightarrow> Some \<lparr>cp_name = n, cp_slug = sl\<rparr> | _ \<Rightarrow> None)"

text \<open>The retention arrives absent, null or as a number of days.\<close>

definition updateProjectRequestSchema :: "string option \<Rightarrow> int option option \<Rightarrow> update_project_request option" where
  "updateProjectRequestSchema nm ret =
     (case (optional (trimmedString nameMax) nm, optional (optional (within 1 3650)) ret) of
        (Some n, Some d) \<Rightarrow> Some \<lparr>pu_name = n, pu_retention = map_option (map_option nat) d\<rparr> | _ \<Rightarrow> None)"

definition createApiKeyRequestSchema :: "string \<Rightarrow> int option \<Rightarrow> (string \<times> int option) option" where
  "createApiKeyRequestSchema nm days =
     (case (trimmedString nameMax nm, optional (within 1 3650) days) of
        (Some n, Some d) \<Rightarrow> Some (n, d) | _ \<Rightarrow> None)"

definition route_projects_list :: "api_env \<Rightarrow> principal \<Rightarrow> api_state \<Rightarrow> reply \<times> api_state" where
  "route_projects_list env pr st =
     answered st (Inr (listForPrincipal (ae_text env) pr (ap_db st))) Projects (\<lambda>_. None)"

text \<open>The record names the project by the identifier it was just given.\<close>

definition route_project_create :: "api_env \<Rightarrow> principal \<Rightarrow> create_project_request \<Rightarrow> api_state \<Rightarrow> reply \<times> api_state" where
  "route_project_create env pr raw st =
     guarded (required (createProjectRequestSchema raw)) (\<lambda>r.
       guarded (assertUser pr) (\<lambda>(u, _).
         let (res, s) = create_project (ae_checks env) u r (ap_db st)
         in answered (with_db st s) res OneProject
              (\<lambda>d. audited env pr ''project.created'' (Some (next_id (ap_db st))) ''project'' (pd_id d) (Some (pd_name d)) None)) st) st"

definition route_project_get :: "api_env \<Rightarrow> principal \<Rightarrow> uuid \<Rightarrow> api_state \<Rightarrow> reply \<times> api_state" where
  "route_project_get env pr p st =
     guarded (assertAccess pr p Member (ap_db st)) (\<lambda>_.
       answered st (get_project (ae_text env) p (ap_db st)) OneProject (\<lambda>_. None)) st"

definition route_project_update ::
  "api_env \<Rightarrow> principal \<Rightarrow> uuid \<Rightarrow> string option \<Rightarrow> int option option \<Rightarrow> api_state \<Rightarrow> reply \<times> api_state" where
  "route_project_update env pr p nm ret st =
     guarded (required (updateProjectRequestSchema nm ret)) (\<lambda>r.
       guarded (assertAccess pr p Admin (ap_db st)) (\<lambda>_.
         let (res, s) = update_project (ae_text env) p r (ap_db st)
         in answered (with_db st s) res OneProject
              (\<lambda>d. audited env pr ''project.updated'' (Some p) ''project'' (ae_text env p) (Some (pd_name d))
                     (Some (ae_updated_detail env d)))) st) st"

text \<open>Deleting a project takes its API keys with it, by their foreign key.\<close>

definition route_project_delete :: "api_env \<Rightarrow> principal \<Rightarrow> uuid \<Rightarrow> api_state \<Rightarrow> reply \<times> api_state" where
  "route_project_delete env pr p st =
     guarded (assertAccess pr p Owner (ap_db st)) (\<lambda>_.
       guarded (get_project (ae_text env) p (ap_db st)) (\<lambda>doomed.
         guarded (assertUser pr) (\<lambda>(u, _).
           case remove_project u p (ap_db st) of
             (Inl e, s) \<Rightarrow> ((Inl e, None), st)
           | (Inr _, s) \<Rightarrow>
               answered ((with_db st s)\<lparr>ap_keys := (ap_keys st)\<lparr>api_keys :=
                     filter (\<lambda>k. ak_projectId k \<noteq> p) (api_keys (ap_keys st))\<rparr>\<rparr>) (Inr ()) (\<lambda>_. NoContent)
                 (\<lambda>_. audited env pr ''project.deleted'' None ''project'' (ae_text env p) (Some (pd_name doomed))
                        (Some (ae_deleted_detail env doomed)))) st) st) st"

definition route_keys_list :: "api_env \<Rightarrow> principal \<Rightarrow> uuid \<Rightarrow> api_state \<Rightarrow> reply \<times> api_state" where
  "route_keys_list env pr p st =
     guarded (assertUser pr) (\<lambda>_.
       guarded (assertAccess pr p Admin (ap_db st)) (\<lambda>_.
         answered st (Inr (list_keys (ae_text env) p (ap_keys st))) Keys (\<lambda>_. None)) st) st"

definition route_key_create ::
  "api_env \<Rightarrow> principal \<Rightarrow> uuid \<Rightarrow> string \<Rightarrow> int option \<Rightarrow> api_state \<Rightarrow> reply \<times> api_state" where
  "route_key_create env pr p nm days st =
     guarded (required (createApiKeyRequestSchema nm days)) (\<lambda>(n, d).
       guarded (assertRecentUser (ke_now (ae_keys env)) pr) (\<lambda>_.
         guarded (assertAccess pr p Admin (ap_db st)) (\<lambda>_.
           let (res, ks) = create_key (ae_keys env) p n d (ap_keys st)
           in answered (st\<lparr>ap_keys := ks\<rparr>) res (\<lambda>(dto, tok). NewKey dto tok)
                (\<lambda>(dto, _). audited env pr ''api_key.created'' (Some p) ''api_key'' (kd_id dto) (Some (kd_name dto))
                       (Some (ae_prefix_detail env (kd_prefix dto))))) st) st) st"

definition route_key_revoke :: "api_env \<Rightarrow> principal \<Rightarrow> uuid \<Rightarrow> uuid \<Rightarrow> api_state \<Rightarrow> reply \<times> api_state" where
  "route_key_revoke env pr p k st =
     guarded (assertRecentUser (ke_now (ae_keys env)) pr) (\<lambda>_.
       guarded (assertAccess pr p Admin (ap_db st)) (\<lambda>_.
         let (res, ks) = revoke_key (ke_now (ae_keys env)) p k (ap_keys st)
         in answered (st\<lparr>ap_keys := ks\<rparr>) res (\<lambda>_. NoContent)
              (\<lambda>_. audited env pr ''api_key.revoked'' (Some p) ''api_key'' (ae_text env k) None None)) st) st"

section \<open>Any request\<close>

datatype api_request =
    ListChecks raw_query
  | ListProjectChecks uuid raw_query
  | CreateCheck uuid create_request
  | SyncChecks "uuid option" sync_request
  | GetCheck uuid
  | UpdateCheck uuid update_request
  | RotatePingKey uuid
  | DeleteCheck uuid
  | ListPings uuid "int option" "string option"
  | ListIncidents uuid "int option" "uuid option"
  | ListProjects
  | CreateProject create_project_request
  | GetProject uuid
  | UpdateProject uuid "string option" "int option option"
  | DeleteProject uuid
  | ListKeys uuid
  | CreateKey uuid string "int option"
  | RevokeKey uuid uuid

fun serve :: "api_env \<Rightarrow> principal \<Rightarrow> api_request \<Rightarrow> api_state \<Rightarrow> reply \<times> api_state" where
  "serve env pr (ListChecks q) st = route_checks_list env pr q st"
| "serve env pr (ListProjectChecks p q) st = route_checks_of_project env pr p q st"
| "serve env pr (CreateCheck p r) st = route_check_create env pr p r st"
| "serve env pr (SyncChecks p r) st = route_checks_sync env pr p r st"
| "serve env pr (GetCheck c) st = route_check_get env pr c st"
| "serve env pr (UpdateCheck c r) st = route_check_update env pr c r st"
| "serve env pr (RotatePingKey c) st = route_check_rotate env pr c st"
| "serve env pr (DeleteCheck c) st = route_check_delete env pr c st"
| "serve env pr (ListPings c n cur) st = route_check_pings env pr c n cur st"
| "serve env pr (ListIncidents c n cur) st = route_check_incidents env pr c n cur st"
| "serve env pr ListProjects st = route_projects_list env pr st"
| "serve env pr (CreateProject r) st = route_project_create env pr r st"
| "serve env pr (GetProject p) st = route_project_get env pr p st"
| "serve env pr (UpdateProject p nm ret) st = route_project_update env pr p nm ret st"
| "serve env pr (DeleteProject p) st = route_project_delete env pr p st"
| "serve env pr (ListKeys p) st = route_keys_list env pr p st"
| "serve env pr (CreateKey p nm d) st = route_key_create env pr p nm d st"
| "serve env pr (RevokeKey p k) st = route_key_revoke env pr p k st"

section \<open>What belongs to a project\<close>

record tenant =
  tn_project :: "project list"
  tn_members :: "member list"
  tn_channels :: "channel list"
  tn_checks :: "check list"
  tn_pings :: "ping list"
  tn_incidents :: "incident list"

definition tenant_rows :: "uuid \<Rightarrow> db \<Rightarrow> tenant" where
  "tenant_rows q s =
     \<lparr>tn_project = filter (\<lambda>x. pr_id x = q) (projects s), tn_members = filter (\<lambda>m. m_project m = q) (members s),
      tn_channels = filter (\<lambda>ch. ch_project ch = q) (channels s), tn_checks = checks_of q s,
      tn_pings = filter (\<lambda>g. p_check g \<in> c_id ` set (checks_of q s)) (pings s),
      tn_incidents = filter (\<lambda>i. i_check i \<in> c_id ` set (checks_of q s)) (incidents s)\<rparr>"

definition tenant_keys :: "uuid \<Rightarrow> key_service \<Rightarrow> api_key list" where
  "tenant_keys q ks = filter (\<lambda>k. ak_projectId k = q) (api_keys ks)"

lemma tenant_rows_checks:
  assumes "checks_of q s' = checks_of q s" "projects s' = projects s" "members s' = members s"
    "channels s' = channels s" "pings s' = pings s" "incidents s' = incidents s"
  shows "tenant_rows q s' = tenant_rows q s"
  using assms by (simp add: tenant_rows_def)

lemma filter_update_other:
  "(\<And>x. x \<in> set xs \<Longrightarrow> p x \<Longrightarrow> \<not> Q x \<and> \<not> Q (f x)) \<Longrightarrow> filter Q (update_where p f xs) = filter Q xs"
  by (induction xs) auto

lemma checks_of_update_other:
  assumes "\<And>c. c \<in> set (checks s) \<Longrightarrow> r c \<Longrightarrow> projectId c \<noteq> q \<and> projectId (f c) = projectId c"
  shows "checks_of q (s\<lparr>checks := update_where r f (checks s)\<rparr>) = checks_of q s"
  unfolding checks_of_def by simp (rule filter_update_other, use assms in auto)

lemma created_elsewhere:
  assumes "createWithinQuota env p r s = (res, s')" "p \<noteq> q"
  shows "tenant_rows q s' = tenant_rows q s"
  using assms(1)
proof (cases rule: createWithinQuota_cases)
  case (created due sl)
  show ?thesis
    using insert_check_SomeD [OF created(4)] assms(2) by (intro tenant_rows_checks) (simp_all add: checks_of_def)
qed simp

lemma synced_elsewhere:
  assumes "syncWithinQuota env p r s = (res, s')" "p \<noteq> q"
  shows "tenant_rows q s' = tenant_rows q s"
proof (cases res)
  case (Inl e)
  then have "s' = s" using assms(1) by (auto simp: syncWithinQuota_def Let_def split: sum.splits prod.splits)
  then show ?thesis by simp
next
  case (Inr out)
  let ?e = "sr_environment r"
  obtain rows where "s' = (let s1 = upserted_db env p ?e (accepted_rows env p ?e rows s) s
      in s1\<lparr>checks := map (orphan env p ?e (keep_of r)) (checks s1)\<rparr>)"
    using sync_exact assms(1) Inr by blast
  then have rows': "checks s' = map (\<lambda>c. orphan env p ?e (keep_of r) (redeclare env p ?e (accepted_rows env p ?e rows s) c)) (checks s)
      @ map (orphan env p ?e (keep_of r)) (declared_from env p ?e (missing p ?e (accepted_rows env p ?e rows s) s) (next_id s))"
    and rest: "projects s' = projects s" "members s' = members s" "channels s' = channels s"
      "pings s' = pings s" "incidents s' = incidents s"
    by (simp_all add: Let_def upserted_db_def)
  have same: "projectId (orphan env p ?e (keep_of r) c) = projectId c" for c
    by (simp add: orphan_def split: option.splits)
  have other: "orphan env p ?e k (redeclare env p ?e as c) = c" if "projectId c = q" for k as c
    using that assms(2) by (subst redeclare_other)
      (auto simp: same_identity_def orphan_def orphaned_by_def split: option.splits)
  have kept: "projectId (orphan env p ?e k (redeclare env p ?e as c)) = projectId c" for k as c
    by (simp add: orphan_def redeclare_def redeclared_def split: option.splits)
  have "checks_of q s' = checks_of q s"
  proof -
    have "filter (\<lambda>c. projectId c = q) (map (\<lambda>c. orphan env p ?e k (redeclare env p ?e as c)) cs)
        = filter (\<lambda>c. projectId c = q) cs" for k as cs
      by (induction cs) (auto simp: kept other)
    moreover have "projectId c = p" if "c \<in> set (declared_from env p ?e as n)" for c as n
      using declared_origin [OF that] by (auto simp: declared_check_def)
    ultimately show ?thesis using assms(2) by (auto simp: checks_of_def rows' filter_empty_conv same)
  qed
  then show ?thesis using rest by (intro tenant_rows_checks)
qed

text \<open>A check the principal may see is in no project it may not.\<close>

lemma check_elsewhere:
  assumes "tenants_ok s" "findCheckProjectId i s = Some p" "p \<noteq> q" "c \<in> set (checks s)" "c_id c = i"
  shows "projectId c \<noteq> q"
proof -
  obtain x where x: "find (\<lambda>c. c_id c = i) (checks s) = Some x" "projectId x = p"
    using assms(2) by (auto simp: findCheckProjectId_def check_by_id_def)
  then have "x \<in> set (checks s)" "c_id x = i" by (auto simp: find_Some_iff)
  then have "c = x" using assms(1,4,5) by (auto simp: tenants_defs store_inv_defs dest: distinct_map_memD)
  then show ?thesis using x assms(3) by simp
qed

lemma apply_update_project [simp]: "projectId (apply_update env old r due c) = projectId c"
  by (simp add: apply_update_def Let_def)

lemma updated_elsewhere:
  assumes ok: "tenants_ok (store_db i)" and own: "findCheckProjectId c (store_db i) = Some p" "p \<noteq> q"
    and upd: "update env c r i = (res, i')"
  shows "tenant_rows q (store_db i') = tenant_rows q (store_db i)"
  using upd
proof (cases rule: update_cases)
  case (updated old due)
  show ?thesis
    unfolding updated(4) using check_elsewhere [OF ok own]
    by (intro tenant_rows_checks checks_of_update_other) auto
qed simp

lemma rotated_elsewhere:
  assumes ok: "tenants_ok (store_db i)" and own: "findCheckProjectId c (store_db i) = Some p" "p \<noteq> q"
  shows "tenant_rows q (store_db (snd (rotatePingKey env c i))) = tenant_rows q (store_db i)"
proof -
  have "tenant_rows q (snd (replacePingKey env c (store_db i))) = tenant_rows q (store_db i)"
    unfolding replacePingKey_def snd_conv using check_elsewhere [OF ok own]
    by (intro tenant_rows_checks checks_of_update_other) auto
  then show ?thesis using rotate_db [of env c i] by auto
qed

lemma filter_filter_absorb: "(\<And>x. x \<in> set xs \<Longrightarrow> Q x \<Longrightarrow> P x) \<Longrightarrow> filter Q (filter P xs) = filter Q xs"
  by (induction xs) auto

lemma removed_elsewhere:
  assumes ok: "tenants_ok (store_db i)" and own: "findCheckProjectId c (store_db i) = Some p" "p \<noteq> q"
  shows "tenant_rows q (store_db (snd (remove_check c i))) = tenant_rows q (store_db i)"
proof -
  let ?s = "store_db i" and ?t = "snd (delete_check c (store_db i))"
  have other: "c_id x \<noteq> c" if "x \<in> set (checks_of q ?s)" for x
    using check_elsewhere [OF ok own, of x] that by (auto simp: checks_of_def)
  then have same: "checks_of q ?t = checks_of q ?s"
    using check_elsewhere [OF ok own]
    by (auto simp: checks_of_def delete_check_def conj_commute intro!: filter_filter_absorb simp del: filter_filter)
  have "c \<notin> c_id ` set (checks_of q ?s)" using other by blast
  then have "tenant_rows q ?t = tenant_rows q ?s"
    unfolding tenant_rows_def same
    by (auto simp: delete_check_def intro!: filter_filter_absorb simp del: filter_filter)
  then show ?thesis
    by (auto simp: remove_check_def split: option.splits prod.splits)
qed

lemma project_removed_elsewhere:
  assumes ok: "tenants_ok s" and del: "delete_project p s = Inr s'" and "p \<noteq> q"
  shows "tenant_rows q s' = tenant_rows q s"
proof -
  have same: "checks_of q s' = checks_of q s"
    using assms(3) by (auto simp: checks_of_def deleted_rows [OF del] intro: filter_cong)
  have apart: "x \<notin> c_id ` set (checks_of p s)" if "x \<in> c_id ` set (checks_of q s)" for x
  proof
    assume "x \<in> c_id ` set (checks_of p s)"
    then obtain c where "c \<in> set (checks s)" "projectId c = p" "c_id c = x" by (auto simp: checks_of_def)
    moreover from that obtain d where "d \<in> set (checks s)" "projectId d = q" "c_id d = x" by (auto simp: checks_of_def)
    ultimately have "c = d" "projectId c = p" "projectId d = q" using ok by (auto simp: tenants_defs store_inv_defs dest: distinct_map_memD)
    then show False using assms(3) by simp
  qed
  show ?thesis
    unfolding tenant_rows_def same deleted_rows [OF del] using assms(3) apart
    by (auto intro!: filter_filter_absorb simp del: filter_filter)
qed

lemma project_created_elsewhere:
  assumes "create_project env u r s = (res, s')" "tenants_ok s" "q \<in> pr_id ` set (projects s)"
  shows "tenant_rows q s' = tenant_rows q s"
proof -
  have "q \<noteq> next_id s" using assms(2,3) by (auto simp: tenants_defs)
  then show ?thesis
    using assms(1)
    by (auto simp: create_project_def createOwnedBy_def Let_def tenant_rows_def checks_of_def
        split: sum.splits if_splits)
qed

lemma project_updated_elsewhere:
  assumes "update_project txt p r s = (res, s')" "p \<noteq> q"
  shows "tenant_rows q s' = tenant_rows q s"
proof -
  let ?t = "s\<lparr>projects := update_where (\<lambda>x. pr_id x = p) (patch_project r) (projects s)\<rparr>"
  have "filter (\<lambda>x. pr_id x = q) (projects ?t) = filter (\<lambda>x. pr_id x = q) (projects s)"
    using assms(2) by simp (rule filter_update_other, simp add: patch_project_def)
  then have "tenant_rows q ?t = tenant_rows q s" by (simp add: tenant_rows_def checks_of_def)
  then show ?thesis
    using assms(1) by (auto simp: update_project_def update_row_def Let_def split: sum.splits option.splits)
qed

lemma keys_elsewhere:
  assumes "p \<noteq> q"
  shows "tenant_keys q (snd (create_key env p nm d ks)) = tenant_keys q ks"
    and "tenant_keys q (snd (revoke_key now p k ks)) = tenant_keys q ks"
proof -
  show "tenant_keys q (snd (create_key env p nm d ks)) = tenant_keys q ks"
    using assms by (simp add: create_key_def tenant_keys_def Let_def)
  have "filter (\<lambda>k. ak_projectId k = q) (update_where (\<lambda>x. ak_id x = k \<and> ak_projectId x = p \<and> ak_revokedAt x = None)
      (\<lambda>x. x\<lparr>ak_revokedAt := Some now\<rparr>) (api_keys ks)) = filter (\<lambda>k. ak_projectId k = q) (api_keys ks)"
    by (rule filter_update_other) (use assms in simp)
  then show "tenant_keys q (snd (revoke_key now p k ks)) = tenant_keys q ks"
    by (simp add: revoke_key_def revoke_row_def tenant_keys_def Let_def)
qed

section \<open>Handlers touch what the principal may see\<close>

definition same_tenant :: "uuid \<Rightarrow> api_state \<Rightarrow> api_state \<Rightarrow> bool" where
  "same_tenant q st st' \<longleftrightarrow> tenant_rows q (ap_db st') = tenant_rows q (ap_db st)
     \<and> tenant_keys q (ap_keys st') = tenant_keys q (ap_keys st)"

lemma same_tenant_refl [simp]: "same_tenant q st st"
  by (simp add: same_tenant_def)

lemma guarded_same [intro]:
  "(\<And>x. r = Inr x \<Longrightarrow> same_tenant q st (snd (k x))) \<Longrightarrow> same_tenant q st (snd (guarded r k st))"
  by (auto simp: guarded_def split: sum.splits)

lemma snd_answered [simp]: "snd (answered st r f g) = st"
  by (simp add: answered_def split: sum.splits)

lemma ap_with [simp]: "ap_keys (with_db st s) = ap_keys st" "ap_db (with_db st s) = s"
  by (simp_all add: with_db_def)

lemma seen_not_hidden:
  "assertAccess pr p r s = Inr () \<Longrightarrow> q \<notin> set (visibleProjectIds pr s) \<Longrightarrow> p \<noteq> q"
  using assertAccess_Inr by blast

lemma seen_check_not_hidden:
  "assertCheckAccess pr c r s = Inr p \<Longrightarrow> q \<notin> set (visibleProjectIds pr s) \<Longrightarrow> findCheckProjectId c s = Some p \<and> p \<noteq> q"
  using assertCheckAccess_Inr by blast

lemma same_tenant_ingest:
  "tenant_rows q (store_db i) = tenant_rows q (ap_db st) \<Longrightarrow> same_tenant q st (st\<lparr>ap_ingest := i\<rparr>)"
  by (simp add: same_tenant_def)

lemma same_tenant_db:
  "tenant_rows q s = tenant_rows q (ap_db st) \<Longrightarrow> same_tenant q st (with_db st s)"
  by (simp add: same_tenant_def)

lemma same_tenant_keys:
  "tenant_keys q ks = tenant_keys q (ap_keys st) \<Longrightarrow> same_tenant q st (st\<lparr>ap_keys := ks\<rparr>)"
  by (simp add: same_tenant_def)

lemma check_routes_elsewhere:
  assumes ok: "tenants_ok (ap_db st)" and hidden: "q \<notin> set (visibleProjectIds pr (ap_db st))"
  shows "same_tenant q st (snd (route_check_create env pr p r st))"
    and "same_tenant q st (snd (route_checks_sync env pr named sr st))"
    and "same_tenant q st (snd (route_check_update env pr c ur st))"
    and "same_tenant q st (snd (route_check_rotate env pr c st))"
    and "same_tenant q st (snd (route_check_delete env pr c st))"
proof -
  have "tenant_rows q (store_db (snd (create e p' r' i))) = tenant_rows q (store_db i)" if "p' \<noteq> q" for e p' r' i
    using created_elsewhere [OF _ that, of e r' "store_db i"] by (auto simp: create_def split: prod.splits)
  then show "same_tenant q st (snd (route_check_create env pr p r st))"
    unfolding route_check_create_def using seen_not_hidden [OF _ hidden]
    by (auto simp: case_prod_unfold Let_def intro!: guarded_same same_tenant_ingest)
  have "tenant_rows q (store_db (snd (sync e p' r' i))) = tenant_rows q (store_db i)" if "p' \<noteq> q" for e p' r' i
    using synced_elsewhere [OF _ that, of e r' "store_db i"] by (auto simp: sync_def split: prod.splits)
  then show "same_tenant q st (snd (route_checks_sync env pr named sr st))"
    unfolding route_checks_sync_def using seen_not_hidden [OF _ hidden]
    by (auto simp: case_prod_unfold Let_def intro!: guarded_same same_tenant_ingest)
  have "tenant_rows q (store_db (snd (update e c' r' (ap_ingest st)))) = tenant_rows q (ap_db st)"
    if "assertCheckAccess pr c' Member (ap_db st) = Inr p'" for e c' r' p'
    using updated_elsewhere [OF ok, of c' p' q e r'] seen_check_not_hidden [OF that hidden] by (metis prod.collapse)
  then show "same_tenant q st (snd (route_check_update env pr c ur st))"
    unfolding route_check_update_def
    by (auto simp: case_prod_unfold Let_def intro!: guarded_same same_tenant_ingest)
  show "same_tenant q st (snd (route_check_rotate env pr c st))"
    unfolding route_check_rotate_def using seen_check_not_hidden [OF _ hidden] rotated_elsewhere [OF ok]
    by (auto simp: case_prod_unfold Let_def intro!: guarded_same same_tenant_ingest)
  show "same_tenant q st (snd (route_check_delete env pr c st))"
    unfolding route_check_delete_def using seen_check_not_hidden [OF _ hidden] removed_elsewhere [OF ok]
    by (auto simp: case_prod_unfold Let_def intro!: guarded_same same_tenant_ingest)
qed

lemma project_routes_elsewhere:
  assumes ok: "tenants_ok (ap_db st)" and hidden: "q \<notin> set (visibleProjectIds pr (ap_db st))"
    and there: "q \<in> pr_id ` set (projects (ap_db st))"
  shows "same_tenant q st (snd (route_project_create env pr r st))"
    and "same_tenant q st (snd (route_project_update env pr p nm ret st))"
    and "same_tenant q st (snd (route_project_delete env pr p st))"
    and "same_tenant q st (snd (route_key_create env pr p kn days st))"
    and "same_tenant q st (snd (route_key_revoke env pr p k st))"
proof -
  have "tenant_rows q (snd (create_project e u r' (ap_db st))) = tenant_rows q (ap_db st)" for e u r'
    using project_created_elsewhere [OF _ ok there] by (metis prod.collapse)
  then show "same_tenant q st (snd (route_project_create env pr r st))"
    unfolding route_project_create_def
    by (auto simp: case_prod_unfold Let_def intro!: guarded_same same_tenant_db)
  have "tenant_rows q (snd (update_project t p' r' (ap_db st))) = tenant_rows q (ap_db st)" if "p' \<noteq> q" for t p' r'
    using project_updated_elsewhere [OF _ that] by (metis prod.collapse)
  then show "same_tenant q st (snd (route_project_update env pr p nm ret st))"
    unfolding route_project_update_def using seen_not_hidden [OF _ hidden]
    by (auto simp: case_prod_unfold Let_def intro!: guarded_same same_tenant_db)
  show "same_tenant q st (snd (route_project_delete env pr p st))"
    unfolding route_project_delete_def
  proof (intro guarded_same)
    fix x doomed user
    assume "assertAccess pr p Owner (ap_db st) = Inr x"
    then have "p \<noteq> q" using seen_not_hidden [OF _ hidden] by simp
    then have "tenant_rows q s = tenant_rows q (ap_db st)" if "remove_project u p (ap_db st) = (Inr y, s)" for u y s
      using that project_removed_elsewhere [OF ok] by (auto simp: remove_project_def split: if_splits sum.splits)
    moreover have "filter (\<lambda>k. ak_projectId k = q) (filter (\<lambda>k. ak_projectId k \<noteq> p) ks) = filter (\<lambda>k. ak_projectId k = q) ks" for ks
      using \<open>p \<noteq> q\<close> by (intro filter_filter_absorb) simp
    ultimately show "same_tenant q st (snd (case user of (u, _) \<Rightarrow>
        (case remove_project u p (ap_db st) of
             (Inl e, s) \<Rightarrow> ((Inl e, None), st)
           | (Inr _, s) \<Rightarrow>
               answered ((with_db st s)\<lparr>ap_keys := (ap_keys st)\<lparr>api_keys :=
                     filter (\<lambda>k. ak_projectId k \<noteq> p) (api_keys (ap_keys st))\<rparr>\<rparr>) (Inr ()) (\<lambda>_. NoContent)
                 (\<lambda>_. audited env pr ''project.deleted'' None ''project'' (ae_text env p) (Some (pd_name doomed))
                        (Some (ae_deleted_detail env doomed))))))"
      by (auto simp: same_tenant_def tenant_keys_def with_db_def simp del: filter_filter split: prod.splits sum.splits)
  qed
  show "same_tenant q st (snd (route_key_create env pr p kn days st))"
    unfolding route_key_create_def using seen_not_hidden [OF _ hidden] keys_elsewhere(1)
    by (auto simp: case_prod_unfold Let_def intro!: guarded_same same_tenant_keys)
  show "same_tenant q st (snd (route_key_revoke env pr p k st))"
    unfolding route_key_revoke_def using seen_not_hidden [OF _ hidden] keys_elsewhere(2)
    by (auto simp: case_prod_unfold Let_def intro!: guarded_same same_tenant_keys)
qed

lemma reading_routes:
  "snd (route_checks_list env pr raw st) = st" "snd (route_checks_of_project env pr p raw st) = st"
  "snd (route_check_get env pr c st) = st" "snd (route_check_pings env pr c lim cur st) = st"
  "snd (route_check_incidents env pr c lim curs st) = st" "snd (route_projects_list env pr st) = st"
  "snd (route_project_get env pr p st) = st" "snd (route_keys_list env pr p st) = st"
  by (auto simp: route_checks_list_def route_checks_of_project_def route_check_get_def route_check_pings_def
      route_check_incidents_def route_projects_list_def route_project_get_def route_keys_list_def guarded_def
      split: sum.splits)

text \<open>
  C1. Whatever a principal asks for, no row of a project it has no role in changes:
  not the project, its members, channels, checks, pings and incidents, nor its API keys.
\<close>

theorem tenant_isolation:
  assumes "tenants_ok (ap_db st)" and "q \<in> pr_id ` set (projects (ap_db st))"
    and "role_in pr q (ap_db st) = None"
  shows "same_tenant q st (snd (serve env pr req st))"
proof -
  have "q \<notin> set (visibleProjectIds pr (ap_db st))" using assms(3) role_in_visible by blast
  then show ?thesis
    using check_routes_elsewhere [OF assms(1)] project_routes_elsewhere [OF assms(1) _ assms(2)]
    by (cases req) (simp_all add: reading_routes)
qed

section \<open>Answers\<close>

fun reads :: "api_request \<Rightarrow> bool" where
  "reads (ListChecks _) = True"
| "reads (ListProjectChecks _ _) = True"
| "reads (GetCheck _) = True"
| "reads (ListPings _ _ _) = True"
| "reads (ListIncidents _ _ _) = True"
| "reads ListProjects = True"
| "reads (GetProject _) = True"
| "reads (ListKeys _) = True"
| "reads _ = False"

text \<open>The answer is made of rows of projects the principal has a role in.\<close>

definition check_seen :: "principal \<Rightarrow> db \<Rightarrow> uuid \<Rightarrow> bool" where
  "check_seen pr s i \<longleftrightarrow> (\<exists>c \<in> set (checks s). c_id c = i \<and> role_in pr (projectId c) s \<noteq> None)"

fun confined :: "api_env \<Rightarrow> principal \<Rightarrow> api_state \<Rightarrow> api_answer \<Rightarrow> bool" where
  "confined env pr st (ChecksPage pg) = (\<forall>d \<in> set (items pg). \<exists>c \<in> set (checks (ap_db st)).
     role_in pr (projectId c) (ap_db st) \<noteq> None \<and> d = toCheckDto (ce_uuid_text (ae_checks env)) (ce_baseUrl (ae_checks env)) c)"
| "confined env pr st (OneCheck d) = (\<exists>c \<in> set (checks (ap_db st)).
     role_in pr (projectId c) (ap_db st) \<noteq> None \<and> d = toCheckDto (ce_uuid_text (ae_checks env)) (ce_baseUrl (ae_checks env)) c)"
| "confined env pr st (PingsPage pg) = (\<forall>d \<in> set (items pg). \<exists>g \<in> set (pings (ap_db st)).
     check_seen pr (ap_db st) (p_check g) \<and> d = toPingDto (ae_pid env) (ae_text env) g)"
| "confined env pr st (IncidentsPage pg) = (\<forall>d \<in> set (items pg). \<exists>i \<in> set (incidents (ap_db st)).
     check_seen pr (ap_db st) (i_check i) \<and> d = toIncidentDto (ae_text env) i)"
| "confined env pr st (Projects ds) = (\<forall>d \<in> set ds. \<exists>x \<in> set (projects (ap_db st)).
     role_in pr (pr_id x) (ap_db st) \<noteq> None \<and> pd_id d = ae_text env (pr_id x) \<and> pd_name d = pr_name x)"
| "confined env pr st (OneProject d) = (\<exists>x \<in> set (projects (ap_db st)).
     role_in pr (pr_id x) (ap_db st) \<noteq> None \<and> pd_id d = ae_text env (pr_id x) \<and> pd_name d = pr_name x)"
| "confined env pr st (Keys ds) = (\<forall>d \<in> set ds. \<exists>k \<in> set (api_keys (ap_keys st)).
     role_in pr (ak_projectId k) (ap_db st) \<noteq> None \<and> d = toApiKeyDto (ae_text env) k)"
| "confined env pr st _ = False"

lemma guarded_Inr:
  "fst (fst (guarded r k st)) = Inr a \<Longrightarrow> \<exists>x. r = Inr x \<and> fst (fst (k x)) = Inr a"
  by (auto simp: guarded_def split: sum.splits)

lemma answered_Inr:
  "fst (fst (answered st r f g)) = Inr a \<longleftrightarrow> (\<exists>x. r = Inr x \<and> a = f x)"
  by (auto simp: answered_def split: sum.splits)

lemma paged_rows: "d \<in> set (items (paginate ident (fetch_page ident rows n cur) lim f)) \<Longrightarrow> \<exists>r \<in> set rows. d = f r"
proof -
  have "set (after_cursor ident cur rows) \<subseteq> set rows"
  proof (cases cur)
    case (Some i)
    show ?thesis
    proof (cases "dropWhile (\<lambda>r. ident r \<noteq> i) rows")
      case (Cons y ys)
      have "x \<in> set rows" if "x \<in> set ys" for x
        using set_dropWhileD [of x "\<lambda>r. ident r \<noteq> i" rows] that by (simp add: Cons)
      then show ?thesis using Some Cons by (auto simp: after_cursor_def simp del: dropWhile_eq_Cons_conv)
    qed (use Some in \<open>simp add: after_cursor_def del: dropWhile_eq_Nil_conv\<close>)
  qed (simp add: after_cursor_def)
  then show "d \<in> set (items (paginate ident (fetch_page ident rows n cur) lim f)) \<Longrightarrow> \<exists>r \<in> set rows. d = f r"
    by (auto simp: paginate_def fetch_page_def Let_def split: if_splits dest!: in_set_takeD)
qed

lemma listed_rows:
  assumes "d \<in> set (items (list_checks e m ps q s))"
  shows "\<exists>c \<in> set (checks s). projectId c \<in> set ps \<and> d = toCheckDto (ce_uuid_text e) (ce_baseUrl e) c"
proof (cases "ps = []")
  case False
  then have "d \<in> set (items (paginate c_id (fetch_page c_id (list_rows m ps q s) (Suc (q_limit q)) (q_cursor q)) (q_limit q)
      (toCheckDto (ce_uuid_text e) (ce_baseUrl e))))"
    using assms by (simp add: list_checks_def list_fetch_def)
  from paged_rows [OF this] show ?thesis by (auto simp: list_rows_def list_where_def)
qed (use assms in \<open>simp add: list_checks_def\<close>)

lemma membership_rows:
  assumes "(r, x, n) \<in> set (listMemberships u s)"
  shows "x \<in> set (projects s) \<and> pr_id x \<in> set (listProjectIds u s)"
proof -
  obtain m where "m \<in> set (members s)" "m_user m = u" "find (\<lambda>y. pr_id y = m_project m) (projects s) = Some x"
    using assms by (auto simp: listMemberships_def findWithCheckCount_def project_by_id_def List.map_filter_def)
  then show ?thesis by (auto simp: listProjectIds_def find_Some_iff)
qed

lemma project_found: "findWithCheckCount p s = Some (x, n) \<Longrightarrow> x \<in> set (projects s) \<and> pr_id x = p"
  by (auto simp: findWithCheckCount_def project_by_id_def find_Some_iff)

lemma listed_projects:
  assumes "d \<in> set (listForPrincipal txt pr s)"
  shows "\<exists>x \<in> set (projects s). pr_id x \<in> set (visibleProjectIds pr s) \<and> pd_id d = txt (pr_id x) \<and> pd_name d = pr_name x"
proof (cases pr)
  case (KeyHolder k p)
  moreover obtain x n where x: "findWithCheckCount p s = Some (x, n)" "d = toProjectDto txt x Member (Some n) None"
    using assms KeyHolder by (cases "findWithCheckCount p s") auto
  ultimately have "pr_id x \<in> set (visibleProjectIds pr s)" using project_found by auto
  then show ?thesis using project_found [OF x(1)] x(2) by (auto simp: toProjectDto_def)
next
  case (UserSession u i t)
  then obtain r x n where "(r, x, n) \<in> set (listMemberships u s)" "pd_id d = txt (pr_id x)" "pd_name d = pr_name x"
    using assms by (auto simp: Let_def toProjectDto_def)
  then show ?thesis using membership_rows UserSession by fastforce
qed

lemma check_access_seen:
  assumes "assertCheckAccess pr c r s = Inr p"
  shows "check_seen pr s c"
proof -
  obtain x where "find (\<lambda>y. c_id y = c) (checks s) = Some x" "projectId x = p"
    using assertCheckAccess_Inr(1) [OF assms] by (auto simp: findCheckProjectId_def check_by_id_def)
  then have "x \<in> set (checks s)" "c_id x = c" by (auto simp: find_Some_iff)
  then show ?thesis
    using assertCheckAccess_Inr(2) [OF assms] \<open>projectId x = p\<close> role_in_visible unfolding check_seen_def by blast
qed

lemma check_access_row:
  assumes "assertCheckAccess pr c r s = Inr p" "get_check e c s = Inr d"
  shows "\<exists>x \<in> set (checks s). role_in pr (projectId x) s \<noteq> None \<and> d = toCheckDto (ce_uuid_text e) (ce_baseUrl e) x"
proof -
  obtain x where "find (\<lambda>y. c_id y = c) (checks s) = Some x" "projectId x = p" "d = toCheckDto (ce_uuid_text e) (ce_baseUrl e) x"
    using assertCheckAccess_Inr(1) [OF assms(1)] assms(2)
    by (auto simp: findCheckProjectId_def check_by_id_def get_check_def)
  then show ?thesis
    using assertCheckAccess_Inr(2) [OF assms(1)] role_in_visible by (metis find_Some_iff nth_mem)
qed


section \<open>User 8 and the project of user 9\<close>

definition sample_api_env :: api_env where
  "sample_api_env = \<lparr>ae_sync = sample_sync_env, ae_keys = toy_env 0, ae_intl = (\<lambda>_. True),
     ae_icontains = (\<lambda>a b. a = b), ae_pid = (\<lambda>_. 0), ae_ip = None, ae_agent = None,
     ae_updated_detail = pd_name, ae_deleted_detail = pd_name, ae_prefix_detail = id\<rparr>"

definition sample_api_state :: api_state where
  "sample_api_state = \<lparr>ap_ingest = quota_state\<lparr>store_db := shared_account\<rparr>, ap_keys = no_keys\<rparr>"

lemma sample_api_db [simp]: "ap_db sample_api_state = shared_account"
  by (simp add: sample_api_state_def)

theorem tenant_isolation_witness:
  "same_tenant 1 sample_api_state
     (snd (serve sample_api_env (UserSession 8 0 0) (UpdateProject 2 (Some ''Mine'') None) sample_api_state))"
  by (rule tenant_isolation)
    (simp_all add: shared_account_ok findRole_def, simp_all add: shared_account_def empty_db_def)


end
