(* ===== verification/SafeHttp.thy ===== *)
theory SafeHttp
  imports Network "HOL-Library.Word"
begin

text \<open>
  Requests to addresses somebody typed in:
  \<^verbatim>\<open>packages/server/src/notifications/safe-http.service.ts\<close>. The block list of the runtime is
  written out on words: an address is compared with a network on the network's leading bits,
  and an IPv4 address inside an IPv6 one (\<open>::ffff:a.b.c.d\<close>) is compared with the IPv4
  networks. What the URL parser, the resolver and the other end answer are parameters;
  addresses with a zone are not covered.
\<close>

section \<open>Addresses as the runtime reads them\<close>

definition octet_text :: "string \<Rightarrow> bool" where
  "octet_text p \<longleftrightarrow> digits 1 3 p \<and> number_of p \<le> 255 \<and> (1 < length p \<longrightarrow> hd p \<noteq> CHR ''0'')"

definition parse4 :: "string \<Rightarrow> 32 word option" where
  "parse4 s =
     (let parts = split_on CHR ''.'' s
      in if length parts = 4 \<and> list_all octet_text parts
         then Some (foldl (\<lambda>a p. 256 * a + word_of_nat (number_of p)) 0 parts) else None)"

definition hex_digit :: "char \<Rightarrow> nat" where
  "hex_digit c = (if is_digit c then code c - 48 else if is_lower c then code c - 87 else code c - 55)"

definition hex_number :: "string \<Rightarrow> nat" where
  "hex_number s = foldl (\<lambda>n c. 16 * n + hex_digit c) 0 s"

text \<open>The 16-bit groups of a half; only the last part of an address may be dotted.\<close>

fun groups_of :: "bool \<Rightarrow> string list \<Rightarrow> nat list option" where
  "groups_of dotted [] = Some []"
| "groups_of dotted [p] =
     (if hex_group p then Some [hex_number p]
      else if dotted then map_option (\<lambda>a. [unat (drop_bit 16 a), unat (take_bit 16 a)]) (parse4 p) else None)"
| "groups_of dotted (p # ps) =
     (if hex_group p then map_option ((#) (hex_number p)) (groups_of dotted ps) else None)"

definition parse6 :: "string \<Rightarrow> 128 word option" where
  "parse6 s =
     (let number = foldl (\<lambda>a g. 65536 * a + word_of_nat g) 0
      in case split_pairs s of
           [whole] \<Rightarrow>
             (case groups_of True (colon_parts whole) of
                Some gs \<Rightarrow> if length gs = 8 then Some (number gs) else None | None \<Rightarrow> None)
         | [front, back] \<Rightarrow>
             (case (groups_of False (colon_parts front), groups_of True (colon_parts back)) of
                (Some gs, Some hs) \<Rightarrow>
                  if length gs + length hs \<le> 7
                  then Some (number (gs @ replicate (8 - length gs - length hs) 0 @ hs)) else None
              | _ \<Rightarrow> None)
         | _ \<Rightarrow> None)"

section \<open>The block list\<close>

definition in_subnet :: "'a::len word \<Rightarrow> nat \<Rightarrow> 'a word \<Rightarrow> bool" where
  "in_subnet net n a \<longleftrightarrow> drop_bit (LENGTH('a) - n) a = drop_bit (LENGTH('a) - n) net"

definition blocked_ipv4 :: "(32 word \<times> nat) list" where
  "blocked_ipv4 =
     [(0x00000000, 8), (0x0A000000, 8), (0x64400000, 10), (0x7F000000, 8), (0xA9FE0000, 16),
      (0xAC100000, 12), (0xC0000000, 24), (0xC0000200, 24), (0xC0586300, 24), (0xC0A80000, 16),
      (0xC6120000, 15), (0xC6336400, 24), (0xCB007100, 24), (0xE0000000, 4), (0xF0000000, 4)]"

definition blocked_ipv6 :: "(128 word \<times> nat) list" where
  "blocked_ipv6 =
     [(0, 96), (0x0064FF9B000000000000000000000000, 96), (0x0064FF9B000100000000000000000000, 48),
      (0x01000000000000000000000000000000, 64), (0x20010000000000000000000000000000, 32),
      (0x20020000000000000000000000000000, 16), (0x20010DB8000000000000000000000000, 32),
      (0xFC000000000000000000000000000000, 7), (0xFEC00000000000000000000000000000, 10),
      (0xFE800000000000000000000000000000, 10), (0xFF000000000000000000000000000000, 8)]"

definition check_ipv4 :: "32 word \<Rightarrow> bool" where
  "check_ipv4 a \<longleftrightarrow> list_ex (\<lambda>(net, n). in_subnet net n a) blocked_ipv4"

definition check_ipv6 :: "128 word \<Rightarrow> bool" where
  "check_ipv6 a \<longleftrightarrow> list_ex (\<lambda>(net, n). in_subnet net n a) blocked_ipv6
     \<or> drop_bit 32 a = 0xFFFF \<and> check_ipv4 (ucast a)"

definition isAllowedAddress :: "bool \<Rightarrow> string \<Rightarrow> bool" where
  "isAllowedAddress allowPrivate address =
     (if allowPrivate then True
      else let candidate = address_in address
           in case parse4 candidate of
                Some a \<Rightarrow> \<not> check_ipv4 a
              | None \<Rightarrow> (case parse6 candidate of Some a \<Rightarrow> \<not> check_ipv6 a | None \<Rightarrow> False))"

section \<open>The service\<close>

record url =
  ur_protocol :: string
  ur_username :: string
  ur_password :: string
  ur_hostname :: string

datatype http_failure =
    InvalidUrl
  | UnsupportedProtocol
  | EmbeddedCredentials
  | PrivateAddress
  | LookupFailed
  | BlockedLookup
  | TransportFailed
  | RedirectNotFollowed nat
  | HttpStatus nat string

record safe_http =
  sh_allowPrivate :: bool
  sh_parse :: "string \<Rightarrow> url option"
  sh_lookup :: "string \<Rightarrow> string list option"
  sh_exchange :: "string list \<Rightarrow> string option \<Rightarrow> (nat \<times> string list) option"

text \<open>\<open>replace(/^\[|\]$/g, '')\<close>\<close>

definition strip_brackets :: "string \<Rightarrow> string" where
  "strip_brackets h =
     (let a = (case h of c # s \<Rightarrow> if c = CHR ''['' then s else h | [] \<Rightarrow> [])
      in if a \<noteq> [] \<and> last a = CHR '']'' then butlast a else a)"

definition is_literal :: "string \<Rightarrow> bool" where
  "is_literal h \<longleftrightarrow> parse4 h \<noteq> None \<or> parse6 h \<noteq> None"

definition assertLiteralHostIsAllowed :: "safe_http \<Rightarrow> url \<Rightarrow> http_failure + unit" where
  "assertLiteralHostIsAllowed env u =
     (let host = strip_brackets (ur_hostname u)
      in if is_literal host \<and> \<not> isAllowedAddress (sh_allowPrivate env) host then Inl PrivateAddress else Inr ())"

definition guardedLookup :: "safe_http \<Rightarrow> string \<Rightarrow> http_failure + string list" where
  "guardedLookup env hostname =
     (case sh_lookup env hostname of
        None \<Rightarrow> Inl LookupFailed
      | Some addresses \<Rightarrow>
          let allowed = filter (isAllowedAddress (sh_allowPrivate env)) addresses
          in if allowed = [] then Inl BlockedLookup else Inr allowed)"

definition vetted_url :: "safe_http \<Rightarrow> string \<Rightarrow> http_failure + url" where
  "vetted_url env raw =
     (case sh_parse env raw of
        None \<Rightarrow> Inl InvalidUrl
      | Some u \<Rightarrow>
          if ur_protocol u \<noteq> ''https:'' \<and> ur_protocol u \<noteq> ''http:'' then Inl UnsupportedProtocol
          else if ur_username u \<noteq> [] \<or> ur_password u \<noteq> [] then Inl EmbeddedCredentials
          else case assertLiteralHostIsAllowed env u of Inl e \<Rightarrow> Inl e | Inr _ \<Rightarrow> Inr u)"

text \<open>Where the socket goes: the client resolves nothing when the host is an address already.\<close>

definition contacted :: "safe_http \<Rightarrow> url \<Rightarrow> http_failure + string list" where
  "contacted env u =
     (let host = strip_brackets (ur_hostname u)
      in if is_literal host then Inr [host] else guardedLookup env (ur_hostname u))"

definition BODY_PREFIX :: nat where "BODY_PREFIX = 2048"

text \<open>Chunks are kept while fewer than 2048 bytes have been.\<close>

fun kept_chunks :: "nat \<Rightarrow> string list \<Rightarrow> string list" where
  "kept_chunks got [] = []"
| "kept_chunks got (c # cs) =
     (if got < BODY_PREFIX then c # kept_chunks (got + length c) cs else kept_chunks got cs)"

text \<open>Three dots stand for the one-character ellipsis.\<close>

definition firstLine :: "string \<Rightarrow> string" where
  "firstLine text =
     (let line = takeWhile (\<lambda>c. c \<noteq> CHR 0x0A) text in if 200 < length line then take 200 line @ ''...'' else line)"

definition on_response :: "nat \<Rightarrow> string list \<Rightarrow> http_failure + nat \<times> string" where
  "on_response status chunks =
     (if 300 \<le> status \<and> status < 400 then Inl (RedirectNotFollowed status)
      else let text = take BODY_PREFIX (concat (kept_chunks 0 chunks))
           in if 200 \<le> status \<and> status < 300 then Inr (status, text)
              else Inl (HttpStatus status (if text = [] then [] else firstLine text)))"

definition send :: "safe_http \<Rightarrow> string \<Rightarrow> string option \<Rightarrow> http_failure + nat \<times> string" where
  "send env raw body =
     (case vetted_url env raw of
        Inl e \<Rightarrow> Inl e
      | Inr u \<Rightarrow>
          (case contacted env u of
             Inl e \<Rightarrow> Inl e
           | Inr addresses \<Rightarrow>
               (case sh_exchange env addresses body of
                  None \<Rightarrow> Inl TransportFailed
                | Some (status, chunks) \<Rightarrow> on_response status chunks)))"

text \<open>The preflight: a name that does not resolve is let through.\<close>

definition assertTargetIsAllowed :: "safe_http \<Rightarrow> string \<Rightarrow> http_failure + unit" where
  "assertTargetIsAllowed env raw =
     (case vetted_url env raw of
        Inl e \<Rightarrow> Inl e
      | Inr u \<Rightarrow>
          (case sh_lookup env (ur_hostname u) of
             None \<Rightarrow> Inr ()
           | Some addresses \<Rightarrow>
               if list_ex (isAllowedAddress (sh_allowPrivate env)) addresses then Inr () else Inl PrivateAddress))"

section \<open>What the networks are\<close>

lemma in_subnet_div:
  assumes "n \<le> LENGTH('a)" and "net = word_of_nat (p * 2 ^ (LENGTH('a) - n))" and "p < 2 ^ n"
  shows "in_subnet net n (a :: 'a::len word) \<longleftrightarrow> unat a div 2 ^ (LENGTH('a) - n) = p"
proof -
  let ?m = "2 ^ (LENGTH('a) - n) :: nat"
  have "p * ?m < 2 ^ n * ?m" using assms(3) by simp
  also have "\<dots> = 2 ^ LENGTH('a)" using assms(1) by (simp flip: power_add)
  finally have "unat net = p * ?m" by (simp only: assms(2) unsigned_of_nat take_bit_nat_eq_self of_nat_id)
  then have net: "unat (drop_bit (LENGTH('a) - n) net) = p"
    by (simp only: unat_drop_bit_eq) (simp add: drop_bit_eq_div)
  have "in_subnet net n a \<longleftrightarrow> unat (drop_bit (LENGTH('a) - n) a) = p"
    by (simp only: in_subnet_def word_unat_eq_iff net)
  then show ?thesis unfolding unat_drop_bit_eq by (simp only: drop_bit_eq_div)
qed

lemma subnets_ipv4:
  "check_ipv4 w \<longleftrightarrow> (\<exists>(k, lo) \<in> set [(24, 0), (24, 10), (22, 401), (24, 127), (16, 43518), (20, 2753), (8, 12582912),
     (8, 12582914), (8, 12605539), (16, 49320), (17, 25353), (8, 12989284), (8, 13303921), (28, 14), (28, 15)].
     unat w div 2 ^ k = lo)"
proof -
  have e: "in_subnet net n w \<longleftrightarrow> unat w div 2 ^ (32 - n) = lo"
    if "n \<le> 32" "net = word_of_nat (lo * 2 ^ (32 - n))" "lo < 2 ^ n" for net :: "32 word" and n lo
    using in_subnet_div [of n net lo w] that by simp
  have "in_subnet 0 8 w \<longleftrightarrow> unat w div 2 ^ 24 = 0" "in_subnet 0x0A000000 8 w \<longleftrightarrow> unat w div 2 ^ 24 = 10"
    "in_subnet 0x64400000 10 w \<longleftrightarrow> unat w div 2 ^ 22 = 401" "in_subnet 0x7F000000 8 w \<longleftrightarrow> unat w div 2 ^ 24 = 127"
    "in_subnet 0xA9FE0000 16 w \<longleftrightarrow> unat w div 2 ^ 16 = 43518" "in_subnet 0xAC100000 12 w \<longleftrightarrow> unat w div 2 ^ 20 = 2753"
    "in_subnet 0xC0000000 24 w \<longleftrightarrow> unat w div 2 ^ 8 = 12582912" "in_subnet 0xC0000200 24 w \<longleftrightarrow> unat w div 2 ^ 8 = 12582914"
    "in_subnet 0xC0586300 24 w \<longleftrightarrow> unat w div 2 ^ 8 = 12605539" "in_subnet 0xC0A80000 16 w \<longleftrightarrow> unat w div 2 ^ 16 = 49320"
    "in_subnet 0xC6120000 15 w \<longleftrightarrow> unat w div 2 ^ 17 = 25353" "in_subnet 0xC6336400 24 w \<longleftrightarrow> unat w div 2 ^ 8 = 12989284"
    "in_subnet 0xCB007100 24 w \<longleftrightarrow> unat w div 2 ^ 8 = 13303921" "in_subnet 0xE0000000 4 w \<longleftrightarrow> unat w div 2 ^ 28 = 14"
    "in_subnet 0xF0000000 4 w \<longleftrightarrow> unat w div 2 ^ 28 = 15"
    by (subst e, simp_all)+
  then show ?thesis by (simp add: check_ipv4_def blocked_ipv4_def)
qed

text \<open>The reserved ranges, octet by octet.\<close>

definition reserved :: "nat \<Rightarrow> nat \<Rightarrow> nat \<Rightarrow> bool" where
  "reserved a b c \<longleftrightarrow> a = 0 \<or> a = 10 \<or> a = 100 \<and> 64 \<le> b \<and> b < 128 \<or> a = 127 \<or> a = 169 \<and> b = 254
     \<or> a = 172 \<and> 16 \<le> b \<and> b < 32 \<or> a = 192 \<and> b = 0 \<and> c = 0 \<or> a = 192 \<and> b = 0 \<and> c = 2
     \<or> a = 192 \<and> b = 88 \<and> c = 99 \<or> a = 192 \<and> b = 168 \<or> a = 198 \<and> 18 \<le> b \<and> b < 20
     \<or> a = 198 \<and> b = 51 \<and> c = 100 \<or> a = 203 \<and> b = 0 \<and> c = 113 \<or> 224 \<le> a"

lemma quotient_is: "0 < m \<Longrightarrow> n div m = q \<longleftrightarrow> q * m \<le> n \<and> n < Suc q * (m :: nat)"
  using div_less_iff_less_mult [of m n "Suc q"] less_eq_div_iff_mult_less_eq [of m q n] by linarith

lemma reserved_subnets:
  assumes "a < 256" "b < 256" "c < 256" "d < 256" "unat w = ((a * 256 + b) * 256 + c) * 256 + d"
  shows "check_ipv4 w \<longleftrightarrow> reserved a b c"
proof -
  let ?v = "unat w"
  have d8: "?v div 2 ^ 8 = (a * 256 + b) * 256 + c" using assms(4) by (simp add: assms(5))
  have "?v div 2 ^ 16 = ?v div 2 ^ 8 div 2 ^ 8" by (simp flip: div_mult2_eq)
  then have d16: "?v div 2 ^ 16 = a * 256 + b" using assms(3) by (simp only: d8) simp
  have split: "(b + x * m) div m = x + b div m" if "0 < m" for x m :: nat
    using that by (simp add: add.commute)
  have scale: "(a * 256 + b) div 2 ^ 8 = a + b div 256" "(a * 256 + b) div 2 ^ 6 = a * 4 + b div 64"
    "(a * 256 + b) div 2 ^ 4 = a * 16 + b div 16" "(a * 256 + b) div 2 = a * 128 + b div 2"
    using split [of 256 a] split [of 64 "a * 4"] split [of 16 "a * 16"] split [of 2 "a * 128"] by (simp_all add: ac_simps)
  have "?v div 2 ^ 24 = ?v div 2 ^ 16 div 2 ^ 8" "?v div 2 ^ 22 = ?v div 2 ^ 16 div 2 ^ 6"
    "?v div 2 ^ 20 = ?v div 2 ^ 16 div 2 ^ 4" "?v div 2 ^ 17 = ?v div 2 ^ 16 div 2" "?v div 2 ^ 28 = ?v div 2 ^ 24 div 2 ^ 4"
    by (simp_all flip: div_mult2_eq)
  then have high: "?v div 2 ^ 24 = a" "?v div 2 ^ 22 = a * 4 + b div 64" "?v div 2 ^ 20 = a * 16 + b div 16"
    "?v div 2 ^ 17 = a * 128 + b div 2" "?v div 2 ^ 28 = a div 16"
    using assms(2) by (simp_all only: d16 scale) simp_all
  have digit: "(x * m + y = n) = (x = n div m \<and> y = n mod m)" if "y < m" for x m y n :: nat
    using that by auto
  have b: "b div 64 < 4" "b div 16 < 16" "b div 2 < 128" using assms(2) by (simp_all add: less_mult_imp_div_less)
  have "(b div 64 = 1) = (64 \<le> b \<and> b < 128)" "(b div 16 = 1) = (16 \<le> b \<and> b < 32)"
    "(b div 2 = 9) = (18 \<le> b \<and> b < 20)" by (simp_all add: quotient_is)
  then have "(a * 4 + b div 64 = 401) = (a = 100 \<and> 64 \<le> b \<and> b < 128)"
    "(a * 16 + b div 16 = 2753) = (a = 172 \<and> 16 \<le> b \<and> b < 32)"
    "(a * 128 + b div 2 = 25353) = (a = 198 \<and> 18 \<le> b \<and> b < 20)"
    using digit [OF b(1), of a 401] digit [OF b(2), of a 2753] digit [OF b(3), of a 25353] by simp_all
  moreover have "(a div 16 = 14 \<or> a div 16 = 15) = (224 \<le> a)"
    using assms(1) by (simp add: quotient_is) linarith
  moreover have "(a * 256 + b = 43518) = (a = 169 \<and> b = 254)" "(a * 256 + b = 49320) = (a = 192 \<and> b = 168)"
    using digit [OF assms(2), of a] by simp_all
  moreover have "((a * 256 + b) * 256 + c = 12582912) = (a = 192 \<and> b = 0 \<and> c = 0)"
    "((a * 256 + b) * 256 + c = 12582914) = (a = 192 \<and> b = 0 \<and> c = 2)"
    "((a * 256 + b) * 256 + c = 12605539) = (a = 192 \<and> b = 88 \<and> c = 99)"
    "((a * 256 + b) * 256 + c = 12989284) = (a = 198 \<and> b = 51 \<and> c = 100)"
    "((a * 256 + b) * 256 + c = 13303921) = (a = 203 \<and> b = 0 \<and> c = 113)"
    using digit [OF assms(3), of "a * 256 + b"] digit [OF assms(2), of a] by simp_all
  ultimately show ?thesis unfolding subnets_ipv4 reserved_def by (simp add: d8 d16 high del: power_numeral)
qed

section \<open>Addresses as text\<close>

definition dotted :: "nat \<Rightarrow> nat \<Rightarrow> nat \<Rightarrow> nat \<Rightarrow> string" where
  "dotted a b c d = join ''.'' [show_nat a, show_nat b, show_nat c, show_nat d]"

lemma show_nat_head: "0 < n \<Longrightarrow> hd (show_nat n) \<noteq> CHR ''0''"
proof (induction n rule: show_nat.induct)
  case (1 n)
  show ?case
  proof (cases "n < 10")
    case True
    have "code (char_of (48 + n)) = 48 + n" using True by (intro code_char_of) simp
    moreover have "code CHR ''0'' = 48" by code_simp
    ultimately have "char_of (48 + n) \<noteq> CHR ''0''" using 1(2) by (metis add_cancel_right_right less_irrefl_nat)
    then show ?thesis using True by (subst show_nat.simps) simp
  next
    case False
    then show ?thesis using 1(1) by (subst show_nat.simps) simp
  qed
qed

lemma octet_show: "n < 256 \<Longrightarrow> octet_text (show_nat n)"
proof (cases "n = 0")
  case True
  then show ?thesis by (subst show_nat.simps) (simp add: octet_text_def digits_def is_digit_def number_of_def)
qed (use digits_show_nat [of 3 n] show_nat_head [of n] in \<open>simp add: octet_text_def\<close>)

lemma no_dot_show: "CHR ''.'' \<notin> set (show_nat n)" "CHR '':'' \<notin> set (show_nat n)"
proof -
  have "\<not> is_digit CHR ''.''" "\<not> is_digit CHR '':''" by (simp_all add: is_digit_def)
  then show "CHR ''.'' \<notin> set (show_nat n)" "CHR '':'' \<notin> set (show_nat n)"
    using show_nat_digits [of n] by (auto simp: list_all_iff)
qed

lemma split_dotted: "split_on CHR ''.'' (dotted a b c d) = [show_nat a, show_nat b, show_nat c, show_nat d]"
  unfolding dotted_def by (rule split_on_join) (use no_dot_show in auto)

text \<open>Printed octets are read back.\<close>

lemma parse4_dotted:
  assumes "a < 256" "b < 256" "c < 256" "d < 256"
  shows "\<exists>w. parse4 (dotted a b c d) = Some w \<and> unat w = ((a * 256 + b) * 256 + c) * 256 + d"
proof -
  let ?v = "((a * 256 + b) * 256 + c) * 256 + d"
  have "foldl (\<lambda>w p. 256 * w + word_of_nat (number_of p)) (0 :: 32 word) [show_nat a, show_nat b, show_nat c, show_nat d]
      = word_of_nat ?v"
    by (simp add: ac_simps)
  then have "parse4 (dotted a b c d) = Some (word_of_nat ?v)"
    using assms octet_show by (simp add: parse4_def split_dotted)
  moreover have "?v < 2 ^ LENGTH(32)" using assms by simp
  then have "unat (word_of_nat ?v :: 32 word) = ?v"
    by (simp only: unsigned_of_nat take_bit_nat_eq_self of_nat_id)
  ultimately show ?thesis by blast
qed

lemma no_colon_dotted: "CHR '':'' \<notin> set (dotted a b c d)"
  by (simp add: dotted_def no_dot_show)

lemma address_in_dotted:
  assumes "a < 256" "b < 256" "c < 256" "d < 256"
  shows "address_in (dotted a b c d) = dotted a b c d" and "address_in (''::ffff:'' @ dotted a b c d) = dotted a b c d"
proof -
  let ?os = "[show_nat a, show_nat b, show_nat c, show_nat d]"
  have v4: "Network.isIPv4 ?os" using assms octet_show by (simp add: isIPv4_def octet_text_def)
  then show "address_in (dotted a b c d) = dotted a b c d" unfolding dotted_def by (rule plain_v4(2))
  have "to_lower ''::ffff:'' = ''::ffff:''" by code_simp
  moreover have "list_all (\<lambda>p. p \<noteq> [] \<and> list_all is_digit p) ?os" by (simp add: show_nat_digits)
  ultimately have "mapped_v4 (''::ffff:'' @ dotted a b c d) = Some (dotted a b c d)"
    by (simp add: mapped_v4_def split_dotted)
  then show "address_in (''::ffff:'' @ dotted a b c d) = dotted a b c d" by (simp add: address_in_def)
qed

text \<open>Inside an IPv6 address, whatever its spelling.\<close>

definition mapped_word :: "32 word \<Rightarrow> 128 word" where
  "mapped_word a = 0xFFFF00000000 + ucast a"

lemma unat_mapped: "unat (mapped_word a) = 0xFFFF00000000 + unat a"
proof -
  have "unat a < 2 ^ 32" using unsigned_less [of a] by simp
  then have "0xFFFF00000000 + unat a < 2 ^ LENGTH(128)" by simp
  moreover have "mapped_word a = word_of_nat (0xFFFF00000000 + unat a)" by (simp add: mapped_word_def)
  ultimately show ?thesis by (simp only: unsigned_of_nat take_bit_nat_eq_self of_nat_id)
qed

lemma check_mapped: "check_ipv6 (mapped_word a) \<longleftrightarrow> check_ipv4 a"
proof -
  let ?x = "mapped_word a"
  have small: "unat a < 2 ^ 32" using unsigned_less [of a] by simp
  have e: "\<not> in_subnet net n ?x"
    if "n \<le> 128" "net = word_of_nat (p * 2 ^ (128 - n))" "p < 2 ^ n"
      "unat ?x < p * 2 ^ (128 - n) \<or> Suc p * 2 ^ (128 - n) \<le> unat ?x" for net :: "128 word" and n p
    using in_subnet_div [of n net p ?x] that by (auto simp: quotient_is)
  have "\<not> in_subnet 0 96 ?x"
    "\<not> in_subnet 0x0064FF9B000000000000000000000000 96 ?x"
    "\<not> in_subnet 0x0064FF9B000100000000000000000000 48 ?x"
    "\<not> in_subnet 0x01000000000000000000000000000000 64 ?x"
    "\<not> in_subnet 0x20010000000000000000000000000000 32 ?x"
    "\<not> in_subnet 0x20020000000000000000000000000000 16 ?x"
    "\<not> in_subnet 0x20010DB8000000000000000000000000 32 ?x"
    "\<not> in_subnet 0xFC000000000000000000000000000000 7 ?x"
    "\<not> in_subnet 0xFEC00000000000000000000000000000 10 ?x"
    "\<not> in_subnet 0xFE800000000000000000000000000000 10 ?x"
    "\<not> in_subnet 0xFF000000000000000000000000000000 8 ?x"
    by (rule e [where p = 0], simp, simp, simp, use small in \<open>simp add: unat_mapped\<close>,
       rule e [where p = 122099644659926101980610560], simp, simp, simp, use small in \<open>simp add: unat_mapped\<close>,
       rule e [where p = 433785077761], simp, simp, simp, use small in \<open>simp add: unat_mapped\<close>,
       rule e [where p = 72057594037927936], simp, simp, simp, use small in \<open>simp add: unat_mapped\<close>,
       rule e [where p = 536936448], simp, simp, simp, use small in \<open>simp add: unat_mapped\<close>,
       rule e [where p = 8194], simp, simp, simp, use small in \<open>simp add: unat_mapped\<close>,
       rule e [where p = 536939960], simp, simp, simp, use small in \<open>simp add: unat_mapped\<close>,
       rule e [where p = 126], simp, simp, simp, use small in \<open>simp add: unat_mapped\<close>,
       rule e [where p = 1019], simp, simp, simp, use small in \<open>simp add: unat_mapped\<close>,
       rule e [where p = 1018], simp, simp, simp, use small in \<open>simp add: unat_mapped\<close>,
       rule e [where p = 255], simp, simp, simp, use small in \<open>simp add: unat_mapped\<close>)
  then have "check_ipv6 ?x \<longleftrightarrow> drop_bit 32 ?x = 0xFFFF \<and> check_ipv4 (ucast ?x)"
    by (simp add: check_ipv6_def blocked_ipv6_def)
  moreover have "unat (drop_bit 32 ?x) = 0xFFFF"
    unfolding unat_drop_bit_eq unat_mapped using small by (simp add: drop_bit_eq_div)
  then have "drop_bit 32 ?x = 0xFFFF" by (simp add: word_unat_eq_iff)
  moreover have "unat (ucast ?x :: 32 word) = unat a"
  proof -
    have "(65535 * 4294967296 + unat a) mod 4294967296 = unat a"
      using small by (simp only: mod_mult_self3) simp
    then show ?thesis by (simp only: unsigned_ucast_eq unat_mapped) (simp add: take_bit_eq_mod)
  qed
  then have "ucast ?x = a" by (simp only: word_unat_eq_iff)
  ultimately show ?thesis by simp
qed

section \<open>What can be reached\<close>

text \<open>
  C19. Without the operator's consent, an IPv4 address is refused exactly when it lies
  in one of the reserved ranges (private, loopback, link-local with the metadata service,
  shared, documentation, multicast and the rest), written plainly or inside an IPv6 address;
  and an IPv6 address that contains one is refused whatever its spelling.
\<close>

theorem reserved_addresses_refused:
  assumes "a < 256" and "b < 256" and "c < 256" and "d < 256"
  shows "(isAllowedAddress False (dotted a b c d) \<longleftrightarrow> \<not> reserved a b c)
    \<and> (isAllowedAddress False (''::ffff:'' @ dotted a b c d) \<longleftrightarrow> \<not> reserved a b c)
    \<and> (\<exists>w. parse4 (dotted a b c d) = Some w \<and> (check_ipv6 (mapped_word w) \<longleftrightarrow> reserved a b c))"
proof -
  obtain w where w: "parse4 (dotted a b c d) = Some w" "unat w = ((a * 256 + b) * 256 + c) * 256 + d"
    using parse4_dotted [OF assms] by blast
  then have "check_ipv4 w \<longleftrightarrow> reserved a b c" using reserved_subnets [OF assms] by blast
  then show ?thesis
    using address_in_dotted [OF assms] w(1) check_mapped [of w] by (simp add: isAllowedAddress_def)
qed

theorem reserved_addresses_refused_witness:
  "\<not> isAllowedAddress False (dotted 169 254 169 254) \<and> isAllowedAddress False (dotted 93 184 216 34)
   \<and> \<not> isAllowedAddress False (''::ffff:'' @ dotted 127 0 0 1)"
  using reserved_addresses_refused [of 169 254 169 254] reserved_addresses_refused [of 93 184 216 34]
    reserved_addresses_refused [of 127 0 0 1]
  by (simp add: reserved_def)

lemma metadata_spelling: "parse6 ''::ffff:a9fe:a9fe'' = Some (mapped_word 0xA9FEA9FE)"
proof -
  have parts: "split_pairs ''::ffff:a9fe:a9fe'' = [[], ''ffff:a9fe:a9fe'']"
    "colon_parts ''ffff:a9fe:a9fe'' = [''ffff'', ''a9fe'', ''a9fe'']" "colon_parts [] = []"
    "list_all hex_group [''ffff'', ''a9fe'']" "replicate 5 (0 :: nat) = [0, 0, 0, 0, 0]"
    by code_simp+
  moreover have "hex_number ''ffff'' = 65535" "hex_number ''a9fe'' = 43518"
    by (simp_all add: hex_number_def hex_digit_def is_digit_def is_lower_def)
  ultimately show ?thesis by (simp add: parse6_def mapped_word_def)
qed

lemma contacted_allowed:
  assumes "vetted_url env raw = Inr u" "contacted env u = Inr addresses"
  shows "addresses \<noteq> [] \<and> (\<forall>a \<in> set addresses. isAllowedAddress (sh_allowPrivate env) a)"
  using assms
  by (auto simp: vetted_url_def contacted_def guardedLookup_def assertLiteralHostIsAllowed_def Let_def
      filter_empty_conv split: option.splits if_splits sum.splits)


text \<open>The bounded read: what is kept is a prefix, at most the bound and one chunk.\<close>

lemma kept_nothing: "BODY_PREFIX \<le> got \<Longrightarrow> kept_chunks got cs = []"
  by (induction cs) auto

lemma kept_bounded:
  assumes "\<forall>c \<in> set cs. length c \<le> m"
  shows "length (concat (kept_chunks got cs)) \<le> BODY_PREFIX - got + m"
  using assms
proof (induction cs arbitrary: got)
  case (Cons c cs)
  show ?case
  proof (cases "got + length c < BODY_PREFIX")
    case True
    then show ?thesis using Cons.IH [of "got + length c"] Cons.prems by simp
  next
    case False
    then show ?thesis using Cons.prems by (simp add: kept_nothing) linarith
  qed
qed simp

text \<open>
  A name that was accepted when the channel was made is vetted again at each
  request: if it then resolves only to refused addresses nothing is sent.
\<close>

theorem rebinding_is_refused:
  assumes "assertTargetIsAllowed env raw = Inr ()" and "sh_parse env raw = Some u"
    and "\<not> is_literal (strip_brackets (ur_hostname u))"
    and "\<forall>a \<in> set inner. \<not> isAllowedAddress (sh_allowPrivate env) a"
  shows "send (env\<lparr>sh_lookup := \<lambda>_. Some inner\<rparr>) raw body = Inl BlockedLookup"
proof -
  have "vetted_url env raw = Inr u"
    using assms(1,2) by (auto simp: assertTargetIsAllowed_def vetted_url_def split: sum.splits option.splits if_splits)
  moreover have "assertLiteralHostIsAllowed (env\<lparr>sh_lookup := \<lambda>_. Some inner\<rparr>) v = assertLiteralHostIsAllowed env v" for v
    by (simp add: assertLiteralHostIsAllowed_def)
  then have "vetted_url (env\<lparr>sh_lookup := \<lambda>_. Some inner\<rparr>) raw = vetted_url env raw"
    unfolding vetted_url_def by (simp split: option.splits)
  ultimately have "vetted_url (env\<lparr>sh_lookup := \<lambda>_. Some inner\<rparr>) raw = Inr u" by simp
  moreover have "filter (isAllowedAddress (sh_allowPrivate env)) inner = []"
    using assms(4) by (simp add: filter_empty_conv)
  ultimately show ?thesis using assms(3) by (simp add: send_def contacted_def guardedLookup_def Let_def)
qed

definition public_site :: safe_http where
  "public_site = \<lparr>sh_allowPrivate = False,
     sh_parse = (\<lambda>_. Some \<lparr>ur_protocol = ''https:'', ur_username = [], ur_password = [], ur_hostname = ''hooks.example.com''\<rparr>),
     sh_lookup = (\<lambda>_. Some [''93.184.216.34'']), sh_exchange = (\<lambda>_ _. Some (200, [''ok'']))\<rparr>"

lemma public_site_facts:
  "assertTargetIsAllowed public_site [] = Inr ()" "\<not> is_literal (strip_brackets ''hooks.example.com'')"
  "send public_site [] None = Inr (200, ''ok'')" "\<not> isAllowedAddress False ''169.254.169.254''"
  by code_simp+


theorem rebinding_is_refused_witness:
  "send (public_site\<lparr>sh_lookup := \<lambda>_. Some [''169.254.169.254'']\<rparr>) [] None = Inl BlockedLookup"
  by (rule rebinding_is_refused [OF public_site_facts(1)])
    (simp add: public_site_def, simp add: public_site_facts(2), simp add: public_site_def public_site_facts(4))

end
