(* ===== verification/Lifecycle.thy ===== *)
theory Lifecycle
  imports Api Monitoring Quotas
begin

text \<open>
  The whole server as one machine (heartbeats, detection ticks, delivery passes, API requests
  and the quota reconciler over one database) and the contract all of it implements: the
  life of a check, as a relation saying who may move it and from where. Each step of the
  server is a path of that relation for every check that is still there.
\<close>

section \<open>The server\<close>

record server =
  monitor_of :: monitor
  keys_of :: key_service

abbreviation srv_db :: "server \<Rightarrow> db" where
  "srv_db y \<equiv> mon_db (monitor_of y)"

datatype server_event =
    Watch monitor_event
  | Ask api_env principal api_request
  | Enforce quota_settings

text \<open>All parts work on the same database.\<close>

definition with_store :: "server \<Rightarrow> db \<Rightarrow> server" where
  "with_store y s = y\<lparr>monitor_of := (monitor_of y)\<lparr>detector_of := (detector_of (monitor_of y))\<lparr>det_db := s\<rparr>\<rparr>\<rparr>"

definition api_view :: "server \<Rightarrow> api_state" where
  "api_view y = \<lparr>ap_ingest = (front (monitor_of y))\<lparr>store_db := srv_db y\<rparr>, ap_keys = keys_of y\<rparr>"

fun server_step :: "server_event \<Rightarrow> server \<Rightarrow> server" where
  "server_step (Watch e) y = y\<lparr>monitor_of := monitor_step e (monitor_of y)\<rparr>"
| "server_step (Ask env pr rq) y =
     (let a = snd (serve env pr rq (api_view y))
      in (with_store y (ap_db a))\<lparr>monitor_of := (monitor_of (with_store y (ap_db a)))\<lparr>front := ap_ingest a\<rparr>,
           keys_of := ap_keys a\<rparr>)"
| "server_step (Enforce cfg) y = with_store y (rc_db (reconcile cfg (srv_db y)))"

lemma srv_db_with_store [simp]: "srv_db (with_store y s) = s"
  by (simp add: with_store_def)

lemma srv_db_Ask: "srv_db (server_step (Ask env pr rq) y) = ap_db (snd (serve env pr rq (api_view y)))"
  by (simp add: with_store_def Let_def)

lemma ap_db_view [simp]: "ap_db (api_view y) = srv_db y"
  by (simp add: api_view_def)

section \<open>The contract\<close>

record life =
  mode :: check_state
  armed :: bool
  held :: bool

definition life_of :: "check \<Rightarrow> life" where
  "life_of c = \<lparr>mode = state c, armed = (nextDueAt c \<noteq> None), held = (pausedReason c \<noteq> None)\<rparr>"

definition born :: life where
  "born = \<lparr>mode = NEW, armed = True, held = False\<rparr>"

datatype actor = Job | Clock | Person | Plan

inductive lifecycle :: "actor \<Rightarrow> life \<Rightarrow> life \<Rightarrow> bool" where
  reported: "mode l \<noteq> PAUSED \<Longrightarrow> m \<in> {UP, DOWN} \<Longrightarrow> lifecycle Job l (l\<lparr>mode := m, armed := b\<rparr>)"
| overran: "armed l \<Longrightarrow> mode l \<in> {UP, NEW, LATE} \<Longrightarrow> m \<in> {LATE, DOWN} \<Longrightarrow> lifecycle Clock l (l\<lparr>mode := m\<rparr>)"
| rescheduled: "lifecycle Person l (l\<lparr>armed := True\<rparr>)"
| stopped: "lifecycle Person l (l\<lparr>mode := PAUSED\<rparr>)"
| restarted: "mode l = PAUSED \<Longrightarrow> lifecycle Person l (l\<lparr>mode := NEW, armed := True\<rparr>)"
| taken: "\<not> held l \<Longrightarrow> lifecycle Plan l \<lparr>mode = PAUSED, armed = False, held = True\<rparr>"
| revived: "held l \<Longrightarrow> lifecycle Plan l (l\<lparr>mode := NEW, held := False\<rparr>)"

inductive_cases lifecycle_JobE: "lifecycle Job l l'"
inductive_cases lifecycle_ClockE: "lifecycle Clock l l'"
inductive_cases lifecycle_PersonE: "lifecycle Person l l'"
inductive_cases lifecycle_PlanE: "lifecycle Plan l l'"

fun actor_of :: "server_event \<Rightarrow> actor" where
  "actor_of (Watch (Heartbeat _ _)) = Job"
| "actor_of (Watch (Tick _)) = Clock"
| "actor_of (Watch (Pass _ _ _ _)) = Clock"
| "actor_of (Ask _ _ _) = Person"
| "actor_of (Enforce _) = Plan"

text \<open>
  What one step by an actor may make of the checks: those that stay follow the contract, new
  ones start afresh under an identifier never used, and only a person removes any.
\<close>

definition evolves :: "actor \<Rightarrow> db \<Rightarrow> db \<Rightarrow> bool" where
  "evolves a s s' \<longleftrightarrow> next_id s \<le> next_id s'
     \<and> (\<forall>d \<in> set (checks s').
          (\<exists>c \<in> set (checks s). c_id c = c_id d \<and> (lifecycle a)\<^sup>*\<^sup>* (life_of c) (life_of d))
          \<or> a = Person \<and> next_id s \<le> c_id d \<and> life_of d = born)
     \<and> (a \<noteq> Person \<longrightarrow> c_id ` set (checks s') = c_id ` set (checks s))"

lemma evolves_same:
  "checks s' = checks s \<Longrightarrow> next_id s \<le> next_id s' \<Longrightarrow> evolves a s s'"
  by (auto simp: evolves_def)

lemma evolves_trans:
  assumes "evolves a r s" "evolves a s t" "a \<noteq> Person"
  shows "evolves a r t"
  unfolding evolves_def
proof (intro conjI ballI impI)
  fix d assume d: "d \<in> set (checks t)"
  then obtain x where "x \<in> set (checks s)" "c_id x = c_id d" "(lifecycle a)\<^sup>*\<^sup>* (life_of x) (life_of d)"
    using assms(2,3) unfolding evolves_def by blast
  moreover from this obtain c where "c \<in> set (checks r)" "c_id c = c_id x" "(lifecycle a)\<^sup>*\<^sup>* (life_of c) (life_of x)"
    using assms(1,3) unfolding evolves_def by blast
  ultimately show "(\<exists>c \<in> set (checks r). c_id c = c_id d \<and> (lifecycle a)\<^sup>*\<^sup>* (life_of c) (life_of d))
      \<or> a = Person \<and> next_id r \<le> c_id d \<and> life_of d = born"
    by (metis rtranclp_trans)
qed (use assms in \<open>auto simp: evolves_def\<close>)

lemma evolves_append:
  assumes "checks s' = map f (checks s) @ new" "next_id s \<le> next_id s'"
    and "\<And>c. c \<in> set (checks s) \<Longrightarrow> c_id (f c) = c_id c \<and> (lifecycle a)\<^sup>*\<^sup>* (life_of c) (life_of (f c))"
    and "\<And>d. d \<in> set new \<Longrightarrow> a = Person \<and> next_id s \<le> c_id d \<and> life_of d = born"
  shows "evolves a s s'"
proof -
  have "new = []" if "a \<noteq> Person" using assms(4) that by (cases new) auto
  then show ?thesis using assms by (auto simp: evolves_def image_image)
qed

lemmas evolves_map = evolves_append [where new = "[]", simplified]

lemma evolves_update:
  assumes "checks s' = update_where p f (checks s)" "next_id s \<le> next_id s'"
    and "\<And>c. c \<in> set (checks s) \<Longrightarrow> p c \<Longrightarrow> c_id (f c) = c_id c \<and> (lifecycle a)\<^sup>*\<^sup>* (life_of c) (life_of (f c))"
  shows "evolves a s s'"
  by (rule evolves_map [where f = "\<lambda>c. if p c then f c else c"]) (use assms in \<open>auto simp: update_where_def\<close>)

lemma evolves_subset:
  "set (checks s') \<subseteq> set (checks s) \<Longrightarrow> next_id s \<le> next_id s' \<Longrightarrow> evolves Person s s'"
  by (auto simp: evolves_def)

section \<open>Heartbeats\<close>

lemma life_upd:
  assumes "state c \<noteq> PAUSED"
  shows "(lifecycle Job)\<^sup>*\<^sup>* (life_of c) (life_of (upd t k dur due c))"
proof (cases "k = StartPing")
  case False
  have "lifecycle Job (life_of c) ((life_of c)\<lparr>mode := if k = FailPing then DOWN else UP, armed := due \<noteq> None\<rparr>)"
    by (rule reported) (use assms in \<open>auto simp: life_of_def\<close>)
  then show ?thesis using False by (auto simp: life_of_def upd_def)
qed (simp add: life_of_def upd_def)

lemma written_evolves:
  assumes "checks_ok s" "written env s s'"
  shows "evolves Job s s'"
  using assms(2)
proof (cases rule: written_cases)
  case (row cmd k m c)
  show ?thesis
  proof (rule evolves_update)
    fix x assume "x \<in> set (checks s)" "c_id x = c_id c"
    then have "x = c" using same_check [OF assms(1)] row(1) by blast
    then show "c_id (upd (env_now env) (cmd_kind cmd) (v_duration (write_values env cmd k m)) (v_due (write_values env cmd k m)) x) = c_id x
        \<and> (lifecycle Job)\<^sup>*\<^sup>* (life_of x)
            (life_of (upd (env_now env) (cmd_kind cmd) (v_duration (write_values env cmd k m)) (v_due (write_values env cmd k m)) x))"
      using life_upd [of c "env_now env" "cmd_kind cmd"] row(3) by (simp add: upd_def)
  qed (use row(4) in simp_all)
qed (simp add: evolves_same)

section \<open>The clock\<close>

lemma life_advanced:
  assumes "advanced env c d"
  shows "(lifecycle Clock)\<^sup>*\<^sup>* (life_of c) (life_of d)"
proof (cases "d = c")
  case False
  have e: "d = c\<lparr>state := state d, c_updatedAt := c_updatedAt d\<rparr>"
    using assms unfolding advanced_def by blast
  have st: "state c \<in> {UP, NEW, LATE}" "nextDueAt c \<noteq> None" "state d \<in> {LATE, DOWN}"
    using assms False by (auto simp: advanced_def)
  have same: "life_of d = (life_of c)\<lparr>mode := state d\<rparr>"
    by (subst e) (simp add: life_of_def)
  have "lifecycle Clock (life_of c) ((life_of c)\<lparr>mode := state d\<rparr>)"
    by (rule overran) (use st in \<open>auto simp: life_of_def\<close>)
  then show ?thesis unfolding same ..
qed simp

lemma next_id_tick:
  assumes "store_inv (det_db st)"
  shows "next_id (det_db st) \<le> next_id (det_db (tick env st))"
proof -
  have e: "n \<le> next_id s \<Longrightarrow> n \<le> next_id (snd (enqueue t refs k s))" for n t refs k s
    using enqueue_new_rows [of t refs k s] by fastforce
  have o: "next_id s \<le> next_id (snd (OPEN_INCIDENTS_SQL t lk n s))" if "store_inv s" for t lk n s
    using OPEN_ok(1) [OF that] by (simp add: opened_ok_def)
  have "next_id (det_db st) \<le> next_id (det_db (openIncidents env (advanceOverdueChecks env st)))"
    unfolding openIncidents_db claimOpened_db
    using o [OF store_inv_advance [OF assms]] by (auto intro!: e)
  then show ?thesis
    unfolding tick_def resolveIncidents_db claimResolved_db by (auto intro!: e)
qed

lemma list_all2_memD2: "list_all2 R xs ys \<Longrightarrow> y \<in> set ys \<Longrightarrow> \<exists>x \<in> set xs. R x y"
  by (induction rule: list_all2_induct) auto

lemma tick_evolves:
  assumes "store_inv (det_db st)"
  shows "evolves Clock (det_db st) (det_db (tick env st))"
proof -
  have a2: "list_all2 (advanced env) (checks (det_db st)) (checks (det_db (tick env st)))"
    unfolding tick_checks by (rule advance_advanced [OF assms])
  have ids: "map c_id ds = map c_id cs" if "list_all2 (advanced env) cs ds" for cs ds
    using that by (induction rule: list_all2_induct) (auto dest: advanced_fields(3))
  have "\<exists>c \<in> set (checks (det_db st)). c_id c = c_id d \<and> (lifecycle Clock)\<^sup>*\<^sup>* (life_of c) (life_of d)"
    if d: "d \<in> set (checks (det_db (tick env st)))" for d
  proof -
    obtain c where "c \<in> set (checks (det_db st))" "advanced env c d"
      using list_all2_memD2 [OF a2 d] by blast
    then show ?thesis using life_advanced advanced_fields(3) by metis
  qed
  then show ?thesis
    using next_id_tick [OF assms] arg_cong [OF ids [OF a2], of set] by (simp add: evolves_def)
qed

section \<open>People\<close>

lemma rescheduled_path: "(lifecycle Person)\<^sup>*\<^sup>* l (l\<lparr>armed := armed l \<or> b\<rparr>)"
proof (cases b)
  case True
  then show ?thesis using rescheduled [of l] by auto
qed simp

lemma life_apply_update:
  assumes "update_due env c r = Inr due"
  shows "(lifecycle Person)\<^sup>*\<^sup>* (life_of c) (life_of (apply_update env c r due c))"
proof -
  have due: "due = None \<or> (\<exists>t. due = Some (Some t))"
    using assms by (auto simp: update_due_def Let_def split: if_splits sum.splits)
  have res: "\<exists>t. due = Some (Some t)" if "up_paused r = Some False" "state c = PAUSED"
    using assms that by (auto simp: update_due_def Let_def split: if_splits sum.splits)
  let ?l = "(life_of c)\<lparr>armed := armed (life_of c) \<or> due \<noteq> None\<rparr>"
  have first: "(lifecycle Person)\<^sup>*\<^sup>* (life_of c) ?l" by (rule rescheduled_path)
  consider "up_paused r = Some True" | "up_paused r = Some False" "state c = PAUSED"
    | "up_paused r = None \<or> up_paused r = Some False \<and> state c \<noteq> PAUSED"
    by (cases "up_paused r") auto
  then show ?thesis
  proof cases
    case 1
    then have "life_of (apply_update env c r due c) = ?l\<lparr>mode := PAUSED\<rparr>"
      using due by (auto simp: life_of_def apply_update_def update_state_def set_field_def Let_def)
    then show ?thesis using rtranclp.rtrancl_into_rtrancl [OF first stopped] by simp
  next
    case 2
    then have "life_of (apply_update env c r due c) = (life_of c)\<lparr>mode := NEW, armed := True\<rparr>"
      using res by (auto simp: life_of_def apply_update_def update_state_def set_field_def Let_def)
    moreover have "lifecycle Person (life_of c) ((life_of c)\<lparr>mode := NEW, armed := True\<rparr>)"
      by (rule restarted) (use 2 in \<open>simp add: life_of_def\<close>)
    ultimately show ?thesis by auto
  next
    case 3
    then have "life_of (apply_update env c r due c) = ?l"
      using due by (auto simp: life_of_def apply_update_def update_state_def set_field_def Let_def)
    then show ?thesis using first by simp
  qed
qed

lemma create_evolves: "evolves Person (store_db i) (store_db (snd (create env p r i)))"
proof -
  obtain res s' where cq: "createWithinQuota env p r (store_db i) = (res, s')" by fastforce
  from cq have "evolves Person (store_db i) s'"
  proof (cases rule: createWithinQuota_cases)
    case (created due sl)
    show ?thesis
      by (rule evolves_append [where f = "\<lambda>c. c"])
        (use insert_check_SomeD [OF created(4)] in \<open>auto simp: life_of_def born_def\<close>)
  qed (simp add: evolves_same)
  then show ?thesis by (simp add: create_def cq)
qed

lemma life_orphan [simp]: "life_of (orphan env p e k c) = life_of c" "c_id (orphan env p e k c) = c_id c"
  by (simp_all add: life_of_def orphan_def split: option.splits)

lemma life_redeclare:
  "c_id (redeclare env p e rows c) = c_id c"
  "(lifecycle Person)\<^sup>*\<^sup>* (life_of c) (life_of (redeclare env p e rows c))"
proof -
  have "life_of (redeclared env x c) = (life_of c)\<lparr>armed := armed (life_of c) \<or> \<not> same_schedule c x\<rparr>" for x
    by (simp add: life_of_def redeclared_def)
  then show "(lifecycle Person)\<^sup>*\<^sup>* (life_of c) (life_of (redeclare env p e rows c))"
    using rescheduled_path by (simp add: redeclare_def split: option.splits)
  show "c_id (redeclare env p e rows c) = c_id c"
    by (simp add: redeclare_def redeclared_def split: option.splits)
qed

lemma declared_born:
  "c \<in> set (declared_from env p e rows n) \<Longrightarrow> n \<le> c_id c \<and> life_of c = born"
  by (auto simp: declared_from_def declared_check_def life_of_def born_def elim!: in_set_zipE)

lemma sync_evolves: "evolves Person (store_db i) (store_db (snd (sync env p q i)))"
proof -
  obtain res s' where sq: "syncWithinQuota env p q (store_db i) = (res, s')" by fastforce
  have "evolves Person (store_db i) s'"
  proof (cases res)
    case (Inl x)
    then show ?thesis
      using sq by (auto simp: syncWithinQuota_def Let_def split: sum.splits prod.splits intro: evolves_same)
  next
    case (Inr out)
    let ?e = "sr_environment q"
    obtain rows where "s' = (let s1 = upserted_db env p ?e (accepted_rows env p ?e rows (store_db i)) (store_db i)
        in s1\<lparr>checks := map (orphan env p ?e (keep_of q)) (checks s1)\<rparr>)"
      using sync_exact sq Inr by blast
    then show ?thesis
      by (intro evolves_append [where f = "\<lambda>c. orphan env p ?e (keep_of q)
              (redeclare env p ?e (accepted_rows env p ?e rows (store_db i)) c)"])
        (auto simp: Let_def upserted_db_def life_redeclare dest!: declared_born)
  qed
  then show ?thesis by (simp add: sync_def sq)
qed

lemma update_evolves:
  assumes "checks_ok (store_db i)"
  shows "evolves Person (store_db i) (store_db (snd (update env c r i)))"
proof -
  obtain res i' where u: "update env c r i = (res, i')" by fastforce
  from u have "evolves Person (store_db i) (store_db i')"
  proof (cases rule: update_cases)
    case (updated x due)
    have x: "x \<in> set (checks (store_db i))" "c_id x = c"
      using updated(1) assms by (simp_all add: check_by_id_iff)
    show ?thesis
    proof (rule evolves_update)
      fix y assume "y \<in> set (checks (store_db i))" "c_id y = c"
      then have "y = x" using same_check [OF assms] x by blast
      then show "c_id (apply_update env x r due y) = c_id y
          \<and> (lifecycle Person)\<^sup>*\<^sup>* (life_of y) (life_of (apply_update env x r due y))"
        using life_apply_update [OF updated(2)] by (simp add: apply_update_identity [THEN keeps_identityD])
    qed (use updated(4) in simp_all)
  qed (simp add: evolves_same)
  then show ?thesis by (simp add: u)
qed

lemma rotate_evolves: "evolves Person (store_db i) (store_db (snd (rotatePingKey env c i)))"
proof -
  have "evolves Person (store_db i) (snd (replacePingKey env c (store_db i)))"
    by (rule evolves_update [where p = "\<lambda>x. c_id x = c" and
          f = "\<lambda>x. x\<lparr>pingKey := ce_newPingKey env, pingKeyRotatedAt := Some (ce_now env)\<rparr>"])
      (auto simp: replacePingKey_def life_of_def)
  then show ?thesis using rotate_db [of env c i] by (auto intro: evolves_same)
qed

lemma remove_evolves: "evolves Person (store_db i) (store_db (snd (remove_check c i)))"
  by (rule evolves_subset) (auto simp: remove_check_def delete_check_def split: option.splits prod.splits)

text \<open>What holds of the state at hand and of every state the handler may end in holds after it.\<close>

lemma guarded_rel: "R st \<Longrightarrow> (\<And>x. r = Inr x \<Longrightarrow> R (snd (k x))) \<Longrightarrow> R (snd (guarded r k st))"
  by (simp add: guarded_def split: sum.splits)

lemma project_rows_evolve:
  "evolves Person s (snd (create_project env u r s))"
  "evolves Person s (snd (update_project txt p ur s))"
  "evolves Person s (snd (remove_project u p s))"
proof -
  show "evolves Person s (snd (create_project env u r s))"
    by (rule evolves_same) (auto simp: create_project_def createOwnedBy_def Let_def split: sum.splits)
  show "evolves Person s (snd (update_project txt p ur s))"
    by (rule evolves_same) (auto simp: update_project_def update_row_def Let_def split: sum.splits option.splits)
  show "evolves Person s (snd (remove_project u p s))"
    by (rule evolves_subset) (auto simp: remove_project_def deleted_rows split: sum.splits)
qed

text \<open>A request leaves the database as it was or as one operation left it.\<close>

lemma serve_keeps:
  assumes R: "R (ap_db st)"
    and ops: "\<And>p r. R (store_db (snd (create (ae_checks env) p r (ap_ingest st))))"
    "\<And>p q. R (store_db (snd (sync (ae_sync env) p q (ap_ingest st))))"
    "\<And>c r. R (store_db (snd (update (ae_checks env) c r (ap_ingest st))))"
    "\<And>c. R (store_db (snd (rotatePingKey (ae_checks env) c (ap_ingest st))))"
    "\<And>c. R (store_db (snd (remove_check c (ap_ingest st))))"
    "\<And>u r. R (snd (create_project (ae_checks env) u r (ap_db st)))"
    "\<And>p r. R (snd (update_project (ae_text env) p r (ap_db st)))"
    "\<And>u p. R (snd (remove_project u p (ap_db st)))"
  shows "R (ap_db (snd (serve env pr rq st)))"
proof -
  note rel = guarded_rel [where R = "\<lambda>st'. R (ap_db st')", OF R]
  show ?thesis
  proof (cases rq)
    case (CreateCheck p r)
    show ?thesis
      unfolding CreateCheck serve.simps route_check_create_def
      by (intro rel) (simp add: case_prod_unfold Let_def ops)
  next
    case (SyncChecks p r)
    show ?thesis
      unfolding SyncChecks serve.simps route_checks_sync_def
      by (intro rel) (simp add: case_prod_unfold Let_def ops)
  next
    case (UpdateCheck c r)
    show ?thesis
      unfolding UpdateCheck serve.simps route_check_update_def
      by (intro rel) (simp add: case_prod_unfold Let_def ops)
  next
    case (RotatePingKey c)
    show ?thesis
      unfolding RotatePingKey serve.simps route_check_rotate_def
      by (intro rel) (simp add: case_prod_unfold Let_def ops)
  next
    case (DeleteCheck c)
    show ?thesis
      unfolding DeleteCheck serve.simps route_check_delete_def
      by (intro rel) (simp add: case_prod_unfold Let_def ops)
  next
    case (CreateProject r)
    show ?thesis
      unfolding CreateProject serve.simps route_project_create_def
      by (intro rel) (simp add: case_prod_unfold Let_def ops)
  next
    case (UpdateProject p nm ret)
    show ?thesis
      unfolding UpdateProject serve.simps route_project_update_def
      by (intro rel) (simp add: case_prod_unfold Let_def ops)
  next
    case (DeleteProject p)
    show ?thesis
      unfolding DeleteProject serve.simps route_project_delete_def
      by (intro rel) (simp add: case_prod_unfold with_db_def R ops split: sum.splits)
  next
    case (CreateKey p nm d)
    show ?thesis
      unfolding CreateKey serve.simps route_key_create_def
      by (auto simp: case_prod_unfold Let_def R intro!: rel)
  next
    case (RevokeKey p k)
    show ?thesis
      unfolding RevokeKey serve.simps route_key_revoke_def
      by (auto simp: case_prod_unfold Let_def R intro!: rel)
  qed (simp_all add: reading_routes R)
qed

lemma serve_evolves:
  assumes "checks_ok (ap_db st)"
  shows "evolves Person (ap_db st) (ap_db (snd (serve env pr rq st)))"
  by (rule serve_keeps)
    (simp_all add: create_evolves sync_evolves update_evolves [OF assms] rotate_evolves remove_evolves
      project_rows_evolve evolves_same)

section \<open>The plan\<close>

lemma pause_evolves:
  assumes "distinct (map c_id (checks s))"
  shows "evolves Plan s (snd (pauseExcess u n s))"
proof (rule evolves_map [OF pauseExcess_checks [OF assms]])
  fix c assume "c \<in> set (checks s)"
  have "pausedReason c = None" if "c \<in> set (newest u n s)"
    using that by (auto simp: newest_def dest: in_set_takeD)
  then have "lifecycle Plan (life_of c) \<lparr>mode = PAUSED, armed = False, held = True\<rparr>" if "c \<in> set (newest u n s)"
    using that by (intro taken) (simp add: life_of_def)
  then show "c_id (if c \<in> set (newest u n s)
          then c\<lparr>state := PAUSED, pausedReason := Some ''quota'', nextDueAt := None\<rparr> else c) = c_id c
      \<and> (lifecycle Plan)\<^sup>*\<^sup>* (life_of c) (life_of (if c \<in> set (newest u n s)
          then c\<lparr>state := PAUSED, pausedReason := Some ''quota'', nextDueAt := None\<rparr> else c))"
    by (auto simp: life_of_def)
qed (simp add: pauseExcess_def Let_def)

lemma resume_evolves:
  assumes "distinct (map c_id (checks s))"
  shows "evolves Plan s (snd (resume u room s))"
proof (cases "0 < room")
  case True
  let ?m = "\<lambda>c. c \<in> set (oldest_paused u (nat room) s)"
  show ?thesis
  proof (rule evolves_map [OF resume_checks [OF assms True]])
    fix c assume "c \<in> set (checks s)"
    have "quota_paused c" if "?m c" using that by (auto simp: oldest_paused_def dest: in_set_takeD)
    then have "lifecycle Plan (life_of c) ((life_of c)\<lparr>mode := NEW, held := False\<rparr>)" if "?m c"
      using that by (intro revived) (simp add: life_of_def quota_paused_def)
    then show "c_id (if ?m c then c\<lparr>state := NEW, pausedReason := None\<rparr> else c) = c_id c
        \<and> (lifecycle Plan)\<^sup>*\<^sup>* (life_of c) (life_of (if ?m c then c\<lparr>state := NEW, pausedReason := None\<rparr> else c))"
      by (auto simp: life_of_def)
  qed (simp add: resume_def Let_def)
qed (simp add: resume_def evolves_same)

lemma enforcer_ids:
  "map c_id (checks (snd (pauseExcess u n s))) = map c_id (checks s)"
  "map c_id (checks (snd (resume u room s))) = map c_id (checks s)"
  "map pingKey (checks (snd (pauseExcess u n s))) = map pingKey (checks s)"
  "map pingKey (checks (snd (resume u room s))) = map pingKey (checks s)"
  by (simp_all add: pauseExcess_def resume_def Let_def map_update_where)

lemma reconcile_owner_evolves:
  assumes "distinct (map c_id (checks (rc_db r)))"
  shows "evolves Plan (rc_db r) (rc_db (reconcile_owner cfg ow r))"
    and "map c_id (checks (rc_db (reconcile_owner cfg ow r))) = map c_id (checks (rc_db r))"
  using pause_evolves [OF assms] resume_evolves [OF assms]
  by (auto simp: reconcile_owner_db enforcer_ids evolves_same split: option.splits)

lemma reconcile_evolves:
  assumes "distinct (map c_id (checks s))"
  shows "evolves Plan s (rc_db (reconcile cfg s))"
proof -
  have "evolves Plan (rc_db r) (rc_db (fold (reconcile_owner cfg) ows r))"
    if "distinct (map c_id (checks (rc_db r)))" for ows r
    using that
  proof (induction ows arbitrary: r)
    case (Cons ow ows)
    then show ?case
      using evolves_trans [OF reconcile_owner_evolves(1) [OF Cons.prems, of cfg ow], where t = "rc_db (fold (reconcile_owner cfg) ows (reconcile_owner cfg ow r))"]
        Cons.IH [of "reconcile_owner cfg ow r"] Cons.prems
      by (simp add: reconcile_owner_evolves(2))
  qed (simp add: evolves_same)
  from this [of "\<lparr>rc_paused = 0, rc_resumed = 0, rc_accounts = 0, rc_db = s\<rparr>"] assms
  show ?thesis by (simp add: reconcile_def evolves_same)
qed

section \<open>Every step of the server\<close>

text \<open>The ping keys drawn for a request are ones no check has.\<close>

definition fresh_keys :: "sync_env \<Rightarrow> db \<Rightarrow> bool" where
  "fresh_keys env s \<longleftrightarrow> inj (se_pingKey env) \<and> (\<forall>i. se_pingKey env i \<notin> pingKey ` set (checks s))"

fun fresh_event :: "server_event \<Rightarrow> server \<Rightarrow> bool" where
  "fresh_event (Ask env pr rq) y \<longleftrightarrow> fresh_key (ae_checks env) (srv_db y) \<and> fresh_keys (ae_sync env) (srv_db y)"
| "fresh_event _ y \<longleftrightarrow> True"

fun fresh_run :: "server_event list \<Rightarrow> server \<Rightarrow> bool" where
  "fresh_run [] y \<longleftrightarrow> True"
| "fresh_run (e # es) y \<longleftrightarrow> fresh_event e y \<and> fresh_run es (server_step e y)"

lemma fresh_run_snoc:
  "fresh_run (es @ [e]) y \<longleftrightarrow> fresh_run es y \<and> fresh_event e (fold server_step es y)"
  by (induction es arbitrary: y) auto

lemma declared_ids:
  "map c_id (declared_from env p e rows n) = [n..<n + length rows]"
  "map pingKey (declared_from env p e rows n) = map (se_pingKey env) [n..<n + length rows]"
  by (induction rows arbitrary: n)
    (simp_all add: declared_from_Cons declared_from_def [of _ _ _ "[]"] declared_check_def upt_conv_Cons del: upt_Suc)

lemma store_inv_sync:
  assumes inv: "store_inv (store_db i)" and fresh: "fresh_keys env (store_db i)"
  shows "store_inv (store_db (snd (sync env p q i)))"
proof -
  obtain res s' where sq: "syncWithinQuota env p q (store_db i) = (res, s')" by fastforce
  have "store_inv s'"
  proof (cases res)
    case (Inl x)
    then show ?thesis using sq inv by (auto simp: syncWithinQuota_def Let_def split: sum.splits prod.splits)
  next
    case (Inr out)
    let ?e = "sr_environment q" and ?s = "store_db i"
    obtain rows where s': "s' = (let s1 = upserted_db env p ?e (accepted_rows env p ?e rows ?s) ?s
        in s1\<lparr>checks := map (orphan env p ?e (keep_of q)) (checks s1)\<rparr>)"
      using sync_exact sq Inr by blast
    define new where "new = missing p ?e (accepted_rows env p ?e rows ?s) ?s"
    have o: "c_id (orphan env p ?e k c) = c_id c" "pingKey (orphan env p ?e k c) = pingKey c" for k c
      by (simp_all add: orphan_def split: option.splits)
    have r: "c_id (redeclare env p ?e a c) = c_id c" "pingKey (redeclare env p ?e a c) = pingKey c" for a c
      by (simp_all add: redeclare_def redeclared_def split: option.splits)
    have ids: "map c_id (checks s') = map c_id (checks ?s) @ [next_id ?s..<next_id ?s + length new]"
      and keys: "map pingKey (checks s') = map pingKey (checks ?s)
          @ map (se_pingKey env) [next_id ?s..<next_id ?s + length new]"
      and rest: "next_id s' = next_id ?s + length new" "incidents s' = incidents ?s" "deliveries s' = deliveries ?s"
      using declared_ids [of env p ?e new "next_id ?s"]
      by (simp_all add: s' Let_def upserted_db_def o r comp_def flip: new_def)
    have "distinct (map c_id (checks s'))"
      unfolding ids using inv by (auto simp: store_inv_defs)
    moreover have "distinct (map pingKey (checks s'))"
    proof -
      have "distinct (map pingKey (checks ?s))" using inv by (simp add: store_inv_defs)
      moreover have "distinct (map (se_pingKey env) [next_id ?s..<next_id ?s + length new])"
        by (rule distinct_map [THEN iffD2])
          (metis distinct_upt fresh fresh_keys_def inj_on_subset subset_UNIV)
      moreover have "set (map pingKey (checks ?s)) \<inter> set (map (se_pingKey env) [next_id ?s..<next_id ?s + length new]) = {}"
      proof -
        have "k \<notin> set (map pingKey (checks ?s))" if "k \<in> range (se_pingKey env)" for k
          using that fresh by (metis fresh_keys_def image_iff list.set_map)
        then show ?thesis by auto
      qed
      ultimately show ?thesis unfolding keys by (simp only: distinct_append simp_thms)
    qed
    moreover have "\<forall>n \<in> set (map c_id (checks s')). n < next_id s'"
      unfolding ids rest using inv by (auto simp: store_inv_defs)
    ultimately show ?thesis
      using inv rest by (auto simp: store_inv_def checks_ok_def incidents_ok_def deliveries_ok_def)
  qed
  then show ?thesis by (simp add: sync_def sq)
qed

lemma store_inv_projects:
  assumes "store_inv s"
  shows "store_inv (snd (create_project env u r s))" "store_inv (snd (update_project txt p ur s))"
    "store_inv (snd (remove_project u p s))"
proof -
  show "store_inv (snd (create_project env u r s))"
    using assms by (auto simp: create_project_def createOwnedBy_def Let_def store_inv_defs less_Suc_eq split: sum.splits)
  show "store_inv (snd (update_project txt p ur s))"
    using assms
    by (auto simp: update_project_def update_row_def Let_def store_inv_defs split: sum.splits option.splits)
  show "store_inv (snd (remove_project u p s))"
    using assms delete_project_store by (auto simp: remove_project_def split: sum.splits)
qed

lemma serve_store:
  assumes inv: "store_inv (ap_db st)"
    and fresh: "fresh_key (ae_checks env) (ap_db st)" "fresh_keys (ae_sync env) (ap_db st)"
  shows "store_inv (ap_db (snd (serve env pr rq st)))"
  by (rule serve_keeps)
    (use store_inv_create [OF inv fresh(1)] store_inv_sync [OF inv fresh(2)] store_inv_update [OF inv]
      store_inv_rotate [OF inv fresh(1)] store_inv_remove [OF inv] store_inv_projects [OF inv] inv in blast)+

lemma store_inv_reconcile:
  assumes "store_inv s"
  shows "store_inv (rc_db (reconcile cfg s))"
proof -
  have "store_inv (rc_db (fold (reconcile_owner cfg) ows r))" if "store_inv (rc_db r)" for ows r
    using that
  proof (induction ows arbitrary: r)
    case (Cons ow ows)
    have "store_inv (snd (pauseExcess u n (rc_db r)))" "store_inv (snd (resume u room (rc_db r)))" for u n room
      using Cons.prems by (simp_all add: pauseExcess_def resume_def Let_def store_inv_update_checks keeps_identity_def)
    then have "store_inv (rc_db (reconcile_owner cfg ow r))"
      using Cons.prems by (simp add: reconcile_owner_db split: option.splits)
    then show ?case using Cons.IH by simp
  qed simp
  then show ?thesis using assms by (simp add: reconcile_def)
qed

lemma server_step_store:
  assumes "store_inv (srv_db y)" "fresh_event e y"
  shows "store_inv (srv_db (server_step e y))"
proof (cases e)
  case (Watch m)
  then show ?thesis using assms monitor_step_store by simp
next
  case (Ask env pr rq)
  then show ?thesis using assms serve_store [of "api_view y" env pr rq] by (simp only: srv_db_Ask ap_db_view fresh_event.simps)
next
  case (Enforce cfg)
  then show ?thesis using assms store_inv_reconcile by simp
qed

lemma server_step_evolves:
  assumes "store_inv (srv_db y)"
  shows "evolves (actor_of e) (srv_db y) (srv_db (server_step e y))"
proof (cases e)
  case (Watch m)
  show ?thesis
  proof (cases m)
    case (Heartbeat env req)
    then show ?thesis
      using written_evolves [OF _ handle_step_written [of env "monitor_of y" req]] assms Watch
      by (simp add: store_inv_def del: monitor_step.simps)
  next
    case (Tick env)
    then show ?thesis using tick_evolves assms Watch by simp
  next
    case (Pass cfg now lk send)
    then show ?thesis using Watch by (simp add: evolves_same drain_frame)
  qed
next
  case (Ask env pr rq)
  then show ?thesis
    using serve_evolves [of "api_view y" env pr rq] assms
    by (simp only: srv_db_Ask ap_db_view actor_of.simps store_inv_def)
next
  case (Enforce cfg)
  then show ?thesis
    using reconcile_evolves assms by (simp add: store_inv_def checks_ok_def)
qed

text \<open>
  C3. The server implements the life cycle. Whatever step it takes, every check that is
  still there has moved along the relation of the actor behind that step alone: a heartbeat
  reports UP or DOWN and never wakes a paused check, the clock takes an armed check to LATE or
  DOWN, a person reschedules, pauses or restarts, and the plan takes a check or gives it back.
  A check that was not there is born NEW with a deadline, on a person's request; nobody else
  adds or removes one.
\<close>

theorem server_refines_lifecycle:
  assumes "store_inv (srv_db y)"
  shows "(\<forall>d \<in> set (checks (srv_db (server_step e y))).
      (\<exists>c \<in> set (checks (srv_db y)). c_id c = c_id d \<and> (lifecycle (actor_of e))\<^sup>*\<^sup>* (life_of c) (life_of d))
      \<or> actor_of e = Person \<and> next_id (srv_db y) \<le> c_id d \<and> life_of d = born)
    \<and> (actor_of e \<noteq> Person \<longrightarrow>
        c_id ` set (checks (srv_db (server_step e y))) = c_id ` set (checks (srv_db y)))"
  using server_step_evolves [OF assms, of e] unfolding evolves_def by blast

section \<open>Whole histories\<close>

definition path :: "actor set \<Rightarrow> life \<Rightarrow> life \<Rightarrow> bool" where
  "path A = (\<lambda>l l'. \<exists>a \<in> A. lifecycle a l l')\<^sup>*\<^sup>*"

lemma path_refl [simp]: "path A l l"
  by (simp add: path_def)

lemma path_trans: "path A l m \<Longrightarrow> path A m n \<Longrightarrow> path A l n"
  unfolding path_def by (rule rtranclp_trans)

lemma path_mono: "path A l m \<Longrightarrow> A \<subseteq> B \<Longrightarrow> path B l m"
  unfolding path_def by (erule rtranclp_mono [THEN predicate2D, rotated]) blast

lemma path_single: "(lifecycle a)\<^sup>*\<^sup>* l m \<Longrightarrow> a \<in> A \<Longrightarrow> path A l m"
  unfolding path_def by (erule rtranclp_mono [THEN predicate2D, rotated]) blast

text \<open>A set of lives that no actor of a set leaves is closed under their paths.\<close>

lemma path_invariant:
  assumes "path A l m" "I l" "\<And>a x y. a \<in> A \<Longrightarrow> lifecycle a x y \<Longrightarrow> I x \<Longrightarrow> I y"
  shows "I m"
  using assms(1) unfolding path_def
  by (induction rule: rtranclp_induct) (use assms(2,3) in blast)+

definition lived :: "actor set \<Rightarrow> db \<Rightarrow> check \<Rightarrow> bool" where
  "lived A s d \<longleftrightarrow>
     (\<exists>c \<in> set (checks s). c_id c = c_id d \<and> path A (life_of c) (life_of d))
     \<or> Person \<in> A \<and> next_id s \<le> c_id d \<and> path A born (life_of d)"

lemma lived_step:
  assumes "evolves a s s'" "\<And>c. c \<in> set (checks s) \<Longrightarrow> lived A r c" "next_id r \<le> next_id s"
    and "d \<in> set (checks s')" "a \<in> A"
  shows "lived A r d"
proof -
  consider c where "c \<in> set (checks s)" "c_id c = c_id d" "(lifecycle a)\<^sup>*\<^sup>* (life_of c) (life_of d)"
    | "a = Person" "next_id s \<le> c_id d" "life_of d = born"
    using assms(1,4) unfolding evolves_def by blast
  then show ?thesis
  proof cases
    case 1
    then show ?thesis
      using assms(2) [OF 1(1)] path_single [OF 1(3) assms(5)] path_trans unfolding lived_def by metis
  next
    case 2
    then show ?thesis using assms(3,5) by (auto simp: lived_def)
  qed
qed

lemma lived_mono: "lived A s d \<Longrightarrow> A \<subseteq> B \<Longrightarrow> lived B s d"
  unfolding lived_def by (meson path_mono subsetD)

lemma run_lives:
  assumes "store_inv (srv_db y)" "fresh_run es y"
  shows "store_inv (srv_db (fold server_step es y))
    \<and> next_id (srv_db y) \<le> next_id (srv_db (fold server_step es y))
    \<and> (\<forall>d \<in> set (checks (srv_db (fold server_step es y))). lived (actor_of ` set es) (srv_db y) d)"
  using assms(2)
proof (induction es rule: rev_induct)
  case Nil
  then show ?case using assms(1) by (auto simp: lived_def)
next
  case (snoc e es)
  let ?z = "fold server_step es y"
  have fresh: "fresh_run es y" "fresh_event e ?z" using snoc.prems by (simp_all add: fresh_run_snoc)
  note IH = snoc.IH [OF fresh(1)]
  have ev: "evolves (actor_of e) (srv_db ?z) (srv_db (server_step e ?z))"
    using IH by (intro server_step_evolves) blast
  have sub: "actor_of ` set es \<subseteq> actor_of ` set (es @ [e])" "actor_of e \<in> actor_of ` set (es @ [e])" by auto
  have "lived (actor_of ` set (es @ [e])) (srv_db y) d" if "d \<in> set (checks (srv_db (server_step e ?z)))" for d
    by (rule lived_step [OF ev _ _ that sub(2)]) (use IH lived_mono [OF _ sub(1)] in blast)+
  moreover have "store_inv (srv_db (server_step e ?z))" using IH fresh(2) by (intro server_step_store) blast+
  moreover have "next_id (srv_db y) \<le> next_id (srv_db (server_step e ?z))"
    using IH ev unfolding evolves_def by (meson le_trans)
  ultimately show ?case by (simp del: server_step.simps)
qed


text \<open>
  C5. Only a heartbeat brings a check up: over a history without one, whatever the clock,
  the deliveries, people and the quota do, a check that is UP in the end was UP before.
\<close>

theorem only_a_heartbeat_brings_up:
  assumes "store_inv (srv_db y)" and "fresh_run es y" and "Job \<notin> actor_of ` set es"
    and "d \<in> set (checks (srv_db (fold server_step es y)))" and "state d = UP"
  shows "\<exists>c \<in> set (checks (srv_db y)). c_id c = c_id d \<and> state c = UP"
proof -
  let ?A = "actor_of ` set es"
  have stay: "mode m \<noteq> UP" if "path ?A l m" "mode l \<noteq> UP" for l m
    using that
  proof (rule path_invariant)
    fix a x z assume "a \<in> ?A" "lifecycle a x z" "mode x \<noteq> UP"
    then show "mode z \<noteq> UP" using assms(3) by (cases a) (auto elim: lifecycle.cases)
  qed
  have "lived ?A (srv_db y) d" using run_lives [OF assms(1,2)] assms(4) by blast
  then show ?thesis
    unfolding lived_def using stay [of "life_of _" "life_of d"] stay [of born "life_of d"] assms(5)
    by (auto simp: life_of_def born_def)
qed

lemma run_survivors:
  assumes "store_inv (srv_db y)" "fresh_run es y" "Person \<notin> actor_of ` set es"
  shows "c_id ` set (checks (srv_db (fold server_step es y))) = c_id ` set (checks (srv_db y))"
  using assms(2,3)
proof (induction es rule: rev_induct)
  case (snoc e es)
  then have "evolves (actor_of e) (srv_db (fold server_step es y)) (srv_db (fold server_step (es @ [e]) y))"
    using run_lives [OF assms(1)] server_step_evolves by (auto simp: fresh_run_snoc)
  then show ?case using snoc by (auto simp: evolves_def fresh_run_snoc)
qed simp

text \<open>
  A paused check is left alone: while nobody uses the API and the quotas are not
  reconciled, no heartbeat, tick or delivery pass starts it, arms it or removes it.
\<close>

theorem pause_lasts:
  assumes "store_inv (srv_db y)" and "fresh_run es y" and "actor_of ` set es \<subseteq> {Job, Clock}"
    and "c \<in> set (checks (srv_db y))" and "state c = PAUSED"
  shows "\<exists>d \<in> set (checks (srv_db (fold server_step es y))).
    c_id d = c_id c \<and> state d = PAUSED \<and> nextDueAt d \<noteq> None = (nextDueAt c \<noteq> None)"
proof -
  let ?A = "actor_of ` set es"
  have "Person \<notin> ?A" using assms(3) by auto
  then obtain d where d: "d \<in> set (checks (srv_db (fold server_step es y)))" "c_id d = c_id c"
    using run_survivors [OF assms(1,2)] assms(4) by (metis imageE imageI)
  then have "lived ?A (srv_db y) d" using run_lives [OF assms(1,2)] by blast
  then obtain x where "x \<in> set (checks (srv_db y))" "c_id x = c_id d" "path ?A (life_of x) (life_of d)"
    using \<open>Person \<notin> ?A\<close> by (auto simp: lived_def)
  moreover from this have "x = c" using same_check assms(1,4) d(2) by (auto simp: store_inv_def)
  ultimately have p: "path ?A (life_of c) (life_of d)" by simp
  have "life_of d = life_of c"
    using p
  proof (rule path_invariant)
    fix a l m assume "a \<in> ?A" "lifecycle a l m" "l = life_of c"
    then show "m = life_of c"
      using assms(3,5) by (cases a) (auto elim!: lifecycle_JobE lifecycle_ClockE simp: life_of_def)
  qed simp
  then show ?thesis using d assms(5) by (auto simp: life_of_def intro!: bexI [of _ d])
qed

section \<open>A history that satisfies the hypotheses\<close>

definition sample_server :: server where
  "sample_server = \<lparr>monitor_of = sample_monitor, keys_of = no_keys\<rparr>"

lemma sample_server_db [simp]: "srv_db sample_server = sample_alerting"
  by (simp add: sample_server_def sample_monitor_def sample_detector_def)

theorem server_refines_lifecycle_witness:
  "c_id ` set (checks (srv_db (server_step (Watch (Tick sample_tick)) sample_server))) = {1}"
proof -
  have "store_inv (srv_db sample_server)" by simp
  from server_refines_lifecycle [OF this, of "Watch (Tick sample_tick)"]
  show ?thesis by (simp add: sample_alerting_def del: server_step.simps)
qed


definition quiet_pass :: server_event where
  "quiet_pass = Watch (Pass \<lparr>batchSize = 50, maxAttempts = 5, ceiling = 0\<rparr> 0 (\<lambda>_. False) (\<lambda>_. Inr ()))"

definition server_with :: "check_state \<Rightarrow> server" where
  "server_with st = with_store sample_server (empty_db\<lparr>checks := [sample_check st], next_id := 2\<rparr>)"

lemma server_with_ok: "store_inv (srv_db (server_with st))" "fresh_run [quiet_pass, quiet_pass] y"
  by (simp_all add: server_with_def store_inv_defs empty_db_def sample_check_def quiet_pass_def)

lemma server_with_checks: "checks (srv_db (fold server_step [quiet_pass, quiet_pass] (server_with st))) = [sample_check st]"
  by (simp add: server_with_def quiet_pass_def drain_frame empty_db_def)

theorem only_a_heartbeat_brings_up_witness:
  "\<exists>c \<in> set (checks (srv_db (server_with UP))). c_id c = 1 \<and> state c = UP"
proof -
  have "sample_check UP \<in> set (checks (srv_db (fold server_step [quiet_pass, quiet_pass] (server_with UP))))"
    unfolding server_with_checks by simp
  moreover have "Job \<notin> actor_of ` set [quiet_pass, quiet_pass]" by (simp add: quiet_pass_def)
  ultimately show ?thesis
    using only_a_heartbeat_brings_up [OF server_with_ok] by (fastforce simp: sample_check_def)
qed

theorem pause_lasts_witness:
  "\<exists>d \<in> set (checks (srv_db (fold server_step [quiet_pass, quiet_pass] (server_with PAUSED)))).
     c_id d = 1 \<and> state d = PAUSED"
proof -
  have "actor_of ` set [quiet_pass, quiet_pass] \<subseteq> {Job, Clock}" by (simp add: quiet_pass_def)
  moreover have "sample_check PAUSED \<in> set (checks (srv_db (server_with PAUSED)))"
    by (simp add: server_with_def)
  ultimately show ?thesis
    using pause_lasts [OF server_with_ok] by (fastforce simp: sample_check_def)
qed

end
