(* ===== verification/Vault.thy ===== *)
theory Vault
  imports Crypto Notifications "HOL-Library.Countable"
begin

text \<open>
  The configurations of channels at rest:
  \<^verbatim>\<open>packages/server/src/notifications/channel-config.vault.ts\<close> seals and opens them,
  \<^verbatim>\<open>channel-config.resealer.ts\<close> brings every row under the current key, and
  \<^verbatim>\<open>channels/channel-config.backfill.ts\<close> runs it at start. HKDF, SHA-256, AES-256-GCM, UTF-8 and
  the JSON printer and parser are parameters with their documented laws; base64url is written
  out. The nonce of a seal is an argument.
\<close>

section \<open>Decoding base64url\<close>

text \<open>
  \<open>Buffer.from(s, 'base64url')\<close> reads both alphabets, skips what belongs to neither, stops at
  padding, and drops the bits that do not fill a byte.
\<close>

definition base64_value :: "char \<Rightarrow> nat option" where
  "base64_value c =
     (if is_upper c then Some (code c - 65) else if is_lower c then Some (code c - 71)
      else if is_digit c then Some (code c + 4)
      else if c = CHR ''-'' \<or> c = CHR ''+'' then Some 62
      else if c = CHR ''_'' \<or> c = CHR ''/'' then Some 63 else None)"

fun sextet_bytes :: "nat list \<Rightarrow> byte list" where
  "sextet_bytes (a # b # c # d # ns) =
     word_of_nat (a * 4 + b div 16) # word_of_nat (b mod 16 * 16 + c div 4)
       # word_of_nat (c mod 4 * 64 + d) # sextet_bytes ns"
| "sextet_bytes [a, b, c] = [word_of_nat (a * 4 + b div 16), word_of_nat (b mod 16 * 16 + c div 4)]"
| "sextet_bytes [a, b] = [word_of_nat (a * 4 + b div 16)]"
| "sextet_bytes _ = []"

definition from_base64url :: "string \<Rightarrow> byte list" where
  "from_base64url s = sextet_bytes (List.map_filter base64_value (takeWhile (\<lambda>c. c \<noteq> CHR ''='') s))"

lemma alphabet_values: "i < 64 \<Longrightarrow> base64_value (base64url_alphabet ! i) = Some i \<and> base64url_alphabet ! i \<noteq> CHR ''=''"
proof -
  assume i: "i < 64"
  have l: "length base64url_alphabet = 64" by (simp add: base64url_alphabet_def)
  have "map base64_value base64url_alphabet = map Some [0..<64]"
    by (simp add: base64url_alphabet_def base64_value_def is_upper_def is_lower_def is_digit_def upt_rec)
  then have "base64_value (base64url_alphabet ! i) = Some i"
    using i l by (metis add_0 diff_zero length_upt nth_map nth_upt)
  moreover have "CHR ''='' \<notin> set base64url_alphabet" by (simp add: base64url_alphabet_def)
  ultimately show ?thesis using i l by (metis nth_mem)
qed

definition values_of :: "string \<Rightarrow> nat list" where
  "values_of s = List.map_filter base64_value (takeWhile (\<lambda>c. c \<noteq> CHR ''='') s)"

lemma values_of_simps [simp]:
  "values_of [] = []"
  "i < 64 \<Longrightarrow> values_of (base64url_alphabet ! i # s) = i # values_of s"
  using alphabet_values [of i] by (simp_all add: values_of_def map_filter_simps)

lemma join_bits:
  "r < 16 \<Longrightarrow> ((m :: nat) * 16 + r) div 16 = m" "r < 16 \<Longrightarrow> ((m :: nat) * 16 + r) mod 16 = r"
  "r < 4 \<Longrightarrow> ((m :: nat) * 4 + r) div 4 = m" "r < 4 \<Longrightarrow> ((m :: nat) * 4 + r) mod 4 = r"
  by simp_all

text \<open>Decoding gives back what was encoded.\<close>

lemma from_base64url_inverse [simp]: "from_base64url (base64url bs) = bs"
proof -
  have b: "unat (x :: byte) div 4 < 64" "unat (x :: byte) div 16 < 16" "unat (x :: byte) div 64 < 4" for x
    using unat_byte [of x] by auto
  have n: "unat (x :: byte) mod 4 * 16 + unat (y :: byte) div 16 < 64"
    "unat (x :: byte) mod 16 * 4 + unat (y :: byte) div 64 < 64" "unat x mod 4 * 16 < 64" "unat x mod 16 * 4 < 64" for x y
  proof -
    have "unat x mod 4 \<le> 3" "unat x mod 16 \<le> 15" by simp_all
    then show "unat x mod 4 * 16 + unat y div 16 < 64" "unat x mod 16 * 4 + unat y div 64 < 64"
      "unat x mod 4 * 16 < 64" "unat x mod 16 * 4 < 64"
      using b(2,3) [of y] by linarith+
  qed
  have "sextet_bytes (values_of (base64url bs)) = bs"
  proof (induction bs rule: base64url.induct)
    case (1 a b c bs)
    then show ?case using b n by (simp add: join_bits)
  qed (use b n in \<open>simp_all add: join_bits\<close>)
  then show ?thesis by (simp add: from_base64url_def values_of_def)
qed

section \<open>The vault\<close>

text \<open>A cipher answers the ciphertext and its tag; deciphering fails where the tag does not fit.\<close>

record crypto =
  cr_hkdf :: "string \<Rightarrow> string \<Rightarrow> string \<Rightarrow> nat \<Rightarrow> byte list"
  cr_sha256Hex :: "byte list \<Rightarrow> string"
  cr_encrypt :: "byte list \<Rightarrow> byte list \<Rightarrow> string \<Rightarrow> byte list \<Rightarrow> byte list \<times> byte list"
  cr_decrypt :: "byte list \<Rightarrow> byte list \<Rightarrow> string \<Rightarrow> byte list \<Rightarrow> byte list \<Rightarrow> byte list option"
  cr_utf8 :: "string \<Rightarrow> byte list"
  cr_text :: "byte list \<Rightarrow> string"
  cr_stringify :: "json \<Rightarrow> string"
  cr_parse :: "string \<Rightarrow> json option"

definition deriveKey :: "crypto \<Rightarrow> string \<Rightarrow> string \<Rightarrow> byte list" where
  "deriveKey cr secret purpose = cr_hkdf cr secret ''silencewatch'' purpose 32"

record vault =
  vt_key :: "byte list"
  vt_keyId :: string

definition VERSION :: string where "VERSION = ''v1''"

definition vault_of :: "crypto \<Rightarrow> string \<Rightarrow> vault" where
  "vault_of cr secret =
     (let k = deriveKey cr secret ''channel-config'' in \<lparr>vt_key = k, vt_keyId = take 8 (cr_sha256Hex cr k)\<rparr>)"

text \<open>The reasons a configuration cannot be opened.\<close>

datatype config_error = UnknownFormat | AnotherKey | Damaged

definition isSealed :: "json \<Rightarrow> bool" where
  "isSealed stored \<longleftrightarrow> (case field ''sealed'' stored of Some (JStr _) \<Rightarrow> True | _ \<Rightarrow> False)"

definition seal :: "crypto \<Rightarrow> vault \<Rightarrow> byte list \<Rightarrow> string \<Rightarrow> json \<Rightarrow> json" where
  "seal cr v iv channelId cfg =
     (let (ct, tag) = cr_encrypt cr (vt_key v) iv channelId (cr_utf8 cr (cr_stringify cr cfg))
      in JObj [(''sealed'', JStr (join ''.'' [VERSION, vt_keyId v, base64url iv, base64url ct, base64url tag]))])"

text \<open>More parts than five are ignored, fewer are not a format this version reads.\<close>

fun open_parts :: "crypto \<Rightarrow> vault \<Rightarrow> string \<Rightarrow> string list \<Rightarrow> config_error + json" where
  "open_parts cr v channelId (version # keyId # iv # ct # tag # _) =
     (if version \<noteq> VERSION then Inl UnknownFormat
      else if keyId \<noteq> vt_keyId v then Inl AnotherKey
      else case cr_decrypt cr (vt_key v) (from_base64url iv) channelId (from_base64url tag) (from_base64url ct) of
             None \<Rightarrow> Inl Damaged
           | Some text \<Rightarrow>
               (case cr_parse cr (cr_text cr text) of None \<Rightarrow> Inl Damaged | Some j \<Rightarrow> Inr j))"
| "open_parts cr v channelId _ = Inl UnknownFormat"

definition open_config :: "crypto \<Rightarrow> vault \<Rightarrow> string \<Rightarrow> json \<Rightarrow> config_error + json" where
  "open_config cr v channelId stored =
     (case field ''sealed'' stored of
        Some (JStr s) \<Rightarrow> open_parts cr v channelId (split_on CHR ''.'' s)
      | _ \<Rightarrow> Inr stored)"

section \<open>What is relied on\<close>

text \<open>
  AES-GCM deciphers what it enciphered, and refuses another associated text; UTF-8 and JSON
  give back what they wrote; a digest is hexadecimal.
\<close>

definition crypto_laws :: "crypto \<Rightarrow> bool" where
  "crypto_laws cr \<longleftrightarrow>
     (\<forall>k iv aad m. cr_decrypt cr k iv aad (snd (cr_encrypt cr k iv aad m)) (fst (cr_encrypt cr k iv aad m)) = Some m)
     \<and> (\<forall>k iv aad aad' m. aad' \<noteq> aad \<longrightarrow>
          cr_decrypt cr k iv aad' (snd (cr_encrypt cr k iv aad m)) (fst (cr_encrypt cr k iv aad m)) = None)
     \<and> (\<forall>s. cr_text cr (cr_utf8 cr s) = s) \<and> (\<forall>j. cr_parse cr (cr_stringify cr j) = Some j)
     \<and> (\<forall>k. list_all is_hex_lower (cr_sha256Hex cr k))"

lemma crypto_lawsD:
  assumes "crypto_laws cr"
  shows "cr_decrypt cr k iv aad (snd (cr_encrypt cr k iv aad m)) (fst (cr_encrypt cr k iv aad m)) = Some m"
    and "aad' \<noteq> aad \<Longrightarrow> cr_decrypt cr k iv aad' (snd (cr_encrypt cr k iv aad m)) (fst (cr_encrypt cr k iv aad m)) = None"
    and "cr_text cr (cr_utf8 cr s) = s" and "cr_parse cr (cr_stringify cr j) = Some j"
    and "list_all is_hex_lower (cr_sha256Hex cr kb)"
  using assms unfolding crypto_laws_def by blast+

text \<open>No part of a sealed text holds the separator.\<close>

lemma token_no_dot: "list_all token_char s \<Longrightarrow> CHR ''.'' \<notin> set s"
  by (auto simp: list_all_iff token_char_def is_upper_def is_lower_def is_digit_def)

lemma hex_no_dot: "list_all is_hex_lower s \<Longrightarrow> CHR ''.'' \<notin> set s"
  by (auto simp: list_all_iff is_hex_lower_def is_digit_def)

definition key_id_ok :: "vault \<Rightarrow> bool" where
  "key_id_ok v \<longleftrightarrow> CHR ''.'' \<notin> set (vt_keyId v)"

lemma key_id_of: "crypto_laws cr \<Longrightarrow> key_id_ok (vault_of cr secret)"
  using hex_no_dot [OF crypto_lawsD(5)] by (auto simp: key_id_ok_def vault_of_def Let_def dest: in_set_takeD)

lemma seal_field:
  "field ''sealed'' (seal cr v iv c cfg) =
     Some (JStr (join ''.'' [VERSION, vt_keyId v, base64url iv,
       base64url (fst (cr_encrypt cr (vt_key v) iv c (cr_utf8 cr (cr_stringify cr cfg)))),
       base64url (snd (cr_encrypt cr (vt_key v) iv c (cr_utf8 cr (cr_stringify cr cfg))))]))"
  by (simp add: seal_def case_prod_unfold Let_def)

lemma open_sealed:
  assumes laws: "crypto_laws cr" and key: "key_id_ok v"
  shows "open_config cr w i (seal cr v iv c cfg) =
    (if vt_keyId v \<noteq> vt_keyId w then Inl AnotherKey
     else case cr_decrypt cr (vt_key w) iv i (snd (cr_encrypt cr (vt_key v) iv c (cr_utf8 cr (cr_stringify cr cfg))))
                (fst (cr_encrypt cr (vt_key v) iv c (cr_utf8 cr (cr_stringify cr cfg)))) of
            None \<Rightarrow> Inl Damaged
          | Some text \<Rightarrow> (case cr_parse cr (cr_text cr text) of None \<Rightarrow> Inl Damaged | Some j \<Rightarrow> Inr j))"
proof -
  have "split_on CHR ''.'' (join ''.'' [VERSION, vt_keyId v, base64url a, base64url b, base64url d])
      = [VERSION, vt_keyId v, base64url a, base64url b, base64url d]" for a b d
    using key token_no_dot [OF base64url_chars]
    by (intro split_on_join) (auto simp: VERSION_def key_id_ok_def)
  then show ?thesis
    by (simp add: open_config_def seal_field del: join.simps)
qed

lemma isSealed_seal [simp]: "isSealed (seal cr v iv c cfg)"
  by (simp add: isSealed_def seal_field del: join.simps)

lemma open_own_seal:
  "crypto_laws cr \<Longrightarrow> key_id_ok v \<Longrightarrow> open_config cr v c (seal cr v iv c cfg) = Inr cfg"
  by (simp add: open_sealed crypto_lawsD)

section \<open>Bringing every row under the current key\<close>

record reseal_counts =
  rs_sealed :: nat
  rs_resealed :: nat
  rs_unchanged :: nat
  rs_failed :: nat

datatype reseal_decision = Keep | GiveUp | Write bool json

text \<open>What is to be done with a row as it was read; \<open>Write True\<close> seals what was plain.\<close>

definition reseal_decision_of :: "crypto \<Rightarrow> vault \<Rightarrow> vault option \<Rightarrow> string \<Rightarrow> json \<Rightarrow> reseal_decision" where
  "reseal_decision_of cr v prev i stored =
     (if \<not> isSealed stored then Write True stored
      else case open_config cr v i stored of
             Inr _ \<Rightarrow> Keep
           | Inl _ \<Rightarrow>
               (case prev of
                  None \<Rightarrow> GiveUp
                | Some p \<Rightarrow> (case open_config cr p i stored of Inl _ \<Rightarrow> GiveUp | Inr j \<Rightarrow> Write False j)))"

record reseal_env =
  re_crypto :: crypto
  re_vault :: vault
  re_previous :: "vault option"
  re_iv :: "uuid \<Rightarrow> byte list"
  re_text :: "uuid \<Rightarrow> string"
  re_others :: "uuid \<Rightarrow> json \<Rightarrow> json"

text \<open>
  One row. \<open>re_others\<close> is what another instance has made of the stored configuration by the
  time of the write, which goes through only if the row is still as it was read.
\<close>

definition decision :: "reseal_env \<Rightarrow> channel \<Rightarrow> reseal_decision" where
  "decision env row = reseal_decision_of (re_crypto env) (re_vault env) (re_previous env) (re_text env (ch_id row)) (config row)"

definition reseal_one :: "reseal_env \<Rightarrow> channel \<Rightarrow> reseal_counts \<times> channel list \<Rightarrow> reseal_counts \<times> channel list" where
  "reseal_one env row st =
     (let (n, chs) = st;
          now = update_where (\<lambda>ch. ch_id ch = ch_id row) (\<lambda>ch. ch\<lparr>config := re_others env (ch_id ch) (config ch)\<rparr>) chs
      in case decision env row of
           Keep \<Rightarrow> (n\<lparr>rs_unchanged := Suc (rs_unchanged n)\<rparr>, now)
         | GiveUp \<Rightarrow> (n\<lparr>rs_failed := Suc (rs_failed n)\<rparr>, now)
         | Write plain cfg \<Rightarrow>
             let still = (\<lambda>ch. ch_id ch = ch_id row \<and> config ch = config row);
                 sealed = seal (re_crypto env) (re_vault env) (re_iv env (ch_id row)) (re_text env (ch_id row)) cfg
             in (if \<not> list_ex still now then n
                 else if plain then n\<lparr>rs_sealed := Suc (rs_sealed n)\<rparr>
                 else n\<lparr>rs_resealed := Suc (rs_resealed n)\<rparr>,
                 update_where still (\<lambda>ch. ch\<lparr>config := sealed\<rparr>) now))"

definition RESEAL_BATCH :: nat where "RESEAL_BATCH = 200"

lemma reseal_one_ids: "map ch_id (snd (reseal_one env row st)) = map ch_id (snd st)"
  by (simp add: reseal_one_def Let_def map_update_where split: prod.split reseal_decision.split)

lemma reseal_batch_ids: "map ch_id (snd (fold (reseal_one env) rows st)) = map ch_id (snd st)"
  by (induction rows arbitrary: st) (simp_all add: reseal_one_ids)

lemma filter_shorter:
  assumes "\<And>y. p y \<Longrightarrow> q y" "x \<in> set xs" "q x" "\<not> p x"
  shows "length (filter p xs) < length (filter q xs)"
proof -
  have "filter p xs = filter p (filter q xs)" using assms(1) by (metis (mono_tags, lifting) filter_cong filter_filter)
  moreover have "length (filter p (filter q xs)) < length (filter q xs)"
    by (rule length_filter_less [of x]) (use assms in auto)
  ultimately show ?thesis by simp
qed

text \<open>Batches by ascending identifier, until none is left.\<close>

function reseal_from :: "reseal_env \<Rightarrow> uuid \<Rightarrow> reseal_counts \<times> channel list \<Rightarrow> reseal_counts \<times> channel list" where
  "reseal_from env after st =
     (let rows = select_batch (\<lambda>ch. after < ch_id ch) ch_id RESEAL_BATCH (snd st)
      in if rows = [] then st
         else reseal_from env (ch_id (last rows)) (fold (reseal_one env) rows st))"
  by auto

termination
proof (relation "measure (\<lambda>(env, after, st). length (filter (\<lambda>i. after < i) (map ch_id (snd st))))")
  fix env after and st :: "reseal_counts \<times> channel list" and rows :: "channel list"
  assume rows: "rows = select_batch (\<lambda>ch. after < ch_id ch) ch_id RESEAL_BATCH (snd st)" and ne: "rows \<noteq> []"
  then have l: "last rows \<in> set (snd st)" "after < ch_id (last rows)"
    using select_batch_subset [of "\<lambda>ch. after < ch_id ch" ch_id RESEAL_BATCH "snd st"] last_in_set [OF ne] by blast+
  have "length (filter (\<lambda>i. ch_id (last rows) < i) (map ch_id (snd st))) < length (filter (\<lambda>i. after < i) (map ch_id (snd st)))"
    by (rule filter_shorter [of _ _ "ch_id (last rows)"]) (use l in auto)
  then show "((env, ch_id (last rows), fold (reseal_one env) rows st), env, after, st)
      \<in> measure (\<lambda>(env, after, st). length (filter (\<lambda>i. after < i) (map ch_id (snd st))))"
    by (simp only: in_measure prod.case reseal_batch_ids)
qed simp

declare reseal_from.simps [simp del]

definition reseal :: "reseal_env \<Rightarrow> channel list \<Rightarrow> reseal_counts \<times> channel list" where
  "reseal env chs = reseal_from env 0 (\<lparr>rs_sealed = 0, rs_resealed = 0, rs_unchanged = 0, rs_failed = 0\<rparr>, chs)"

text \<open>What the server does at start, when there is no previous key.\<close>

definition backfill :: "reseal_env \<Rightarrow> db \<Rightarrow> db" where
  "backfill env s = s\<lparr>channels := snd (reseal (env\<lparr>re_previous := None\<rparr>) (channels s))\<rparr>"

section \<open>What a run leaves\<close>

definition resealed :: "reseal_env \<Rightarrow> channel \<Rightarrow> channel" where
  "resealed env ch =
     (case decision env ch of
        Write _ cfg \<Rightarrow> ch\<lparr>config := seal (re_crypto env) (re_vault env) (re_iv env (ch_id ch)) (re_text env (ch_id ch)) cfg\<rparr>
      | _ \<Rightarrow> ch)"

definition tally :: "reseal_env \<Rightarrow> channel list \<Rightarrow> reseal_counts \<Rightarrow> reseal_counts" where
  "tally env rows n =
     \<lparr>rs_sealed = rs_sealed n + length (filter (\<lambda>ch. \<not> isSealed (config ch)) rows),
      rs_resealed = rs_resealed n + length (filter (\<lambda>ch. \<exists>cfg. decision env ch = Write False cfg) rows),
      rs_unchanged = rs_unchanged n + length (filter (\<lambda>ch. decision env ch = Keep) rows),
      rs_failed = rs_failed n + length (filter (\<lambda>ch. decision env ch = GiveUp) rows)\<rparr>"

lemma decision_plain: "(\<exists>cfg. decision env ch = Write True cfg) \<longleftrightarrow> \<not> isSealed (config ch)"
  by (auto simp: decision_def reseal_decision_of_def split: sum.splits option.splits)

lemma decision_PlainD: "decision env ch = Write True cfg \<Longrightarrow> \<not> isSealed (config ch) \<and> cfg = config ch"
  by (auto simp: decision_def reseal_decision_of_def split: if_splits sum.splits option.splits)

lemma decision_sealed: "isSealed (config ch) \<Longrightarrow> decision env ch \<noteq> Write True cfg"
  using decision_PlainD by blast

lemma tally_Nil [simp]: "tally env [] n = n"
  by (simp add: tally_def)

lemma tally_append: "tally env (xs @ ys) n = tally env ys (tally env xs n)"
  by (simp add: tally_def)

lemma reseal_one_quiet:
  assumes "re_others env = (\<lambda>_ j. j)" "distinct (map ch_id chs)" "row \<in> set chs"
  shows "reseal_one env row (n, chs) = (tally env [row] n, map (\<lambda>ch. if ch = row then resealed env ch else ch) chs)"
proof -
  have same: "ch_id ch = ch_id row \<longleftrightarrow> ch = row" if "ch \<in> set chs" for ch
    using assms(2,3) that by (auto dest: distinct_map_memD)
  have now: "update_where (\<lambda>ch. ch_id ch = ch_id row) (\<lambda>ch. ch\<lparr>config := re_others env (ch_id ch) (config ch)\<rparr>) chs = chs"
    by (simp add: assms(1) update_where_def)
  have still: "list_ex (\<lambda>ch. ch_id ch = ch_id row \<and> config ch = config row) chs"
    using assms(3) by (auto simp: list_ex_iff)
  have upd: "update_where (\<lambda>ch. ch_id ch = ch_id row \<and> config ch = config row) f chs = map (\<lambda>ch. if ch = row then f ch else ch) chs" for f
    using same by (auto simp: update_where_def)
  show ?thesis
  proof (cases "decision env row")
    case Keep
    then show ?thesis
      using decision_plain [of env row]
      by (simp add: reseal_one_def Let_def now tally_def resealed_def cong: if_cong)
  next
    case GiveUp
    then show ?thesis
      using decision_plain [of env row]
      by (simp add: reseal_one_def Let_def now tally_def resealed_def cong: if_cong)
  next
    case (Write plain cfg)
    then show ?thesis
      using decision_plain [of env row] still decision_sealed [of row env cfg]
      by (cases plain) (auto simp: reseal_one_def Let_def now upd tally_def resealed_def)
  qed
qed

lemma resealed_id [simp]: "ch_id (resealed env ch) = ch_id ch"
  by (simp add: resealed_def split: reseal_decision.split)

lemma reseal_rows_quiet:
  assumes quiet: "re_others env = (\<lambda>_ j. j)"
  shows "distinct (map ch_id chs) \<Longrightarrow> distinct rows \<Longrightarrow> set rows \<subseteq> set chs \<Longrightarrow>
    fold (reseal_one env) rows (n, chs) =
      (tally env rows n, map (\<lambda>ch. if ch \<in> set rows then resealed env ch else ch) chs)"
proof (induction rows arbitrary: n chs)
  case (Cons r rows)
  let ?chs = "map (\<lambda>ch. if ch = r then resealed env ch else ch) chs"
  have ids: "map ch_id ?chs = map ch_id chs" by simp
  have r: "r \<in> set chs" "r \<notin> set rows" using Cons.prems by auto
  have rest: "set rows \<subseteq> set ?chs" using Cons.prems(3) r(2) by force
  have other: "resealed env r \<notin> set rows"
  proof
    assume "resealed env r \<in> set rows"
    then have "resealed env r = r"
      using Cons.prems(1,3) r(1) by (intro distinct_map_memD [of ch_id chs]) auto
    then show False using \<open>resealed env r \<in> set rows\<close> r(2) by simp
  qed
  have "fold (reseal_one env) (r # rows) (n, chs) = fold (reseal_one env) rows (tally env [r] n, ?chs)"
    using reseal_one_quiet [OF quiet Cons.prems(1) r(1), of n] by simp
  also have "\<dots> = (tally env rows (tally env [r] n), map (\<lambda>ch. if ch \<in> set rows then resealed env ch else ch) ?chs)"
    using Cons.prems(1,2) rest ids by (intro Cons.IH) (simp_all only: distinct.simps)
  also have "map (\<lambda>ch. if ch \<in> set rows then resealed env ch else ch) ?chs
      = map (\<lambda>ch. if ch \<in> set (r # rows) then resealed env ch else ch) chs"
    using r(2) other by auto
  also have "tally env rows (tally env [r] n) = tally env (r # rows) n"
    using tally_append [of env "[r]" rows n] by simp
  finally show ?case .
qed simp

text \<open>A batch in order of a key is everything up to the key of its last row.\<close>

lemma batch_prefix:
  assumes "distinct (map k xs)" "rows = select_batch p k n xs" "rows \<noteq> []"
  shows "x \<in> set rows \<longleftrightarrow> x \<in> set xs \<and> p x \<and> k x \<le> k (last rows)"
proof -
  define s where "s = sort_key k (filter p xs)"
  have rows: "rows = take n s" using assms(2) by (simp add: select_batch_def s_def)
  have s: "sorted (map k s)" "distinct (map k s)" "set s = {x \<in> set xs. p x}"
    using distinct_map_filter [OF assms(1), of p] by (auto simp: s_def distinct_map)
  have split: "s = butlast rows @ last rows # drop n s"
    using assms(3) rows append_take_drop_id [of n s] append_butlast_last_id [of rows]
    by (metis append.assoc append_Cons append_Nil)
  have sp: "sorted (map k (butlast rows) @ k (last rows) # map k (drop n s))"
    "distinct (map k (butlast rows) @ k (last rows) # map k (drop n s))"
    using s(1,2) arg_cong [OF split, of "map k"] by simp_all
  have before: "k y \<le> k (last rows)" if "y \<in> set (butlast rows)" for y
    using sp(1) that by (auto simp: sorted_append)
  have after: "k (last rows) < k y" if "y \<in> set (drop n s)" for y
  proof -
    have "k (last rows) \<le> k y" using sp(1) that by (auto simp: sorted_append)
    moreover have "k y \<noteq> k (last rows)" using sp(2) that by (metis distinct.simps(2) distinct_append image_eqI list.set_map)
    ultimately show ?thesis by simp
  qed
  have "set rows = insert (last rows) (set (butlast rows))"
    using append_butlast_last_id [OF assms(3)] by (metis list.simps(15) rotate1.simps(2) set_rotate1)
  moreover have "x \<in> set xs \<and> p x \<longleftrightarrow> x = last rows \<or> x \<in> set (butlast rows) \<or> x \<in> set (drop n s)"
    using s(3) arg_cong [OF split, of set] by auto
  ultimately show ?thesis using before after by (metis insert_iff leD order_refl)
qed

lemma reseal_from_quiet:
  "re_others env = (\<lambda>_ j. j) \<Longrightarrow> distinct (map ch_id (snd st)) \<Longrightarrow>
    snd (reseal_from env after st) = map (\<lambda>ch. if after < ch_id ch then resealed env ch else ch) (snd st)
    \<and> (\<exists>rows. set rows = {ch \<in> set (snd st). after < ch_id ch} \<and> distinct rows
         \<and> fst (reseal_from env after st) = tally env rows (fst st))"
proof (induction env after st rule: reseal_from.induct)
  case (1 env after st)
  obtain n chs where st: "st = (n, chs)" by fastforce
  let ?rows = "select_batch (\<lambda>ch. after < ch_id ch) ch_id RESEAL_BATCH chs"
  show ?case
  proof (cases "?rows = []")
    case True
    have none: "{ch \<in> set chs. after < ch_id ch} = {}"
      using arg_cong [OF True, of length] by (auto simp: RESEAL_BATCH_def filter_empty_conv min_def split: if_splits)
    then have "map (\<lambda>ch. if after < ch_id ch then resealed env ch else ch) chs = chs" by (intro map_idI) auto
    moreover have "reseal_from env after st = st" using True by (subst reseal_from.simps) (simp add: st Let_def)
    ultimately show ?thesis using none by (auto simp: st intro!: exI [of _ "[]"])
  next
    case False
    let ?to = "ch_id (last ?rows)"
    let ?chs = "map (\<lambda>ch. if ch \<in> set ?rows then resealed env ch else ch) chs"
    have d: "distinct (map ch_id chs)" using "1.prems"(2) by (simp add: st)
    have in_rows: "ch \<in> set ?rows \<longleftrightarrow> ch \<in> set chs \<and> after < ch_id ch \<and> ch_id ch \<le> ?to" for ch
      by (rule batch_prefix [OF d refl False])
    have dr: "distinct ?rows" using distinct_select_batch [OF d] by (rule distinct_mapD)
    have step: "fold (reseal_one env) ?rows st = (tally env ?rows n, ?chs)"
      unfolding st by (rule reseal_rows_quiet [OF "1.prems"(1) d dr]) (use in_rows in blast)
    have ids: "map ch_id ?chs = map ch_id chs" by simp
    have unfolded: "reseal_from env after st = reseal_from env ?to (tally env ?rows n, ?chs)"
      using False step by (subst reseal_from.simps) (simp add: st Let_def)
    have IH: "snd (reseal_from env ?to (tally env ?rows n, ?chs))
          = map (\<lambda>ch. if ?to < ch_id ch then resealed env ch else ch) ?chs"
      "\<exists>rows. set rows = {ch \<in> set ?chs. ?to < ch_id ch} \<and> distinct rows
         \<and> fst (reseal_from env ?to (tally env ?rows n, ?chs)) = tally env rows (tally env ?rows n)"
      using "1.IH" [OF _ _ "1.prems"(1), of ?rows] False step d ids by (simp_all add: st del: map_map)
    have lt: "after < ?to" using in_rows [of "last ?rows"] last_in_set [OF False] by simp
    have later: "{ch \<in> set ?chs. ?to < ch_id ch} = {ch \<in> set chs. ?to < ch_id ch}"
      unfolding set_eq_iff mem_Collect_eq set_map image_iff using in_rows by (metis leD resealed_id)
    have new: "map (\<lambda>ch. if ?to < ch_id ch then resealed env ch else ch) ?chs
        = map (\<lambda>ch. if after < ch_id ch then resealed env ch else ch) chs"
      unfolding map_map comp_def by (rule map_cong [OF refl]) (use in_rows lt in \<open>auto split: if_splits\<close>)
    obtain rows where rows: "set rows = {ch \<in> set chs. ?to < ch_id ch}" "distinct rows"
      "fst (reseal_from env after st) = tally env (?rows @ rows) n"
      using IH(2) unfolding later unfolded tally_append by blast
    have both: "set (?rows @ rows) = {ch \<in> set chs. after < ch_id ch}"
      unfolding set_append rows(1) set_eq_iff Un_iff in_rows mem_Collect_eq using lt by (metis leI less_trans)
    have apart: "distinct (?rows @ rows)"
      unfolding distinct_append disjoint_iff in_rows rows(1) mem_Collect_eq using dr rows(2) leD by blast
    show ?thesis
    proof (intro conjI exI)
      show "snd (reseal_from env after st) = map (\<lambda>ch. if after < ch_id ch then resealed env ch else ch) (snd st)"
        by (simp only: unfolded IH(1) new, simp only: st snd_conv)
      show "set (?rows @ rows) = {ch \<in> set (snd st). after < ch_id ch}" by (simp only: both st snd_conv)
      show "distinct (?rows @ rows)" by (fact apart)
      show "fst (reseal_from env after st) = tally env (?rows @ rows) (fst st)" by (simp only: rows(3), simp only: st fst_conv)
    qed
  qed
qed

section \<open>Properties\<close>

text \<open>
  What is sealed under a key is opened by it and by nothing else: the same vault gives
  the configuration back, whatever it is; under another secret it is refused as sealed with
  another key (or, should the key identifiers collide, as damaged or not at all); copied to
  another channel it is refused as damaged. What was never sealed opens as it is.
\<close>

theorem vault_roundtrip:
  assumes "crypto_laws cr"
  shows "open_config cr (vault_of cr secret) c (seal cr (vault_of cr secret) iv c cfg) = Inr cfg
    \<and> (vt_keyId (vault_of cr other) \<noteq> vt_keyId (vault_of cr secret) \<longrightarrow>
         open_config cr (vault_of cr other) c (seal cr (vault_of cr secret) iv c cfg) = Inl AnotherKey)
    \<and> (c' \<noteq> c \<longrightarrow>
         open_config cr (vault_of cr secret) c' (seal cr (vault_of cr secret) iv c cfg) = Inl Damaged)
    \<and> (\<not> isSealed stored \<longrightarrow> open_config cr (vault_of cr secret) c stored = Inr stored)"
proof -
  note key = key_id_of [OF assms, of secret]
  have "open_config cr (vault_of cr secret) c stored = Inr stored" if "\<not> isSealed stored"
  proof (cases "field ''sealed'' stored")
    case (Some j)
    then show ?thesis using that by (cases j) (simp_all add: isSealed_def open_config_def)
  qed (simp add: open_config_def)
  moreover have "open_config cr (vault_of cr secret) c' (seal cr (vault_of cr secret) iv c cfg) = Inl Damaged" if "c' \<noteq> c"
    using crypto_lawsD(2) [OF assms that] by (simp add: open_sealed [OF assms key])
  moreover have "open_config cr (vault_of cr other) c (seal cr (vault_of cr secret) iv c cfg) = Inl AnotherKey"
    if "vt_keyId (vault_of cr other) \<noteq> vt_keyId (vault_of cr secret)"
    using that by (simp add: open_sealed [OF assms key])
  ultimately show ?thesis
    using open_own_seal [OF assms key] by blast
qed


text \<open>
  Another instance is never overwritten: whatever it has made of a configuration
  between the read and the write of a run stays.
\<close>

theorem reseal_never_overwrites:
  assumes "re_others env (ch_id row) (config row) \<noteq> config row" and "row \<in> set chs" and "distinct (map ch_id chs)"
  shows "snd (reseal_one env row (n, chs)) =
    map (\<lambda>ch. if ch = row then row\<lparr>config := re_others env (ch_id row) (config row)\<rparr> else ch) chs"
proof -
  have same: "ch_id ch = ch_id row \<longleftrightarrow> ch = row" if "ch \<in> set chs" for ch
    using assms(2,3) that by (auto dest: distinct_map_memD)
  have now: "update_where (\<lambda>ch. ch_id ch = ch_id row) (\<lambda>ch. ch\<lparr>config := re_others env (ch_id ch) (config ch)\<rparr>) chs =
      map (\<lambda>ch. if ch = row then row\<lparr>config := re_others env (ch_id row) (config row)\<rparr> else ch) chs"
    using same by (auto simp: update_where_def)
  have "update_where (\<lambda>ch. ch_id ch = ch_id row \<and> config ch = config row) f
      (map (\<lambda>ch. if ch = row then row\<lparr>config := re_others env (ch_id row) (config row)\<rparr> else ch) chs) =
      map (\<lambda>ch. if ch = row then row\<lparr>config := re_others env (ch_id row) (config row)\<rparr> else ch) chs" for f
    using same assms(1) by (auto simp: update_where_def)
  then show ?thesis
    by (simp add: reseal_one_def now Let_def split: reseal_decision.split)
qed

section \<open>A cipher that satisfies the laws\<close>

text \<open>Any injective text will do for JSON.\<close>

instance json :: countable by countable_datatype

definition toy_utf8 :: "string \<Rightarrow> byte list" where
  "toy_utf8 s = map (\<lambda>c. word_of_nat (code c)) s"

definition toy_text :: "byte list \<Rightarrow> string" where
  "toy_text bs = map (\<lambda>b. char_of (unat b)) bs"

lemma toy_text_utf8 [simp]: "toy_text (toy_utf8 s) = s"
proof -
  have "unat (word_of_nat (code c) :: byte) = code c" for c
    by (simp add: unat_of_nat of_char_def)
  then show ?thesis by (simp add: toy_text_def toy_utf8_def map_idI)
qed

definition toy_crypto :: crypto where
  "toy_crypto = \<lparr>cr_hkdf = (\<lambda>s _ _ _. toy_utf8 s), cr_sha256Hex = (\<lambda>k. if k = [] then ''0'' else ''1''),
     cr_encrypt = (\<lambda>_ _ aad m. (m, toy_utf8 aad)),
     cr_decrypt = (\<lambda>_ _ aad t c. if t = toy_utf8 aad then Some c else None),
     cr_utf8 = toy_utf8, cr_text = toy_text,
     cr_stringify = (\<lambda>j. replicate (to_nat j) CHR ''x''), cr_parse = (\<lambda>s. Some (from_nat (length s)))\<rparr>"

lemma toy_laws: "crypto_laws toy_crypto"
proof -
  have "toy_utf8 s = toy_utf8 t \<longleftrightarrow> s = t" for s t by (metis toy_text_utf8)
  then show ?thesis by (simp add: crypto_laws_def toy_crypto_def is_hex_lower_def is_digit_def)
qed

theorem vault_roundtrip_witness:
  "open_config toy_crypto (vault_of toy_crypto ''s'') ''4'' (seal toy_crypto (vault_of toy_crypto ''s'') [1] ''4'' (JObj [])) = Inr (JObj [])"
  using vault_roundtrip [OF toy_laws] by blast

definition toy_reseal :: reseal_env where
  "toy_reseal = \<lparr>re_crypto = toy_crypto, re_vault = vault_of toy_crypto ''s'', re_previous = None,
     re_iv = (\<lambda>_. [1]), re_text = (\<lambda>_. ''4''), re_others = (\<lambda>_ j. j)\<rparr>"


end
