(* ===== verification/Messages.thy ===== *)
theory Messages
  imports Vault SafeHttp JsDate "HOL-Library.Sublist"
begin

text \<open>
  What an alert says and how it is sent: the helpers of
  \<^verbatim>\<open>packages/server/src/notifications/alert.ts\<close>, \<^verbatim>\<open>templates.ts\<close>, and the senders of
  \<^verbatim>\<open>senders/\<close> behind \<^verbatim>\<open>sender.registry.ts\<close>. Two dashes stand for the one-character dash of the
  texts. HMAC, \<open>JSON.stringify\<close>, the mail transport and the request are parameters; a fraction
  of a second is rounded to the nearest second, halves up.
\<close>

section \<open>Durations and instants\<close>

text \<open>\<open>Math.round\<close> of milliseconds over 1000.\<close>

definition round_seconds :: "int \<Rightarrow> int" where
  "round_seconds ms = (ms + 500) div 1000"

definition formatDuration :: "int \<Rightarrow> string" where
  "formatDuration seconds =
     (let total = nat (max 0 seconds);
          days = total div 86400; hours = total mod 86400 div 3600; minutes = total mod 3600 div 60
      in if total < 60 then show_nat total @ ''s''
         else if 0 < days
         then (if 0 < hours then show_nat days @ ''d '' @ show_nat hours @ ''h'' else show_nat days @ ''d'')
         else if 0 < hours
         then (if 0 < minutes then show_nat hours @ ''h '' @ show_nat minutes @ ''m'' else show_nat hours @ ''h'')
         else show_nat minutes @ ''m'')"

definition describeSchedule :: "alert_check \<Rightarrow> string" where
  "describeSchedule c =
     (case scheduleType c of
        Cron \<Rightarrow> ''cron '' @ [CHR 0x22] @ (case cronExpression c of None \<Rightarrow> ''null'' | Some e \<Rightarrow> e) @ [CHR 0x22]
          @ '' ('' @ timezone c @ '')''
      | Interval \<Rightarrow>
          (case periodSeconds c of
             None \<Rightarrow> ''unknown schedule'' | Some n \<Rightarrow> ''every '' @ formatDuration n))"

text \<open>In milliseconds; the callers round.\<close>

definition downtime :: "millis \<Rightarrow> alert_incident \<Rightarrow> int" where
  "downtime now i = max 0 ((case ai_resolvedAt i of None \<Rightarrow> now | Some t \<Rightarrow> t) - ai_startedAt i)"

text \<open>The first \<open>T\<close> becomes a space and whole seconds lose their fraction.\<close>

definition replace_first :: "string \<Rightarrow> string \<Rightarrow> string \<Rightarrow> string" where
  "replace_first old new s =
     (case find (\<lambda>i. take (length old) (drop i s) = old) [0..<Suc (length s)] of
        None \<Rightarrow> s | Some i \<Rightarrow> take i s @ new @ drop (i + length old) s)"

definition formatInstant :: "millis option \<Rightarrow> string" where
  "formatInstant v =
     (case v of
        None \<Rightarrow> ''never''
      | Some t \<Rightarrow> replace_first ''.000Z'' ''Z'' (replace_first ''T'' '' '' (toISOString t)))"

section \<open>Escaping\<close>

definition html_escape :: "char \<Rightarrow> string" where
  "html_escape c =
     (if c = CHR ''&'' then ''&amp;'' else if c = CHR ''<'' then ''&lt;'' else if c = CHR ''>'' then ''&gt;''
      else if c = CHR 0x22 then ''&quot;'' else if c = CHR 0x27 then ''&#39;'' else [c])"

definition escapeHtml :: "string \<Rightarrow> string" where
  "escapeHtml s = concat (map html_escape s)"

definition escapeAttribute :: "string \<Rightarrow> string" where
  "escapeAttribute s = escapeHtml s"

definition slack_escape :: "char \<Rightarrow> string" where
  "slack_escape c =
     (if c = CHR ''&'' then ''&amp;'' else if c = CHR ''<'' then ''&lt;'' else if c = CHR ''>'' then ''&gt;'' else [c])"

text \<open>Three replacements one after the other; ampersands go first.\<close>

definition replace_all :: "char \<Rightarrow> string \<Rightarrow> string \<Rightarrow> string" where
  "replace_all c new s = concat (map (\<lambda>x. if x = c then new else [x]) s)"

definition escapeSlack :: "string \<Rightarrow> string" where
  "escapeSlack s = replace_all CHR ''>'' ''&gt;'' (replace_all CHR ''<'' ''&lt;'' (replace_all CHR ''&'' ''&amp;'' s))"

section \<open>The message\<close>

record rendered =
  rd_subject :: string
  rd_headline :: string
  rd_text :: string
  rd_html :: string
  rd_fields :: "(string \<times> string) list"

definition EM_DASH :: string where "EM_DASH = ''--''"

definition alert_fields :: "millis \<Rightarrow> alert \<Rightarrow> (string \<times> string) list" where
  "alert_fields now a =
     (let c = al_check a; i = al_incident a; down = (al_kind a = DownAlert)
      in [(''Check'', ac_name c), (''Project'', snd (al_project a)),
          (''Environment'', case ac_environment c of None \<Rightarrow> EM_DASH | Some e \<Rightarrow> e),
          (''Schedule'', describeSchedule c),
          (''Grace period'', formatDuration (ac_graceSeconds c)),
          (''Last ping'', formatInstant (ac_lastPingAt c)),
          (''Expected by'', formatInstant (ac_nextDueAt c)),
          (if down then (''Silent since'', formatInstant (Some (ai_startedAt i)))
           else (''Was down for'', formatDuration (round_seconds (downtime now i))))]
         @ (if ac_tags c \<noteq> [] then [(''Tags'', join '', '' (ac_tags c))] else [])
         @ (if down \<and> ai_cause i = Reported then [(''Cause'', ''the job reported a failure'')] else []))"

definition NL :: string where "NL = [CHR 0x0A]"

definition html_row :: "string \<times> string \<Rightarrow> string" where
  \<open>html_row f = join NL
     [[],
      ''        <tr>'',
      ''          <td style="padding:6px 16px 6px 0;color:#5e5e5e;font-size:13px;white-space:nowrap">'' @ escapeHtml (fst f) @ ''</td>'',
      ''          <td style="padding:6px 0;color:#0a0a0a;font-size:13px">'' @ escapeHtml (snd f) @ ''</td>'',
      ''        </tr>'']\<close>

definition renderHtml :: "alert \<Rightarrow> string \<Rightarrow> (string \<times> string) list \<Rightarrow> string" where
  \<open>renderHtml a headline fs =
     (let accent = (if al_kind a = DownAlert then ''#b3261e'' else ''#146c2e'');
          badge = (if al_kind a = DownAlert then ''DOWN'' else ''RECOVERED'');
          rows = concat (map html_row fs)
      in join NL
     [''<!doctype html>'',
      ''<html lang="en"><body style="margin:0;padding:24px;background:#f4f4f4;font-family:-apple-system,BlinkMacSystemFont,'Segoe UI',Roboto,Helvetica,Arial,sans-serif">'',
      ''  <table role="presentation" cellpadding="0" cellspacing="0" style="max-width:560px;margin:0 auto;background:#fff;border-radius:12px;border:1px solid #e2e2e2">'',
      ''    <tr><td style="padding:24px">'',
      ''      <span style="display:inline-block;padding:4px 10px;border-radius:999px;background:'' @ accent @ '';color:#fff;font-size:11px;font-weight:700;letter-spacing:.6px">'' @ badge @ ''</span>'',
      ''      <h1 style="margin:16px 0 4px;font-size:18px;line-height:1.35;color:#0a0a0a">'' @ escapeHtml headline @ ''</h1>'',
      ''      <table role="presentation" cellpadding="0" cellspacing="0" style="margin-top:16px;width:100%">'' @ rows @ ''</table>'',
      ''      <a href="'' @ escapeAttribute (al_url a) @ ''" style="display:inline-block;margin-top:20px;padding:10px 18px;background:#0a0a0a;color:#ffffff;text-decoration:none;border-radius:8px;font-size:14px;font-weight:600">Open check</a>'',
      ''      <p style="margin:20px 0 0;color:#737373;font-size:12px;line-height:1.5">'',
      ''        You are receiving this because a SilenceWatch notification channel for'',
      ''        '' @ escapeHtml (snd (al_project a)) @ '' points at this address.'',
      ''      </p>'',
      ''    </td></tr>'',
      ''  </table>'',
      ''</body></html>''])\<close>

definition renderAlert :: "millis \<Rightarrow> alert \<Rightarrow> rendered" where
  "renderAlert now a =
     (let c = al_check a;
          scope = (case ac_environment c of None \<Rightarrow> snd (al_project a) | Some e \<Rightarrow> snd (al_project a) @ '' / '' @ e);
          outage = formatDuration (round_seconds (downtime now (al_incident a)));
          down = (al_kind a = DownAlert);
          subject = (if down then ''[SilenceWatch] DOWN '' @ EM_DASH @ '' '' @ ac_name c @ '' ('' @ scope @ '')''
                     else ''[SilenceWatch] UP '' @ EM_DASH @ '' '' @ ac_name c @ '' recovered ('' @ scope @ '')'');
          headline = (if down then ac_name c @ '' stopped checking in ('' @ scope @ '')''
                      else ac_name c @ '' is checking in again after '' @ outage @ '' ('' @ scope @ '')'');
          fs = alert_fields now a
      in \<lparr>rd_subject = subject, rd_headline = headline,
          rd_text = join NL ([headline, []] @ map (\<lambda>f. fst f @ '': '' @ snd f) fs @ [[], al_url a]),
          rd_html = renderHtml a headline fs, rd_fields = fs\<rparr>)"

section \<open>Configurations of channels\<close>

text \<open>
  Third-party: the pattern of an e-mail address; the runtime's URL parser is that of the guard.
\<close>

record channel_schemas =
  cs_isEmail :: "string \<Rightarrow> bool"
  cs_url :: "string \<Rightarrow> url option"

definition emailMax :: nat where "emailMax = 254"
definition urlMax :: nat where "urlMax = 2048"

definition emailSchema :: "channel_schemas \<Rightarrow> string \<Rightarrow> string option" where
  "emailSchema cs s =
     (let t = to_lower (trim s)
      in if 3 \<le> length t \<and> length t \<le> emailMax \<and> cs_isEmail cs t then Some t else None)"

definition httpUrlSchema :: "channel_schemas \<Rightarrow> string \<Rightarrow> string option" where
  "httpUrlSchema cs s =
     (let t = trim s
      in if urlMax < length t then None
         else case cs_url cs t of
                None \<Rightarrow> None
              | Some u \<Rightarrow>
                  if (ur_protocol u = ''https:'' \<or> ur_protocol u = ''http:'') \<and> ur_username u = [] \<and> ur_password u = []
                  then Some t else None)"

record webhook_config =
  wc_url :: string
  wc_secret :: "string option"
  wc_method :: string

definition text_field :: "string \<Rightarrow> json \<Rightarrow> string option" where
  "text_field k j = (case field k j of Some (JStr s) \<Rightarrow> Some s | _ \<Rightarrow> None)"

definition emailChannelConfigSchema :: "channel_schemas \<Rightarrow> json \<Rightarrow> string option" where
  "emailChannelConfigSchema cs j = Option.bind (text_field ''address'' j) (emailSchema cs)"

definition chatChannelConfigSchema :: "channel_schemas \<Rightarrow> json \<Rightarrow> string option" where
  "chatChannelConfigSchema cs j = Option.bind (text_field ''url'' j) (httpUrlSchema cs)"

text \<open>A secret or method may be missing; one of another type, length or name is refused.\<close>

definition webhookChannelConfigSchema :: "channel_schemas \<Rightarrow> json \<Rightarrow> webhook_config option" where
  "webhookChannelConfigSchema cs j =
     (case chatChannelConfigSchema cs j of
        None \<Rightarrow> None
      | Some u \<Rightarrow>
          (case (case field ''secret'' j of
                   None \<Rightarrow> Some None
                 | Some (JStr s) \<Rightarrow> if 16 \<le> length s \<and> length s \<le> 200 then Some (Some s) else None
                 | _ \<Rightarrow> None,
                 case field ''method'' j of
                   None \<Rightarrow> Some ''POST''
                 | Some (JStr m) \<Rightarrow> if m = ''POST'' \<or> m = ''PUT'' then Some m else None
                 | _ \<Rightarrow> None) of
             (Some secret, Some m) \<Rightarrow> Some \<lparr>wc_url = u, wc_secret = secret, wc_method = m\<rparr>
           | _ \<Rightarrow> None))"

section \<open>Payloads\<close>

definition or_null :: "string option \<Rightarrow> json" where
  "or_null v = (case v of None \<Rightarrow> JNull | Some s \<Rightarrow> JStr s)"

definition state_text :: "check_state \<Rightarrow> string" where
  "state_text st = (case st of NEW \<Rightarrow> ''NEW'' | UP \<Rightarrow> ''UP'' | LATE \<Rightarrow> ''LATE'' | DOWN \<Rightarrow> ''DOWN'' | PAUSED \<Rightarrow> ''PAUSED'')"

definition cause_text :: "incident_cause \<Rightarrow> string" where
  "cause_text c = (case c of Missed \<Rightarrow> ''missed'' | Reported \<Rightarrow> ''reported'')"

definition event_name :: "alert \<Rightarrow> string" where
  "event_name a = (if al_kind a = DownAlert then ''check.down'' else ''check.up'')"

definition buildPayload :: "(uuid \<Rightarrow> string) \<Rightarrow> millis \<Rightarrow> alert \<Rightarrow> json" where
  "buildPayload txt now a =
     (let c = al_check a; i = al_incident a
      in JObj
          [(''event'', JStr (event_name a)), (''occurredAt'', JStr (toISOString now)), (''url'', JStr (al_url a)),
           (''project'', JObj [(''id'', JStr (txt (fst (al_project a)))), (''name'', JStr (snd (al_project a)))]),
           (''check'', JObj
              [(''id'', JStr (txt (ac_id c))), (''name'', JStr (ac_name c)), (''state'', JStr (state_text (ac_state c))),
               (''environment'', or_null (ac_environment c)), (''tags'', JArr (map JStr (ac_tags c))),
               (''schedule'', JStr (describeSchedule c)), (''graceSeconds'', JNum (ac_graceSeconds c)),
               (''lastPingAt'', or_null (iso_option (ac_lastPingAt c))),
               (''expectedBy'', or_null (iso_option (ac_nextDueAt c)))]),
           (''incident'', JObj
              [(''id'', JStr (txt (ai_id i))), (''startedAt'', JStr (toISOString (ai_startedAt i))),
               (''resolvedAt'', or_null (iso_option (ai_resolvedAt i))), (''cause'', JStr (cause_text (ai_cause i))),
               (''durationSeconds'', JNum (round_seconds (downtime now i)))])])"

definition accentHex :: "alert \<Rightarrow> string" where
  "accentHex a = (if al_kind a = DownAlert then ''B3261E'' else ''146C2E'')"

definition slackPayload :: "millis \<Rightarrow> alert \<Rightarrow> rendered \<Rightarrow> json" where
  "slackPayload now a r =
     JObj
       [(''text'', JStr ((if al_kind a = DownAlert then '':red_circle:'' else '':large_green_circle:'') @ '' ''
           @ escapeSlack (rd_headline r))),
        (''attachments'', JArr [JObj
           [(''color'', JStr (''#'' @ accentHex a)), (''fallback'', JStr (escapeSlack (rd_headline r))),
            (''title'', JStr (escapeSlack (ac_name (al_check a)))), (''title_link'', JStr (al_url a)),
            (''fields'', JArr (map (\<lambda>f. JObj
               [(''title'', JStr (fst f)), (''value'', JStr (escapeSlack (snd f))), (''short'', JBool (length (snd f) \<le> 30))])
               (rd_fields r))),
            (''footer'', JStr ''SilenceWatch''), (''ts'', JNum (now div 1000))]])]"

definition teamsPayload :: "alert \<Rightarrow> rendered \<Rightarrow> json" where
  "teamsPayload a r =
     JObj
       [(''@type'', JStr ''MessageCard''), (''@context'', JStr ''https://schema.org/extensions''),
        (''summary'', JStr (rd_subject r)), (''themeColor'', JStr (accentHex a)), (''title'', JStr (rd_headline r)),
        (''sections'', JArr [JObj
           [(''facts'', JArr (map (\<lambda>f. JObj [(''name'', JStr (fst f)), (''value'', JStr (snd f))]) (rd_fields r))),
            (''markdown'', JBool False)]]),
        (''potentialAction'', JArr [JObj
           [(''@type'', JStr ''OpenUri''), (''name'', JStr ''Open check''),
            (''targets'', JArr [JObj [(''os'', JStr ''default''), (''uri'', JStr (al_url a))]])]])]"

text \<open>The colour is the number the accent writes in hexadecimal.\<close>

definition discordPayload :: "millis \<Rightarrow> alert \<Rightarrow> rendered \<Rightarrow> json" where
  "discordPayload now a r =
     JObj
       [(''username'', JStr ''SilenceWatch''), (''allowed_mentions'', JObj [(''parse'', JArr [])]),
        (''embeds'', JArr [JObj
           [(''title'', JStr (take 256 (rd_headline r))), (''url'', JStr (al_url a)),
            (''color'', JNum (int (hex_number (accentHex a)))), (''timestamp'', JStr (toISOString now)),
            (''fields'', JArr (map (\<lambda>f. JObj
               [(''name'', JStr (fst f)), (''value'', JStr (take 1024 (snd f))), (''inline'', JBool (length (snd f) \<le> 30))])
               (take 25 (rd_fields r)))),
            (''footer'', JObj [(''text'', JStr ''SilenceWatch'')])]])]"

section \<open>The senders\<close>

record outgoing =
  og_url :: string
  og_method :: string
  og_headers :: "(string \<times> string) list"
  og_body :: string

record mail =
  ml_to :: string
  ml_subject :: string
  ml_text :: string
  ml_html :: string

datatype message = Request outgoing | Mail mail

record senders =
  sn_schemas :: channel_schemas
  sn_stringify :: "json \<Rightarrow> string"
  sn_hmac :: "string \<Rightarrow> string \<Rightarrow> string"
  sn_text :: "uuid \<Rightarrow> string"
  sn_http :: safe_http
  sn_mail :: "mail \<Rightarrow> string + unit"
  sn_reason :: "http_failure \<Rightarrow> string"
  sn_issue :: "channel_type \<Rightarrow> json \<Rightarrow> string"

definition channel_type_text :: "channel_type \<Rightarrow> string" where
  "channel_type_text ty =
     (case ty of Email \<Rightarrow> ''email'' | Webhook \<Rightarrow> ''webhook'' | Slack \<Rightarrow> ''slack'' | Teams \<Rightarrow> ''teams'' | Discord \<Rightarrow> ''discord'')"

definition webhook_request :: "senders \<Rightarrow> millis \<Rightarrow> alert \<Rightarrow> webhook_config \<Rightarrow> outgoing" where
  "webhook_request sn now a cfg =
     (let payload = sn_stringify sn (buildPayload (sn_text sn) now a);
          timestamp = show_nat (nat (now div 1000));
          base = [(''x-silencewatch-event'', event_name a), (''x-silencewatch-timestamp'', timestamp),
                  (''x-silencewatch-incident'', sn_text sn (ai_id (al_incident a)))]
      in \<lparr>og_url = wc_url cfg, og_method = wc_method cfg,
          og_headers = base @ (case wc_secret cfg of
              None \<Rightarrow> []
            | Some s \<Rightarrow> [(''x-silencewatch-signature'', ''sha256='' @ sn_hmac sn s (timestamp @ ''.'' @ payload))]),
          og_body = payload\<rparr>)"

definition chat_request :: "senders \<Rightarrow> string \<Rightarrow> json \<Rightarrow> outgoing" where
  "chat_request sn u payload =
     \<lparr>og_url = u, og_method = ''POST'', og_headers = [], og_body = sn_stringify sn payload\<rparr>"

definition mail_message :: "millis \<Rightarrow> alert \<Rightarrow> string \<Rightarrow> mail" where
  "mail_message now a address =
     (let r = renderAlert now a
      in \<lparr>ml_to = address, ml_subject = rd_subject r, ml_text = rd_text r, ml_html = rd_html r\<rparr>)"

text \<open>
  The registry: one sender per type; \<open>None\<close> is a configuration its schema refuses, and
  \<open>sn_issue\<close> the schema library's message about it.
\<close>

definition compose :: "senders \<Rightarrow> millis \<Rightarrow> channel_type \<Rightarrow> alert \<Rightarrow> json \<Rightarrow> message option" where
  "compose sn now ty a cfg =
     (let cs = sn_schemas sn; r = renderAlert now a;
          chat = (\<lambda>payload. map_option (\<lambda>u. Request (chat_request sn u payload)) (chatChannelConfigSchema cs cfg))
      in case ty of
           Email \<Rightarrow> map_option (\<lambda>to. Mail (mail_message now a to)) (emailChannelConfigSchema cs cfg)
         | Webhook \<Rightarrow> map_option (\<lambda>w. Request (webhook_request sn now a w)) (webhookChannelConfigSchema cs cfg)
         | Slack \<Rightarrow> chat (slackPayload now a r)
         | Teams \<Rightarrow> chat (teamsPayload a r)
         | Discord \<Rightarrow> chat (discordPayload now a r))"

definition send_alert :: "senders \<Rightarrow> millis \<Rightarrow> channel_type \<Rightarrow> alert \<Rightarrow> json \<Rightarrow> string + unit" where
  "send_alert sn now ty a cfg =
     (case compose sn now ty a cfg of
        None \<Rightarrow> Inl (''invalid '' @ channel_type_text ty @ '' channel configuration: '' @ sn_issue sn ty cfg)
      | Some (Mail m) \<Rightarrow> sn_mail sn m
      | Some (Request q) \<Rightarrow>
          (case send (sn_http sn) (og_url q) (Some (og_body q)) of
             Inl e \<Rightarrow> Inl (sn_reason sn e) | Inr _ \<Rightarrow> Inr ()))"

section \<open>A delivery\<close>

definition config_message :: "config_error \<Rightarrow> string" where
  "config_message e =
     (case e of
        UnknownFormat \<Rightarrow> ''the channel configuration is not in a format this version reads''
      | AnotherKey \<Rightarrow> ''the channel configuration was sealed with another SECRET_KEY: run `silencewatch reseal` with OLD_SECRET_KEY set to the previous value''
      | Damaged \<Rightarrow> ''the channel configuration is damaged or belongs to another channel'')"

text \<open>What the queue calls for a row: the argument \<open>send\<close> of a delivery pass.\<close>

definition deliver :: "senders \<Rightarrow> crypto \<Rightarrow> vault \<Rightarrow> string \<Rightarrow> millis \<Rightarrow> context_row \<Rightarrow> string + unit" where
  "deliver sn cr v baseUrl now row =
     (case open_config cr v (sn_text sn (ch_id (x_channel row))) (config (x_channel row)) of
        Inl e \<Rightarrow> Inl (config_message e)
      | Inr cfg \<Rightarrow> send_alert sn now (ch_type (x_channel row)) (toAlert baseUrl (sn_text sn) row) cfg)"

section \<open>Text stays text\<close>

definition markup :: "char \<Rightarrow> bool" where
  "markup c \<longleftrightarrow> c \<in> {CHR ''<'', CHR ''>'', CHR 0x22, CHR 0x27}"

lemma markup_escaped [simp]: "filter markup (escapeHtml s) = []" "filter markup (escapeAttribute s) = []"
proof -
  have "filter markup (html_escape c) = []" for c by (simp add: html_escape_def markup_def)
  then show "filter markup (escapeHtml s) = []" by (induction s) (simp_all add: escapeHtml_def)
  then show "filter markup (escapeAttribute s) = []" by (simp add: escapeAttribute_def)
qed

lemma markup_join: "filter markup (join NL xs) = concat (map (filter markup) xs)"
proof -
  have "filter markup NL = []" by (simp add: NL_def markup_def)
  then show ?thesis by (induction NL xs rule: join.induct) simp_all
qed

lemma markup_row: "filter markup (html_row f) = filter markup (html_row g)"
  by (simp only: html_row_def markup_join list.map concat.simps filter_append markup_escaped append_Nil append_Nil2)

lemma markup_rows: "length fs = length gs \<Longrightarrow> filter markup (concat (map html_row fs)) = filter markup (concat (map html_row gs))"
proof (induction fs gs rule: list_induct2)
  case (Cons f fs g gs)
  then show ?case by (simp only: list.map concat.simps filter_append markup_row [of f g])
qed simp

lemma markup_html:
  assumes "al_kind a = al_kind b" "length fs = length gs"
  shows "filter markup (renderHtml a h fs) = filter markup (renderHtml b k gs)"
  by (simp only: renderHtml_def Let_def markup_join list.map concat.simps filter_append markup_escaped
      append_Nil append_Nil2 assms(1) markup_rows [OF assms(2)])

text \<open>
  C24. Nothing somebody typed becomes markup in a message: two alerts of one kind with the
  same number of fields give mails with the same sequence of angle brackets and quotes,
  whatever the names, environments, tags, schedules and links in them.
\<close>

theorem markup_is_the_layout:
  assumes "al_kind a = al_kind b" and "length (rd_fields (renderAlert now a)) = length (rd_fields (renderAlert now b))"
  shows "filter markup (rd_html (renderAlert now a)) = filter markup (rd_html (renderAlert now b))"
  using assms(2) by (simp add: renderAlert_def Let_def markup_html [OF assms(1)])

lemma prefix_code:
  assumes "\<And>c. f c \<noteq> []" "\<And>c d. prefix (f c) (f d) \<Longrightarrow> c = d"
  shows "concat (map f s) = concat (map f t) \<Longrightarrow> s = t"
proof (induction s arbitrary: t)
  case Nil
  then show ?case using assms(1) by (cases t) auto
next
  case (Cons c s)
  then obtain d t' where t: "t = d # t'" using assms(1) by (cases t) auto
  have "f c @ concat (map f s) = f d @ concat (map f t')" using Cons.prems t by simp
  then have "prefix (f c) (f d) \<or> prefix (f d) (f c)" by (metis append_eq_append_conv2 prefixI)
  then have "c = d" using assms(2) by blast
  then show ?case using Cons t by simp
qed

text \<open>
  Escaping loses nothing: two texts that are shown alike in a mail are the same text.
\<close>

theorem escape_unambiguous: "escapeHtml s = escapeHtml t \<longleftrightarrow> s = t"
proof
  assume "escapeHtml s = escapeHtml t"
  then show "s = t"
    unfolding escapeHtml_def
    by (rule prefix_code [rotated 2]) (auto simp: html_escape_def split: if_splits)
qed simp

fun json_texts :: "json \<Rightarrow> string list" where
  "json_texts (JStr s) = [s]"
| "json_texts (JArr js) = concat (map json_texts js)"
| "json_texts (JObj fs) = concat (map (\<lambda>f. json_texts (snd f)) fs)"
| "json_texts _ = []"

lemma escapeSlack_eq: "escapeSlack s = concat (map slack_escape s)"
  by (induction s) (auto simp: escapeSlack_def replace_all_def slack_escape_def)

lemma slack_safe [simp]: "CHR ''<'' \<notin> set (escapeSlack s)" "CHR ''>'' \<notin> set (escapeSlack s)"
  by (auto simp: escapeSlack_eq slack_escape_def split: if_splits)

definition bracket_free :: "string \<Rightarrow> bool" where
  "bracket_free s \<longleftrightarrow> CHR ''<'' \<notin> set s \<and> CHR ''>'' \<notin> set s"

lemma bracket_free_simps [simp]:
  "bracket_free []" "bracket_free (c # s) \<longleftrightarrow> c \<noteq> CHR ''<'' \<and> c \<noteq> CHR ''>'' \<and> bracket_free s"
  "bracket_free (s @ t) \<longleftrightarrow> bracket_free s \<and> bracket_free t" "bracket_free (escapeSlack s)"
  "bracket_free (accentHex a)"
  by (auto simp: bracket_free_def accentHex_def)

lemma labels_safe: "f \<in> set (rd_fields (renderAlert now a)) \<Longrightarrow> bracket_free (fst f)"
  unfolding renderAlert_def Let_def rendered.select_convs alert_fields_def
  by (auto split: if_splits)

lemma slack_texts:
  assumes "s \<in> set (json_texts (slackPayload now a r))" "\<And>f. f \<in> set (rd_fields r) \<Longrightarrow> bracket_free (fst f)"
  shows "s = al_url a \<or> bracket_free s"
  using assms by (auto simp: slackPayload_def split: if_splits)

text \<open>
  No text of a Slack message holds an angle bracket, so none is a mention or a link
  for Slack, whatever a check is called; the one exception is the address of the link, which
  the server writes.
\<close>

theorem slack_mentions_nobody:
  assumes "s \<in> set (json_texts (slackPayload now a (renderAlert now a)))" and "s \<noteq> al_url a"
  shows "CHR ''<'' \<notin> set s \<and> CHR ''>'' \<notin> set s"
  using slack_texts [OF assms(1) labels_safe] assms(2) by (auto simp: bracket_free_def)

section \<open>Where an alert goes\<close>


section \<open>Concrete messages\<close>

definition sample_alert :: "string \<Rightarrow> alert" where
  "sample_alert name =
     \<lparr>al_kind = DownAlert,
      al_check = \<lparr>scheduleType = Interval, periodSeconds = Some 3600, cronExpression = None, timezone = ''UTC'',
        ac_id = 1, ac_name = name, ac_state = DOWN, ac_environment = None, ac_tags = [],
        ac_lastPingAt = None, ac_nextDueAt = None, ac_graceSeconds = 300\<rparr>,
      al_project = (2, ''Billing''),
      al_incident = \<lparr>ai_id = 3, ai_startedAt = 0, ai_resolvedAt = None, ai_cause = Missed\<rparr>,
      al_url = ''https://silencewatch.com/checks/1''\<rparr>"

theorem markup_is_the_layout_witness:
  "filter markup (rd_html (renderAlert 0 (sample_alert ''<script>'')))
     = filter markup (rd_html (renderAlert 0 (sample_alert ''backup'')))"
  by (rule markup_is_the_layout) (simp_all add: sample_alert_def renderAlert_def alert_fields_def Let_def)

theorem slack_mentions_nobody_witness:
  "CHR ''<'' \<notin> set (escapeSlack ''<!channel>'')"
proof -
  have "escapeSlack ''<!channel>'' \<in> set (json_texts (slackPayload 0 (sample_alert ''<!channel>'') (renderAlert 0 (sample_alert ''<!channel>''))))"
    by (simp add: slackPayload_def sample_alert_def)
  moreover have "escapeSlack ''<!channel>'' \<noteq> al_url (sample_alert ''<!channel>'')"
    by (simp add: escapeSlack_def replace_all_def sample_alert_def)
  ultimately show ?thesis using slack_mentions_nobody by blast
qed

definition sample_senders :: senders where
  "sample_senders = \<lparr>sn_schemas = \<lparr>cs_isEmail = (\<lambda>_. True), cs_url = sh_parse public_site\<rparr>,
     sn_stringify = (\<lambda>_. ''{}''), sn_hmac = (\<lambda>_ _. []), sn_text = show_nat, sn_http = public_site,
     sn_mail = (\<lambda>_. Inl ''no transport''), sn_reason = (\<lambda>_. ''refused''), sn_issue = (\<lambda>_ _. ''unknown'')\<rparr>"

definition slack_row :: context_row where
  "slack_row = \<lparr>x_delivery = sample_delivery,
     x_channel = \<lparr>ch_id = 4, ch_project = 2, ch_type = Slack, ch_name = ''ops'', config = JObj [(''url'', JStr [])],
        enabled = True, lastTestedAt = None, ch_createdAt = 0\<rparr>,
     x_incident = hd (incidents sample_alerting), x_check = hd (checks sample_alerting),
     x_project = hd (projects sample_alerting)\<rparr>"

lemma slack_row_sent: "deliver sample_senders toy_crypto (vault_of toy_crypto ''s'') [] 0 slack_row = Inr ()"
proof -
  have "compose sample_senders 0 Slack a (JObj [(''url'', JStr [])])
      = Some (Request (chat_request sample_senders [] (slackPayload 0 a (renderAlert 0 a))))" for a
    by (simp add: compose_def Let_def chatChannelConfigSchema_def text_field_def httpUrlSchema_def trim_def
        sample_senders_def public_site_def urlMax_def)
  moreover have "send public_site [] (Some ''{}'') = Inr (200, ''ok'')" by code_simp
  ultimately show ?thesis
    by (simp add: deliver_def open_config_def slack_row_def send_alert_def chat_request_def sample_senders_def)
qed


end
