(* ===== verification/Channels.thy ===== *)
theory Channels
  imports Api Messages
begin

text \<open>
  Notification channels: \<^verbatim>\<open>packages/server/src/channels/channels.repository.ts\<close>,
  \<^verbatim>\<open>channel.mapper.ts\<close>, \<^verbatim>\<open>channels.service.ts\<close>, \<^verbatim>\<open>test-alert.ts\<close>, the routes of
  \<^verbatim>\<open>channels.controller.ts\<close> and the request schemas of the shared \<^verbatim>\<open>schemas/channels.ts\<close>.
  Configurations are sealed in the table and opened on the way out.
\<close>

section \<open>Requests\<close>

definition config_json :: "webhook_config \<Rightarrow> json" where
  "config_json w =
     JObj ([(''url'', JStr (wc_url w))] @ (case wc_secret w of None \<Rightarrow> [] | Some s \<Rightarrow> [(''secret'', JStr s)])
       @ [(''method'', JStr (wc_method w))])"

definition configSchema :: "channel_schemas \<Rightarrow> channel_type \<Rightarrow> json \<Rightarrow> json option" where
  "configSchema cs ty j =
     (case ty of
        Email \<Rightarrow> map_option (\<lambda>a. JObj [(''address'', JStr a)]) (emailChannelConfigSchema cs j)
      | Webhook \<Rightarrow> map_option config_json (webhookChannelConfigSchema cs j)
      | _ \<Rightarrow> map_option (\<lambda>u. JObj [(''url'', JStr u)]) (chatChannelConfigSchema cs j))"

record create_channel_request =
  cc_type :: channel_type
  cc_name :: string
  cc_config :: json

definition createChannelRequestSchema :: "channel_schemas \<Rightarrow> create_channel_request \<Rightarrow> create_channel_request option" where
  "createChannelRequestSchema cs r =
     (case (trimmedString nameMax (cc_name r), configSchema cs (cc_type r) (cc_config r)) of
        (Some n, Some j) \<Rightarrow> Some \<lparr>cc_type = cc_type r, cc_name = n, cc_config = j\<rparr> | _ \<Rightarrow> None)"

record update_channel_request =
  uc_name :: "string option"
  uc_enabled :: "bool option"

definition updateChannelRequestSchema :: "update_channel_request \<Rightarrow> update_channel_request option" where
  "updateChannelRequestSchema r =
     (case optional (trimmedString nameMax) (uc_name r) of
        None \<Rightarrow> None | Some n \<Rightarrow> Some (r\<lparr>uc_name := n\<rparr>))"

section \<open>The environment of a request\<close>

text \<open>
  \<open>ve_urlParts\<close> is the runtime's URL parser, for the host and the path of a URL;
  \<open>ve_meanwhile\<close> is what other requests do to the tables while a target is looked up;
  \<open>ve_ids\<close> are the two random identifiers of a sample alert.
\<close>

record channel_env =
  ve_now :: millis
  ve_quotas :: quota_settings
  ve_senders :: senders
  ve_crypto :: crypto
  ve_vault :: vault
  ve_iv :: "byte list"
  ve_urlParts :: "string \<Rightarrow> (string \<times> string) option"
  ve_meanwhile :: "db \<Rightarrow> db"
  ve_baseUrl :: string
  ve_maxPerHour :: nat
  ve_cooldown :: nat
  ve_ids :: "uuid \<times> uuid"
  ve_ip :: "string option"
  ve_agent :: "string option"
  ve_recorded :: bool

definition ve_text :: "channel_env \<Rightarrow> uuid \<Rightarrow> string" where
  "ve_text env = sn_text (ve_senders env)"

text \<open>What a request is refused with; a failed test is reported verbatim.\<close>

datatype channel_error =
    Refused http_error
  | TargetRejected http_failure
  | TestLimit nat
  | TestCooldown nat
  | TestFailed string

fun channel_status :: "channel_error \<Rightarrow> nat" where
  "channel_status (Refused e) = status_of e"
| "channel_status (TargetRejected _) = 400"
| "channel_status (TestLimit _) = 429"
| "channel_status (TestCooldown _) = 429"
| "channel_status (TestFailed _) = 400"

section \<open>The repository\<close>

text \<open>A configuration that cannot be opened is shown as empty.\<close>

definition opened :: "channel_env \<Rightarrow> channel \<Rightarrow> channel" where
  "opened env row =
     (case open_config (ve_crypto env) (ve_vault env) (ve_text env (ch_id row)) (config row) of
        Inl _ \<Rightarrow> row\<lparr>config := JObj []\<rparr> | Inr j \<Rightarrow> row\<lparr>config := j\<rparr>)"

definition channel_in :: "uuid \<Rightarrow> uuid \<Rightarrow> channel \<Rightarrow> bool" where
  "channel_in p i ch \<longleftrightarrow> ch_id ch = i \<and> ch_project ch = p"

definition repo_listForProject :: "channel_env \<Rightarrow> uuid \<Rightarrow> db \<Rightarrow> channel list" where
  "repo_listForProject env p s =
     map (opened env) (sort_key ch_createdAt (filter (\<lambda>ch. ch_project ch = p) (channels s)))"

definition repo_create :: "channel_env \<Rightarrow> uuid \<Rightarrow> create_channel_request \<Rightarrow> db \<Rightarrow> http_error + channel \<times> db" where
  "repo_create env p r s =
     (let i = next_id s;
          row = \<lparr>ch_id = i, ch_project = p, ch_type = cc_type r, ch_name = cc_name r,
                 config = seal (ve_crypto env) (ve_vault env) (ve_iv env) (ve_text env i) (cc_config r),
                 enabled = True, lastTestedAt = None, ch_createdAt = ve_now env\<rparr>
      in if p \<notin> pr_id ` set (projects s) then Inl ServerError
         else Inr (opened env row, s\<lparr>channels := channels s @ [row], next_id := Suc i\<rparr>))"

definition findInProject :: "channel_env \<Rightarrow> uuid \<Rightarrow> uuid \<Rightarrow> db \<Rightarrow> channel option" where
  "findInProject env p i s = map_option (opened env) (find (channel_in p i) (channels s))"

text \<open>The project is joined in; the foreign key makes sure of one.\<close>

definition findWithProject :: "channel_env \<Rightarrow> uuid \<Rightarrow> uuid \<Rightarrow> db \<Rightarrow> http_error + channel \<times> project" where
  "findWithProject env p i s =
     (case findInProject env p i s of
        None \<Rightarrow> Inl NotFound
      | Some ch \<Rightarrow>
          (case find (\<lambda>x. pr_id x = p) (projects s) of None \<Rightarrow> Inl ServerError | Some x \<Rightarrow> Inr (ch, x)))"

definition patched :: "update_channel_request \<Rightarrow> channel \<Rightarrow> channel" where
  "patched patch ch = ch\<lparr>ch_name := (case uc_name patch of None \<Rightarrow> ch_name ch | Some n \<Rightarrow> n),
     enabled := (case uc_enabled patch of None \<Rightarrow> enabled ch | Some b \<Rightarrow> b)\<rparr>"

definition repo_update :: "channel_env \<Rightarrow> uuid \<Rightarrow> uuid \<Rightarrow> update_channel_request \<Rightarrow> db \<Rightarrow> channel option \<times> db" where
  "repo_update env p i patch s =
     (let s' = s\<lparr>channels := update_where (channel_in p i) (patched patch) (channels s)\<rparr>
      in if \<not> list_ex (channel_in p i) (channels s) then (None, s')
         else (map_option (opened env) (find (\<lambda>ch. ch_id ch = i) (channels s')), s'))"

text \<open>Zero when the test may go ahead, otherwise the seconds to wait.\<close>

definition testable :: "channel_env \<Rightarrow> uuid \<Rightarrow> uuid \<Rightarrow> channel \<Rightarrow> bool" where
  "testable env p i ch \<longleftrightarrow> channel_in p i ch
     \<and> (case lastTestedAt ch of None \<Rightarrow> True | Some t \<Rightarrow> t < ve_now env - int (ve_cooldown env) * 1000)"

definition claimTest :: "channel_env \<Rightarrow> uuid \<Rightarrow> uuid \<Rightarrow> db \<Rightarrow> nat \<times> db" where
  "claimTest env p i s =
     (let s' = s\<lparr>channels := update_where (testable env p i) (\<lambda>ch. ch\<lparr>lastTestedAt := Some (ve_now env)\<rparr>) (channels s)\<rparr>
      in if list_ex (testable env p i) (channels s) then (0, s')
         else (case Option.bind (findInProject env p i s') lastTestedAt of
                 None \<Rightarrow> (0, s')
               | Some t \<Rightarrow>
                   (nat (max 1 (ceil_seconds (int (ve_cooldown env) * 1000 - (ve_now env - t)))), s')))"

text \<open>The deliveries of a channel go with it.\<close>

definition repo_delete :: "uuid \<Rightarrow> uuid \<Rightarrow> db \<Rightarrow> bool \<times> db" where
  "repo_delete p i s =
     (let gone = ch_id ` set (filter (channel_in p i) (channels s))
      in (list_ex (channel_in p i) (channels s),
          s\<lparr>channels := filter (\<lambda>ch. \<not> channel_in p i ch) (channels s),
            deliveries := filter (\<lambda>d. d_channel d \<notin> gone) (deliveries s)\<rparr>))"

section \<open>What is shown\<close>

text \<open>Two dashes stand for the dash, three dots for the ellipsis.\<close>

definition maskUrl :: "string \<Rightarrow> string \<Rightarrow> string" where
  "maskUrl host path =
     (let first = (case split_on CHR ''/'' path of _ # segment # _ \<Rightarrow> segment | _ \<Rightarrow> []);
          more = CHR ''/'' \<in> set (dropWhile (\<lambda>c. c = CHR ''/'') path)
      in host @ (if first = [] then [] else CHR ''/'' # first) @ (if more then ''/...'' else []))"

definition maskTarget :: "(string \<Rightarrow> (string \<times> string) option) \<Rightarrow> channel_type \<Rightarrow> json \<Rightarrow> string" where
  "maskTarget parts ty cfg =
     (if ty = Email then (case text_field ''address'' cfg of None \<Rightarrow> EM_DASH | Some a \<Rightarrow> a)
      else case text_field ''url'' cfg of
             None \<Rightarrow> EM_DASH
           | Some u \<Rightarrow> (case parts u of None \<Rightarrow> EM_DASH | Some (host, path) \<Rightarrow> maskUrl host path))"

record channel_dto =
  nd_id :: string
  nd_projectId :: string
  nd_type :: channel_type
  nd_name :: string
  nd_enabled :: bool
  nd_target :: string
  nd_createdAt :: string

definition toChannelDto :: "channel_env \<Rightarrow> channel \<Rightarrow> channel_dto" where
  "toChannelDto env ch =
     \<lparr>nd_id = ve_text env (ch_id ch), nd_projectId = ve_text env (ch_project ch), nd_type = ch_type ch,
      nd_name = ch_name ch, nd_enabled = enabled ch,
      nd_target = maskTarget (ve_urlParts env) (ch_type ch) (config ch),
      nd_createdAt = toISOString (ch_createdAt ch)\<rparr>"

section \<open>The service\<close>

definition list_channels :: "channel_env \<Rightarrow> uuid \<Rightarrow> db \<Rightarrow> channel_dto list" where
  "list_channels env p s = map (toChannelDto env) (repo_listForProject env p s)"

text \<open>Counted, looked up, counted again under the account's lock.\<close>

definition create_channel :: "channel_env \<Rightarrow> uuid \<Rightarrow> create_channel_request \<Rightarrow> db \<Rightarrow> (channel_error + channel_dto) \<times> db" where
  "create_channel env p r s =
     (case assertCanAddChannel (ve_quotas env) p s of
        Inl e \<Rightarrow> (Inl (Refused e), s)
      | Inr _ \<Rightarrow>
          (case (if cc_type r = Email then Inr ()
                 else assertTargetIsAllowed (sn_http (ve_senders env))
                        (case text_field ''url'' (cc_config r) of None \<Rightarrow> [] | Some u \<Rightarrow> u)) of
             Inl e \<Rightarrow> (Inl (TargetRejected e), s)
           | Inr _ \<Rightarrow>
               let s' = (if cc_type r = Email then s else ve_meanwhile env s)
               in case assertCanAddChannel (ve_quotas env) p s' of
                    Inl e \<Rightarrow> (Inl (Refused e), s')
                  | Inr _ \<Rightarrow>
                      (case repo_create env p r s' of
                         Inl e \<Rightarrow> (Inl (Refused e), s')
                       | Inr (ch, s'') \<Rightarrow> (Inr (toChannelDto env ch), s''))))"

definition update_channel :: "channel_env \<Rightarrow> uuid \<Rightarrow> uuid \<Rightarrow> update_channel_request \<Rightarrow> db \<Rightarrow> (channel_error + channel_dto) \<times> db" where
  "update_channel env p i patch s =
     (case repo_update env p i patch s of
        (None, s') \<Rightarrow> (Inl (Refused NotFound), s')
      | (Some ch, s') \<Rightarrow> (Inr (toChannelDto env ch), s'))"

definition get_channel :: "channel_env \<Rightarrow> uuid \<Rightarrow> uuid \<Rightarrow> db \<Rightarrow> channel_error + channel_dto" where
  "get_channel env p i s =
     (case findInProject env p i s of None \<Rightarrow> Inl (Refused NotFound) | Some ch \<Rightarrow> Inr (toChannelDto env ch))"

definition remove_channel :: "uuid \<Rightarrow> uuid \<Rightarrow> db \<Rightarrow> (channel_error + unit) \<times> db" where
  "remove_channel p i s =
     (case repo_delete p i s of (True, s') \<Rightarrow> (Inr (), s') | (False, s') \<Rightarrow> (Inl (Refused NotFound), s'))"

definition buildTestAlert :: "channel_env \<Rightarrow> project \<Rightarrow> alert" where
  "buildTestAlert env pr =
     \<lparr>al_kind = DownAlert,
      al_check = \<lparr>scheduleType = Cron, periodSeconds = None, cronExpression = Some ''0 2 * * *'', timezone = ''UTC'',
        ac_id = fst (ve_ids env), ac_name = ''SilenceWatch test check'', ac_state = DOWN,
        ac_environment = Some ''test'', ac_tags = [''test''], ac_lastPingAt = Some (ve_now env - 3600000),
        ac_nextDueAt = Some (ve_now env - 600000), ac_graceSeconds = 300\<rparr>,
      al_project = (pr_id pr, pr_name pr),
      al_incident = \<lparr>ai_id = snd (ve_ids env), ai_startedAt = ve_now env, ai_resolvedAt = None, ai_cause = Missed\<rparr>,
      al_url = ve_baseUrl env @ ''/projects/'' @ ve_text env (pr_id pr)\<rparr>"

definition assertTestAllowed ::
  "channel_env \<Rightarrow> uuid \<Rightarrow> uuid \<Rightarrow> uuid \<Rightarrow> audit_service \<Rightarrow> db \<Rightarrow> (channel_error + unit) \<times> db" where
  "assertTestAllowed env p i u au s =
     (if 0 < ve_maxPerHour env
         \<and> ve_maxPerHour env \<le> countRecent ''channel.tested'' u (ve_now env - 3600000) au
      then (Inl (TestLimit (ve_maxPerHour env)), s)
      else if 0 < ve_cooldown env
      then (let (wait, s') = claimTest env p i s
            in if 0 < wait then (Inl (TestCooldown wait), s') else (Inr (), s'))
      else (Inr (), s))"

definition sendTest ::
  "channel_env \<Rightarrow> uuid \<Rightarrow> uuid \<Rightarrow> uuid \<Rightarrow> audit_service \<Rightarrow> db \<Rightarrow> (channel_error + unit) \<times> db" where
  "sendTest env p i u au s =
     (case findWithProject env p i s of
        Inl e \<Rightarrow> (Inl (Refused e), s)
      | Inr (ch, pr) \<Rightarrow>
          (case assertTestAllowed env p i u au s of
             (Inl e, s') \<Rightarrow> (Inl e, s')
           | (Inr _, s') \<Rightarrow>
               (case send_alert (ve_senders env) (ve_now env) (ch_type ch) (buildTestAlert env pr) (config ch) of
                  Inl msg \<Rightarrow> (Inl (TestFailed msg), s') | Inr _ \<Rightarrow> (Inr (), s'))))"

section \<open>The routes\<close>

datatype channel_request =
    ListChannels
  | CreateChannel create_channel_request
  | UpdateChannel uuid update_channel_request
  | RemoveChannel uuid
  | TestChannel uuid

datatype channel_answer = ChannelList "channel_dto list" | OneChannel channel_dto | Nothing

record channel_state =
  vs_db :: db
  vs_audit :: audit_service

definition noted ::
  "channel_env \<Rightarrow> principal \<Rightarrow> uuid \<Rightarrow> string \<Rightarrow> string \<Rightarrow> string option \<Rightarrow> json option \<Rightarrow> channel_state \<Rightarrow> channel_state" where
  "noted env pr p act tid label detail st =
     st\<lparr>vs_audit := write_event (ve_now env) (ve_recorded env) (vs_db st)
          \<lparr>r_action = act, r_actor = auditActor (ve_ip env) (ve_agent env) pr, r_projectId = Some p,
           r_targetType = Some ''channel'', r_targetId = Some tid, r_targetLabel = label,
           r_detail = map_option (sn_stringify (ve_senders env)) detail\<rparr> (vs_audit st)\<rparr>"

definition target_detail :: "channel_dto \<Rightarrow> json" where
  "target_detail d = JObj [(''type'', JStr (channel_type_text (nd_type d))), (''target'', JStr (nd_target d))]"

type_synonym channel_reply = "(channel_error + channel_answer) \<times> channel_state"

definition route_channels_list :: "channel_env \<Rightarrow> principal \<Rightarrow> uuid \<Rightarrow> channel_state \<Rightarrow> channel_reply" where
  "route_channels_list env pr p st =
     (case assertAccess pr p Member (vs_db st) of
        Inl e \<Rightarrow> (Inl (Refused e), st)
      | Inr _ \<Rightarrow> (Inr (ChannelList (list_channels env p (vs_db st))), st))"

definition route_channel_create :: "channel_env \<Rightarrow> principal \<Rightarrow> uuid \<Rightarrow> create_channel_request \<Rightarrow> channel_state \<Rightarrow> channel_reply" where
  "route_channel_create env pr p raw st =
     (case createChannelRequestSchema (sn_schemas (ve_senders env)) raw of
        None \<Rightarrow> (Inl (Refused BadRequest), st)
      | Some r \<Rightarrow>
          (case assertAccess pr p Admin (vs_db st) of
             Inl e \<Rightarrow> (Inl (Refused e), st)
           | Inr _ \<Rightarrow>
               (case create_channel env p r (vs_db st) of
                  (Inl e, s) \<Rightarrow> (Inl e, st\<lparr>vs_db := s\<rparr>)
                | (Inr d, s) \<Rightarrow>
                    (Inr (OneChannel d),
                     noted env pr p ''channel.created'' (nd_id d) (Some (nd_name d)) (Some (target_detail d)) (st\<lparr>vs_db := s\<rparr>)))))"

definition route_channel_update :: "channel_env \<Rightarrow> principal \<Rightarrow> uuid \<Rightarrow> uuid \<Rightarrow> update_channel_request \<Rightarrow> channel_state \<Rightarrow> channel_reply" where
  "route_channel_update env pr p i raw st =
     (case updateChannelRequestSchema raw of
        None \<Rightarrow> (Inl (Refused BadRequest), st)
      | Some patch \<Rightarrow>
          (case assertAccess pr p Admin (vs_db st) of
             Inl e \<Rightarrow> (Inl (Refused e), st)
           | Inr _ \<Rightarrow>
               (case update_channel env p i patch (vs_db st) of
                  (Inl e, s) \<Rightarrow> (Inl e, st\<lparr>vs_db := s\<rparr>)
                | (Inr d, s) \<Rightarrow>
                    (Inr (OneChannel d),
                     noted env pr p ''channel.updated'' (ve_text env i) (Some (nd_name d))
                       (Some (JObj [(''enabled'', JBool (nd_enabled d))])) (st\<lparr>vs_db := s\<rparr>)))))"

definition route_channel_remove :: "channel_env \<Rightarrow> principal \<Rightarrow> uuid \<Rightarrow> uuid \<Rightarrow> channel_state \<Rightarrow> channel_reply" where
  "route_channel_remove env pr p i st =
     (case assertAccess pr p Admin (vs_db st) of
        Inl e \<Rightarrow> (Inl (Refused e), st)
      | Inr _ \<Rightarrow>
          (case get_channel env p i (vs_db st) of
             Inl e \<Rightarrow> (Inl e, st)
           | Inr doomed \<Rightarrow>
               (case remove_channel p i (vs_db st) of
                  (Inl e, s) \<Rightarrow> (Inl e, st\<lparr>vs_db := s\<rparr>)
                | (Inr _, s) \<Rightarrow>
                    (Inr Nothing,
                     noted env pr p ''channel.deleted'' (ve_text env i) (Some (nd_name doomed))
                       (Some (target_detail doomed)) (st\<lparr>vs_db := s\<rparr>)))))"

definition route_channel_test :: "channel_env \<Rightarrow> principal \<Rightarrow> uuid \<Rightarrow> uuid \<Rightarrow> channel_state \<Rightarrow> channel_reply" where
  "route_channel_test env pr p i st =
     (case assertAccess pr p Admin (vs_db st) of
        Inl e \<Rightarrow> (Inl (Refused e), st)
      | Inr _ \<Rightarrow>
          (case assertUser pr of
             Inl e \<Rightarrow> (Inl (Refused e), st)
           | Inr (u, _) \<Rightarrow>
               (case sendTest env p i u (vs_audit st) (vs_db st) of
                  (Inl e, s) \<Rightarrow> (Inl e, st\<lparr>vs_db := s\<rparr>)
                | (Inr _, s) \<Rightarrow>
                    (Inr Nothing, noted env pr p ''channel.tested'' (ve_text env i) None None (st\<lparr>vs_db := s\<rparr>)))))"

fun serve_channel :: "channel_env \<Rightarrow> principal \<Rightarrow> uuid \<Rightarrow> channel_request \<Rightarrow> channel_state \<Rightarrow> channel_reply" where
  "serve_channel env pr p ListChannels st = route_channels_list env pr p st"
| "serve_channel env pr p (CreateChannel r) st = route_channel_create env pr p r st"
| "serve_channel env pr p (UpdateChannel i r) st = route_channel_update env pr p i r st"
| "serve_channel env pr p (RemoveChannel i) st = route_channel_remove env pr p i st"
| "serve_channel env pr p (TestChannel i) st = route_channel_test env pr p i st"

section \<open>What a request does to the tables\<close>

lemma noted_db [simp]: "vs_db (noted env pr p act t l d st) = vs_db st"
  by (simp add: noted_def)

lemma create_channel_cases:
  assumes "create_channel env p r s = (res, s')"
  obtains (refused) e where "res = Inl e" "s' = s \<or> s' = ve_meanwhile env s"
    | (created) t ch where "t = s \<or> t = ve_meanwhile env s" "assertCanAddChannel (ve_quotas env) p t = Inr ()"
        "repo_create env p r t = Inr (ch, s')" "res = Inr (toChannelDto env ch)"
proof -
  define t where "t = (if cc_type r = Email then s else ve_meanwhile env s)"
  have t: "t = s \<or> t = ve_meanwhile env s" by (simp add: t_def)
  have "(\<exists>e. res = Inl e \<and> (s' = s \<or> s' = t)) \<or> (\<exists>ch. assertCanAddChannel (ve_quotas env) p t = Inr ()
      \<and> repo_create env p r t = Inr (ch, s') \<and> res = Inr (toChannelDto env ch))"
    using assms unfolding create_channel_def t_def [symmetric] Let_def by (auto split: sum.splits prod.splits)
  then show ?thesis using that t by blast
qed

definition new_channel :: "channel_env \<Rightarrow> uuid \<Rightarrow> create_channel_request \<Rightarrow> uuid \<Rightarrow> channel" where
  "new_channel env p r i =
     \<lparr>ch_id = i, ch_project = p, ch_type = cc_type r, ch_name = cc_name r,
      config = seal (ve_crypto env) (ve_vault env) (ve_iv env) (ve_text env i) (cc_config r),
      enabled = True, lastTestedAt = None, ch_createdAt = ve_now env\<rparr>"

lemma repo_createD:
  assumes "repo_create env p r s = Inr (ch, s')"
  shows "s' = s\<lparr>channels := channels s @ [new_channel env p r (next_id s)], next_id := Suc (next_id s)\<rparr>"
    and "ch = opened env (new_channel env p r (next_id s))" and "p \<in> pr_id ` set (projects s)"
  using assms by (auto simp: repo_create_def new_channel_def Let_def split: if_splits)

lemma patched_simps [simp]:
  "ch_id (patched patch ch) = ch_id ch" "ch_project (patched patch ch) = ch_project ch"
  "config (patched patch ch) = config ch" "lastTestedAt (patched patch ch) = lastTestedAt ch"
  by (simp_all add: patched_def)

lemma new_channel_simps [simp]:
  "ch_id (new_channel env p r i) = i" "ch_project (new_channel env p r i) = p"
  "config (new_channel env p r i) = seal (ve_crypto env) (ve_vault env) (ve_iv env) (ve_text env i) (cc_config r)"
  "lastTestedAt (new_channel env p r i) = None"
  by (simp_all add: new_channel_def)

lemma update_channel_db: "update_channel env p i patch s = (d, s') \<Longrightarrow> s' = snd (repo_update env p i patch s)"
  by (auto simp: update_channel_def split: prod.splits option.splits)

lemma remove_channel_db: "remove_channel p i s = (d, s') \<Longrightarrow> s' = snd (repo_delete p i s)"
  by (auto simp: remove_channel_def split: prod.splits bool.splits)

lemma claimTest_db:
  "snd (claimTest env p i s) =
     s\<lparr>channels := update_where (testable env p i) (\<lambda>ch. ch\<lparr>lastTestedAt := Some (ve_now env)\<rparr>) (channels s)\<rparr>"
  by (simp add: claimTest_def Let_def split: option.split)

lemma sendTest_db:
  assumes "sendTest env p i u au s = (res, s')"
  shows "s' = s \<or> s' = snd (claimTest env p i s)"
  using assms unfolding sendTest_def assertTestAllowed_def
  by (auto simp: Let_def split: sum.splits prod.splits if_splits)

lemma created_answer:
  assumes "serve_channel env pr p (CreateChannel raw) st = (Inr a, st')"
  obtains c s ch where "createChannelRequestSchema (sn_schemas (ve_senders env)) raw = Some c"
    "s = vs_db st \<or> s = ve_meanwhile env (vs_db st)" "assertCanAddChannel (ve_quotas env) p s = Inr ()"
    "repo_create env p c s = Inr (ch, vs_db st')" "a = OneChannel (toChannelDto env ch)"
proof -
  have "\<exists>c d. createChannelRequestSchema (sn_schemas (ve_senders env)) raw = Some c
      \<and> create_channel env p c (vs_db st) = (Inr d, vs_db st') \<and> a = OneChannel d"
    using assms by (auto simp: route_channel_create_def split: option.splits sum.splits prod.splits)
  then obtain c d where c: "createChannelRequestSchema (sn_schemas (ve_senders env)) raw = Some c"
    and d: "create_channel env p c (vs_db st) = (Inr d, vs_db st')" and a: "a = OneChannel d"
    by blast
  from d show ?thesis
    by (cases rule: create_channel_cases) (use that c a in auto)
qed

lemma serve_channel_cases:
  assumes "serve_channel env pr p r st = (res, st')"
  obtains (same) "vs_db st' = vs_db st"
    | (others) "vs_db st' = ve_meanwhile env (vs_db st)"
    | (created) c s ch raw where "r = CreateChannel raw" "createChannelRequestSchema (sn_schemas (ve_senders env)) raw = Some c"
        "s = vs_db st \<or> s = ve_meanwhile env (vs_db st)" "assertCanAddChannel (ve_quotas env) p s = Inr ()"
        "repo_create env p c s = Inr (ch, vs_db st')" "res = Inr (OneChannel (toChannelDto env ch))"
    | (updated) i patch where "vs_db st' = snd (repo_update env p i patch (vs_db st))"
    | (deleted) i where "vs_db st' = snd (repo_delete p i (vs_db st))"
    | (claimed) i where "r = TestChannel i" "vs_db st' = snd (claimTest env p i (vs_db st))"
proof (cases r)
  case ListChannels
  then have "vs_db st' = vs_db st" using assms by (auto simp: route_channels_list_def split: sum.splits)
  then show ?thesis by (rule that(1))
next
  case (CreateChannel raw)
  show ?thesis
  proof (cases "vs_db st' = vs_db st")
    case False
    then have "\<exists>c d. createChannelRequestSchema (sn_schemas (ve_senders env)) raw = Some c
        \<and> create_channel env p c (vs_db st) = (d, vs_db st') \<and> (\<forall>x. d = Inr x \<longrightarrow> res = Inr (OneChannel x))"
      using assms CreateChannel
      by (auto simp: route_channel_create_def split: option.splits sum.splits prod.splits)
    then obtain c d where c: "createChannelRequestSchema (sn_schemas (ve_senders env)) raw = Some c"
      and d: "create_channel env p c (vs_db st) = (d, vs_db st')"
      and res: "\<And>x. d = Inr x \<Longrightarrow> res = Inr (OneChannel x)"
      by blast
    from d show ?thesis
    proof (cases rule: create_channel_cases)
      case refused
      then show ?thesis using that(1,2) by blast
    next
      case (created t ch)
      then show ?thesis using that(3) CreateChannel c res by blast
    qed
  qed (rule that(1))
next
  case (UpdateChannel i raw)
  then have "vs_db st' = vs_db st \<or> (\<exists>patch. vs_db st' = snd (repo_update env p i patch (vs_db st)))"
    using assms by (auto simp: route_channel_update_def dest!: update_channel_db split: option.splits sum.splits prod.splits)
  then show ?thesis using that(1,4) by blast
next
  case (RemoveChannel i)
  then have "vs_db st' = vs_db st \<or> vs_db st' = snd (repo_delete p i (vs_db st))"
    using assms by (auto simp: route_channel_remove_def dest!: remove_channel_db split: sum.splits prod.splits)
  then show ?thesis using that(1,5) by blast
next
  case (TestChannel i)
  then have "vs_db st' = vs_db st \<or> vs_db st' = snd (claimTest env p i (vs_db st))"
    using assms
    by (auto simp: route_channel_test_def dest!: sendTest_db split: sum.splits prod.splits)
  then show ?thesis using that(1,6) TestChannel by blast
qed

text \<open>Deliveries of channels that are not the project's, and everything but channels.\<close>

definition foreign :: "uuid \<Rightarrow> db \<Rightarrow> delivery \<Rightarrow> bool" where
  "foreign p s d \<longleftrightarrow> (\<forall>ch \<in> set (channels s). ch_id ch = d_channel d \<longrightarrow> ch_project ch \<noteq> p)"

definition around_channels :: "db \<Rightarrow> db" where
  "around_channels s = s\<lparr>channels := [], deliveries := [], next_id := 0\<rparr>"

lemma filter_update_keep:
  "(\<And>x. p x \<Longrightarrow> \<not> Q x \<and> \<not> Q (f x)) \<Longrightarrow> filter Q (update_where p f xs) = filter Q xs"
  by (induction xs) auto

lemma around_owner: "ownerOf p (around_channels s) = ownerOf p s"
  by (simp add: around_channels_def ownerOf_def split: option.split)

lemma channel_home:
  assumes "serve_channel env pr p r st = (res, st')" and "ve_meanwhile env (vs_db st) = vs_db st"
  shows "filter (\<lambda>ch. ch_project ch \<noteq> p) (channels (vs_db st')) = filter (\<lambda>ch. ch_project ch \<noteq> p) (channels (vs_db st))
    \<and> filter (foreign p (vs_db st)) (deliveries (vs_db st')) = filter (foreign p (vs_db st)) (deliveries (vs_db st))
    \<and> around_channels (vs_db st') = around_channels (vs_db st)"
  using assms(1)
proof (cases rule: serve_channel_cases)
  case (created c s ch raw)
  then have "s = vs_db st" using assms(2) by simp
  then show ?thesis
    using repo_createD(1) [OF created(5)] by (simp add: around_channels_def)
next
  case (updated i patch)
  then show ?thesis
    by (auto simp: repo_update_def Let_def around_channels_def channel_in_def intro!: filter_update_keep)
next
  case (deleted i)
  have "filter (foreign p (vs_db st)) (filter (\<lambda>d. d_channel d \<notin> ch_id ` set (filter (channel_in p i) (channels (vs_db st)))) (deliveries (vs_db st)))
      = filter (foreign p (vs_db st)) (deliveries (vs_db st))"
    unfolding filter_filter by (rule filter_cong) (auto simp: foreign_def channel_in_def)
  moreover have "filter (\<lambda>ch. ch_project ch \<noteq> p) (filter (\<lambda>ch. \<not> channel_in p i ch) chs) = filter (\<lambda>ch. ch_project ch \<noteq> p) chs" for chs
    unfolding filter_filter by (rule filter_cong) (auto simp: channel_in_def)
  ultimately show ?thesis using deleted by (simp add: repo_delete_def Let_def around_channels_def)
next
  case (claimed i)
  then show ?thesis
    by (auto simp: claimTest_db around_channels_def testable_def channel_in_def intro!: filter_update_keep)
qed (use assms(2) in simp_all)

text \<open>
  A project's channel requests stay in the project: whoever asks and whatever is asked, the
  channels of every other project, and everything of the tables but channels and deliveries,
  are as before, and so are the deliveries of other projects' channels; an answer is given only
  to somebody with access to the project.
\<close>

theorem channel_requests_stay_home:
  assumes "serve_channel env pr p r st = (res, st')" and "ve_meanwhile env (vs_db st) = vs_db st"
  shows "filter (\<lambda>ch. ch_project ch \<noteq> p) (channels (vs_db st')) = filter (\<lambda>ch. ch_project ch \<noteq> p) (channels (vs_db st))
    \<and> filter (foreign p (vs_db st)) (deliveries (vs_db st')) = filter (foreign p (vs_db st)) (deliveries (vs_db st))
    \<and> around_channels (vs_db st') = around_channels (vs_db st)
    \<and> (case res of Inr _ \<Rightarrow> assertAccess pr p Member (vs_db st) = Inr () | Inl _ \<Rightarrow> True)"
proof -
  have access: "assertAccess pr p m s = Inr () \<Longrightarrow> assertAccess pr p Member s = Inr ()" for m s
    by (cases pr; cases m) (auto split: if_splits option.splits)
  have "(case res of Inr _ \<Rightarrow> assertAccess pr p Member (vs_db st) = Inr () | Inl _ \<Rightarrow> True)"
    using assms(1) access [of Admin "vs_db st"]
    by (cases r)
      (auto simp: route_channels_list_def route_channel_create_def route_channel_update_def
        route_channel_remove_def route_channel_test_def split: option.splits sum.splits prod.splits)
  moreover have "filter (\<lambda>ch. ch_project ch \<noteq> p) (channels (vs_db st')) = filter (\<lambda>ch. ch_project ch \<noteq> p) (channels (vs_db st))
    \<and> filter (foreign p (vs_db st)) (deliveries (vs_db st')) = filter (foreign p (vs_db st)) (deliveries (vs_db st))
    \<and> around_channels (vs_db st') = around_channels (vs_db st)"
    by (rule channel_home [OF assms])
  ultimately show ?thesis by blast
qed

section \<open>Sealed at rest, readable by its owner\<close>

definition sealed_at_rest :: "db \<Rightarrow> bool" where
  "sealed_at_rest s \<longleftrightarrow> (\<forall>ch \<in> set (channels s). isSealed (config ch))"

text \<open>
  C21. No request puts a configuration into the table in the clear, and one that creates a
  channel answers with the channel whose stored configuration opens, under this server's key and
  its own identifier, to exactly what the schema accepted.
\<close>

theorem channels_sealed_at_rest:
  assumes "serve_channel env pr p r st = (res, st')" and "sealed_at_rest (vs_db st)"
    and "sealed_at_rest (ve_meanwhile env (vs_db st))" and "crypto_laws (ve_crypto env)" and "key_id_ok (ve_vault env)"
  shows "sealed_at_rest (vs_db st')
    \<and> (\<forall>raw d. r = CreateChannel raw \<and> res = Inr (OneChannel d) \<longrightarrow>
         (\<exists>c ch. createChannelRequestSchema (sn_schemas (ve_senders env)) raw = Some c \<and> ch \<in> set (channels (vs_db st'))
            \<and> open_config (ve_crypto env) (ve_vault env) (ve_text env (ch_id ch)) (config ch) = Inr (cc_config c)
            \<and> d = toChannelDto env (ch\<lparr>config := cc_config c\<rparr>)))"
proof
  show "sealed_at_rest (vs_db st')"
    using assms(1)
  proof (cases rule: serve_channel_cases)
    case (created c s ch raw)
    then show ?thesis using repo_createD(1) [OF created(5)] assms(2,3) by (auto simp: sealed_at_rest_def)
  next
    case (updated i patch)
    then show ?thesis
      using assms(2) by (auto simp: sealed_at_rest_def repo_update_def Let_def elim!: update_where_memE)
  next
    case (deleted i)
    then show ?thesis using assms(2) by (auto simp: sealed_at_rest_def repo_delete_def Let_def)
  next
    case (claimed i)
    then show ?thesis using assms(2) by (auto simp: sealed_at_rest_def claimTest_db elim!: update_where_memE)
  qed (use assms(2,3) in simp_all)
next
  show "\<forall>raw d. r = CreateChannel raw \<and> res = Inr (OneChannel d) \<longrightarrow>
         (\<exists>c ch. createChannelRequestSchema (sn_schemas (ve_senders env)) raw = Some c \<and> ch \<in> set (channels (vs_db st'))
            \<and> open_config (ve_crypto env) (ve_vault env) (ve_text env (ch_id ch)) (config ch) = Inr (cc_config c)
            \<and> d = toChannelDto env (ch\<lparr>config := cc_config c\<rparr>))"
  proof (intro allI impI, elim conjE)
    fix raw d
    assume "r = CreateChannel raw" "res = Inr (OneChannel d)"
    then have "serve_channel env pr p (CreateChannel raw) st = (Inr (OneChannel d), st')" using assms(1) by simp
    then obtain c s ch where c: "createChannelRequestSchema (sn_schemas (ve_senders env)) raw = Some c"
      and new: "repo_create env p c s = Inr (ch, vs_db st')" and d: "d = toChannelDto env ch"
      by (rule created_answer) auto
    let ?row = "new_channel env p c (next_id s)"
    have own: "open_config (ve_crypto env) (ve_vault env) (ve_text env (ch_id ?row)) (config ?row) = Inr (cc_config c)"
      by (simp add: open_own_seal assms(4,5))
    then have "ch = ?row\<lparr>config := cc_config c\<rparr>"
      using repo_createD(2) [OF new] by (simp add: opened_def)
    moreover have "?row \<in> set (channels (vs_db st'))" using repo_createD(1) [OF new] by simp
    ultimately show "\<exists>c ch. createChannelRequestSchema (sn_schemas (ve_senders env)) raw = Some c \<and> ch \<in> set (channels (vs_db st'))
            \<and> open_config (ve_crypto env) (ve_vault env) (ve_text env (ch_id ch)) (config ch) = Inr (cc_config c)
            \<and> d = toChannelDto env (ch\<lparr>config := cc_config c\<rparr>)"
      using c d own by blast
  qed
qed

text \<open>
  However many channels others added while a target was being looked up, the project
  holds no more than its plan allows once a creation has been answered.
\<close>

theorem channel_limit_holds:
  assumes "serve_channel env pr p (CreateChannel raw) st = (Inr a, st')" and "quotas_enabled (ve_quotas env)"
    and "ownerOf p (vs_db st') = Some (u, plan)" and "pl_channelsPerProject (limitsFor (ve_quotas env) plan) = Some l"
  shows "length (filter (\<lambda>ch. ch_project ch = p) (channels (vs_db st'))) \<le> l"
  using assms(1)
proof (rule created_answer)
  fix c s ch
  assume may: "assertCanAddChannel (ve_quotas env) p s = Inr ()" and new: "repo_create env p c s = Inr (ch, vs_db st')"
  have "ownerOf p s = Some (u, plan)"
    using assms(3) repo_createD(1) [OF new] by (simp add: ownerOf_def split: option.splits)
  then have "length (filter (\<lambda>ch. ch_project ch = p) (channels s)) + 1 \<le> l"
    using may assms(2,4)
    by (auto simp: assertCanAddChannel_def Let_def split: if_splits)
  then show ?thesis using repo_createD(1) [OF new] by simp
qed

section \<open>Tests are spaced\<close>

type_synonym channel_call = "channel_env \<times> principal \<times> uuid \<times> channel_request"

text \<open>A test that was let through: the sender was called, with whatever success.\<close>

fun tried :: "channel_error + 'a \<Rightarrow> bool" where
  "tried (Inr _) = True"
| "tried (Inl (TestFailed _)) = True"
| "tried (Inl _) = False"

lemma tried_Inl: "tried (Inl e) \<longleftrightarrow> (case e of TestFailed _ \<Rightarrow> True | _ \<Rightarrow> False)"
  by (cases e) simp_all

fun test_times :: "uuid \<Rightarrow> uuid \<Rightarrow> channel_call list \<Rightarrow> channel_state \<Rightarrow> millis list" where
  "test_times p i [] st = []"
| "test_times p i ((env, pr, q, r) # calls) st =
     (let (res, st') = serve_channel env pr q r st
      in (if q = p \<and> r = TestChannel i \<and> tried res then [ve_now env] else []) @ test_times p i calls st')"

definition channels_ok :: "db \<Rightarrow> bool" where
  "channels_ok s \<longleftrightarrow> distinct (map ch_id (channels s)) \<and> (\<forall>ch \<in> set (channels s). ch_id ch < next_id s)"

definition tested_since :: "uuid \<Rightarrow> uuid \<Rightarrow> millis \<Rightarrow> db \<Rightarrow> bool" where
  "tested_since p i t s \<longleftrightarrow> i < next_id s
     \<and> (\<forall>ch \<in> set (channels s). channel_in p i ch \<longrightarrow> (\<exists>l. lastTestedAt ch = Some l \<and> t \<le> l))"

lemma serve_keeps_tested:
  assumes "serve_channel env pr q r st = (res, st')" "tested_since p i t (vs_db st)"
    "t \<le> ve_now env" "\<And>s. ve_meanwhile env s = s"
  shows "tested_since p i t (vs_db st')"
  using assms(1)
proof (cases rule: serve_channel_cases)
  case (created c s ch raw)
  then have "s = vs_db st" using assms(4) by simp
  then show ?thesis
    using repo_createD(1) [OF created(5)] assms(2) by (auto simp: tested_since_def channel_in_def)
next
  case (updated j patch)
  then show ?thesis
    using assms(2) by (auto simp: tested_since_def repo_update_def Let_def channel_in_def elim!: update_where_memE)
next
  case (deleted j)
  then show ?thesis using assms(2) by (auto simp: tested_since_def repo_delete_def Let_def)
next
  case (claimed j)
  then show ?thesis
    using assms(2,3) by (auto simp: tested_since_def claimTest_db channel_in_def elim!: update_where_memE)
qed (use assms(2,4) in simp_all)

lemma serve_keeps_channels:
  assumes "serve_channel env pr q r st = (res, st')" "channels_ok (vs_db st)" "\<And>s. ve_meanwhile env s = s"
  shows "channels_ok (vs_db st')"
  using assms(1)
proof (cases rule: serve_channel_cases)
  case (created c s ch raw)
  then have "s = vs_db st" using assms(3) by simp
  then show ?thesis using repo_createD(1) [OF created(5)] assms(2) by (force simp: channels_ok_def)
next
  case (updated i patch)
  then show ?thesis
    using assms(2) by (auto simp: channels_ok_def repo_update_def Let_def map_update_where elim!: update_where_memE)
next
  case (deleted i)
  then show ?thesis using assms(2) by (auto simp: channels_ok_def repo_delete_def Let_def distinct_map_filter)
next
  case (claimed i)
  then show ?thesis
    using assms(2) by (auto simp: channels_ok_def claimTest_db map_update_where elim!: update_where_memE)
qed (use assms(2,3) in simp_all)

text \<open>A test that is tried found its channel testable, and has marked it.\<close>

lemma tried_testD:
  assumes "serve_channel env pr p (TestChannel i) st = (res, st')" "tried res" "0 < ve_cooldown env"
  obtains ch where "ch \<in> set (channels (vs_db st))" "testable env p i ch" "vs_db st' = snd (claimTest env p i (vs_db st))"
proof -
  have "\<exists>u a. sendTest env p i u (vs_audit st) (vs_db st) = (a, vs_db st') \<and> tried a"
    using assms(1,2) by (auto simp: route_channel_test_def split: sum.splits prod.splits) (metis tried_Inl tried.simps(1))+
  then obtain u a where send: "sendTest env p i u (vs_audit st) (vs_db st) = (a, vs_db st')"
    and a: "tried a"
    by blast
  obtain ch pr where found: "findWithProject env p i (vs_db st) = Inr (ch, pr)"
    using send a by (cases "findWithProject env p i (vs_db st)") (auto simp: sendTest_def)
  obtain s' where "assertTestAllowed env p i u (vs_audit st) (vs_db st) = (Inr (), s')"
    using send a found
    by (auto simp: sendTest_def assertTestAllowed_def Let_def split: prod.splits if_splits)
  moreover have "vs_db st' = snd (assertTestAllowed env p i u (vs_audit st) (vs_db st))"
    using send found by (auto simp: sendTest_def split: prod.splits sum.splits)
  ultimately have claim: "claimTest env p i (vs_db st) = (0, vs_db st')"
    using assms(3) by (auto simp: assertTestAllowed_def Let_def split: prod.splits if_splits)
  obtain row where row: "find (channel_in p i) (channels (vs_db st)) = Some row"
    using found by (auto simp: findWithProject_def findInProject_def split: option.splits)
  have "list_ex (testable env p i) (channels (vs_db st))"
  proof (rule ccontr)
    assume none: "\<not> list_ex (testable env p i) (channels (vs_db st))"
    then have "update_where (testable env p i) f (channels (vs_db st)) = channels (vs_db st)" for f
      by (intro update_where_id) (auto simp: list_ex_iff)
    moreover have "lastTestedAt (opened env row) = lastTestedAt row"
      by (simp add: opened_def split: sum.split)
    moreover have "lastTestedAt row \<noteq> None"
      using none find_SomeD [OF row] by (cases "lastTestedAt row") (auto simp: list_ex_iff testable_def)
    ultimately show False
      using claim none row by (auto simp: claimTest_def Let_def findInProject_def split: option.splits)
  qed
  then show ?thesis using that claim by (auto simp: list_ex_iff)
qed

text \<open>Calls one after another, under one cooldown.\<close>

fun orderly :: "nat \<Rightarrow> millis \<Rightarrow> channel_call list \<Rightarrow> bool" where
  "orderly n t [] = True"
| "orderly n t ((env, pr, p, r) # calls) \<longleftrightarrow>
     ve_cooldown env = n \<and> t \<le> ve_now env \<and> ve_meanwhile env = id \<and> orderly n (ve_now env) calls"

lemma tried_marks:
  assumes "channels_ok (vs_db st)" "ch \<in> set (channels (vs_db st))" "testable env p i ch"
    "vs_db st' = snd (claimTest env p i (vs_db st))"
  shows "tested_since p i (ve_now env) (vs_db st')"
proof -
  have "x = ch" if "x \<in> set (channels (vs_db st))" "ch_id x = i" for x
    using that assms(1-3) by (auto simp: channels_ok_def testable_def channel_in_def dest: distinct_map_memD)
  then show ?thesis
    using assms by (fastforce simp: tested_since_def claimTest_db channels_ok_def testable_def channel_in_def elim!: update_where_memE)
qed

lemma spaced_after:
  assumes "tested_since p i t (vs_db st)" "channels_ok (vs_db st)" "orderly n t' calls" "t \<le> t'" "0 < n"
  shows "sorted_wrt (\<lambda>a b. a + int n * 1000 < b) (test_times p i calls st)
    \<and> (\<forall>x \<in> set (test_times p i calls st). t + int n * 1000 < x)"
  using assms(1-4)
proof (induction calls arbitrary: st t t')
  case (Cons call calls)
  obtain env pr q r where call: "call = (env, pr, q, r)" by (cases call) auto
  obtain res st' where step: "serve_channel env pr q r st = (res, st')" by fastforce
  have env: "ve_cooldown env = n" "t \<le> ve_now env" "\<And>s. ve_meanwhile env s = s" "orderly n (ve_now env) calls"
    using Cons.prems(3,4) call by auto
  have ok: "channels_ok (vs_db st')" and since: "tested_since p i t (vs_db st')"
    using serve_keeps_channels [OF step Cons.prems(2) env(3)] serve_keeps_tested [OF step Cons.prems(1) env(2,3)] by auto
  show ?case
  proof (cases "q = p \<and> r = TestChannel i \<and> tried res")
    case False
    then show ?thesis using Cons.IH [OF since ok env(4,2)] call step by (auto simp: Let_def)
  next
    case True
    then obtain ch where ch: "ch \<in> set (channels (vs_db st))" "testable env p i ch"
        "vs_db st' = snd (claimTest env p i (vs_db st))"
      using tried_testD [of env pr p i st res st'] step env(1) assms(5) by auto
    have "tested_since p i (ve_now env) (vs_db st')" by (rule tried_marks [OF Cons.prems(2) ch])
    from Cons.IH [OF this ok env(4) order_refl]
    have rest: "sorted_wrt (\<lambda>a b. a + int n * 1000 < b) (test_times p i calls st')"
      "\<forall>x \<in> set (test_times p i calls st'). ve_now env + int n * 1000 < x" by auto
    have "t + int n * 1000 < ve_now env"
      using Cons.prems(1) ch(1,2) env(1) by (auto simp: tested_since_def testable_def)
    then show ?thesis using rest True call step by (fastforce simp: Let_def)
  qed
qed simp

text \<open>
  C25. Whatever is asked of a project's channels, by whom and in whatever order, between two
  test alerts through one channel lies more than the cooldown, whether they were delivered or not.
\<close>

theorem tests_are_spaced:
  assumes "channels_ok (vs_db st)" and "orderly n t calls" and "0 < n"
  shows "sorted_wrt (\<lambda>a b. a + int n * 1000 < b) (test_times p i calls st)"
  using assms(1,2)
proof (induction calls arbitrary: st t)
  case (Cons call calls)
  obtain env pr q r where call: "call = (env, pr, q, r)" by (cases call) auto
  obtain res st' where step: "serve_channel env pr q r st = (res, st')" by fastforce
  have env: "ve_cooldown env = n" "\<And>s. ve_meanwhile env s = s" "orderly n (ve_now env) calls"
    using Cons.prems(2) call by auto
  have ok: "channels_ok (vs_db st')" by (rule serve_keeps_channels [OF step Cons.prems(1) env(2)])
  show ?case
  proof (cases "q = p \<and> r = TestChannel i \<and> tried res")
    case False
    then show ?thesis using Cons.IH [OF ok env(3)] call step by (auto simp: Let_def)
  next
    case True
    then obtain ch where ch: "ch \<in> set (channels (vs_db st))" "testable env p i ch"
        "vs_db st' = snd (claimTest env p i (vs_db st))"
      using tried_testD [of env pr p i st res st'] step env(1) assms(3) by auto
    from spaced_after [OF tried_marks [OF Cons.prems(1) ch] ok env(3) order_refl assms(3)]
    show ?thesis using True call step by (auto simp: Let_def)
  qed
qed simp

section \<open>What an answer can depend on\<close>

text \<open>A channel as its project sees it: everything but the configuration, and the masked target.\<close>

definition public_view :: "channel_env \<Rightarrow> channel \<Rightarrow> channel \<times> string" where
  "public_view env ch = (ch\<lparr>config := JNull\<rparr>, maskTarget (ve_urlParts env) (ch_type ch) (config (opened env ch)))"

definition view_dto :: "channel_env \<Rightarrow> channel \<times> string \<Rightarrow> channel_dto" where
  "view_dto env v = (toChannelDto env (fst v))\<lparr>nd_target := snd v\<rparr>"

definition views :: "channel_env \<Rightarrow> db \<Rightarrow> (channel \<times> string) list" where
  "views env s = map (public_view env) (channels s)"

text \<open>Tables that differ in configurations only, and there in what the masks hide.\<close>

definition alike :: "channel_env \<Rightarrow> db \<Rightarrow> db \<Rightarrow> bool" where
  "alike env s s' \<longleftrightarrow> views env s = views env s' \<and> s' = s\<lparr>channels := channels s'\<rparr>"

lemma opened_simps [simp]:
  "ch_id (opened env ch) = ch_id ch" "ch_project (opened env ch) = ch_project ch" "ch_type (opened env ch) = ch_type ch"
  "ch_name (opened env ch) = ch_name ch" "enabled (opened env ch) = enabled ch" "ch_createdAt (opened env ch) = ch_createdAt ch"
  "lastTestedAt (opened env ch) = lastTestedAt ch"
  by (simp_all add: opened_def split: sum.split)

lemma dto_of_view: "toChannelDto env (opened env ch) = view_dto env (public_view env ch)"
  by (simp add: toChannelDto_def view_dto_def public_view_def)

lemma view_keys [simp]:
  "channel_in p i (fst (public_view env ch)) = channel_in p i ch" "ch_project (fst (public_view env ch)) = ch_project ch"
  "ch_createdAt (fst (public_view env ch)) = ch_createdAt ch" "ch_id (fst (public_view env ch)) = ch_id ch"
  by (simp_all add: public_view_def channel_in_def)

lemma map_filter_view: "map (public_view env) (filter (\<lambda>ch. P (fst (public_view env ch))) xs) = filter (\<lambda>v. P (fst v)) (map (public_view env) xs)"
  by (induction xs) simp_all

lemma map_insort_view: "map g (insort_key (\<lambda>x. k (g x)) x xs) = insort_key k (g x) (map g xs)"
  by (induction xs) auto

lemma map_sort_view: "map g (sort_key (\<lambda>x. k (g x)) xs) = sort_key k (map g xs)"
  by (induction xs) (simp_all add: map_insort_view)

lemma map_find_view: "map_option g (find (\<lambda>x. P (g x)) xs) = find P (map g xs)"
  by (induction xs) simp_all

lemma list_views: "list_channels env p s
    = map (view_dto env) (sort_key (\<lambda>v. ch_createdAt (fst v)) (filter (\<lambda>v. ch_project (fst v) = p) (views env s)))"
proof -
  have "sort_key (\<lambda>v. ch_createdAt (fst v)) (filter (\<lambda>v. ch_project (fst v) = p) (map (public_view env) xs))
      = map (public_view env) (sort_key ch_createdAt (filter (\<lambda>ch. ch_project ch = p) xs))" for xs
    using map_sort_view [of "public_view env" "\<lambda>v. ch_createdAt (fst v)" "filter (\<lambda>ch. ch_project ch = p) xs"]
      map_filter_view [of env "\<lambda>v. ch_project v = p" xs] by simp
  then show ?thesis by (simp add: list_channels_def repo_listForProject_def views_def dto_of_view)
qed

lemma get_views: "get_channel env p i s
    = (case find (\<lambda>v. channel_in p i (fst v)) (views env s) of None \<Rightarrow> Inl (Refused NotFound) | Some v \<Rightarrow> Inr (view_dto env v))"
proof -
  have "find (\<lambda>v. channel_in p i (fst v)) (views env s) = map_option (public_view env) (find (channel_in p i) (channels s))"
    using map_find_view [of "public_view env" "\<lambda>v. channel_in p i (fst v)" "channels s"] by (simp add: views_def)
  then show ?thesis by (simp add: get_channel_def findInProject_def dto_of_view split: option.split)
qed

lemma count_views: "length (filter (\<lambda>ch. ch_project ch = p) (channels s)) = length (filter (\<lambda>v. ch_project (fst v) = p) (views env s))"
  using map_filter_view [of env "\<lambda>v. ch_project v = p" "channels s"]
  by (metis (no_types, lifting) length_map views_def view_keys(2) filter_cong)

lemma some_views: "list_ex (channel_in p i) (channels s) = list_ex (\<lambda>v. channel_in p i (fst v)) (views env s)"
  by (simp add: views_def list_ex_iff)

lemma alike_access [simp]: "assertAccess pr p m (s\<lparr>channels := cs\<rparr>) = assertAccess pr p m s"
  by (cases pr) (simp_all add: findRole_def)

lemma alike_owner [simp]: "ownerOf p (s\<lparr>channels := cs\<rparr>) = ownerOf p s"
  by (simp add: ownerOf_def split: option.split)

lemma alike_limit:
  assumes "alike env s s'"
  shows "assertCanAddChannel cfg p s' = assertCanAddChannel cfg p s"
proof -
  have "ownerOf p s' = ownerOf p s" using assms unfolding alike_def by (metis alike_owner)
  moreover have "length (filter (\<lambda>ch. ch_project ch = p) (channels s')) = length (filter (\<lambda>ch. ch_project ch = p) (channels s))"
    using assms by (simp only: count_views [of p _ env] alike_def)
  ultimately show ?thesis by (simp only: assertCanAddChannel_def)
qed

lemma alike_accessD: "alike env s s' \<Longrightarrow> assertAccess pr p m s' = assertAccess pr p m s"
  unfolding alike_def by (metis alike_access)

lemma alike_emails:
  assumes "alike env s s'"
  shows "write_event t b s' r au = write_event t b s r au"
proof -
  have same: "users s' = users s" using assms by (metis alike_def db.select_convs(8) db.surjective db.update_convs(4))
  show ?thesis unfolding write_event_def resolveEmail_def same ..
qed

lemma alike_noted:
  "alike env s s' \<Longrightarrow> vs_audit (noted env pr p act t l d (st\<lparr>vs_db := s'\<rparr>)) = vs_audit (noted env pr p act t l d (st\<lparr>vs_db := s\<rparr>))"
  by (simp add: noted_def alike_emails)

lemma view_update_where:
  assumes "\<And>ch. public_view env (f ch) = apfst F (public_view env ch)"
  shows "map (public_view env) (update_where (channel_in p i) f xs)
    = update_where (\<lambda>v. channel_in p i (fst v)) (apfst F) (map (public_view env) xs)"
  by (induction xs) (simp_all add: assms)

lemma view_patched: "public_view env (patched patch ch) = apfst (patched patch) (public_view env ch)"
  by (cases "uc_name patch"; cases "uc_enabled patch")
    (simp_all add: public_view_def patched_def opened_def split: sum.split)

lemma snd_repo_update:
  "snd (repo_update env p i patch s) = s\<lparr>channels := update_where (channel_in p i) (patched patch) (channels s)\<rparr>"
  by (simp add: repo_update_def Let_def)

lemma views_update: "views env (snd (repo_update env p i patch s))
    = update_where (\<lambda>v. channel_in p i (fst v)) (apfst (patched patch)) (views env s)"
  unfolding snd_repo_update views_def using view_update_where [OF view_patched] by simp

lemma update_views: "fst (update_channel env p i patch s)
    = (if \<not> list_ex (\<lambda>v. channel_in p i (fst v)) (views env s) then Inl (Refused NotFound)
       else case find (\<lambda>v. ch_id (fst v) = i) (views env (snd (repo_update env p i patch s))) of
              None \<Rightarrow> Inl (Refused NotFound) | Some v \<Rightarrow> Inr (view_dto env v))"
proof -
  have "find (\<lambda>v. ch_id (fst v) = i) (views env t) = map_option (public_view env) (find (\<lambda>ch. ch_id ch = i) (channels t))" for t
    using map_find_view [of "public_view env" "\<lambda>v. ch_id (fst v) = i" "channels t"] by (simp add: views_def)
  moreover have "fst (repo_update env p i patch s) = (if \<not> list_ex (channel_in p i) (channels s) then None
      else map_option (opened env) (find (\<lambda>ch. ch_id ch = i) (channels (snd (repo_update env p i patch s)))))"
    by (simp add: repo_update_def Let_def)
  ultimately show ?thesis
    by (simp add: update_channel_def case_prod_unfold some_views [of _ _ _ env] dto_of_view split: option.split)
qed

lemma alike_update:
  assumes "alike env s s'"
  shows "fst (update_channel env p i patch s') = fst (update_channel env p i patch s)"
    and "alike env (snd (update_channel env p i patch s)) (snd (update_channel env p i patch s'))"
proof -
  have v: "views env s' = views env s" and e: "s' = s\<lparr>channels := channels s'\<rparr>" using assms by (auto simp: alike_def)
  show "fst (update_channel env p i patch s') = fst (update_channel env p i patch s)"
    by (simp only: update_views views_update v)
  have "snd (update_channel env p i patch t) = snd (repo_update env p i patch t)" for t
    by (simp add: update_channel_def case_prod_unfold split: option.split)
  moreover have "views env (snd (repo_update env p i patch s)) = views env (snd (repo_update env p i patch s'))"
    by (simp only: views_update v)
  moreover have "s'\<lparr>channels := X\<rparr> = s\<lparr>channels := X\<rparr>" for X by (subst e) simp
  ultimately show "alike env (snd (update_channel env p i patch s)) (snd (update_channel env p i patch s'))"
    by (simp add: alike_def snd_repo_update)
qed

lemma alike_remove:
  assumes "alike env s s'"
  shows "fst (remove_channel p i s') = fst (remove_channel p i s)"
    and "alike env (snd (remove_channel p i s)) (snd (remove_channel p i s'))"
proof -
  have v: "views env s' = views env s" and e: "s' = s\<lparr>channels := channels s'\<rparr>" using assms by (auto simp: alike_def)
  have fst_repo: "fst (repo_delete p i t) = list_ex (\<lambda>v. channel_in p i (fst v)) (views env t)" for t
    by (simp add: repo_delete_def Let_def some_views [of _ _ _ env])
  then show "fst (remove_channel p i s') = fst (remove_channel p i s)"
    by (simp add: remove_channel_def case_prod_unfold v split: bool.split)
  have keep: "map (public_view env) (filter (\<lambda>ch. \<not> channel_in p i ch) (channels t))
      = filter (\<lambda>v. \<not> channel_in p i (fst v)) (views env t)" for t
    using map_filter_view [of env "\<lambda>v. \<not> channel_in p i v"] by (simp add: views_def)
  have gone: "ch_id ` set (filter (channel_in p i) (channels t)) = (\<lambda>v. ch_id (fst v)) ` set (filter (\<lambda>v. channel_in p i (fst v)) (views env t))" for t
    by (force simp: views_def)
  have "deliveries s' = deliveries s" by (subst e) simp
  moreover have "s'\<lparr>channels := X, deliveries := Y\<rparr> = s\<lparr>channels := X, deliveries := Y\<rparr>" for X Y by (subst e) simp
  moreover have "snd (remove_channel p i t) = snd (repo_delete p i t)" for t
    by (simp add: remove_channel_def case_prod_unfold split: bool.split)
  ultimately show "alike env (snd (remove_channel p i s)) (snd (remove_channel p i s'))"
    using keep [of s] keep [of s'] gone [of s] gone [of s']
    by (simp add: alike_def repo_delete_def Let_def views_def [of env "_\<lparr>channels := _, deliveries := _\<rparr>"] v)
qed

text \<open>What others do during the lookup is taken not to look into configurations.\<close>

definition blind :: "channel_env \<Rightarrow> bool" where
  "blind env \<longleftrightarrow> (\<forall>s s'. alike env s s' \<longrightarrow> alike env (ve_meanwhile env s) (ve_meanwhile env s'))"

lemma alike_repo_create:
  assumes "alike env s s'"
  shows "map_sum id fst (repo_create env p c s') = map_sum id fst (repo_create env p c s)"
    and "repo_create env p c s = Inr (ch, t) \<Longrightarrow> repo_create env p c s' = Inr (ch, t') \<Longrightarrow> alike env t t'"
proof -
  have v: "views env s' = views env s" and e: "s' = s\<lparr>channels := channels s'\<rparr>" using assms by (auto simp: alike_def)
  have same: "next_id s' = next_id s" "projects s' = projects s" by (subst e, simp)+
  show "map_sum id fst (repo_create env p c s') = map_sum id fst (repo_create env p c s)"
    by (simp add: repo_create_def Let_def same)
  have sub: "s'\<lparr>channels := X, next_id := n\<rparr> = s\<lparr>channels := X, next_id := n\<rparr>" for X n by (subst e) simp
  assume "repo_create env p c s = Inr (ch, t)" "repo_create env p c s' = Inr (ch, t')"
  from repo_createD(1) [OF this(1)] repo_createD(1) [OF this(2)] show "alike env t t'"
    using v same sub by (simp add: alike_def views_def)
qed

lemma alike_create:
  assumes "alike env s s'" "blind env"
  shows "fst (create_channel env p c s') = fst (create_channel env p c s)"
    and "alike env (snd (create_channel env p c s)) (snd (create_channel env p c s'))"
proof -
  define t t' where "t = (if cc_type c = Email then s else ve_meanwhile env s)"
    and "t' = (if cc_type c = Email then s' else ve_meanwhile env s')"
  have tt: "alike env t t'" using assms by (auto simp: t_def t'_def blind_def)
  note defs = create_channel_def [of env p c s] create_channel_def [of env p c s'] t_def [symmetric] t'_def [symmetric] Let_def
  note lim = alike_limit [OF assms(1), of "ve_quotas env" p] alike_limit [OF tt, of "ve_quotas env" p]
  have "fst (create_channel env p c s') = fst (create_channel env p c s)
      \<and> alike env (snd (create_channel env p c s)) (snd (create_channel env p c s'))"
  proof (cases "repo_create env p c t")
    case (Inl e)
    then have "repo_create env p c t' = Inl e"
      using alike_repo_create(1) [OF tt, of p c] by (cases "repo_create env p c t'") auto
    with Inl show ?thesis unfolding defs lim using assms(1) tt by (auto split: sum.split)
  next
    case (Inr x)
    obtain ch u where x: "x = (ch, u)" by fastforce
    obtain u' where u': "repo_create env p c t' = Inr (ch, u')"
      using alike_repo_create(1) [OF tt, of p c] Inr x by (cases "repo_create env p c t'") auto
    have "alike env u u'" using alike_repo_create(2) [OF tt] Inr x u' by simp
    with Inr x u' show ?thesis unfolding defs lim using assms(1) tt by (auto split: sum.split)
  qed
  then show "fst (create_channel env p c s') = fst (create_channel env p c s)"
    and "alike env (snd (create_channel env p c s)) (snd (create_channel env p c s'))" by auto
qed


section \<open>What a failed test leaves\<close>

text \<open>
  The budget of test alerts counts the records of tests: one whose delivery failed leaves none, so
  only the cooldown of its channel bounds how often such a test may be repeated.
\<close>

lemma failed_test_unrecorded:
  "serve_channel env pr p (TestChannel i) st = (Inl (TestFailed msg), st') \<Longrightarrow> vs_audit st' = vs_audit st"
  by (auto simp: route_channel_test_def split: sum.splits prod.splits)

section \<open>Concrete channels\<close>

definition sample_channel_env :: channel_env where
  "sample_channel_env =
     \<lparr>ve_now = 0, ve_quotas = \<lparr>quotas_enabled = True, DEFAULT_PLAN = ''free'',
        planLimits = [(''free'', UNLIMITED\<lparr>pl_channelsPerProject := Some 2\<rparr>)]\<rparr>,
      ve_senders = sample_senders, ve_crypto = toy_crypto, ve_vault = vault_of toy_crypto ''s'', ve_iv = [],
      ve_urlParts = (\<lambda>_. Some (''hooks.example.org'', ''/services/T0/B0'')), ve_meanwhile = id,
      ve_baseUrl = ''https://silencewatch.com'', ve_maxPerHour = 20, ve_cooldown = 60, ve_ids = (7, 8),
      ve_ip = None, ve_agent = None, ve_recorded = True\<rparr>"

definition sample_hook :: "uuid \<Rightarrow> uuid \<Rightarrow> string \<Rightarrow> channel" where
  "sample_hook i p secret =
     \<lparr>ch_id = i, ch_project = p, ch_type = Webhook, ch_name = ''ops'',
      config = JObj [(''url'', JStr ''https://hooks.example.org/services/T0/B0''), (''secret'', JStr secret)],
      enabled = True, lastTestedAt = None, ch_createdAt = 0\<rparr>"

definition sample_channels :: "channel list \<Rightarrow> channel_state" where
  "sample_channels chs =
     \<lparr>vs_db = sample_account\<lparr>channels := chs, next_id := 20\<rparr>,
      vs_audit = \<lparr>au_events = [], au_emails = [], au_next = 1\<rparr>\<rparr>"

lemma sample_owner: "ownerOf 2 (vs_db (sample_channels chs)) = Some (9, Some ''free'')"
  by (simp add: sample_channels_def sample_account_def sample_member_def ownerOf_def)

theorem channel_requests_stay_home_witness:
  "filter (\<lambda>ch. ch_project ch \<noteq> 2) (channels (vs_db (snd (serve_channel sample_channel_env (UserSession 9 1 0) 2
     (RemoveChannel 4) (sample_channels [sample_hook 4 2 ''a'', sample_hook 5 3 ''b'']))))) = [sample_hook 5 3 ''b'']"
proof -
  have "ve_meanwhile sample_channel_env s = s" for s by (simp add: sample_channel_env_def)
  note channel_requests_stay_home [OF prod.collapse [symmetric] this, where pr = "UserSession 9 1 0" and p = 2
      and r = "RemoveChannel 4" and st = "sample_channels [sample_hook 4 2 ''a'', sample_hook 5 3 ''b'']"]
  then show ?thesis by (simp add: sample_channels_def sample_hook_def del: serve_channel.simps)
qed


theorem tests_are_spaced_witness:
  "sorted_wrt (\<lambda>a b. a + 60 * 1000 < b) (test_times 2 4
     [(sample_channel_env, UserSession 9 1 0, 2, TestChannel 4),
      (sample_channel_env\<lparr>ve_now := 59000\<rparr>, UserSession 9 1 0, 2, TestChannel 4)] (sample_channels [sample_hook 4 2 ''a'']))"
  using tests_are_spaced [of "sample_channels [sample_hook 4 2 ''a'']" 60 0
     "[(sample_channel_env, UserSession 9 1 0, 2, TestChannel 4),
      (sample_channel_env\<lparr>ve_now := 59000\<rparr>, UserSession 9 1 0, 2, TestChannel 4)]" 2 4]
  by (simp add: channels_ok_def sample_channels_def sample_hook_def sample_channel_env_def del: test_times.simps)

text \<open>An e-mail channel created beside the one the project has.\<close>

definition mail_config :: json where
  "mail_config = JObj [(''address'', JStr ''a@example.org'')]"

lemma mail_accepted:
  "createChannelRequestSchema (sn_schemas (ve_senders sample_channel_env))
     \<lparr>cc_type = Email, cc_name = ''on call'', cc_config = mail_config\<rparr>
   = Some \<lparr>cc_type = Email, cc_name = ''on call'', cc_config = mail_config\<rparr>"
proof -
  have "trimmedString nameMax ''on call'' = Some ''on call''" by code_simp
  moreover have "emailSchema (sn_schemas (ve_senders sample_channel_env)) ''a@example.org'' = Some ''a@example.org''"
    by (simp add: emailSchema_def sample_channel_env_def sample_senders_def emailMax_def trim_def to_lower_def) code_simp
  ultimately show ?thesis
    by (simp add: createChannelRequestSchema_def configSchema_def emailChannelConfigSchema_def mail_config_def text_field_def)
qed

definition mail_request :: channel_request where
  "mail_request = CreateChannel \<lparr>cc_type = Email, cc_name = ''on call'', cc_config = mail_config\<rparr>"

lemma mail_created:
  assumes "length chs < 2"
  obtains d st' where "serve_channel sample_channel_env (UserSession 9 1 0) 2 mail_request (sample_channels chs) = (Inr (OneChannel d), st')"
proof -
  have len: "length (filter (\<lambda>ch. ch_project ch = 2) chs) < 2" using assms length_filter_le le_less_trans by blast
  have "assertAccess (UserSession 9 1 0) 2 Admin (vs_db (sample_channels chs)) = Inr ()"
    by (simp add: sample_channels_def sample_account_def sample_member_def findRole_def)
  moreover have "assertCanAddChannel (ve_quotas sample_channel_env) 2 (vs_db (sample_channels chs)) = Inr ()"
    by (simp add: assertCanAddChannel_def sample_owner limitsFor_def sample_channel_env_def UNLIMITED_def)
      (use len in \<open>simp add: sample_channels_def\<close>)
  moreover have "2 \<in> pr_id ` set (projects (vs_db (sample_channels chs)))"
    by (simp add: sample_channels_def sample_account_def sample_alerting_def)
  ultimately show ?thesis
    using that mail_accepted by (simp add: mail_request_def route_channel_create_def create_channel_def repo_create_def Let_def)
qed

theorem channel_limit_holds_witness:
  "length (filter (\<lambda>ch. ch_project ch = 2) (channels (vs_db (snd (serve_channel sample_channel_env (UserSession 9 1 0) 2
      mail_request (sample_channels [sample_hook 4 2 ''a''])))))) \<le> 2"
proof -
  let ?st = "sample_channels [sample_hook 4 2 ''a'']"
  obtain d st' where made: "serve_channel sample_channel_env (UserSession 9 1 0) 2 mail_request ?st = (Inr (OneChannel d), st')"
    by (rule mail_created [of "[sample_hook 4 2 ''a'']"]) simp
  then have "around_channels (vs_db st') = around_channels (vs_db ?st)"
    using channel_home [OF made] by (simp add: sample_channel_env_def)
  then have "ownerOf 2 (vs_db st') = Some (9, Some ''free'')"
    using sample_owner by (metis around_owner)
  then show ?thesis
    using channel_limit_holds [OF made [unfolded mail_request_def], of 9 "Some ''free''" 2] made
    by (simp add: sample_channel_env_def limitsFor_def)
qed

theorem channels_sealed_at_rest_witness:
  "\<not> list_all (\<lambda>ch. open_config toy_crypto (vault_of toy_crypto ''s'') (show_nat (ch_id ch)) (config ch) \<noteq> Inr mail_config)
     (channels (vs_db (snd (serve_channel sample_channel_env (UserSession 9 1 0) 2 mail_request (sample_channels [])))))"
proof -
  let ?st = "sample_channels []"
  obtain d st' where made: "serve_channel sample_channel_env (UserSession 9 1 0) 2 mail_request ?st = (Inr (OneChannel d), st')"
    by (rule mail_created [of "[]"]) simp
  have "sealed_at_rest (vs_db ?st)" "sealed_at_rest (ve_meanwhile sample_channel_env (vs_db ?st))"
    "crypto_laws (ve_crypto sample_channel_env)" "key_id_ok (ve_vault sample_channel_env)"
    using toy_laws key_id_of [OF toy_laws, of "''s''"]
    by (simp_all add: sealed_at_rest_def sample_channels_def sample_channel_env_def)
  from channels_sealed_at_rest [OF made this, THEN conjunct2] mail_accepted
  obtain ch where "ch \<in> set (channels (vs_db st'))"
    "open_config toy_crypto (vault_of toy_crypto ''s'') (show_nat (ch_id ch)) (config ch) = Inr mail_config"
    by (auto simp: mail_request_def sample_channel_env_def ve_text_def sample_senders_def)
  then show ?thesis using made by (auto simp: list_all_iff)
qed

end
