(* ===== verification/Mailer.thy ===== *)
theory Mailer
  imports Messages
begin

text \<open>
  E-mail: \<^verbatim>\<open>packages/server/src/notifications/email.service.ts\<close>. The SMTP library, the URL parser
  (here with the port it reads) and \<open>decodeURIComponent\<close> are parameters; providers with an HTTP
  interface go through the same guarded client as every other sender.
\<close>

datatype email_provider = Postmark | Brevo | Smtp | Console

record mail_settings =
  EMAIL_PROVIDER :: email_provider
  EMAIL_FROM :: string
  EMAIL_FROM_NAME :: string
  POSTMARK_TOKEN :: string
  POSTMARK_MESSAGE_STREAM :: string
  BREVO_API_KEY :: string
  SMTP_URL :: string

record smtp_connection =
  sc_host :: string
  sc_port :: nat
  sc_secure :: bool
  sc_auth :: "(string \<times> string) option"
  sc_requireTLS :: bool

datatype smtp_failure = MalformedUrl | NotSmtp string | MalformedEscape

record mail_runtime =
  mr_parse :: "string \<Rightarrow> (url \<times> string) option"
  mr_decode :: "string \<Rightarrow> string option"
  mr_sendMail :: "smtp_connection \<Rightarrow> string \<Rightarrow> mail \<Rightarrow> string + unit"
  mr_failure :: "smtp_failure \<Rightarrow> string"

section \<open>The SMTP address\<close>

definition parseSmtpUrl :: "mail_runtime \<Rightarrow> string \<Rightarrow> smtp_failure + smtp_connection" where
  "parseSmtpUrl rt raw =
     (case mr_parse rt raw of
        None \<Rightarrow> Inl MalformedUrl
      | Some (u, port) \<Rightarrow>
          if ur_protocol u \<noteq> ''smtp:'' \<and> ur_protocol u \<noteq> ''smtps:'' then Inl (NotSmtp (ur_protocol u))
          else
            let secure = (ur_protocol u = ''smtps:'');
                n = (if port = [] then (if secure then 465 else 587) else number_of port)
            in case (mr_decode rt (ur_username u), mr_decode rt (ur_password u)) of
                 (Some user, Some pass) \<Rightarrow>
                   Inr \<lparr>sc_host = ur_hostname u, sc_port = n, sc_secure = secure,
                        sc_auth = (if user = [] then None else Some (user, pass)), sc_requireTLS = \<not> secure\<rparr>
               | _ \<Rightarrow> Inl MalformedEscape)"

section \<open>Sending\<close>

definition mail_from :: "mail_settings \<Rightarrow> string" where
  "mail_from cfg = EMAIL_FROM_NAME cfg @ '' <'' @ EMAIL_FROM cfg @ ''>''"

definition postmark_request :: "mail_settings \<Rightarrow> (json \<Rightarrow> string) \<Rightarrow> mail \<Rightarrow> outgoing" where
  "postmark_request cfg stringify m =
     \<lparr>og_url = ''https://api.postmarkapp.com/email'', og_method = ''POST'',
      og_headers = [(''x-postmark-server-token'', POSTMARK_TOKEN cfg), (''accept'', ''application/json'')],
      og_body = stringify (JObj
        [(''From'', JStr (mail_from cfg)), (''To'', JStr (ml_to m)), (''Subject'', JStr (ml_subject m)),
         (''TextBody'', JStr (ml_text m)), (''HtmlBody'', JStr (ml_html m)),
         (''MessageStream'', JStr (POSTMARK_MESSAGE_STREAM cfg))])\<rparr>"

definition brevo_request :: "mail_settings \<Rightarrow> (json \<Rightarrow> string) \<Rightarrow> mail \<Rightarrow> outgoing" where
  "brevo_request cfg stringify m =
     \<lparr>og_url = ''https://api.brevo.com/v3/smtp/email'', og_method = ''POST'',
      og_headers = [(''api-key'', BREVO_API_KEY cfg), (''accept'', ''application/json'')],
      og_body = stringify (JObj
        [(''sender'', JObj [(''email'', JStr (EMAIL_FROM cfg)), (''name'', JStr (EMAIL_FROM_NAME cfg))]),
         (''to'', JArr [JObj [(''email'', JStr (ml_to m))]]), (''subject'', JStr (ml_subject m)),
         (''textContent'', JStr (ml_text m)), (''htmlContent'', JStr (ml_html m))])\<rparr>"

text \<open>The transport is made on first use and kept.\<close>

definition getSmtpTransport ::
  "mail_settings \<Rightarrow> mail_runtime \<Rightarrow> smtp_connection option \<Rightarrow> (smtp_failure + smtp_connection) \<times> smtp_connection option" where
  "getSmtpTransport cfg rt cached =
     (case cached of
        Some c \<Rightarrow> (Inr c, cached)
      | None \<Rightarrow> (case parseSmtpUrl rt (SMTP_URL cfg) of Inl e \<Rightarrow> (Inl e, None) | Inr c \<Rightarrow> (Inr c, Some c)))"

definition provider_request :: "mail_settings \<Rightarrow> (json \<Rightarrow> string) \<Rightarrow> mail \<Rightarrow> outgoing option" where
  "provider_request cfg stringify m =
     (case EMAIL_PROVIDER cfg of
        Postmark \<Rightarrow> Some (postmark_request cfg stringify m)
      | Brevo \<Rightarrow> Some (brevo_request cfg stringify m)
      | _ \<Rightarrow> None)"

definition send_email ::
  "mail_settings \<Rightarrow> mail_runtime \<Rightarrow> senders \<Rightarrow> mail \<Rightarrow> smtp_connection option \<Rightarrow> (string + unit) \<times> smtp_connection option" where
  "send_email cfg rt sn m cached =
     (case provider_request cfg (sn_stringify sn) m of
        Some q \<Rightarrow>
          (case send (sn_http sn) (og_url q) (Some (og_body q)) of
             Inl e \<Rightarrow> (Inl (sn_reason sn e), cached) | Inr _ \<Rightarrow> (Inr (), cached))
      | None \<Rightarrow>
          if EMAIL_PROVIDER cfg = Console then (Inr (), cached)
          else case getSmtpTransport cfg rt cached of
                 (Inl e, c) \<Rightarrow> (Inl (mr_failure rt e), c)
               | (Inr t, c) \<Rightarrow> (mr_sendMail rt t (mail_from cfg) m, c))"

text \<open>The senders of a server: mails go through this service.\<close>

definition with_mailer :: "mail_settings \<Rightarrow> mail_runtime \<Rightarrow> senders \<Rightarrow> senders" where
  "with_mailer cfg rt sn = sn\<lparr>sn_mail := (\<lambda>m. fst (send_email cfg rt sn m None))\<rparr>"

section \<open>No mail in the clear\<close>

definition cache_ok :: "mail_settings \<Rightarrow> mail_runtime \<Rightarrow> smtp_connection option \<Rightarrow> bool" where
  "cache_ok cfg rt cached \<longleftrightarrow> cached = None \<or> (\<exists>c. cached = Some c \<and> parseSmtpUrl rt (SMTP_URL cfg) = Inr c)"

lemma parseSmtpUrl_tls: "parseSmtpUrl rt raw = Inr c \<Longrightarrow> sc_requireTLS c \<longleftrightarrow> \<not> sc_secure c"
  by (auto simp: parseSmtpUrl_def Let_def split: option.splits if_splits)

lemma parseSmtpUrl_port:
  "parseSmtpUrl rt raw = Inr c \<Longrightarrow> mr_parse rt raw = Some (u, []) \<Longrightarrow> sc_port c = (if sc_secure c then 465 else 587)"
  by (auto simp: parseSmtpUrl_def Let_def split: option.splits if_splits)

text \<open>A transport that was kept serves as one made anew.\<close>

lemma cached_transport:
  "cache_ok cfg rt cached \<Longrightarrow> fst (getSmtpTransport cfg rt cached) = parseSmtpUrl rt (SMTP_URL cfg)
    \<and> cache_ok cfg rt (snd (getSmtpTransport cfg rt cached))"
  by (auto simp: getSmtpTransport_def cache_ok_def split: sum.split option.split)

lemma send_email_cached:
  assumes "cache_ok cfg rt cached"
  shows "fst (send_email cfg rt sn m cached) = fst (send_email cfg rt sn m None)
    \<and> cache_ok cfg rt (snd (send_email cfg rt sn m cached))"
  using cached_transport [OF assms] cached_transport [of cfg rt None] assms
  by (cases "getSmtpTransport cfg rt cached"; cases "getSmtpTransport cfg rt None")
    (auto simp: send_email_def cache_ok_def split: option.split sum.split)

text \<open>
  When an alert is delivered by mail, the message about it was handed over encrypted: to a
  provider over HTTPS, by the guarded client and at allowed addresses, or through a transport that
  speaks TLS from the start or refuses to go on without it (unless the provider is the console).
\<close>

theorem mails_are_protected:
  assumes "deliver (with_mailer cfg rt sn) cr v baseUrl now row = Inr ()" and "ch_type (x_channel row) = Email"
    and "EMAIL_PROVIDER cfg \<noteq> Console"
  shows "\<exists>address m. m = mail_message now (toAlert baseUrl (sn_text sn) row) address
    \<and> ((\<exists>q u addresses. provider_request cfg (sn_stringify sn) m = Some q \<and> take 8 (og_url q) = ''https://''
          \<and> vetted_url (sn_http sn) (og_url q) = Inr u \<and> contacted (sn_http sn) u = Inr addresses
          \<and> (\<forall>a \<in> set addresses. isAllowedAddress (sh_allowPrivate (sn_http sn)) a))
       \<or> (\<exists>c. parseSmtpUrl rt (SMTP_URL cfg) = Inr c \<and> (sc_secure c \<or> sc_requireTLS c)
          \<and> mr_sendMail rt c (mail_from cfg) m = Inr ()))"
proof -
  obtain address where m: "fst (send_email cfg rt sn (mail_message now (toAlert baseUrl (sn_text sn) row) address) None) = Inr ()"
    using assms(1,2)
    by (auto simp: deliver_def send_alert_def compose_def with_mailer_def Let_def split: sum.splits option.splits)
  define m where "m = mail_message now (toAlert baseUrl (sn_text sn) row) address"
  note m = m [folded m_def]
  show ?thesis
  proof (cases "provider_request cfg (sn_stringify sn) m")
    case (Some q)
    then have "take 8 (og_url q) = ''https://''"
      by (auto simp: provider_request_def postmark_request_def brevo_request_def split: email_provider.splits)
    moreover obtain x where "send (sn_http sn) (og_url q) (Some (og_body q)) = Inr x"
      using m Some by (auto simp: send_email_def split: sum.splits)
    then obtain u addresses where "vetted_url (sn_http sn) (og_url q) = Inr u" "contacted (sn_http sn) u = Inr addresses"
      by (auto simp: send_def split: sum.splits)
    moreover from this have "\<forall>a \<in> set addresses. isAllowedAddress (sh_allowPrivate (sn_http sn)) a"
      using contacted_allowed by blast
    ultimately show ?thesis
      using Some by (intro exI [of _ address] exI [of _ m] conjI disjI1 exI [of _ q] exI [of _ u] exI [of _ addresses] m_def)
  next
    case None
    then obtain c where "parseSmtpUrl rt (SMTP_URL cfg) = Inr c" "mr_sendMail rt c (mail_from cfg) m = Inr ()"
      using m assms(3) by (auto simp: send_email_def getSmtpTransport_def split: sum.splits)
    moreover from this have "sc_secure c \<or> sc_requireTLS c" using parseSmtpUrl_tls by blast
    ultimately have "\<exists>c. parseSmtpUrl rt (SMTP_URL cfg) = Inr c \<and> (sc_secure c \<or> sc_requireTLS c)
        \<and> mr_sendMail rt c (mail_from cfg) m = Inr ()" by blast
    then show ?thesis by (intro exI [of _ address] exI [of _ m] conjI m_def disjI2)
  qed
qed

section \<open>A relay\<close>

definition relay_settings :: mail_settings where
  "relay_settings = \<lparr>EMAIL_PROVIDER = Smtp, EMAIL_FROM = ''alerts@example.org'', EMAIL_FROM_NAME = ''SilenceWatch'',
     POSTMARK_TOKEN = [], POSTMARK_MESSAGE_STREAM = [], BREVO_API_KEY = [], SMTP_URL = ''smtp://mail.example.org''\<rparr>"

definition relay_runtime :: mail_runtime where
  "relay_runtime = \<lparr>mr_parse = (\<lambda>_. Some (\<lparr>ur_protocol = ''smtp:'', ur_username = [], ur_password = [],
       ur_hostname = ''mail.example.org''\<rparr>, [])), mr_decode = Some,
     mr_sendMail = (\<lambda>c _ _. if sc_requireTLS c then Inr () else Inl ''plain''), mr_failure = (\<lambda>_. [])\<rparr>"

definition mail_row :: context_row where
  "mail_row = slack_row\<lparr>x_channel := (x_channel slack_row)\<lparr>ch_type := Email,
     config := JObj [(''address'', JStr ''a@b.c'')]\<rparr>\<rparr>"

lemma relay_connection: "parseSmtpUrl relay_runtime (SMTP_URL relay_settings)
    = Inr \<lparr>sc_host = ''mail.example.org'', sc_port = 587, sc_secure = False, sc_auth = None, sc_requireTLS = True\<rparr>"
  by (simp add: parseSmtpUrl_def relay_runtime_def Let_def)

lemma no_request: "provider_request relay_settings f m = None"
  by (simp add: provider_request_def relay_settings_def)

lemma mail_row_sent:
  "deliver (with_mailer relay_settings relay_runtime sample_senders) toy_crypto (vault_of toy_crypto ''s'') [] 0 mail_row = Inr ()"
proof -
  have "emailSchema (sn_schemas sample_senders) ''a@b.c'' = Some ''a@b.c''" by code_simp
  moreover have "fst (send_email relay_settings relay_runtime sample_senders m None) = Inr ()" for m
    by (simp add: send_email_def getSmtpTransport_def relay_connection no_request)
      (simp add: relay_settings_def relay_runtime_def)
  ultimately show ?thesis
    by (simp add: deliver_def open_config_def mail_row_def slack_row_def send_alert_def compose_def Let_def
        emailChannelConfigSchema_def text_field_def with_mailer_def)
qed

theorem mails_are_protected_witness:
  "\<exists>c m. parseSmtpUrl relay_runtime (SMTP_URL relay_settings) = Inr c \<and> sc_requireTLS c
     \<and> mr_sendMail relay_runtime c (mail_from relay_settings) m = Inr ()"
proof -
  have "ch_type (x_channel mail_row) = Email" "EMAIL_PROVIDER relay_settings \<noteq> Console"
    by (simp_all add: mail_row_def relay_settings_def)
  from mails_are_protected [OF mail_row_sent this] show ?thesis
    unfolding no_request relay_connection by auto
qed

end
