(* ===== verification/Edge.thy ===== *)
theory Edge
  imports RateLimiter Stripe
begin

text \<open>
  What stands between the web server and the handlers:
  \<^verbatim>\<open>packages/server/src/common/rate-limit.guard.ts\<close>, \<^verbatim>\<open>http-exception.filter.ts\<close> and the
  sampling of \<^verbatim>\<open>proxy-trust.ts\<close>. The names of status codes are the framework's, a parameter;
  an exception that is not the framework's is the JSON of its properties.
\<close>

section \<open>The exit of every error\<close>

datatype thrown = HttpException nat json | OtherError json

record api_error_body =
  eb_statusCode :: nat
  eb_error :: string
  eb_message :: string
  eb_details :: "json option"
  eb_requestId :: "string option"

record http_reply =
  hr_status :: nat
  hr_headers :: "(string \<times> string) list"
  hr_body :: api_error_body

text \<open>An element of an array as \<open>join\<close> writes it.\<close>

fun joined_text :: "json \<Rightarrow> string" where
  "joined_text (JStr s) = s"
| "joined_text (JBool b) = (if b then ''true'' else ''false'')"
| "joined_text (JNum n) = show_int n"
| "joined_text JNull = []"
| "joined_text (JArr js) = join '','' (map joined_text js)"
| "joined_text (JObj _) = ''[object Object]''"

definition normaliseHttpPayload :: "json \<Rightarrow> string \<times> json option" where
  "normaliseHttpPayload payload =
     (case payload of
        JStr s \<Rightarrow> (s, None)
      | JObj _ \<Rightarrow>
          (case field ''message'' payload of
             Some (JStr s) \<Rightarrow> s
           | Some (JArr js) \<Rightarrow> join '', '' (map joined_text js)
           | _ \<Rightarrow> ''Request failed'', field ''details'' payload)
      | _ \<Rightarrow> (''Request failed'', None))"

definition clientErrorStatusOf :: "json \<Rightarrow> nat option" where
  "clientErrorStatusOf e =
     (case field ''statusCode'' e of
        Some (JNum n) \<Rightarrow> if 400 \<le> n \<and> n < 500 then Some (nat n) else None
      | _ \<Rightarrow> None)"

definition status_word :: "(nat \<Rightarrow> string option) \<Rightarrow> nat \<Rightarrow> string" where
  "status_word names n = (case names n of None \<Rightarrow> ''ERROR'' | Some w \<Rightarrow> w)"

definition retry_header :: "nat \<Rightarrow> json option \<Rightarrow> (string \<times> string) list" where
  "retry_header status details =
     (case Option.bind details (field ''retryAfterSeconds'') of
        Some (JNum n) \<Rightarrow> if status = 429 then [(''retry-after'', show_int n)] else []
      | _ \<Rightarrow> [])"

text \<open>The reply, and whether the exception is logged.\<close>

definition catch_exception :: "(nat \<Rightarrow> string option) \<Rightarrow> string \<Rightarrow> thrown \<Rightarrow> http_reply \<times> bool" where
  "catch_exception names requestId ex =
     (case ex of
        HttpException status payload \<Rightarrow>
          let (message, details) = normaliseHttpPayload payload
          in (\<lparr>hr_status = status, hr_headers = retry_header status details,
               hr_body = \<lparr>eb_statusCode = status, eb_error = status_word names status, eb_message = message,
                 eb_details = details, eb_requestId = None\<rparr>\<rparr>, 500 \<le> status)
      | OtherError e \<Rightarrow>
          (case clientErrorStatusOf e of
             Some status \<Rightarrow>
               (\<lparr>hr_status = status, hr_headers = [],
                 hr_body = \<lparr>eb_statusCode = status, eb_error = status_word names status,
                   eb_message = ''Request refused'', eb_details = None, eb_requestId = None\<rparr>\<rparr>, False)
           | None \<Rightarrow>
               (\<lparr>hr_status = 500, hr_headers = [],
                 hr_body = \<lparr>eb_statusCode = 500, eb_error = ''INTERNAL_SERVER_ERROR'',
                   eb_message = ''Internal server error'', eb_details = None, eb_requestId = Some requestId\<rparr>\<rparr>, True)))"

section \<open>The guard\<close>

record edge_request =
  rq_strict :: bool
  rq_ip :: "string option"
  rq_url :: "string option"
  rq_forwarded :: bool

record rate_guard =
  rg_general :: windows
  rg_strict :: windows

definition general_config :: "nat \<Rightarrow> limiter_config" where
  "general_config perMinute = \<lparr>limit = perMinute, windowMs = 60000, maxKeys = 100000\<rparr>"

definition strict_config :: "nat \<Rightarrow> limiter_config" where
  "strict_config perMinute = \<lparr>limit = perMinute, windowMs = 60000, maxKeys = 20000\<rparr>"

definition client_of :: "edge_request \<Rightarrow> string" where
  "client_of rq = (case rq_ip rq of None \<Rightarrow> ''unknown'' | Some a \<Rightarrow> a)"

text \<open>The path alone, without the query string.\<close>

definition path_of :: "edge_request \<Rightarrow> string" where
  "path_of rq = takeWhile (\<lambda>c. c \<noteq> CHR ''?'') (case rq_url rq of None \<Rightarrow> [] | Some u \<Rightarrow> u)"

definition bucket_of :: "edge_request \<Rightarrow> string" where
  "bucket_of rq = (if rq_strict rq then client_of rq @ '':'' @ path_of rq else client_of rq)"

definition too_many :: "int \<Rightarrow> thrown" where
  "too_many retryAfter = HttpException 429
     (JObj [(''message'', JStr ''Too many requests''), (''details'', JObj [(''retryAfterSeconds'', JNum retryAfter)])])"

definition canActivateRate ::
  "nat \<Rightarrow> nat \<Rightarrow> millis \<Rightarrow> edge_request \<Rightarrow> rate_guard \<Rightarrow> thrown option \<times> rate_guard" where
  "canActivateRate apiPerMinute authPerMinute now rq g =
     (if rq_strict rq
      then (let (retryAfter, ws) = hit (strict_config authPerMinute) (bucket_of rq) now (rg_strict g)
            in (if retryAfter = 0 then None else Some (too_many retryAfter), g\<lparr>rg_strict := ws\<rparr>))
      else (let (retryAfter, ws) = hit (general_config apiPerMinute) (bucket_of rq) now (rg_general g)
            in (if retryAfter = 0 then None else Some (too_many retryAfter), g\<lparr>rg_general := ws\<rparr>)))"

section \<open>The sampling of forwarded requests\<close>

datatype proxy_complaint = ForgedHeader | HiddenProxy

record proxy_watch =
  pw_sampled :: nat
  pw_withHeader :: nat
  pw_reported :: bool

definition PROXY_SAMPLE :: nat where "PROXY_SAMPLE = 20"

definition onProxyRequest :: "bool \<Rightarrow> edge_request \<Rightarrow> proxy_watch \<Rightarrow> proxy_complaint option \<times> proxy_watch" where
  "onProxyRequest trusting rq w =
     (if pw_reported w then (None, w)
      else
        let n = Suc (pw_sampled w); h = (if rq_forwarded rq then Suc (pw_withHeader w) else pw_withHeader w)
        in if PROXY_SAMPLE \<le> n
           then (if trusting \<and> h = 0 then Some ForgedHeader else if \<not> trusting \<and> h = n then Some HiddenProxy else None,
                 w\<lparr>pw_sampled := n, pw_withHeader := h, pw_reported := True\<rparr>)
           else (None, w\<lparr>pw_sampled := n, pw_withHeader := h\<rparr>))"

fun watch_proxy :: "bool \<Rightarrow> edge_request list \<Rightarrow> proxy_watch \<Rightarrow> proxy_complaint list" where
  "watch_proxy trusting [] w = []"
| "watch_proxy trusting (rq # rqs) w =
     (case onProxyRequest trusting rq w of
        (None, w') \<Rightarrow> watch_proxy trusting rqs w'
      | (Some c, w') \<Rightarrow> c # watch_proxy trusting rqs w')"

definition fresh_watch :: proxy_watch where
  "fresh_watch = \<lparr>pw_sampled = 0, pw_withHeader = 0, pw_reported = False\<rparr>"

lemma watch_reported: "pw_reported w \<Longrightarrow> watch_proxy trusting rqs w = []"
  by (induction rqs) (simp_all add: onProxyRequest_def)

lemma watch_from:
  assumes "\<not> pw_reported w" "pw_sampled w < PROXY_SAMPLE"
  shows "watch_proxy trusting rqs w =
    (if pw_sampled w + length rqs < PROXY_SAMPLE then []
     else let h = pw_withHeader w + length (filter rq_forwarded (take (PROXY_SAMPLE - pw_sampled w) rqs))
          in if trusting \<and> h = 0 then [ForgedHeader] else if \<not> trusting \<and> h = PROXY_SAMPLE then [HiddenProxy] else [])"
  using assms
proof (induction rqs arbitrary: w)
  case (Cons rq rqs)
  show ?case
  proof (cases "Suc (pw_sampled w) = PROXY_SAMPLE")
    case True
    then have "PROXY_SAMPLE - pw_sampled w = Suc 0" by simp
    then show ?thesis using True Cons.prems by (simp add: onProxyRequest_def Let_def watch_reported)
  next
    case False
    then have less: "Suc (pw_sampled w) < PROXY_SAMPLE" using Cons.prems by simp
    then have "PROXY_SAMPLE - pw_sampled w = Suc (PROXY_SAMPLE - Suc (pw_sampled w))" by simp
    then show ?thesis using less Cons.prems Cons.IH [of "w\<lparr>pw_sampled := Suc (pw_sampled w),
          pw_withHeader := (if rq_forwarded rq then Suc (pw_withHeader w) else pw_withHeader w)\<rparr>"]
      by (simp add: onProxyRequest_def Let_def)
  qed
qed simp

text \<open>
  The server complains at most once, and about exactly this: that none of the first twenty requests
  came through a proxy it trusts, or that all of them came through one it does not trust.
\<close>

theorem proxy_judged_on_twenty:
  "watch_proxy trusting rqs fresh_watch =
    (if length rqs < 20 then []
     else let h = length (filter rq_forwarded (take 20 rqs))
          in if trusting \<and> h = 0 then [ForgedHeader] else if \<not> trusting \<and> h = 20 then [HiddenProxy] else [])"
  using watch_from [of fresh_watch trusting rqs] by (simp add: fresh_watch_def PROXY_SAMPLE_def)

section \<open>Budgets of clients\<close>

fun edge_run :: "nat \<Rightarrow> nat \<Rightarrow> (edge_request \<times> millis) list \<Rightarrow> rate_guard \<Rightarrow> (edge_request \<times> thrown option) list" where
  "edge_run api auth [] g = []"
| "edge_run api auth ((rq, now) # rqs) g =
     (let (r, g') = canActivateRate api auth now rq g in (rq, r) # edge_run api auth rqs g')"

definition strict_hits :: "(edge_request \<times> millis) list \<Rightarrow> (string \<times> millis) list" where
  "strict_hits rqs = map (\<lambda>(rq, now). (bucket_of rq, now)) (filter (\<lambda>(rq, now). rq_strict rq) rqs)"

lemma strict_passes:
  "length (filter (\<lambda>(rq, r). rq_strict rq \<and> bucket_of rq = key \<and> r = None) (edge_run api auth rqs g))
    = allowed key (run_hits (strict_config auth) (strict_hits rqs) (rg_strict g))"
proof (induction rqs arbitrary: g)
  case (Cons x rqs)
  obtain rq now where x: "x = (rq, now)" by fastforce
  show ?case
  proof (cases "rq_strict rq")
    case True
    obtain n ws where h: "hit (strict_config auth) (bucket_of rq) now (rg_strict g) = (n, ws)" by fastforce
    then have step: "canActivateRate api auth now rq g = (if n = 0 then None else Some (too_many n), g\<lparr>rg_strict := ws\<rparr>)"
      using True by (simp add: canActivateRate_def)
    show ?thesis using Cons.IH [of "g\<lparr>rg_strict := ws\<rparr>"] True h step
      by (simp add: x strict_hits_def allowed_def)
  next
    case False
    obtain r ws where "canActivateRate api auth now rq g = (r, g\<lparr>rg_general := ws\<rparr>)"
      using False by (cases "hit (general_config api) (bucket_of rq) now (rg_general g)") (simp add: canActivateRate_def)
    then show ?thesis using Cons.IH [of "g\<lparr>rg_general := ws\<rparr>"] False by (simp add: x strict_hits_def)
  qed
qed (simp add: strict_hits_def allowed_def)

lemma refused_says_when:
  assumes "(rq, Some e) \<in> set (edge_run api auth rqs g)"
  obtains n where "0 < n" "e = too_many n"
  using assms
proof (induction rqs arbitrary: g)
  case (Cons x rqs)
  obtain q now where x: "x = (q, now)" by fastforce
  obtain r g' where step: "canActivateRate api auth now q g = (r, g')" by fastforce
  consider "rq = q" "r = Some e" | "(rq, Some e) \<in> set (edge_run api auth rqs g')"
    using Cons.prems(2) step x by auto
  then show ?case
  proof cases
    case 1
    then obtain n where "e = too_many n" "0 \<noteq> n" "0 \<le> n"
      using step hit_nonneg [of "strict_config auth" "bucket_of q" now "rg_strict g"]
        hit_nonneg [of "general_config api" "bucket_of q" now "rg_general g"]
      by (auto simp: canActivateRate_def split: if_splits prod.splits)
    then show ?thesis using Cons.prems(1) [of n] by linarith
  qed (use Cons in blast)
qed simp


text \<open>
  Two clients share no bucket, and two paths of one client share none: an address has no slash,
  and a path begins with one.
\<close>

lemma buckets_apart:
  assumes "CHR ''/'' \<notin> set c" "CHR ''/'' \<notin> set d"
  shows "c @ '':'' @ CHR ''/'' # p = d @ '':'' @ CHR ''/'' # q \<longleftrightarrow> c = d \<and> p = q"
proof
  assume eq: "c @ '':'' @ CHR ''/'' # p = d @ '':'' @ CHR ''/'' # q"
  have cut: "takeWhile (\<lambda>x. x \<noteq> CHR ''/'') (e @ '':'' @ CHR ''/'' # r) = e @ '':''" if "CHR ''/'' \<notin> set e" for e r
    using that by (induction e) auto
  from arg_cong [OF eq, of "takeWhile (\<lambda>x. x \<noteq> CHR ''/'')"] have "c @ '':'' = d @ '':''"
    unfolding cut [OF assms(1)] cut [OF assms(2)] .
  then show "c = d \<and> p = q" using eq by simp
qed simp

text \<open>
  An exception that is not one of the application's own tells its caller nothing but a
  4xx status it may carry: two of them that carry the same are answered alike.
\<close>

theorem errors_disclose_nothing:
  assumes "clientErrorStatusOf e = clientErrorStatusOf e'"
  shows "catch_exception names rid (OtherError e) = catch_exception names rid (OtherError e')
    \<and> hr_status (fst (catch_exception names rid (OtherError e))) \<in> insert 500 {400..<500}
    \<and> eb_statusCode (hr_body (fst (catch_exception names rid (OtherError e)))) = hr_status (fst (catch_exception names rid (OtherError e)))
    \<and> eb_details (hr_body (fst (catch_exception names rid (OtherError e)))) = None"
  using assms by (auto simp: catch_exception_def clientErrorStatusOf_def split: option.splits json.splits if_splits)

section \<open>Concrete requests\<close>

definition sign_in_try :: "string \<Rightarrow> edge_request" where
  "sign_in_try query = \<lparr>rq_strict = True, rq_ip = Some ''192.0.2.1'', rq_url = Some (''/sign-in'' @ query), rq_forwarded = False\<rparr>"


theorem errors_disclose_nothing_witness:
  "catch_exception (\<lambda>_. None) ''r1'' (OtherError (JObj [(''stack'', JStr ''at query'')])) = catch_exception (\<lambda>_. None) ''r1'' (OtherError JNull)"
  by (rule errors_disclose_nothing [THEN conjunct1]) (simp add: clientErrorStatusOf_def)

end
