(* ===== verification/Config.thy ===== *)
theory Config
  imports Mailer Billing
begin

text \<open>
  The configuration a server starts with: \<^verbatim>\<open>packages/server/src/config/env-helpers.ts\<close>,
  \<^verbatim>\<open>plan-limits.ts\<close>, \<^verbatim>\<open>stripe-plans.ts\<close>, \<^verbatim>\<open>validation.ts\<close> and \<^verbatim>\<open>config.ts\<close>. The record
  holds the variables the rules across settings read, as their own schemas leave them;
  \<open>JSON.parse\<close> and the URL parser (with the origin it gives) are parameters.
\<close>

section \<open>Single settings\<close>

definition booleanish :: "string \<Rightarrow> bool option" where
  "booleanish v =
     (if v \<in> {''true'', ''1'', ''yes''} then Some True
      else if v \<in> {''false'', ''0'', ''no''} then Some False else None)"

definition csv :: "string \<Rightarrow> string list" where
  "csv v = filter (\<lambda>e. e \<noteq> []) (map trim (split_on CHR '','' v))"

definition blank_is_absent :: "('a \<Rightarrow> 'b option) \<Rightarrow> (string \<Rightarrow> 'a) \<Rightarrow> string option \<Rightarrow> 'b option option" where
  "blank_is_absent schema conv v =
     (case v of None \<Rightarrow> Some None | Some s \<Rightarrow> if s = [] then Some None else map_option Some (schema (conv s)))"

section \<open>Plans\<close>

record config_runtime =
  cg_parse :: "string \<Rightarrow> json option"
  cg_url :: "string \<Rightarrow> (url \<times> string) option"

definition json_within :: "int \<Rightarrow> int \<Rightarrow> json \<Rightarrow> nat option" where
  "json_within lo hi j = (case j of JNum n \<Rightarrow> if lo \<le> n \<and> n \<le> hi then Some (nat n) else None | _ \<Rightarrow> None)"

definition limit_field :: "string \<Rightarrow> int \<Rightarrow> int \<Rightarrow> (string \<times> json) list \<Rightarrow> nat option option" where
  "limit_field k lo hi fs = (case map_of fs k of None \<Rightarrow> Some None | Some j \<Rightarrow> map_option Some (json_within lo hi j))"

definition plan_of_json :: "json \<Rightarrow> plan_limits option" where
  "plan_of_json j =
     (case j of
        JObj fs \<Rightarrow>
          if \<not> list_all (\<lambda>f. fst f \<in> {''checks'', ''projects'', ''channelsPerProject'', ''retentionDays''}) fs then None
          else (case (limit_field ''checks'' 0 1000000 fs, limit_field ''projects'' 0 100000 fs,
                      limit_field ''channelsPerProject'' 0 10000 fs, limit_field ''retentionDays'' 1 3650 fs) of
                  (Some a, Some b, Some c, Some d) \<Rightarrow>
                    Some \<lparr>pl_checks = a, pl_projects = b, pl_channelsPerProject = c, pl_retentionDays = d\<rparr>
                | _ \<Rightarrow> None)
      | _ \<Rightarrow> None)"

definition named_plans :: "(json \<Rightarrow> 'a option) \<Rightarrow> json \<Rightarrow> (string \<times> 'a) list option" where
  "named_plans schema j =
     (case j of
        JObj fs \<Rightarrow> those (map (\<lambda>(k, v). if 1 \<le> length k \<and> length k \<le> 40 then map_option (Pair k) (schema v) else None) fs)
      | _ \<Rightarrow> None)"

definition parsePlanLimits :: "config_runtime \<Rightarrow> string \<Rightarrow> (string \<times> plan_limits) list option" where
  "parsePlanLimits rt raw = Option.bind (cg_parse rt raw) (named_plans plan_of_json)"

definition price_text :: "string \<Rightarrow> bool" where
  "price_text s \<longleftrightarrow> take 6 s = ''price_'' \<and> drop 6 s \<noteq> []
     \<and> list_all (\<lambda>c. is_upper c \<or> is_lower c \<or> is_digit c \<or> c = CHR ''_'') (drop 6 s)"

definition price_of_json :: "json \<Rightarrow> stripe_plan option" where
  "price_of_json j =
     (case j of
        JObj fs \<Rightarrow>
          (case (map_of fs ''price'', Option.bind (map_of fs ''amount'') (json_within 1 10000000)) of
             (Some (JStr p), Some n) \<Rightarrow>
               if price_text p \<and> list_all (\<lambda>f. fst f \<in> {''price'', ''amount''}) fs
               then Some \<lparr>sp_price = p, sp_amount = n\<rparr> else None
           | _ \<Rightarrow> None)
      | _ \<Rightarrow> None)"

definition parseStripePlans :: "config_runtime \<Rightarrow> string \<Rightarrow> (string \<times> stripe_plan) list option" where
  "parseStripePlans rt raw = Option.bind (cg_parse rt raw) (named_plans price_of_json)"

text \<open>
  Reading \<open>plans[name]\<close> finds what every object inherits, too: for these names it is not
  \<open>undefined\<close> in any object.
\<close>

definition INHERITED :: "string list" where
  "INHERITED = [''constructor'', ''hasOwnProperty'', ''isPrototypeOf'', ''propertyIsEnumerable'', ''toLocaleString'',
     ''toString'', ''valueOf'', ''__proto__'', ''__defineGetter__'', ''__defineSetter__'', ''__lookupGetter__'',
     ''__lookupSetter__'']"

definition has_property :: "(string \<times> 'a) list \<Rightarrow> string \<Rightarrow> bool" where
  "has_property plans k \<longleftrightarrow> map_of plans k \<noteq> None \<or> k \<in> set INHERITED"

section \<open>Rules across settings\<close>

datatype auth_mode = Passkey | Password | Full

record env_vars =
  en_NODE_ENV :: string
  en_BASE_URL :: string
  en_TRUST_PROXY :: "bool + string"
  en_EMAIL_PROVIDER :: email_provider
  en_SMTP_URL :: "string option"
  en_POSTMARK_TOKEN :: "string option"
  en_BREVO_API_KEY :: "string option"
  en_AUTH_MODE :: auth_mode
  en_AUTH_RP_ID :: "string option"
  en_AUTH_TRUSTED_ORIGINS :: "string list"
  en_GOOGLE :: "string option \<times> string option"
  en_MICROSOFT :: "string option \<times> string option"
  en_QUOTAS_ENABLED :: bool
  en_DEFAULT_PLAN :: string
  en_PLAN_LIMITS :: string
  en_BILLING_ENABLED :: bool
  en_BILLING_PROFESSIONAL_ONLY :: bool
  en_BILLING_TERMS_URL :: "string option"
  en_STRIPE_SECRET_KEY :: "string option"
  en_STRIPE_WEBHOOK_SECRET :: "string option"
  en_STRIPE_PLANS :: string

text \<open>What may be wrong with a variable; the texts shown name the same values.\<close>

datatype complaint =
    RequiredFor string
  | RequiredWith string
  | NoProvider
  | NotPlans
  | NoPlanDefined
  | NotAPlan string
  | TrustsAnyone
  | DropsAlerts
  | NotHttps
  | NotHostDomain string
  | TopLevelDomain string
  | NotAnOrigin string
  | InsecureOrigin string
  | OutsideDomain string
  | NeedsTerms
  | NeedsQuotas
  | WrongKind
  | StartsOnIt string
  | PriceTwice string

type_synonym config_issue = "string \<times> complaint"

definition unset :: "string option \<Rightarrow> bool" where
  "unset v \<longleftrightarrow> v = None \<or> v = Some []"

definition starts_with :: "string \<Rightarrow> string \<Rightarrow> bool" where
  "starts_with p s \<longleftrightarrow> take (length p) s = p"

definition ends_with :: "string \<Rightarrow> string \<Rightarrow> bool" where
  "ends_with p s \<longleftrightarrow> length p \<le> length s \<and> drop (length s - length p) s = p"

definition isLocalhost :: "string \<Rightarrow> bool" where
  "isLocalhost host \<longleftrightarrow> host = ''localhost'' \<or> ends_with ''.localhost'' host"

definition withinDomain :: "string \<Rightarrow> string \<Rightarrow> bool" where
  "withinDomain host domain \<longleftrightarrow> host = domain \<or> ends_with (CHR ''.'' # domain) host"

definition parseOrigin :: "config_runtime \<Rightarrow> string \<Rightarrow> url option" where
  "parseOrigin rt v = (case cg_url rt v of None \<Rightarrow> None | Some (u, origin) \<Rightarrow> if origin = v then Some u else None)"

definition provider_issues :: "string \<Rightarrow> string option \<times> string option \<Rightarrow> config_issue list" where
  "provider_issues name pair =
     (case pair of
        (Some _, None) \<Rightarrow> [(name @ ''_CLIENT_SECRET'', RequiredWith (name @ ''_CLIENT_ID''))]
      | (None, Some _) \<Rightarrow> [(name @ ''_CLIENT_ID'', RequiredWith (name @ ''_CLIENT_SECRET''))]
      | _ \<Rightarrow> [])"

definition rp_id :: "env_vars \<Rightarrow> url \<Rightarrow> string" where
  "rp_id env base = to_lower (case en_AUTH_RP_ID env of None \<Rightarrow> ur_hostname base | Some d \<Rightarrow> d)"

definition origin_issues :: "config_runtime \<Rightarrow> string \<Rightarrow> string \<Rightarrow> config_issue list" where
  "origin_issues rt rp v =
     (case parseOrigin rt v of
        None \<Rightarrow> [(''AUTH_TRUSTED_ORIGINS'', NotAnOrigin v)]
      | Some u \<Rightarrow>
          if ur_protocol u \<noteq> ''https:'' \<and> \<not> isLocalhost (ur_hostname u) then [(''AUTH_TRUSTED_ORIGINS'', InsecureOrigin v)]
          else if \<not> withinDomain (ur_hostname u) rp then [(''AUTH_TRUSTED_ORIGINS'', OutsideDomain v)] else [])"

text \<open>The base is the parsed \<open>BASE_URL\<close>, which its own schema has found to be a URL.\<close>

definition validateAuth :: "config_runtime \<Rightarrow> env_vars \<Rightarrow> url \<Rightarrow> config_issue list" where
  "validateAuth rt env base =
     (if en_AUTH_MODE env = Full
      then provider_issues ''GOOGLE'' (en_GOOGLE env) @ provider_issues ''MICROSOFT'' (en_MICROSOFT env)
           @ (if en_GOOGLE env = (None, None) \<and> en_MICROSOFT env = (None, None) then [(''AUTH_MODE'', NoProvider)] else [])
      else [])
     @ (if en_AUTH_MODE env = Password then []
        else
          let rp = rp_id env base
          in (if ur_protocol base \<noteq> ''https:'' \<and> \<not> isLocalhost (ur_hostname base) then [(''BASE_URL'', NotHttps)] else [])
             @ (if \<not> withinDomain (ur_hostname base) rp then [(''AUTH_RP_ID'', NotHostDomain rp)] else [])
             @ (if \<not> isLocalhost rp \<and> CHR ''.'' \<notin> set rp then [(''AUTH_RP_ID'', TopLevelDomain rp)] else [])
             @ concat (map (origin_issues rt rp) (en_AUTH_TRUSTED_ORIGINS env)))"

fun sold_issues :: "env_vars \<Rightarrow> (string \<times> plan_limits) list option \<Rightarrow> string list \<Rightarrow> (string \<times> stripe_plan) list \<Rightarrow> config_issue list" where
  "sold_issues env plans seen [] = []"
| "sold_issues env plans seen ((name, p) # rest) =
     (if (case plans of None \<Rightarrow> True | Some ps \<Rightarrow> \<not> has_property ps name) then [(''STRIPE_PLANS'', NotAPlan name)] else [])
     @ (if name = en_DEFAULT_PLAN env then [(''STRIPE_PLANS'', StartsOnIt name)] else [])
     @ (if sp_price p \<in> set seen then [(''STRIPE_PLANS'', PriceTwice (sp_price p))] else [])
     @ sold_issues env plans (sp_price p # seen) rest"

definition validateBilling :: "config_runtime \<Rightarrow> env_vars \<Rightarrow> (string \<times> plan_limits) list option \<Rightarrow> config_issue list" where
  "validateBilling rt env plans =
     (let sold = parseStripePlans rt (en_STRIPE_PLANS env)
      in (if sold = None then [(''STRIPE_PLANS'', NotPlans)] else [])
         @ (if en_BILLING_PROFESSIONAL_ONLY env \<and> unset (en_BILLING_TERMS_URL env)
            then [(''BILLING_PROFESSIONAL_ONLY'', NeedsTerms)] else [])
         @ (if \<not> en_BILLING_ENABLED env then []
            else
              (if \<not> en_QUOTAS_ENABLED env then [(''BILLING_ENABLED'', NeedsQuotas)] else [])
              @ (case en_STRIPE_SECRET_KEY env of
                   None \<Rightarrow> [(''STRIPE_SECRET_KEY'', RequiredFor ''BILLING_ENABLED'')]
                 | Some k \<Rightarrow> if \<not> starts_with ''sk_'' k \<and> \<not> starts_with ''rk_'' k then [(''STRIPE_SECRET_KEY'', WrongKind)] else [])
              @ (case en_STRIPE_WEBHOOK_SECRET env of
                   None \<Rightarrow> [(''STRIPE_WEBHOOK_SECRET'', RequiredFor ''BILLING_ENABLED'')]
                 | Some k \<Rightarrow> if \<not> starts_with ''whsec_'' k then [(''STRIPE_WEBHOOK_SECRET'', WrongKind)] else [])
              @ (case sold of
                   None \<Rightarrow> []
                 | Some ps \<Rightarrow> if ps = [] then [(''STRIPE_PLANS'', NoPlanDefined)] else sold_issues env plans [] ps)))"

definition email_issues :: "env_vars \<Rightarrow> config_issue list" where
  "email_issues env =
     (if en_EMAIL_PROVIDER env = Smtp \<and> unset (en_SMTP_URL env) then [(''SMTP_URL'', RequiredFor ''smtp'')] else [])
     @ (if en_EMAIL_PROVIDER env = Postmark \<and> unset (en_POSTMARK_TOKEN env) then [(''POSTMARK_TOKEN'', RequiredFor ''postmark'')] else [])
     @ (if en_EMAIL_PROVIDER env = Brevo \<and> unset (en_BREVO_API_KEY env) then [(''BREVO_API_KEY'', RequiredFor ''brevo'')] else [])"

definition plan_issues :: "env_vars \<Rightarrow> (string \<times> plan_limits) list option \<Rightarrow> config_issue list" where
  "plan_issues env plans =
     (case plans of
        None \<Rightarrow> [(''PLAN_LIMITS'', NotPlans)]
      | Some ps \<Rightarrow>
          if \<not> en_QUOTAS_ENABLED env then []
          else if ps = [] then [(''PLAN_LIMITS'', NoPlanDefined)]
          else if \<not> has_property ps (en_DEFAULT_PLAN env) then [(''DEFAULT_PLAN'', NotAPlan (en_DEFAULT_PLAN env))] else [])"

definition production_issues :: "env_vars \<Rightarrow> config_issue list" where
  "production_issues env =
     (if en_NODE_ENV env \<noteq> ''production'' then []
      else (if en_TRUST_PROXY env = Inl True then [(''TRUST_PROXY'', TrustsAnyone)] else [])
        @ (if en_EMAIL_PROVIDER env = Console then [(''EMAIL_PROVIDER'', DropsAlerts)] else [])
        @ (if starts_with ''http://'' (en_BASE_URL env) \<and> \<not> starts_with ''http://localhost'' (en_BASE_URL env)
           then [(''BASE_URL'', NotHttps)] else []))"

definition validateEnv :: "config_runtime \<Rightarrow> env_vars \<Rightarrow> url \<Rightarrow> config_issue list" where
  "validateEnv rt env base =
     (let plans = parsePlanLimits rt (en_PLAN_LIMITS env)
      in email_issues env @ validateAuth rt env base @ plan_issues env plans
         @ validateBilling rt env plans @ production_issues env)"

section \<open>Starting\<close>

record app_config =
  cf_env :: env_vars
  cf_isProduction :: bool
  cf_baseUrl :: string
  cf_planLimits :: "(string \<times> plan_limits) list"
  cf_stripePlans :: "(string \<times> stripe_plan) list"

definition strip_slashes :: "string \<Rightarrow> string" where
  "strip_slashes s = rev (dropWhile (\<lambda>c. c = CHR ''/'') (rev s))"

text \<open>A URL that does not parse is refused by the schema of \<open>BASE_URL\<close> itself.\<close>

definition loadConfig :: "config_runtime \<Rightarrow> env_vars \<Rightarrow> config_issue list + app_config" where
  "loadConfig rt env =
     (case cg_url rt (en_BASE_URL env) of
        None \<Rightarrow> Inl [(''BASE_URL'', WrongKind)]
      | Some (base, _) \<Rightarrow>
          let issues = validateEnv rt env base
          in if issues \<noteq> [] then Inl issues
             else Inr \<lparr>cf_env = env, cf_isProduction = (en_NODE_ENV env = ''production''),
                       cf_baseUrl = strip_slashes (en_BASE_URL env),
                       cf_planLimits = (case parsePlanLimits rt (en_PLAN_LIMITS env) of None \<Rightarrow> [] | Some ps \<Rightarrow> ps),
                       cf_stripePlans = (case parseStripePlans rt (en_STRIPE_PLANS env) of None \<Rightarrow> [] | Some ps \<Rightarrow> ps)\<rparr>)"

text \<open>What the quota and mail services read of it.\<close>

definition quotas_of :: "app_config \<Rightarrow> quota_settings" where
  "quotas_of c = \<lparr>quotas_enabled = en_QUOTAS_ENABLED (cf_env c), DEFAULT_PLAN = en_DEFAULT_PLAN (cf_env c),
     planLimits = cf_planLimits c\<rparr>"

section \<open>What an accepted configuration guarantees\<close>

lemma loadConfig_InrD:
  assumes "loadConfig rt env = Inr c"
  obtains base origin where "cg_url rt (en_BASE_URL env) = Some (base, origin)" "cf_env c = env"
    "email_issues env = []" "validateAuth rt env base = []" "plan_issues env (parsePlanLimits rt (en_PLAN_LIMITS env)) = []"
    "validateBilling rt env (parsePlanLimits rt (en_PLAN_LIMITS env)) = []" "production_issues env = []"
    "parsePlanLimits rt (en_PLAN_LIMITS env) = Some (cf_planLimits c)"
    "cf_stripePlans c = (case parseStripePlans rt (en_STRIPE_PLANS env) of None \<Rightarrow> [] | Some ps \<Rightarrow> ps)"
proof -
  obtain base origin where base: "cg_url rt (en_BASE_URL env) = Some (base, origin)"
    and ok: "validateEnv rt env base = []"
    using assms by (auto simp: loadConfig_def Let_def split: option.splits if_splits)
  have c: "c = \<lparr>cf_env = env, cf_isProduction = (en_NODE_ENV env = ''production''),
                       cf_baseUrl = strip_slashes (en_BASE_URL env),
                       cf_planLimits = (case parsePlanLimits rt (en_PLAN_LIMITS env) of None \<Rightarrow> [] | Some ps \<Rightarrow> ps),
                       cf_stripePlans = (case parseStripePlans rt (en_STRIPE_PLANS env) of None \<Rightarrow> [] | Some ps \<Rightarrow> ps)\<rparr>"
    using assms base ok by (simp add: loadConfig_def)
  have parts: "email_issues env = []" "validateAuth rt env base = []" "plan_issues env (parsePlanLimits rt (en_PLAN_LIMITS env)) = []"
    "validateBilling rt env (parsePlanLimits rt (en_PLAN_LIMITS env)) = []" "production_issues env = []"
    using ok by (simp_all add: validateEnv_def Let_def)
  have "parsePlanLimits rt (en_PLAN_LIMITS env) \<noteq> None" using parts(3) by (cases "parsePlanLimits rt (en_PLAN_LIMITS env)") (simp_all add: plan_issues_def)
  then obtain ps where ps: "parsePlanLimits rt (en_PLAN_LIMITS env) = Some ps" by blast
  show ?thesis by (rule that [OF base _ parts]) (simp_all add: c ps)
qed

lemma sold_issues_none:
  assumes "sold_issues env plans seen ps = []" "(name, p) \<in> set ps"
  shows "(\<exists>l. plans = Some l \<and> has_property l name) \<and> name \<noteq> en_DEFAULT_PLAN env
    \<and> find (\<lambda>(_, q). Some (sp_price q) = Some (sp_price p)) ps = Some (name, p) \<and> sp_price p \<notin> set seen"
  using assms
proof (induction ps arbitrary: seen)
  case (Cons x ps)
  obtain n q where x: "x = (n, q)" by fastforce
  have head: "sp_price q \<notin> set seen" and rest: "sold_issues env plans (sp_price q # seen) ps = []"
    using Cons.prems(1) by (auto simp: x split: if_splits option.splits)
  show ?case
  proof (cases "(name, p) = x")
    case True
    then show ?thesis using Cons.prems(1) x by (auto split: if_splits option.splits)
  next
    case False
    then show ?thesis using Cons.IH [OF rest] Cons.prems(2) x head by auto
  qed
qed simp


text \<open>
  A server that starts with passkeys can use them: its own origin is secure and belongs to
  the domain the passkeys are bound to, and so does every origin it trusts besides.
\<close>

theorem accepted_passkeys_work:
  assumes "loadConfig rt env = Inr c" and "en_AUTH_MODE env \<noteq> Password"
  shows "\<exists>base origin rp. cg_url rt (en_BASE_URL env) = Some (base, origin) \<and> rp = rp_id env base
    \<and> (\<forall>u \<in> insert (Some base) (parseOrigin rt ` set (en_AUTH_TRUSTED_ORIGINS env)).
         \<exists>v. u = Some v \<and> withinDomain (ur_hostname v) rp \<and> (ur_protocol v = ''https:'' \<or> isLocalhost (ur_hostname v)))
    \<and> (isLocalhost rp \<or> CHR ''.'' \<in> set rp)"
  using assms(1)
proof (rule loadConfig_InrD)
  fix base origin
  assume base: "cg_url rt (en_BASE_URL env) = Some (base, origin)" and ok: "validateAuth rt env base = []"
  have all: "\<forall>v \<in> set (en_AUTH_TRUSTED_ORIGINS env). origin_issues rt (rp_id env base) v = []"
    and rest: "ur_protocol base = ''https:'' \<or> isLocalhost (ur_hostname base)" "withinDomain (ur_hostname base) (rp_id env base)"
      "isLocalhost (rp_id env base) \<or> CHR ''.'' \<in> set (rp_id env base)"
    using ok assms(2) by (auto simp: validateAuth_def Let_def split: if_splits)
  have "\<exists>u. parseOrigin rt v = Some u \<and> withinDomain (ur_hostname u) (rp_id env base)
      \<and> (ur_protocol u = ''https:'' \<or> isLocalhost (ur_hostname u))" if "v \<in> set (en_AUTH_TRUSTED_ORIGINS env)" for v
    using all that by (fastforce simp: origin_issues_def split: option.splits if_splits)
  with base rest show ?thesis by blast
qed

text \<open>
  C33. On a server that starts in production, an alert delivered by mail was handed over
  encrypted, whatever the other settings: to a provider over HTTPS, by the guarded client and at
  allowed addresses, or through a transport that speaks TLS from the start or refuses to go on
  without it. And the provider it is configured with has its credentials.
\<close>

theorem production_mails_protected:
  assumes "loadConfig rt env = Inr c" and "en_NODE_ENV env = ''production''"
    and "EMAIL_PROVIDER cfg = en_EMAIL_PROVIDER env" and "ch_type (x_channel row) = Email"
    and "deliver (with_mailer cfg mrt sn) cr v baseUrl now row = Inr ()"
  shows "(\<exists>address m. m = mail_message now (toAlert baseUrl (sn_text sn) row) address
      \<and> ((\<exists>q u addresses. provider_request cfg (sn_stringify sn) m = Some q \<and> take 8 (og_url q) = ''https://''
            \<and> vetted_url (sn_http sn) (og_url q) = Inr u \<and> contacted (sn_http sn) u = Inr addresses
            \<and> (\<forall>a \<in> set addresses. isAllowedAddress (sh_allowPrivate (sn_http sn)) a))
         \<or> (\<exists>con. parseSmtpUrl mrt (SMTP_URL cfg) = Inr con \<and> (sc_secure con \<or> sc_requireTLS con)
            \<and> mr_sendMail mrt con (mail_from cfg) m = Inr ())))
    \<and> (\<exists>credential. credential \<noteq> [] \<and> Some credential = (case en_EMAIL_PROVIDER env of
           Smtp \<Rightarrow> en_SMTP_URL env | Postmark \<Rightarrow> en_POSTMARK_TOKEN env | _ \<Rightarrow> en_BREVO_API_KEY env))"
  using assms(1)
proof (rule loadConfig_InrD)
  assume ok: "email_issues env = []" "production_issues env = []"
  have con: "en_EMAIL_PROVIDER env \<noteq> Console"
    using ok(2) assms(2) by (simp add: production_issues_def split: if_splits)
  have "\<exists>credential. credential \<noteq> [] \<and> Some credential = (case en_EMAIL_PROVIDER env of
           Smtp \<Rightarrow> en_SMTP_URL env | Postmark \<Rightarrow> en_POSTMARK_TOKEN env | _ \<Rightarrow> en_BREVO_API_KEY env)"
    using ok(1) con by (cases "en_EMAIL_PROVIDER env") (auto simp: email_issues_def unset_def split: if_splits)
  with mails_are_protected [OF assms(5,4)] con assms(3) show ?thesis by simp
qed

section \<open>Two configurations that should not have been accepted\<close>

definition hosted_runtime :: config_runtime where
  "hosted_runtime =
     \<lparr>cg_parse = (\<lambda>t. if t = ''plans'' then Some (JObj [(''free'', JObj [(''checks'', JNum 10)]), (''pro'', JObj [])])
        else if t = ''sold'' then Some (JObj [(''pro'', JObj [(''price'', JStr ''price_1''), (''amount'', JNum 499)])])
        else Some (JObj [])),
      cg_url = (\<lambda>t. Some (\<lparr>ur_protocol = (if t = ''https://watch.example.org'' then ''https:'' else ''http:''),
        ur_username = [], ur_password = [], ur_hostname = ''watch.example.org''\<rparr>, t))\<rparr>"

definition hosted_env :: env_vars where
  "hosted_env =
     \<lparr>en_NODE_ENV = ''production'', en_BASE_URL = ''https://watch.example.org'', en_TRUST_PROXY = Inl False,
      en_EMAIL_PROVIDER = Smtp, en_SMTP_URL = Some ''smtp://mail.example.org'', en_POSTMARK_TOKEN = None,
      en_BREVO_API_KEY = None, en_AUTH_MODE = Passkey, en_AUTH_RP_ID = None, en_AUTH_TRUSTED_ORIGINS = [],
      en_GOOGLE = (None, None), en_MICROSOFT = (None, None), en_QUOTAS_ENABLED = True, en_DEFAULT_PLAN = ''free'',
      en_PLAN_LIMITS = ''plans'', en_BILLING_ENABLED = True, en_BILLING_PROFESSIONAL_ONLY = False,
      en_BILLING_TERMS_URL = None, en_STRIPE_SECRET_KEY = Some ''sk_live'', en_STRIPE_WEBHOOK_SECRET = Some ''whsec_1'',
      en_STRIPE_PLANS = ''sold''\<rparr>"

lemma hosted_starts: "\<not> isl (loadConfig hosted_runtime hosted_env)"
  by code_simp

text \<open>The scheme of a URL is read whatever its case, but looked for in lower case only.\<close>

theorem plain_http_in_production:
  "\<exists>c. loadConfig hosted_runtime (hosted_env\<lparr>en_AUTH_MODE := Password, en_BASE_URL := ''HTTP://watch.example.org''\<rparr>) = Inr c
     \<and> cf_isProduction c \<and> cf_baseUrl c = ''HTTP://watch.example.org''"
proof -
  have "\<not> isl (loadConfig hosted_runtime (hosted_env\<lparr>en_AUTH_MODE := Password, en_BASE_URL := ''HTTP://watch.example.org''\<rparr>))"
    by code_simp
  then show ?thesis
    by (auto simp: loadConfig_def Let_def hosted_env_def strip_slashes_def split: option.splits if_splits)
qed

text \<open>A plan named as something every object inherits passes for a defined one, and limits nothing.\<close>

theorem inherited_name_is_unlimited:
  "\<exists>c. loadConfig hosted_runtime (hosted_env\<lparr>en_DEFAULT_PLAN := ''constructor''\<rparr>) = Inr c
     \<and> limitsFor (quotas_of c) (defaultPlan (quotas_of c)) = UNLIMITED"
proof -
  have "\<not> isl (loadConfig hosted_runtime (hosted_env\<lparr>en_DEFAULT_PLAN := ''constructor''\<rparr>))"
    by code_simp
  then obtain c where c: "loadConfig hosted_runtime (hosted_env\<lparr>en_DEFAULT_PLAN := ''constructor''\<rparr>) = Inr c"
    by (cases "loadConfig hosted_runtime (hosted_env\<lparr>en_DEFAULT_PLAN := ''constructor''\<rparr>)") auto
  have "parsePlanLimits hosted_runtime ''plans'' = Some [(''free'', UNLIMITED\<lparr>pl_checks := Some 10\<rparr>), (''pro'', UNLIMITED)]"
    by code_simp
  then have "cf_planLimits c = [(''free'', UNLIMITED\<lparr>pl_checks := Some 10\<rparr>), (''pro'', UNLIMITED)]"
    and "cf_env c = hosted_env\<lparr>en_DEFAULT_PLAN := ''constructor''\<rparr>"
    using c by (auto simp: loadConfig_def Let_def hosted_env_def split: option.splits if_splits)
  then show ?thesis
    using c by (simp add: quotas_of_def limitsFor_def defaultPlan_def hosted_env_def)
qed

section \<open>A hosted server\<close>

lemma hosted_config: obtains c where "loadConfig hosted_runtime hosted_env = Inr c"
  using hosted_starts by (cases "loadConfig hosted_runtime hosted_env") auto


theorem accepted_passkeys_work_witness:
  "\<exists>base origin. cg_url hosted_runtime (en_BASE_URL hosted_env) = Some (base, origin)
     \<and> withinDomain (ur_hostname base) (rp_id hosted_env base)"
proof -
  obtain c where c: "loadConfig hosted_runtime hosted_env = Inr c" by (rule hosted_config)
  have "en_AUTH_MODE hosted_env \<noteq> Password" by (simp add: hosted_env_def)
  from accepted_passkeys_work [OF c this] show ?thesis by force
qed

theorem production_mails_protected_witness:
  "\<exists>con m. parseSmtpUrl relay_runtime (SMTP_URL relay_settings) = Inr con \<and> sc_requireTLS con
     \<and> mr_sendMail relay_runtime con (mail_from relay_settings) m = Inr ()"
proof -
  obtain c where c: "loadConfig hosted_runtime hosted_env = Inr c" by (rule hosted_config)
  have "en_NODE_ENV hosted_env = ''production''" "EMAIL_PROVIDER relay_settings = en_EMAIL_PROVIDER hosted_env"
    "ch_type (x_channel mail_row) = Email"
    by (simp_all add: hosted_env_def relay_settings_def mail_row_def)
  from production_mails_protected [OF c this mail_row_sent] show ?thesis
    unfolding no_request relay_connection by auto
qed

end
