(* ===== verification/AdminStats.thy ===== *)
theory AdminStats
  imports AuditTrail Billing
begin

text \<open>
  The administrator's figures: \<^verbatim>\<open>packages/server/src/admin/admin-stats.service.ts\<close> and the route
  of \<^verbatim>\<open>admin.controller.ts\<close>. Grouped rows come as the ages (or keys and ages) of the rows
  counted; the two columns of accounts no other part uses, the times of subscriptions and the
  reason inside an audit detail are arguments.
\<close>

section \<open>Counting by age\<close>

type_synonym age_row = "int \<times> nat"

definition DAYS :: nat where "DAYS = 30"
definition HOURS :: nat where "HOURS = 24"
definition day_ms :: int where "day_ms = 86400000"
definition hour_ms :: int where "hour_ms = 3600000"

text \<open>\<open>GROUP BY\<close>: each value once, with how often it occurs.\<close>

definition grouped :: "'a list \<Rightarrow> ('a \<times> nat) list" where
  "grouped xs = map (\<lambda>x. (x, length (filter (\<lambda>y. y = x) xs))) (remdups xs)"

definition age_of :: "int \<Rightarrow> millis \<Rightarrow> millis \<Rightarrow> int" where
  "age_of unit_ms now t = (now - t) div unit_ms"

definition since :: "int \<Rightarrow> nat \<Rightarrow> millis \<Rightarrow> millis \<Rightarrow> bool" where
  "since unit_ms n now t \<longleftrightarrow> now - int n * unit_ms < t"

definition bucketed :: "nat \<Rightarrow> age_row list \<Rightarrow> nat list" where
  "bucketed n_buckets rows =
     fold (\<lambda>(age, n) acc.
        let index = int n_buckets - 1 - age
        in if 0 \<le> index \<and> index < int n_buckets then acc[nat index := acc ! nat index + n] else acc)
       rows (replicate n_buckets 0)"

definition byDay :: "age_row list \<Rightarrow> nat list" where
  "byDay rows = bucketed DAYS rows"

text \<open>A name every object inherits, which \<open>in\<close> would find, is no kind, type or reason recorded.\<close>

definition countBy :: "'k list \<Rightarrow> ('r \<Rightarrow> nat) \<Rightarrow> ('r \<Rightarrow> 'k option) \<Rightarrow> 'r list \<Rightarrow> 'k \<Rightarrow> nat" where
  "countBy keys n keyOf rows =
     fold (\<lambda>row c. case keyOf row of None \<Rightarrow> c | Some k \<Rightarrow> if k \<in> set keys then c(k := c k + n row) else c)
       rows (\<lambda>_. 0)"

record admin_count =
  am_total :: nat
  am_last30Days :: nat
  am_daily :: "nat list"

definition withDaily :: "nat \<Rightarrow> age_row list \<Rightarrow> admin_count" where
  "withDaily n rows =
     (let daily = byDay rows in \<lparr>am_total = n, am_last30Days = sum_list daily, am_daily = daily\<rparr>)"

section \<open>The figures\<close>

record account_row =
  ar_createdAt :: millis
  ar_lastLoginAt :: "millis option"
  ar_sessionsAt :: "millis list"

definition CHECK_SOURCES :: "check_source list" where "CHECK_SOURCES = [Manual, Api, Auto]"
definition PING_KINDS :: "ping_kind list" where "PING_KINDS = [StartPing, SuccessPing, FailPing]"
definition CHANNEL_TYPES :: "channel_type list" where "CHANNEL_TYPES = [Email, Webhook, Slack, Teams, Discord]"
definition REFUSAL_REASONS :: "string list" where
  "REFUSAL_REASONS = [''admin_without_link'', ''signup_closed'', ''email_provider'', ''address_quota'', ''network_quota'']"

definition recent_ages :: "int \<Rightarrow> nat \<Rightarrow> millis \<Rightarrow> millis list \<Rightarrow> int list" where
  "recent_ages unit_ms n now ts = map (age_of unit_ms now) (filter (since unit_ms n now) ts)"

definition stat_accounts :: "millis \<Rightarrow> account_row list \<Rightarrow> admin_count" where
  "stat_accounts now rows = withDaily (length rows) (grouped (recent_ages day_ms DAYS now (map ar_createdAt rows)))"

definition stat_checks :: "millis \<Rightarrow> db \<Rightarrow> admin_count \<times> (check_source \<Rightarrow> nat)" where
  "stat_checks now s =
     (let bySource = countBy CHECK_SOURCES snd (\<lambda>r. Some (fst r)) (grouped (map source (checks s)))
      in (withDaily (sum_list (map bySource CHECK_SOURCES)) (grouped (recent_ages day_ms DAYS now (map c_createdAt (checks s)))),
          bySource))"

definition stat_pings :: "millis \<Rightarrow> db \<Rightarrow> nat \<times> nat list \<times> (ping_kind \<Rightarrow> nat)" where
  "stat_pings now s =
     (let recent = grouped (map (\<lambda>p. (p_kind p, age_of hour_ms now (receivedAt p)))
                     (filter (\<lambda>p. since hour_ms HOURS now (receivedAt p)) (pings s)));
          hourly = bucketed HOURS (map (\<lambda>((_, age), n). (age, n)) recent)
      in (sum_list hourly, hourly, countBy PING_KINDS snd (\<lambda>r. Some (fst (fst r))) recent))"

definition channel_type_of :: "db \<Rightarrow> delivery \<Rightarrow> channel_type option" where
  "channel_type_of s d = map_option ch_type (find (\<lambda>ch. ch_id ch = d_channel d) (channels s))"

definition stat_alertEmails :: "millis \<Rightarrow> db \<Rightarrow> nat \<times> nat list" where
  "stat_alertEmails now s =
     (let times = [t. d \<leftarrow> deliveries s, status d = Sent \<and> channel_type_of s d = Some Email,
                     t \<leftarrow> (case sentAt d of None \<Rightarrow> [] | Some t \<Rightarrow> [t])];
          daily = byDay (grouped (recent_ages day_ms DAYS now times))
      in (sum_list daily, daily))"

definition used_recently :: "millis \<Rightarrow> account_row \<Rightarrow> bool" where
  "used_recently now r \<longleftrightarrow>
     (case ar_lastLoginAt r of None \<Rightarrow> False | Some t \<Rightarrow> since day_ms DAYS now t)
     \<or> list_ex (since day_ms DAYS now) (ar_sessionsAt r)"

definition stat_activeAccounts :: "millis \<Rightarrow> account_row list \<Rightarrow> nat \<times> nat" where
  "stat_activeAccounts now rows = (length (filter (used_recently now) rows), length rows)"

definition stat_failedAlerts :: "millis \<Rightarrow> db \<Rightarrow> nat \<times> nat list \<times> (channel_type \<Rightarrow> nat)" where
  "stat_failedAlerts now s =
     (let recent = grouped [(ty, age_of day_ms now (d_createdAt d)).
                     d \<leftarrow> deliveries s, status d = Failed \<and> since day_ms DAYS now (d_createdAt d),
                     ty \<leftarrow> (case channel_type_of s d of None \<Rightarrow> [] | Some ty \<Rightarrow> [ty])];
          daily = byDay (map (\<lambda>((_, age), n). (age, n)) recent)
      in (sum_list daily, daily, countBy CHANNEL_TYPES snd (\<lambda>r. Some (fst (fst r))) recent))"

definition stat_channels :: "db \<Rightarrow> nat \<times> (channel_type \<Rightarrow> nat)" where
  "stat_channels s =
     (let byType = countBy CHANNEL_TYPES snd (\<lambda>r. Some (fst r)) (grouped (map ch_type (channels s)))
      in (sum_list (map byType CHANNEL_TYPES), byType))"

definition stat_refusedSignups ::
  "(audit_event \<Rightarrow> string option) \<Rightarrow> millis \<Rightarrow> audit_service \<Rightarrow> nat \<times> nat list \<times> (string \<Rightarrow> nat)" where
  "stat_refusedSignups reason now au =
     (let recent = grouped (map (\<lambda>e. (reason e, age_of day_ms now (ev_occurredAt e)))
                     (filter (\<lambda>e. ev_action e = ''signup.refused'' \<and> since day_ms DAYS now (ev_occurredAt e)) (au_events au)));
          daily = byDay (map (\<lambda>((_, age), n). (age, n)) recent)
      in (sum_list daily, daily, countBy REFUSAL_REASONS snd (\<lambda>r. fst (fst r)) recent))"

record plan_count =
  pc_plan :: string
  pc_active :: nat
  pc_last30Days :: nat
  pc_daily :: "nat list"

definition live_plan :: "subscription \<Rightarrow> string option" where
  "live_plan sb = (if sb_status sb \<in> set LIVE_STATUSES then sb_plan sb else None)"

definition stat_subscriptions :: "(subscription \<Rightarrow> millis) \<Rightarrow> millis \<Rightarrow> (string \<times> stripe_plan) list \<Rightarrow> billing_db \<Rightarrow> plan_count list" where
  "stat_subscriptions created now plans b =
     (let live = [(p, sb). sb \<leftarrow> bl_subs b, p \<leftarrow> (case live_plan sb of None \<Rightarrow> [] | Some p \<Rightarrow> [p])];
          totals = grouped (map fst live);
          recent = grouped (map (\<lambda>(p, sb). (p, age_of day_ms now (created sb)))
                     (filter (\<lambda>(p, sb). since day_ms DAYS now (created sb)) live))
      in map (\<lambda>(p, _).
           let daily = byDay (map (\<lambda>((_, age), n). (age, n)) (filter (\<lambda>r. fst (fst r) = p) recent))
           in \<lparr>pc_plan = p, pc_active = (case map_of totals p of None \<Rightarrow> 0 | Some n \<Rightarrow> n),
               pc_last30Days = sum_list daily, pc_daily = daily\<rparr>)
         (sort_key (\<lambda>(_, p). sp_amount p) plans))"

record admin_env =
  ad_now :: millis
  ad_adminEmail :: string
  ad_accounts :: "account_row list"
  ad_reason :: "audit_event \<Rightarrow> string option"
  ad_subscribedAt :: "subscription \<Rightarrow> millis"
  ad_billing :: bool
  ad_plans :: "(string \<times> stripe_plan) list"

record admin_stats =
  as_generatedAt :: string
  as_accounts :: admin_count
  as_checks :: "admin_count \<times> (check_source \<Rightarrow> nat)"
  as_pings :: "nat \<times> nat list \<times> (ping_kind \<Rightarrow> nat)"
  as_alertEmails :: "nat \<times> nat list"
  as_activeAccounts :: "nat \<times> nat"
  as_failedAlerts :: "nat \<times> nat list \<times> (channel_type \<Rightarrow> nat)"
  as_channels :: "nat \<times> (channel_type \<Rightarrow> nat)"
  as_refusedSignups :: "nat \<times> nat list \<times> (string \<Rightarrow> nat)"
  as_subscriptions :: "plan_count list option"

definition admin_figures :: "admin_env \<Rightarrow> billing_db \<Rightarrow> audit_service \<Rightarrow> admin_stats" where
  "admin_figures env b au =
     (let s = bl_store b; now = ad_now env
      in \<lparr>as_generatedAt = toISOString now, as_accounts = stat_accounts now (ad_accounts env),
          as_checks = stat_checks now s, as_pings = stat_pings now s, as_alertEmails = stat_alertEmails now s,
          as_activeAccounts = stat_activeAccounts now (ad_accounts env), as_failedAlerts = stat_failedAlerts now s,
          as_channels = stat_channels s, as_refusedSignups = stat_refusedSignups (ad_reason env) now au,
          as_subscriptions = (if ad_billing env then Some (stat_subscriptions (ad_subscribedAt env) now (ad_plans env) b) else None)\<rparr>)"

definition route_admin_stats ::
  "admin_env \<Rightarrow> principal \<Rightarrow> billing_db \<Rightarrow> audit_service \<Rightarrow> http_error + admin_stats" where
  "route_admin_stats env pr b au =
     (case assertAdministrator (ad_adminEmail env) pr (bl_store b) of
        Inl e \<Rightarrow> Inl e | Inr _ \<Rightarrow> Inr (admin_figures env b au))"

section \<open>The figures add up\<close>

lemma length_bucketed [simp]: "length (bucketed n_buckets rows) = n_buckets"
proof -
  have "length (fold (\<lambda>(age, n) acc.
        let index = int n_buckets - 1 - age
        in if 0 \<le> index \<and> index < int n_buckets then acc[nat index := acc ! nat index + n] else acc) rows acc) = length acc" for acc
    by (induction rows arbitrary: acc) (auto simp: Let_def)
  then show ?thesis by (simp add: bucketed_def)
qed

lemma bucketed_nth:
  assumes "i < n_buckets"
  shows "bucketed n_buckets rows ! i = sum_list (map snd (filter (\<lambda>r. fst r = int n_buckets - 1 - int i) rows))"
proof -
  have "fold (\<lambda>(age, n) acc.
        let index = int n_buckets - 1 - age
        in if 0 \<le> index \<and> index < int n_buckets then acc[nat index := acc ! nat index + n] else acc) rows acc ! i
      = acc ! i + sum_list (map snd (filter (\<lambda>r. fst r = int n_buckets - 1 - int i) rows))"
    if "length acc = n_buckets" for acc
    using that
  proof (induction rows arbitrary: acc)
    case (Cons r rows)
    obtain age n where r: "r = (age, n)" by fastforce
    show ?case
    proof (cases "0 \<le> int n_buckets - 1 - age \<and> int n_buckets - 1 - age < int n_buckets")
      case True
      then have "nat (int n_buckets - 1 - age) = i \<longleftrightarrow> age = int n_buckets - 1 - int i" by auto
      then show ?thesis using True Cons assms by (simp add: r Let_def nth_list_update)
    next
      case False
      then have "age \<noteq> int n_buckets - 1 - int i" using assms by auto
      then show ?thesis using False Cons by (auto simp: r Let_def)
    qed
  qed simp
  then show ?thesis using assms by (simp add: bucketed_def)
qed

lemma grouped_sum: "sum_list (map snd (filter (\<lambda>r. P (fst r)) (grouped xs))) = length (filter P xs)"
proof -
  have "sum_list (map snd (filter (\<lambda>r. P (fst r)) (map (\<lambda>x. (x, length (filter (\<lambda>y. y = x) xs))) ys)))
      = length (filter (\<lambda>y. P y \<and> y \<in> set ys) xs)" if "distinct ys" for ys
    using that
  proof (induction ys)
    case (Cons y ys)
    have "length (filter (\<lambda>z. P z \<and> (z = y \<or> z \<in> set ys)) xs)
        = (if P y then length (filter (\<lambda>z. z = y) xs) else 0) + length (filter (\<lambda>z. P z \<and> z \<in> set ys) xs)"
      using Cons.prems by (induction xs) auto
    then show ?case using Cons by simp
  qed simp
  from this [of "remdups xs"] have "sum_list (map snd (filter (\<lambda>r. P (fst r)) (grouped xs)))
      = length (filter (\<lambda>y. P y \<and> y \<in> set xs) xs)" by (simp add: grouped_def)
  also have "filter (\<lambda>y. P y \<and> y \<in> set xs) xs = filter P xs" by (rule filter_cong) auto
  finally show ?thesis .
qed

lemma bucketed_grouped:
  assumes "i < n"
  shows "bucketed n (grouped ages) ! i = length (filter (\<lambda>a. a = int n - 1 - int i) ages)"
  using grouped_sum [of "\<lambda>a. a = int n - 1 - int i" ages] by (simp add: bucketed_nth [OF assms])

lemma sum_by_value:
  "(\<Sum>i<n. length (filter (\<lambda>a. a = int n - 1 - int i) ages)) = length (filter (\<lambda>a. 0 \<le> a \<and> a < int n) ages)"
proof (induction ages)
  case (Cons a ages)
  have "(\<Sum>i<n. if a = int n - 1 - int i then 1 else 0) = (if 0 \<le> a \<and> a < int n then 1 else (0 :: nat))"
  proof (cases "0 \<le> a \<and> a < int n")
    case True
    then have "a = int n - 1 - int i \<longleftrightarrow> i = nat (int n - 1 - a)" for i by auto
    moreover have "nat (int n - 1 - a) < n" using True by arith
    ultimately show ?thesis using True by (simp add: sum.delta)
  qed auto
  moreover have "(\<Sum>i<n. length (filter (\<lambda>b. b = int n - 1 - int i) (a # ages)))
      = (\<Sum>i<n. if a = int n - 1 - int i then 1 else 0) + (\<Sum>i<n. length (filter (\<lambda>b. b = int n - 1 - int i) ages))"
    unfolding sum.distrib [symmetric] by (rule sum.cong) auto
  ultimately show ?case using Cons by simp
qed simp

lemma sum_bucketed:
  "sum_list (bucketed n (grouped ages)) = length (filter (\<lambda>a. 0 \<le> a \<and> a < int n) ages)"
proof -
  have "sum_list (bucketed n (grouped ages)) = (\<Sum>i<n. bucketed n (grouped ages) ! i)"
    by (simp add: sum_list_sum_nth atLeast0LessThan)
  also have "\<dots> = (\<Sum>i<n. length (filter (\<lambda>a. a = int n - 1 - int i) ages))"
    by (rule sum.cong) (simp_all add: bucketed_grouped)
  finally show ?thesis by (simp only: sum_by_value)
qed

lemma age_in_window:
  assumes "0 < u" "since u n now t"
  shows "age_of u now t < int n" and "t \<le> now \<longleftrightarrow> 0 \<le> age_of u now t"
proof -
  show "age_of u now t < int n"
  proof (rule ccontr)
    assume "\<not> age_of u now t < int n"
    then have "int n * u \<le> (now - t) div u * u" using assms(1) by (simp add: age_of_def)
    also have "\<dots> \<le> now - t" using assms(1) by (simp add: minus_mod_eq_div_mult [symmetric])
    finally show False using assms(2) by (simp add: since_def)
  qed
  show "t \<le> now \<longleftrightarrow> 0 \<le> age_of u now t"
    using pos_imp_zdiv_nonneg_iff [OF assms(1)] by (simp add: age_of_def)
qed

lemma recent_sum:
  assumes "0 < u"
  shows "sum_list (bucketed n (grouped (recent_ages u n now ts))) = length (filter (\<lambda>t. since u n now t \<and> t \<le> now) ts)"
proof -
  have "filter (\<lambda>a. 0 \<le> a \<and> a < int n) (recent_ages u n now ts)
      = map (age_of u now) (filter (\<lambda>t. since u n now t \<and> t \<le> now) ts)"
    using age_in_window [OF assms] by (induction ts) (auto simp: recent_ages_def)
  then show ?thesis by (simp add: sum_bucketed)
qed

lemma bucketed_pairs: "bucketed n (map (\<lambda>((_, age), m). (age, m)) (grouped xs)) = bucketed n (grouped (map snd xs))"
proof (rule nth_equalityI)
  fix i
  assume "i < length (bucketed n (map (\<lambda>((_, age), m). (age, m)) (grouped xs)))"
  then have i: "i < n" by simp
  have "map snd (filter (\<lambda>r. fst r = A) (map (\<lambda>((_, age), m). (age, m)) rows)) = map snd (filter (\<lambda>r. snd (fst r) = A) rows)"
    for A and rows :: "(('a \<times> int) \<times> nat) list"
    by (induction rows) auto
  then show "bucketed n (map (\<lambda>((_, age), m). (age, m)) (grouped xs)) ! i = bucketed n (grouped (map snd xs)) ! i"
    using grouped_sum [of "\<lambda>x. snd x = int n - 1 - int i" xs] grouped_sum [of "\<lambda>a. a = int n - 1 - int i" "map snd xs"]
    by (simp add: bucketed_nth [OF i] filter_map comp_def)
qed simp

lemma countBy_sum:
  "k \<in> set keys \<Longrightarrow> countBy keys n keyOf rows k = sum_list (map n (filter (\<lambda>r. keyOf r = Some k) rows))"
proof -
  assume k: "k \<in> set keys"
  have "fold (\<lambda>row c. case keyOf row of None \<Rightarrow> c | Some k \<Rightarrow> if k \<in> set keys then c(k := c k + n row) else c) rows c k
      = c k + sum_list (map n (filter (\<lambda>r. keyOf r = Some k) rows))" for c
    using k by (induction rows arbitrary: c) (auto split: option.split)
  then show ?thesis by (simp add: countBy_def)
qed

lemma countBy_grouped:
  "k \<in> set keys \<Longrightarrow> countBy keys snd (\<lambda>r. f (fst r)) (grouped xs) k = length (filter (\<lambda>x. f x = Some k) xs)"
  using grouped_sum [of "\<lambda>x. f x = Some k" xs] by (simp add: countBy_sum)

lemma sum_keys:
  assumes "distinct keys" "\<And>x. x \<in> set xs \<Longrightarrow> f x \<in> set keys"
  shows "sum_list (map (\<lambda>k. length (filter (\<lambda>x. f x = k) xs)) keys) = length xs"
  using assms(2)
proof (induction xs)
  case (Cons x xs)
  have "sum_list (map (\<lambda>k. length (filter (\<lambda>y. f y = k) (x # xs))) ks)
      = sum_list (map (\<lambda>k. length (filter (\<lambda>y. f y = k) xs)) ks) + (if f x \<in> set ks then 1 else 0)" if "distinct ks" for ks
    using that by (induction ks) auto
  then show ?case using Cons assms(1) by simp
qed simp

lemma distinct_lists: "distinct PING_KINDS" "distinct CHECK_SOURCES" "distinct CHANNEL_TYPES"
  by (simp_all add: PING_KINDS_def CHECK_SOURCES_def CHANNEL_TYPES_def)

lemma all_kinds: "p_kind p \<in> set PING_KINDS"
  by (cases "p_kind p") (simp_all add: PING_KINDS_def)

lemma all_sources: "source c \<in> set CHECK_SOURCES"
  by (cases "source c") (simp_all add: CHECK_SOURCES_def)

lemma all_types: "ch_type ch \<in> set CHANNEL_TYPES"
  by (cases "ch_type ch") (simp_all add: CHANNEL_TYPES_def)

text \<open>
  The administrator's figures add up, and count what they say: every account and check once, by age
  and by source, those of the past thirty days exactly in the daily figures; every signal of the past
  day once, in its hour, as often in the kinds as in the hours; every channel once, by type; and
  nobody but the administrator is shown them.
\<close>

theorem figures_add_up:
  assumes "route_admin_stats env pr b au = Inr st"
    and "\<forall>p \<in> set (pings (bl_store b)). receivedAt p \<le> ad_now env"
  shows "(\<exists>u i t. pr = UserSession u i t \<and> isAdministrator (ad_adminEmail env) u (bl_store b))
    \<and> am_total (as_accounts st) = length (ad_accounts env)
    \<and> am_last30Days (as_accounts st) = length (filter (\<lambda>r. ad_now env - 30 * 86400000 < ar_createdAt r \<and> ar_createdAt r \<le> ad_now env) (ad_accounts env))
    \<and> am_total (fst (as_checks st)) = length (checks (bl_store b))
    \<and> (\<forall>k. snd (as_checks st) k = length (filter (\<lambda>c. source c = k) (checks (bl_store b))))
    \<and> fst (as_pings st) = length (filter (\<lambda>p. ad_now env - 24 * 3600000 < receivedAt p) (pings (bl_store b)))
    \<and> sum_list (map (snd (snd (as_pings st))) PING_KINDS) = fst (as_pings st)
    \<and> fst (as_channels st) = length (channels (bl_store b))"
proof -
  let ?s = "bl_store b" and ?now = "ad_now env"
  have st: "st = admin_figures env b au" and admin: "assertAdministrator (ad_adminEmail env) pr ?s = Inr ()"
    using assms(1) by (auto simp: route_admin_stats_def split: sum.splits)
  have who: "\<exists>u i t. pr = UserSession u i t \<and> isAdministrator (ad_adminEmail env) u ?s"
    using admin by (cases pr) (auto simp: assertAdministrator_def split: if_splits)
  have sources: "countBy CHECK_SOURCES snd (\<lambda>r. Some (fst r)) (grouped (map source (checks ?s))) k
      = length (filter (\<lambda>c. source c = k) (checks ?s))" for k
    using countBy_grouped [of k CHECK_SOURCES Some "map source (checks ?s)"]
    by (cases k) (simp_all add: CHECK_SOURCES_def filter_map comp_def)
  have sources': "countBy CHECK_SOURCES snd (\<lambda>r. Some (fst r)) (grouped (map source (checks ?s)))
      = (\<lambda>k. length (filter (\<lambda>c. source c = k) (checks ?s)))" by (rule ext) (rule sources)
  have types: "countBy CHANNEL_TYPES snd (\<lambda>r. Some (fst r)) (grouped (map ch_type (channels ?s))) k
      = length (filter (\<lambda>c. ch_type c = k) (channels ?s))" for k
    using countBy_grouped [of k CHANNEL_TYPES Some "map ch_type (channels ?s)"]
    by (cases k) (simp_all add: CHANNEL_TYPES_def filter_map comp_def)
  then have types': "countBy CHANNEL_TYPES snd (\<lambda>r. Some (fst r)) (grouped (map ch_type (channels ?s)))
      = (\<lambda>k. length (filter (\<lambda>c. ch_type c = k) (channels ?s)))" by (rule ext)
  let ?recent = "filter (\<lambda>p. since hour_ms HOURS ?now (receivedAt p)) (pings ?s)"
  let ?pairs = "map (\<lambda>p. (p_kind p, age_of hour_ms ?now (receivedAt p))) ?recent"
  have "map snd ?pairs = recent_ages hour_ms HOURS ?now (map receivedAt (pings ?s))"
    by (simp add: recent_ages_def filter_map comp_def)
  then have "fst (stat_pings ?now ?s)
      = length (filter (\<lambda>t. since hour_ms HOURS ?now t \<and> t \<le> ?now) (map receivedAt (pings ?s)))"
    using recent_sum [of hour_ms HOURS ?now "map receivedAt (pings ?s)"]
    by (simp add: stat_pings_def Let_def bucketed_pairs hour_ms_def)
  also have "\<dots> = length ?recent" using assms(2) by (simp add: filter_map comp_def cong: filter_cong)
  finally have pings: "fst (stat_pings ?now ?s) = length ?recent" .
  have "snd (snd (stat_pings ?now ?s)) k = length (filter (\<lambda>p. p_kind p = k) ?recent)" for k
    using countBy_grouped [of k PING_KINDS "\<lambda>x. Some (fst x)" ?pairs]
    by (cases k) (simp_all add: stat_pings_def Let_def PING_KINDS_def filter_map comp_def)
  then have "snd (snd (stat_pings ?now ?s)) = (\<lambda>k. length (filter (\<lambda>p. p_kind p = k) ?recent))" by (rule ext)
  then have kinds: "sum_list (map (snd (snd (stat_pings ?now ?s))) PING_KINDS) = length ?recent"
    using sum_keys [OF distinct_lists(1), of ?recent p_kind, OF all_kinds] by simp
  have total: "am_total (fst (stat_checks ?now ?s)) = length (checks ?s)"
    using sum_keys [OF distinct_lists(2), of "checks ?s" source, OF all_sources]
    by (simp add: stat_checks_def Let_def withDaily_def sources')
  have chans: "fst (stat_channels ?s) = length (channels ?s)"
    using sum_keys [OF distinct_lists(3), of "channels ?s" ch_type, OF all_types]
    by (simp add: stat_channels_def Let_def types')
  have accounts: "am_last30Days (stat_accounts ?now (ad_accounts env))
      = length (filter (\<lambda>r. ?now - 30 * 86400000 < ar_createdAt r \<and> ar_createdAt r \<le> ?now) (ad_accounts env))"
    using recent_sum [of day_ms DAYS ?now "map ar_createdAt (ad_accounts env)"]
    by (simp add: stat_accounts_def withDaily_def Let_def byDay_def day_ms_def DAYS_def since_def filter_map comp_def)
  have pings': "length ?recent = length (filter (\<lambda>p. ?now - 24 * 3600000 < receivedAt p) (pings ?s))"
    by (simp add: since_def HOURS_def hour_ms_def)
  have by_source: "snd (stat_checks ?now ?s) k = length (filter (\<lambda>c. source c = k) (checks ?s))" for k
    by (simp add: stat_checks_def Let_def sources)
  show ?thesis
    using who pings kinds total chans accounts pings' by_source
    by (simp add: st admin_figures_def Let_def) (simp add: stat_accounts_def withDaily_def Let_def)
qed

definition sample_admin :: admin_env where
  "sample_admin = \<lparr>ad_now = 100000, ad_adminEmail = ''a@example.org'',
     ad_accounts = [\<lparr>ar_createdAt = 5, ar_lastLoginAt = None, ar_sessionsAt = []\<rparr>],
     ad_reason = (\<lambda>_. None), ad_subscribedAt = (\<lambda>_. 0), ad_billing = False, ad_plans = []\<rparr>"

theorem figures_add_up_witness:
  "\<exists>st. route_admin_stats sample_admin (UserSession 9 1 0) (paying ''active'') \<lparr>au_events = [], au_emails = [], au_next = 1\<rparr> = Inr st
     \<and> am_total (as_accounts st) = 1 \<and> am_total (fst (as_checks st)) = 1 \<and> fst (as_channels st) = 1"
proof -
  let ?b = "paying ''active''" and ?au = "\<lparr>au_events = [], au_emails = [], au_next = 1\<rparr> :: audit_service"
  have lower: "to_lower ''a@example.org'' = ''a@example.org''" by code_simp
  have route: "route_admin_stats sample_admin (UserSession 9 1 0) ?b ?au = Inr (admin_figures sample_admin ?b ?au)"
    by (simp add: route_admin_stats_def assertAdministrator_def isAdministrator_def sample_admin_def paying_def
        sample_account_def lower)
  have "\<forall>p \<in> set (pings (bl_store ?b)). receivedAt p \<le> ad_now sample_admin"
    by (simp add: paying_def sample_account_def sample_alerting_def empty_db_def)
  from figures_add_up [OF route this] route show ?thesis
    by (simp add: sample_admin_def paying_def sample_account_def sample_alerting_def empty_db_def)
qed

end
