(* ===== verification/Support.thy ===== *)
theory Support
  imports SignIn Signup Account Config
begin

text \<open>
  The operator's command line: \<^verbatim>\<open>packages/server/src/auth/cli/support-commands.ts\<close> and the
  arguments of \<^verbatim>\<open>auth/cli.ts\<close>. A row of the user table is seen here through the records of
  the components that read its columns (\<open>auth_user\<close>, \<open>user\<close>) and one for the columns only
  these commands use; \<open>one_table\<close> says that they are of one table. In the texts the sign for
  ``times'' is written x and the arrow \<open>->\<close>.
\<close>

record profile =
  pf_user :: uuid
  pf_createdAt :: millis
  pf_emailVerified :: bool

record login =
  lg_user :: uuid
  lg_provider :: string
  lg_account :: string
  lg_password :: "string option"

record operator_db =
  op_signup :: signup_state
  op_auth :: auth_db
  op_subs :: "subscription list"
  op_profiles :: "profile list"
  op_logins :: "login list"

text \<open>
  The random values are those of the one command run; \<open>oe_sessionEnds\<close> is the expiry of a
  session, which is the session library's to set.
\<close>

record operator_env =
  oe_config :: app_config
  oe_signup :: signup_config
  oe_server :: signup_env
  oe_reseal :: reseal_env
  oe_token :: string
  oe_password :: "byte list"
  oe_hashPassword :: "string \<Rightarrow> string"
  oe_codeHash :: "string \<Rightarrow> string"
  oe_draws :: "nat \<Rightarrow> nat \<Rightarrow> nat \<Rightarrow> nat"
  oe_query :: "string \<Rightarrow> string"
  oe_stringify :: "json \<Rightarrow> string"
  oe_sessionEnds :: "uuid \<Rightarrow> millis"

text \<open>What the operator reads when a command is refused; \<open>Usage\<close> is the list of commands.\<close>

datatype support_error = Usage | Message string

type_synonym command_result = "(support_error + string) \<times> operator_db"

abbreviation op_store :: "operator_db \<Rightarrow> db" where "op_store st \<equiv> sn_db (op_signup st)"

abbreviation oe_now :: "operator_env \<Rightarrow> millis" where "oe_now env \<equiv> ce_now (oe_server env)"

section \<open>What the commands share\<close>

fun mode_text :: "auth_mode \<Rightarrow> string" where
  "mode_text Passkey = ''passkey''"
| "mode_text Password = ''password''"
| "mode_text Full = ''full''"

fun role_text :: "project_role \<Rightarrow> string" where
  "role_text Owner = ''owner''"
| "role_text Admin = ''admin''"
| "role_text Member = ''member''"

definition existing :: "operator_db \<Rightarrow> string \<Rightarrow> support_error + auth_user" where
  "existing st m =
     (case find (\<lambda>x. wu_email x = m) (ad_users (op_auth st)) of
        None \<Rightarrow> Inl (Message (''No account for '' @ m @ ''.'')) | Some x \<Rightarrow> Inr x)"

definition requireMode :: "operator_env \<Rightarrow> auth_mode \<Rightarrow> string \<Rightarrow> support_error + unit" where
  "requireMode env mode command =
     (if en_AUTH_MODE (cf_env (oe_config env)) \<noteq> mode
      then Inl (Message (command @ '' only applies when AUTH_MODE='' @ mode_text mode @ '' (this instance runs ''
             @ mode_text (en_AUTH_MODE (cf_env (oe_config env))) @ '').''))
      else Inr ())"

definition OPERATOR :: audit_actor where
  "OPERATOR = \<lparr>a_userId = None, a_email = Some ''operator (command line)'', a_apiKeyId = None, a_ip = None,
     a_userAgent = None\<rparr>"

definition change_record :: "operator_env \<Rightarrow> auth_user \<Rightarrow> string \<Rightarrow> (string \<times> json) list \<Rightarrow> audit_record" where
  "change_record env u command detail =
     \<lparr>r_action = ''operator.change'', r_actor = OPERATOR, r_projectId = None, r_targetType = Some ''user'',
      r_targetId = Some (ce_uuid_text (oe_server env) (wu_id u)), r_targetLabel = Some (wu_email u),
      r_detail = Some (oe_stringify env (JObj ((''command'', JStr command) # detail)))\<rparr>"

definition record_change ::
  "operator_env \<Rightarrow> auth_user \<Rightarrow> string \<Rightarrow> (string \<times> json) list \<Rightarrow> operator_db \<Rightarrow> operator_db" where
  "record_change env u command detail st =
     st\<lparr>op_signup := log_event (oe_server env) (change_record env u command detail) (op_signup st)\<rparr>"

text \<open>\<open>user.update\<close>, on the columns each component sees.\<close>

definition set_store :: "(db \<Rightarrow> db) \<Rightarrow> operator_db \<Rightarrow> operator_db" where
  "set_store f st = st\<lparr>op_signup := (op_signup st)\<lparr>sn_db := f (op_store st)\<rparr>\<rparr>"

definition update_user :: "uuid \<Rightarrow> (user \<Rightarrow> user) \<Rightarrow> db \<Rightarrow> db" where
  "update_user u f s = s\<lparr>users := update_where (\<lambda>x. u_id x = u) f (users s)\<rparr>"

definition update_auth :: "uuid \<Rightarrow> (auth_user \<Rightarrow> auth_user) \<Rightarrow> auth_db \<Rightarrow> auth_db" where
  "update_auth u f a = a\<lparr>ad_users := update_where (\<lambda>x. wu_id x = u) f (ad_users a)\<rparr>"

definition sessions_of :: "uuid \<Rightarrow> auth_db \<Rightarrow> auth_session list" where
  "sessions_of u a = filter (\<lambda>x. as_user x = u) (ad_sessions a)"

definition delete_sessions :: "uuid \<Rightarrow> auth_db \<Rightarrow> auth_db" where
  "delete_sessions u a = a\<lparr>ad_sessions := filter (\<lambda>x. as_user x \<noteq> u) (ad_sessions a)\<rparr>"

definition plan_of :: "uuid \<Rightarrow> operator_db \<Rightarrow> string option" where
  "plan_of u st = (case find (\<lambda>x. u_id x = u) (users (op_store st)) of None \<Rightarrow> None | Some x \<Rightarrow> u_plan x)"

definition verified :: "uuid \<Rightarrow> operator_db \<Rightarrow> bool" where
  "verified u st = (case find (\<lambda>x. pf_user x = u) (op_profiles st) of None \<Rightarrow> False | Some x \<Rightarrow> pf_emailVerified x)"

definition createdAt_of :: "uuid \<Rightarrow> operator_db \<Rightarrow> millis" where
  "createdAt_of u st = (case find (\<lambda>x. pf_user x = u) (op_profiles st) of None \<Rightarrow> 0 | Some x \<Rightarrow> pf_createdAt x)"

section \<open>One command each\<close>

definition createAdmin :: "operator_env \<Rightarrow> operator_db \<Rightarrow> command_result" where
  "createAdmin env st =
     (let m = sg_adminEmail (oe_signup env)
      in if find (\<lambda>x. wu_email x = m) (ad_users (op_auth st)) \<noteq> None
         then (Inl (Message (''The administrator account ('' @ m @ '') already exists. To get back into it, use ''
                 @ (if en_AUTH_MODE (cf_env (oe_config env)) = Password then ''reset-password'' else ''recovery-codes'')
                 @ '' --email '' @ m @ ''.'')), st)
         else
           (let ((address, token, expiresAt), links) = issue_link (oe_signup env) (oe_server env) (oe_token env) (op_signup st)
            in (Inr (''Open this link once, before '' @ toISOString expiresAt @ '', to create the administrator account (''
                  @ m @ ''):'' @ NL @ NL @ ''  '' @ cf_baseUrl (oe_config env) @ ''/setup?'' @ oe_query env address @ ''#'' @ token),
                st\<lparr>op_signup := links\<rparr>)))"

definition upsert_login :: "string \<Rightarrow> uuid \<Rightarrow> string \<Rightarrow> login list \<Rightarrow> login list" where
  "upsert_login acc u h ls =
     (if list_ex (\<lambda>l. lg_provider l = ''credential'' \<and> lg_account l = acc) ls
      then update_where (\<lambda>l. lg_provider l = ''credential'' \<and> lg_account l = acc) (\<lambda>l. l\<lparr>lg_password := Some h\<rparr>) ls
      else ls @ [\<lparr>lg_user = u, lg_provider = ''credential'', lg_account = acc, lg_password = Some h\<rparr>])"

definition replacePasswordAndEndSessions :: "operator_env \<Rightarrow> uuid \<Rightarrow> string \<Rightarrow> operator_db \<Rightarrow> operator_db" where
  "replacePasswordAndEndSessions env u h st =
     (let ls = upsert_login (ce_uuid_text (oe_server env) u) u h (op_logins st);
          a = delete_sessions u (update_auth u (\<lambda>x. x\<lparr>wu_failed := 0, wu_lockedUntil := None\<rparr>) (op_auth st))
      in st\<lparr>op_logins := ls, op_auth := a\<lparr>ad_accounts := map lg_user ls\<rparr>\<rparr>)"

definition resetPassword :: "operator_env \<Rightarrow> string \<Rightarrow> operator_db \<Rightarrow> command_result" where
  "resetPassword env m st =
     (case requireMode env Password ''reset-password'' of
        Inl e \<Rightarrow> (Inl e, st)
      | Inr _ \<Rightarrow>
          (case existing st m of
             Inl e \<Rightarrow> (Inl e, st)
           | Inr u \<Rightarrow>
               let password = base64url (oe_password env)
               in (Inr (''New password for '' @ m @ '' (shown once, change it after signing in):'' @ NL @ NL @ ''  '' @ password),
                   record_change env u ''reset-password'' []
                     (replacePasswordAndEndSessions env (wu_id u) (oe_hashPassword env password) st))))"

definition recoveryCodes :: "operator_env \<Rightarrow> string \<Rightarrow> operator_db \<Rightarrow> command_result" where
  "recoveryCodes env m st =
     (case requireMode env Passkey ''recovery-codes'' of
        Inl e \<Rightarrow> (Inl e, st)
      | Inr _ \<Rightarrow>
          (case existing st m of
             Inl e \<Rightarrow> (Inl e, st)
           | Inr u \<Rightarrow>
               let (codes, a) = replaceAll (oe_codeHash env) (wu_id u) (oe_draws env) (op_auth st)
               in (Inr (''Recovery codes for '' @ m @ '' (shown once; the previous ones no longer work):'' @ NL @ NL @ ''  ''
                     @ join (NL @ ''  '') codes),
                   record_change env u ''recovery-codes'' [] (st\<lparr>op_auth := a\<rparr>))))"

definition padEnd :: "nat \<Rightarrow> string \<Rightarrow> string" where
  "padEnd n s = s @ replicate (n - length s) CHR '' ''"

definition sign_in_methods :: "uuid \<Rightarrow> operator_db \<Rightarrow> string list" where
  "sign_in_methods u st =
     (let passkeys = length (filter (\<lambda>i. i = u) (ad_passkeys (op_auth st)))
      in (if 0 < passkeys then [''passkey x'' @ show_nat passkeys] else [])
         @ map (\<lambda>l. if lg_provider l = ''credential'' then ''password'' else lg_provider l)
             (filter (\<lambda>l. lg_user l = u) (op_logins st)))"

definition project_lines :: "uuid \<Rightarrow> db \<Rightarrow> string list" where
  "project_lines u s =
     map (\<lambda>m. (case project_by_id (m_project m) s of None \<Rightarrow> [] | Some p \<Rightarrow> pr_name p) @ '' ('' @ role_text (role m) @ '', ''
              @ show_nat (length (filter (\<lambda>c. projectId c = m_project m) (checks s))) @ '' checks)'')
       (filter (\<lambda>m. m_user m = u) (members s))"

definition account_lines :: "operator_env \<Rightarrow> auth_user \<Rightarrow> operator_db \<Rightarrow> (string \<times> string) list" where
  "account_lines env u st =
     (let i = wu_id u; methods = sign_in_methods i st; ps = project_lines i (op_store st);
          live = length (filter (\<lambda>x. oe_now env < oe_sessionEnds env (as_id x)) (sessions_of i (op_auth st)))
      in [(''Account'', wu_email u @ '' ('' @ ce_uuid_text (oe_server env) i @ '')''),
          (''Status'', case wu_disabledAt u of None \<Rightarrow> ''active'' | Some t \<Rightarrow> ''DISABLED since '' @ toISOString t),
          (''Created'', toISOString (createdAt_of i st)),
          (''Last sign-in'', case wu_lastLoginAt u of None \<Rightarrow> ''never'' | Some t \<Rightarrow> toISOString t),
          (''Email verified'', if verified i st then ''yes'' else ''no''),
          (''Plan'', case plan_of i st of None \<Rightarrow> ''none (unlimited)'' | Some p \<Rightarrow> p),
          (''Subscription'',
             case find (\<lambda>x. sb_user x = i) (op_subs st) of
               None \<Rightarrow> ''none''
             | Some x \<Rightarrow> sb_status x @ '', grants '' @ (case sb_plan x of None \<Rightarrow> ''no plan'' | Some p \<Rightarrow> p)
                 @ (if sb_cancelAtEnd x then '', ends at period end'' else [])),
          (''Sign-in methods'', if methods \<noteq> [] then join '', '' methods else ''none''),
          (''Live sessions'', show_nat live),
          (''Lockout'',
             case wu_lockedUntil u of
               Some t \<Rightarrow> if oe_now env < t then ''locked until '' @ toISOString t
                         else ''none ('' @ show_nat (wu_failed u) @ '' recent failures)''
             | None \<Rightarrow> ''none ('' @ show_nat (wu_failed u) @ '' recent failures)''),
          (''Projects'', if ps = [] then ''none'' else join ''; '' ps)])"

definition show_account :: "operator_env \<Rightarrow> string \<Rightarrow> operator_db \<Rightarrow> command_result" where
  "show_account env m st =
     (case existing st m of
        Inl e \<Rightarrow> (Inl e, st)
      | Inr u \<Rightarrow> (Inr (join NL (map (\<lambda>(label, v). padEnd 16 label @ v) (account_lines env u st))), st))"

definition verifyEmail :: "operator_env \<Rightarrow> string \<Rightarrow> operator_db \<Rightarrow> command_result" where
  "verifyEmail env m st =
     (case existing st m of
        Inl e \<Rightarrow> (Inl e, st)
      | Inr u \<Rightarrow>
          if verified (wu_id u) st then (Inr (m @ '' was already verified. Nothing changed.''), st)
          else (Inr (m @ '' is now marked as verified.''),
                record_change env u ''verify-email'' []
                  (st\<lparr>op_profiles := update_where (\<lambda>x. pf_user x = wu_id u) (\<lambda>x. x\<lparr>pf_emailVerified := True\<rparr>) (op_profiles st)\<rparr>)))"

definition or_none :: "string option \<Rightarrow> string" where
  "or_none v = (case v of None \<Rightarrow> ''none'' | Some s \<Rightarrow> s)"

definition json_or_null :: "string option \<Rightarrow> json" where
  "json_or_null v = (case v of None \<Rightarrow> JNull | Some s \<Rightarrow> JStr s)"

definition setPlan :: "operator_env \<Rightarrow> string \<Rightarrow> string \<Rightarrow> operator_db \<Rightarrow> command_result" where
  "setPlan env m plan st =
     (case existing st m of
        Inl e \<Rightarrow> (Inl e, st)
      | Inr u \<Rightarrow>
          let after = (if plan = ''none'' then None else Some plan); limits = cf_planLimits (oe_config env)
          in if after \<noteq> None \<and> \<not> has_property limits plan
             then (Inl (Message (''Unknown plan \"'' @ plan @ ''\". PLAN_LIMITS defines: ''
                     @ (if limits \<noteq> [] then join '', '' (map fst limits) else ''(nothing)'')
                     @ ''. Use \"none\" for no limits.'')), st)
             else
               (Inr (''Plan of '' @ m @ '': '' @ or_none (plan_of (wu_id u) st) @ '' -> '' @ or_none after @ ''.''
                  @ (case find (\<lambda>x. sb_user x = wu_id u) (op_subs st) of
                       None \<Rightarrow> []
                     | Some x \<Rightarrow> if sb_status x = ''none'' then []
                         else NL @ ''Note: this account has a Stripe subscription, and its next event sets the plan again.'')),
                record_change env u ''set-plan''
                  [(''from'', json_or_null (plan_of (wu_id u) st)), (''to'', json_or_null after)]
                  (set_store (update_user (wu_id u) (\<lambda>x. x\<lparr>u_plan := after\<rparr>)) st)))"

definition set_disabled :: "uuid \<Rightarrow> millis option \<Rightarrow> operator_db \<Rightarrow> operator_db" where
  "set_disabled u at st =
     set_store (update_user u (\<lambda>x. x\<lparr>disabledAt := at\<rparr>))
       (st\<lparr>op_auth := update_auth u (\<lambda>x. x\<lparr>wu_disabledAt := at\<rparr>) (op_auth st)\<rparr>)"

definition disable :: "operator_env \<Rightarrow> string \<Rightarrow> operator_db \<Rightarrow> command_result" where
  "disable env m st =
     (case existing st m of
        Inl e \<Rightarrow> (Inl e, st)
      | Inr u \<Rightarrow>
          if wu_disabledAt u \<noteq> None then (Inr (m @ '' was already disabled. Nothing changed.''), st)
          else
            let n = length (sessions_of (wu_id u) (op_auth st));
                st1 = set_disabled (wu_id u) (Some (oe_now env)) st
            in (Inr (m @ '' is disabled: no sign-in, '' @ show_nat n @ '' session(s) ended, API keys of its own projects refused.''
                  @ NL @ ''Its checks still run and alert, and any Stripe subscription still bills.''),
                record_change env u ''disable'' [(''sessions'', JNum (int n))]
                  (st1\<lparr>op_auth := delete_sessions (wu_id u) (op_auth st1)\<rparr>)))"

definition enable :: "operator_env \<Rightarrow> string \<Rightarrow> operator_db \<Rightarrow> command_result" where
  "enable env m st =
     (case existing st m of
        Inl e \<Rightarrow> (Inl e, st)
      | Inr u \<Rightarrow>
          if wu_disabledAt u = None then (Inr (m @ '' was not disabled. Nothing changed.''), st)
          else (Inr (m @ '' can sign in again, and its API keys work again.''),
                record_change env u ''enable'' [] (set_disabled (wu_id u) None st)))"

definition unlock :: "operator_env \<Rightarrow> string \<Rightarrow> operator_db \<Rightarrow> command_result" where
  "unlock env m st =
     (case existing st m of
        Inl e \<Rightarrow> (Inl e, st)
      | Inr u \<Rightarrow>
          (Inr (m @ '' can sign in again.''),
           record_change env u ''unlock'' []
             (st\<lparr>op_auth := update_auth (wu_id u) (\<lambda>x. x\<lparr>wu_failed := 0, wu_lockedUntil := None\<rparr>) (op_auth st)\<rparr>)))"

definition endSessions :: "operator_env \<Rightarrow> string \<Rightarrow> operator_db \<Rightarrow> command_result" where
  "endSessions env m st =
     (case existing st m of
        Inl e \<Rightarrow> (Inl e, st)
      | Inr u \<Rightarrow>
          let n = length (sessions_of (wu_id u) (op_auth st))
          in (Inr (''Ended '' @ show_nat n @ '' session(s) of '' @ m @ ''.''),
              record_change env u ''end-sessions'' [(''sessions'', JNum (int n))]
                (st\<lparr>op_auth := delete_sessions (wu_id u) (op_auth st)\<rparr>)))"

definition reseal_record :: "operator_env \<Rightarrow> reseal_counts \<Rightarrow> audit_record" where
  "reseal_record env n =
     \<lparr>r_action = ''operator.change'', r_actor = OPERATOR, r_projectId = None, r_targetType = Some ''channel_configs'',
      r_targetId = None, r_targetLabel = None,
      r_detail = Some (oe_stringify env (JObj [(''command'', JStr ''reseal''), (''sealed'', JNum (int (rs_sealed n))),
        (''resealed'', JNum (int (rs_resealed n))), (''unchanged'', JNum (int (rs_unchanged n))), (''failed'', JNum (int (rs_failed n)))]))\<rparr>"

definition reseal_run :: "operator_env \<Rightarrow> string option \<Rightarrow> reseal_env" where
  "reseal_run env old =
     (let cr = re_crypto (oe_reseal env)
      in (oe_reseal env)\<lparr>re_vault := vault_of cr (sg_secret (oe_signup env)),
           re_previous := (if unset old then None else map_option (vault_of cr) old)\<rparr>)"

definition resealAll :: "operator_env \<Rightarrow> string option \<Rightarrow> operator_db \<Rightarrow> command_result" where
  "resealAll env old st =
     (let (n, chs) = reseal (reseal_run env old) (channels (op_store st));
          st1 = set_store (\<lambda>s. s\<lparr>channels := chs\<rparr>) st;
          st2 = (if 0 < rs_sealed n + rs_resealed n
                 then st1\<lparr>op_signup := log_event (oe_server env) (reseal_record env n) (op_signup st1)\<rparr> else st1)
      in (Inr (''Sealed '' @ show_nat (rs_sealed n) @ '' plaintext configuration(s), re-sealed '' @ show_nat (rs_resealed n)
            @ '' from the previous key,'' @ NL @ show_nat (rs_unchanged n) @ '' already under this key, '' @ show_nat (rs_failed n)
            @ '' that could not be opened.''
            @ (if rs_failed n = 0 then []
               else NL @ (if unset old
                  then ''Those were sealed with another SECRET_KEY: run again with OLD_SECRET_KEY set to the previous value.''
                  else ''Those could not be opened with either key; they are left as they are.''))), st2))"

section \<open>The command line\<close>

datatype command =
    CreateAdmin
  | Reseal "string option"
  | Show string
  | RecoveryCodes string
  | ResetPassword string
  | Unlock string
  | EndSessions string
  | Disable string
  | Enable string
  | VerifyEmail string
  | SetPlan string string

fun execute :: "operator_env \<Rightarrow> command \<Rightarrow> operator_db \<Rightarrow> command_result" where
  "execute env CreateAdmin st = createAdmin env st"
| "execute env (Reseal old) st = resealAll env old st"
| "execute env (Show m) st = show_account env m st"
| "execute env (RecoveryCodes m) st = recoveryCodes env m st"
| "execute env (ResetPassword m) st = resetPassword env m st"
| "execute env (Unlock m) st = unlock env m st"
| "execute env (EndSessions m) st = endSessions env m st"
| "execute env (Disable m) st = disable env m st"
| "execute env (Enable m) st = enable env m st"
| "execute env (VerifyEmail m) st = verifyEmail env m st"
| "execute env (SetPlan m plan) st = setPlan env m plan st"

definition option_of :: "string list \<Rightarrow> string \<Rightarrow> string option" where
  "option_of args name =
     (case dropWhile (\<lambda>a. a \<noteq> name) args of
        _ # v # _ \<Rightarrow> if take 2 v = ''--'' then None else Some v
      | _ \<Rightarrow> None)"

definition email_like :: "string \<Rightarrow> bool" where
  "email_like m \<longleftrightarrow>
     (case split_on CHR ''@'' m of
        [a, b] \<Rightarrow> a \<noteq> [] \<and> b \<noteq> [] \<and> list_all (\<lambda>c. \<not> is_space c) (a @ b)
      | _ \<Rightarrow> False)"

text \<open>The command a line of arguments asks for.\<close>

definition dispatch :: "string option \<Rightarrow> string \<Rightarrow> string option \<Rightarrow> string list \<Rightarrow> support_error + command" where
  "dispatch old name address args =
     (if name = ''reseal'' then Inr (Reseal old)
      else if name = ''create-admin'' then Inr CreateAdmin
      else case address of
        None \<Rightarrow> Inl Usage
      | Some m \<Rightarrow>
          if name = ''show'' then Inr (Show m)
          else if name = ''recovery-codes'' then Inr (RecoveryCodes m)
          else if name = ''reset-password'' then Inr (ResetPassword m)
          else if name = ''unlock'' then Inr (Unlock m)
          else if name = ''end-sessions'' then Inr (EndSessions m)
          else if name = ''disable'' then Inr (Disable m)
          else if name = ''enable'' then Inr (Enable m)
          else if name = ''verify-email'' then Inr (VerifyEmail m)
          else if name = ''set-plan''
          then (case option_of args ''--plan'' of
                  None \<Rightarrow> Inl (Message ''set-plan needs --plan <name>, or --plan none.'')
                | Some p \<Rightarrow> Inr (SetPlan m p))
          else Inl Usage)"

definition asked :: "string option \<Rightarrow> string list \<Rightarrow> support_error + command" where
  "asked old argv =
     (case argv of
        [] \<Rightarrow> Inl Usage
      | name # rest \<Rightarrow>
          let address = map_option to_lower (option_of rest ''--email'')
          in if name \<notin> {''reseal'', ''create-admin''} \<and> (case address of None \<Rightarrow> True | Some m \<Rightarrow> \<not> email_like m)
             then Inl Usage else dispatch old name address rest)"

definition run_line :: "operator_env \<Rightarrow> string option \<Rightarrow> string list \<Rightarrow> operator_db \<Rightarrow> command_result" where
  "run_line env old argv st = (case asked old argv of Inl e \<Rightarrow> (Inl e, st) | Inr c \<Rightarrow> execute env c st)"

section \<open>Columns of one table\<close>

definition standing :: "auth_db \<Rightarrow> (uuid \<times> string \<times> millis option) list" where
  "standing a = map (\<lambda>x. (wu_id x, wu_email x, wu_disabledAt x)) (ad_users a)"

definition user_standing :: "db \<Rightarrow> (uuid \<times> string \<times> millis option) list" where
  "user_standing s = map (\<lambda>x. (u_id x, email x, disabledAt x)) (users s)"

definition one_table :: "operator_db \<Rightarrow> bool" where
  "one_table st \<longleftrightarrow> standing (op_auth st) = user_standing (op_store st)
     \<and> distinct (map fst (standing (op_auth st))) \<and> distinct (map (fst \<circ> snd) (standing (op_auth st)))
     \<and> ad_accounts (op_auth st) = map lg_user (op_logins st)"

lemma record_change_sel [simp]:
  "op_auth (record_change env u command detail st) = op_auth st"
  "op_store (record_change env u command detail st) = op_store st"
  "op_subs (record_change env u command detail st) = op_subs st"
  "op_profiles (record_change env u command detail st) = op_profiles st"
  "op_logins (record_change env u command detail st) = op_logins st"
  "sn_links (op_signup (record_change env u command detail st)) = sn_links (op_signup st)"
  "sn_attempts (op_signup (record_change env u command detail st)) = sn_attempts (op_signup st)"
  "sn_networks (op_signup (record_change env u command detail st)) = sn_networks (op_signup st)"
  by (simp_all add: record_change_def log_event_def)

lemma set_store_sel [simp]:
  "op_auth (set_store f st) = op_auth st" "op_store (set_store f st) = f (op_store st)"
  "op_subs (set_store f st) = op_subs st" "op_profiles (set_store f st) = op_profiles st"
  "op_logins (set_store f st) = op_logins st" "sn_links (op_signup (set_store f st)) = sn_links (op_signup st)"
  "sn_attempts (op_signup (set_store f st)) = sn_attempts (op_signup st)"
  "sn_networks (op_signup (set_store f st)) = sn_networks (op_signup st)"
  "sn_audit (op_signup (set_store f st)) = sn_audit (op_signup st)"
  by (simp_all add: set_store_def)

lemma update_sel [simp]:
  "ad_sessions (update_auth u f a) = ad_sessions a" "ad_codes (update_auth u f a) = ad_codes a"
  "ad_passkeys (update_auth u f a) = ad_passkeys a" "ad_accounts (update_auth u f a) = ad_accounts a"
  "ad_users (delete_sessions u a) = ad_users a" "ad_codes (delete_sessions u a) = ad_codes a"
  "ad_passkeys (delete_sessions u a) = ad_passkeys a" "ad_accounts (delete_sessions u a) = ad_accounts a"
  "ad_sessions (delete_sessions u a) = filter (\<lambda>x. as_user x \<noteq> u) (ad_sessions a)"
  "members (update_user u g s) = members s"
  by (simp_all add: update_auth_def delete_sessions_def update_user_def)

lemma standing_sel [simp]:
  "standing (delete_sessions u a) = standing a" "standing (a\<lparr>ad_accounts := is\<rparr>) = standing a"
  "standing (a\<lparr>ad_codes := cs\<rparr>) = standing a" "standing (a\<lparr>ad_sessions := ss\<rparr>) = standing a"
  "user_standing (s\<lparr>channels := chs\<rparr>) = user_standing s"
  by (simp_all add: standing_def user_standing_def delete_sessions_def)

lemma standing_update:
  "(\<And>x. wu_id (f x) = wu_id x \<and> wu_email (f x) = wu_email x \<and> wu_disabledAt (f x) = wu_disabledAt x)
     \<Longrightarrow> standing (update_auth u f a) = standing a"
  by (simp add: standing_def update_auth_def update_where_def)

lemma user_standing_update:
  "(\<And>x. u_id (f x) = u_id x \<and> email (f x) = email x \<and> disabledAt (f x) = disabledAt x)
     \<Longrightarrow> user_standing (update_user u f s) = user_standing s"
  by (simp add: user_standing_def update_user_def update_where_def)

definition marked :: "uuid \<Rightarrow> millis option \<Rightarrow> uuid \<times> string \<times> millis option \<Rightarrow> uuid \<times> string \<times> millis option" where
  "marked u at r = (if fst r = u then (fst r, fst (snd r), at) else r)"

lemma marked_sel [simp]:
  "fst (marked u at r) = fst r" "fst (snd (marked u at r)) = fst (snd r)"
  "snd (snd (marked u at r)) = (if fst r = u then at else snd (snd r))"
  by (simp_all add: marked_def)

lemma set_disabled_standing [simp]:
  "standing (op_auth (set_disabled u at st)) = map (marked u at) (standing (op_auth st))"
  "user_standing (op_store (set_disabled u at st)) = map (marked u at) (user_standing (op_store st))"
  by (simp_all add: set_disabled_def standing_def user_standing_def update_auth_def update_user_def update_where_def marked_def)

lemma set_disabled_sel [simp]:
  "ad_sessions (op_auth (set_disabled u at st)) = ad_sessions (op_auth st)"
  "members (op_store (set_disabled u at st)) = members (op_store st)"
  "op_subs (set_disabled u at st) = op_subs st" "op_profiles (set_disabled u at st) = op_profiles st"
  "op_logins (set_disabled u at st) = op_logins st"
  by (simp_all add: set_disabled_def)

lemma existing_InrD: "existing st m = Inr u \<Longrightarrow> u \<in> set (ad_users (op_auth st)) \<and> wu_email u = m"
  by (auto simp: existing_def split: option.splits dest: find_SomeD)

lemma sole_row:
  assumes "one_table st" "existing st m = Inr u"
  shows "(i, e, d) \<in> set (standing (op_auth st)) \<and> i = wu_id u \<longleftrightarrow> i = wu_id u \<and> e = m \<and> d = wu_disabledAt u"
proof -
  have "(wu_id u, m, wu_disabledAt u) \<in> set (standing (op_auth st))"
    using existing_InrD [OF assms(2)] by (force simp: standing_def)
  then show ?thesis using assms(1) by (auto simp: one_table_def dest: distinct_map_memD)
qed

section \<open>Who is shut out\<close>

text \<open>What happens on the server meanwhile: commands, and ways in.\<close>

datatype op_event =
    Operates operator_env command
  | EntersCode millis string string
  | Enters millis uuid

fun op_step :: "(string \<Rightarrow> string) \<Rightarrow> op_event \<Rightarrow> operator_db \<Rightarrow> operator_db" where
  "op_step hash (Operates env c) st = snd (execute env c st)"
| "op_step hash (EntersCode now m entered) st = st\<lparr>op_auth := snd (signIn hash now m entered (op_auth st))\<rparr>"
| "op_step hash (Enters now u) st = st\<lparr>op_auth := snd (createSession now u (op_auth st))\<rparr>"

definition shut :: "string \<Rightarrow> uuid \<Rightarrow> operator_db \<Rightarrow> bool" where
  "shut m u st \<longleftrightarrow> u \<in> fst ` set (standing (op_auth st))
     \<and> (\<forall>r \<in> set (standing (op_auth st)). fst r = u \<longrightarrow> fst (snd r) = m \<and> snd (snd r) \<noteq> None)
     \<and> (\<forall>r \<in> set (user_standing (op_store st)). fst r = u \<longrightarrow> snd (snd r) \<noteq> None)
     \<and> sessions_of u (op_auth st) = []"

lemma shut_keeps:
  assumes "shut m u st" and "standing (op_auth st') = standing (op_auth st)"
    and "user_standing (op_store st') = user_standing (op_store st)"
    and "set (sessions_of u (op_auth st')) \<subseteq> set (sessions_of u (op_auth st))"
  shows "shut m u st'"
  using assms by (simp add: shut_def)

lemma sessions_delete: "set (sessions_of u (delete_sessions v a)) \<subseteq> set (sessions_of u a)"
  by (auto simp: sessions_of_def)

lemma sessions_cong: "ad_sessions a = ad_sessions b \<Longrightarrow> sessions_of u a = sessions_of u b"
  by (simp add: sessions_of_def)

lemma execute_quiet:
  assumes "\<And>m. c \<noteq> Disable m" "\<And>m. c \<noteq> Enable m"
  shows "standing (op_auth (snd (execute env c st))) = standing (op_auth st)
    \<and> user_standing (op_store (snd (execute env c st))) = user_standing (op_store st)
    \<and> set (sessions_of u (op_auth (snd (execute env c st)))) \<subseteq> set (sessions_of u (op_auth st))"
proof (cases c)
  case CreateAdmin
  then show ?thesis by (simp add: createAdmin_def issue_link_def Let_def)
next
  case (Reseal old)
  obtain n chs where "reseal (reseal_run env old) (channels (op_store st)) = (n, chs)" by fastforce
  then show ?thesis using Reseal by (simp add: resealAll_def log_event_def Let_def)
next
  case (RecoveryCodes m)
  then show ?thesis
    by (auto simp: recoveryCodes_def replaceAll_def Let_def sessions_of_def split: sum.split)
next
  case (ResetPassword m)
  then show ?thesis
    by (auto simp: resetPassword_def replacePasswordAndEndSessions_def Let_def standing_update sessions_of_def split: sum.split)
next
  case (SetPlan m plan)
  then show ?thesis by (auto simp: setPlan_def Let_def user_standing_update split: sum.split)
qed (use assms in \<open>auto simp: show_account_def unlock_def endSessions_def verifyEmail_def Let_def standing_update
      sessions_of_def split: sum.split\<close>)

lemma shut_marked:
  assumes "shut m u st" and "at \<noteq> None \<or> v \<noteq> u"
  shows "shut m u (set_disabled v at st)"
  using assms by (auto simp: shut_def image_image sessions_cong [OF set_disabled_sel(1)])

lemma shut_createSession:
  assumes "shut m u st"
  shows "fst (createSession now u (op_auth st)) = AccountDisabled"
    and "shut m u (st\<lparr>op_auth := snd (createSession now v (op_auth st))\<rparr>)"
proof -
  have "find (\<lambda>x. wu_id x = u) (ad_users (op_auth st)) \<noteq> None"
    using assms by (auto simp: shut_def standing_def find_None_iff)
  then obtain x where x: "find (\<lambda>x. wu_id x = u) (ad_users (op_auth st)) = Some x" by blast
  then have "x \<in> set (ad_users (op_auth st))" "wu_id x = u" by (auto dest: find_SomeD)
  then have dis: "wu_disabledAt x \<noteq> None" using assms by (force simp: shut_def standing_def)
  then show "fst (createSession now u (op_auth st)) = AccountDisabled" using x by (simp add: createSession_def)
  show "shut m u (st\<lparr>op_auth := snd (createSession now v (op_auth st))\<rparr>)"
  proof (cases "v = u")
    case True
    then show ?thesis using x dis assms by (simp add: createSession_def)
  next
    case False
    show ?thesis
      by (rule shut_keeps [OF assms])
        (use False in \<open>auto simp: createSession_def trimSessions_def recordSuccessfulLogin_def Let_def standing_def
          sessions_of_def update_where_def\<close>)
  qed
qed

lemma shut_step:
  assumes "shut m u st" and "\<And>env. e \<noteq> Operates env (Enable m)"
  shows "shut m u (op_step hash e st)"
proof (cases e)
  case (Operates env c)
  consider (dis) m' where "c = Disable m'" | (en) m' where "c = Enable m'" | (quiet) "\<And>m. c \<noteq> Disable m" "\<And>m. c \<noteq> Enable m"
    by blast
  then show ?thesis
  proof cases
    case dis
    have "shut m u (record_change env v c' d (st'\<lparr>op_auth := delete_sessions w (op_auth st')\<rparr>))" if "shut m u st'" for v c' d w st'
      by (rule shut_keeps [OF that]) (simp_all add: sessions_delete)
    then show ?thesis using Operates dis assms(1) by (auto simp: disable_def Let_def shut_marked split: sum.split)
  next
    case en
    have "wu_id v \<noteq> u" if "existing st m' = Inr v" for v
      using existing_InrD [OF that] assms en Operates by (force simp: shut_def standing_def)
    moreover have "shut m u (record_change env v c' d st')" if "shut m u st'" for v c' d st'
      by (rule shut_keeps [OF that]) simp_all
    ultimately show ?thesis using Operates en assms(1) by (auto simp: enable_def shut_marked split: sum.split)
  next
    case quiet
    then show ?thesis using shut_keeps [OF assms(1)] execute_quiet [OF quiet, of env st u] Operates by simp
  qed
next
  case (EntersCode now m' entered)
  have fail: "shut m u (st\<lparr>op_auth := snd (recordFailure now x a)\<rparr>)" if "shut m u (st\<lparr>op_auth := a\<rparr>)" for x a
    by (rule shut_keeps [OF that]) (simp_all add: recordFailure_def Let_def standing_def sessions_of_def update_where_def)
  have spent: "shut m u (st\<lparr>op_auth := snd (spend hash now i entered (op_auth st))\<rparr>)" for i
    by (rule shut_keeps [OF assms(1)]) (simp_all add: spend_def standing_def sessions_of_def)
  have "shut m u (st\<lparr>op_auth := snd (createSession now i (snd (spend hash now j entered (op_auth st))))\<rparr>)" for i j
    using shut_createSession(2) [OF spent] by simp
  note opened = this
  show ?thesis
  proof (cases "find (\<lambda>x. wu_email x = m') (ad_users (op_auth st))")
    case (Some x)
    obtain ok a where sp: "spend hash now (wu_id x) entered (op_auth st) = (ok, a)" by fastforce
    show ?thesis using EntersCode Some assms(1) fail [OF spent [of "wu_id x"], of x] opened [of "wu_id x" "wu_id x"] sp
      by (cases ok) (simp_all add: signIn_def)
  qed (use EntersCode assms(1) in \<open>simp add: signIn_def\<close>)
next
  case (Enters now v)
  then show ?thesis using shut_createSession(2) [OF assms(1)] by simp
qed

lemma disable_shuts:
  assumes "one_table st" "existing st m = Inr u" "wu_disabledAt u = None"
  shows "shut m (wu_id u) (snd (disable env m st))"
proof -
  let ?st = "set_disabled (wu_id u) (Some (oe_now env)) st"
  have rows: "(wu_id u, m, None) \<in> set (standing (op_auth st))"
    "\<And>i e d. (i, e, d) \<in> set (standing (op_auth st)) \<Longrightarrow> i = wu_id u \<Longrightarrow> e = m"
    using sole_row [OF assms(1,2)] assms(3) by auto
  have st: "snd (disable env m st) = record_change env u ''disable'' [(''sessions'', JNum (int (length (sessions_of (wu_id u) (op_auth st)))))]
      (?st\<lparr>op_auth := delete_sessions (wu_id u) (op_auth ?st)\<rparr>)"
    using assms(2,3) by (simp add: disable_def Let_def)
  have "wu_id u \<in> fst ` set (standing (op_auth st))" using rows(1) by force
  moreover have "fst (snd r) = m" if "r \<in> set (standing (op_auth st))" "fst r = wu_id u" for r
    using rows(2) that by (cases r) auto
  ultimately show ?thesis unfolding st shut_def by (auto simp: image_image sessions_of_def)
qed

text \<open>
  C39. Once the operator has disabled an account it is out, whatever happens next: until
  somebody enables it again it holds no session, no way of signing in opens one, and no key of a
  project that only it owns resolves.
\<close>

theorem disabled_stays_out:
  assumes "one_table st" and "existing st m = Inr u" and "wu_disabledAt u = None"
    and "\<forall>e \<in> set es. \<forall>env. e \<noteq> Operates env (Enable m)"
    and "st' = fold (op_step hash) es (snd (disable env m st))"
  shows "sessions_of (wu_id u) (op_auth st') = []
    \<and> fst (createSession now (wu_id u) (op_auth st')) = AccountDisabled
    \<and> ((\<exists>n \<in> set (members (op_store st')). m_project n = p \<and> role n = Owner)
        \<and> (\<forall>n \<in> set (members (op_store st')). m_project n = p \<and> role n = Owner \<longrightarrow> m_user n = wu_id u)
        \<longrightarrow> fst (resolve_key kenv (op_store st') tok ks) \<noteq> Some (k, p))"
proof -
  have shut: "shut m (wu_id u) st'"
    unfolding assms(5) using assms(4) disable_shuts [OF assms(1-3), of env]
    by (induction es rule: rev_induct) (simp_all add: shut_step)
  have "suspended p (op_store st')"
    if "\<exists>n \<in> set (members (op_store st')). m_project n = p \<and> role n = Owner"
      "\<forall>n \<in> set (members (op_store st')). m_project n = p \<and> role n = Owner \<longrightarrow> m_user n = wu_id u"
    using that shut
    by (force simp: suspended_def Let_def filter_empty_conv list_all_iff shut_def user_standing_def
        split: option.split dest: find_SomeD)
  then have "fst (resolve_key kenv (op_store st') tok ks) \<noteq> Some (k, p)"
    if "\<exists>n \<in> set (members (op_store st')). m_project n = p \<and> role n = Owner"
      "\<forall>n \<in> set (members (op_store st')). m_project n = p \<and> role n = Owner \<longrightarrow> m_user n = wu_id u"
    using that by (auto simp: resolve_key_def split: option.splits if_splits)
  then show ?thesis using shut shut_createSession(1) [OF shut] by (simp add: shut_def)
qed

text \<open>
  Enabling an account undoes what disabling it did, but for the sessions that were ended: with
  them and the trail aside, the database is what it was.
\<close>

theorem enable_undoes_disable:
  assumes "one_table st" and "existing st m = Inr u" and "wu_disabledAt u = None"
    and "st1 = snd (disable env m st)" and "st2 = snd (enable env' m st1)"
  shows "st2\<lparr>op_signup := (op_signup st2)\<lparr>sn_audit := sn_audit (op_signup st)\<rparr>\<rparr>
    = st\<lparr>op_auth := delete_sessions (wu_id u) (op_auth st)\<rparr>"
proof -
  let ?f = "\<lambda>t. (\<lambda>x. x\<lparr>wu_disabledAt := t\<rparr>)"
  have rows: "wu_disabledAt x = None" if "x \<in> set (ad_users (op_auth st))" "wu_id x = wu_id u" for x
  proof -
    have "(wu_id x, wu_email x, wu_disabledAt x) \<in> set (standing (op_auth st))" using that(1) by (force simp: standing_def)
    then show ?thesis using sole_row [OF assms(1,2), of "wu_id x" "wu_email x" "wu_disabledAt x"] that(2) assms(3) by simp
  qed
  have row: "(u_id x, email x, disabledAt x) \<in> set (standing (op_auth st))" if "x \<in> set (users (op_store st))" for x
    using assms(1) that by (force simp: one_table_def user_standing_def)
  have rows': "disabledAt x = None" if "x \<in> set (users (op_store st))" "u_id x = wu_id u" for x
    using sole_row [OF assms(1,2), of "u_id x" "email x" "disabledAt x"] row [OF that(1)] that(2) assms(3) by simp
  have same: "map (\<lambda>x. if wu_id x = wu_id u then x\<lparr>wu_disabledAt := None\<rparr> else x) (ad_users (op_auth st)) = ad_users (op_auth st)"
    "map (\<lambda>x. if u_id x = wu_id u then x\<lparr>disabledAt := None\<rparr> else x) (users (op_store st)) = users (op_store st)"
    using rows rows' by (auto intro!: map_idI)
  have u: "find (\<lambda>x. wu_email x = m) (ad_users (op_auth st)) = Some u"
    using assms(2) by (auto simp: existing_def split: option.splits)
  have "find (\<lambda>x. wu_email x = m) (map (\<lambda>x. if wu_id x = wu_id u then x\<lparr>wu_disabledAt := t\<rparr> else x) xs)
      = Some (u\<lparr>wu_disabledAt := t\<rparr>)" if "find (\<lambda>x. wu_email x = m) xs = Some u" for xs t
    using that by (induction xs) (auto split: if_splits)
  from this [OF u, of "Some (oe_now env)"]
  have "existing st1 m = Inr (u\<lparr>wu_disabledAt := Some (oe_now env)\<rparr>)"
    unfolding assms(4) using assms(2,3)
    by (simp add: disable_def Let_def existing_def set_disabled_def update_auth_def update_where_def)
  then show ?thesis
    unfolding assms(5) unfolding assms(4) using assms(2,3) same
    by (simp add: disable_def enable_def Let_def set_disabled_def update_auth_def update_user_def update_where_def
        record_change_def log_event_def set_store_def delete_sessions_def comp_def if_distrib cong: if_cong)
qed

section \<open>What a command touches\<close>

fun target :: "command \<Rightarrow> string option" where
  "target CreateAdmin = None"
| "target (Reseal _) = None"
| "target (Show m) = Some m"
| "target (RecoveryCodes m) = Some m"
| "target (ResetPassword m) = Some m"
| "target (Unlock m) = Some m"
| "target (EndSessions m) = Some m"
| "target (Disable m) = Some m"
| "target (Enable m) = Some m"
| "target (VerifyEmail m) = Some m"
| "target (SetPlan m _) = Some m"

text \<open>The database without the rows of an account, and without the trail.\<close>

definition others :: "uuid \<Rightarrow> operator_db \<Rightarrow> operator_db" where
  "others u st =
     \<lparr>op_signup = (op_signup st)\<lparr>sn_db := (op_store st)\<lparr>users := filter (\<lambda>x. u_id x \<noteq> u) (users (op_store st))\<rparr>,
        sn_audit := \<lparr>au_events = [], au_emails = [], au_next = 0\<rparr>\<rparr>,
      op_auth = \<lparr>ad_users = filter (\<lambda>x. wu_id x \<noteq> u) (ad_users (op_auth st)),
        ad_codes = filter (\<lambda>c. rv_user c \<noteq> u) (ad_codes (op_auth st)),
        ad_sessions = filter (\<lambda>x. as_user x \<noteq> u) (ad_sessions (op_auth st)),
        ad_passkeys = ad_passkeys (op_auth st), ad_accounts = filter (\<lambda>i. i \<noteq> u) (ad_accounts (op_auth st)),
        ad_next = ad_next (op_auth st)\<rparr>,
      op_subs = op_subs st, op_profiles = filter (\<lambda>x. pf_user x \<noteq> u) (op_profiles st),
      op_logins = filter (\<lambda>l. lg_user l \<noteq> u) (op_logins st)\<rparr>"

text \<open>The password of an account is the row whose account number is its own.\<close>

definition logins_ok :: "(uuid \<Rightarrow> string) \<Rightarrow> operator_db \<Rightarrow> bool" where
  "logins_ok txt st \<longleftrightarrow> (\<forall>l \<in> set (op_logins st). \<forall>u. lg_provider l = ''credential'' \<and> lg_account l = txt u \<longrightarrow> lg_user l = u)"

lemma filter_update_where:
  "(\<And>x. x \<in> set xs \<Longrightarrow> p x \<Longrightarrow> \<not> q x \<and> \<not> q (f x)) \<Longrightarrow> filter q (update_where p f xs) = filter q xs"
  by (induction xs) auto

lemma upsert_others:
  assumes "logins_ok txt st"
  shows "filter (\<lambda>l. lg_user l \<noteq> u) (upsert_login (txt u) u h (op_logins st)) = filter (\<lambda>l. lg_user l \<noteq> u) (op_logins st)"
    and "filter (\<lambda>i. i \<noteq> u) (map lg_user (upsert_login (txt u) u h (op_logins st))) = filter (\<lambda>i. i \<noteq> u) (map lg_user (op_logins st))"
proof -
  show *: "filter (\<lambda>l. lg_user l \<noteq> u) (upsert_login (txt u) u h (op_logins st)) = filter (\<lambda>l. lg_user l \<noteq> u) (op_logins st)"
    using assms by (auto simp: upsert_login_def logins_ok_def intro!: filter_update_where)
  then show "filter (\<lambda>i. i \<noteq> u) (map lg_user (upsert_login (txt u) u h (op_logins st))) = filter (\<lambda>i. i \<noteq> u) (map lg_user (op_logins st))"
    by (simp add: filter_map comp_def)
qed

definition noted_change :: "operator_env \<Rightarrow> string \<Rightarrow> operator_db \<Rightarrow> operator_db \<Rightarrow> bool" where
  "noted_change env m st st' \<longleftrightarrow>
     (if sv_written (oe_server env)
      then \<exists>e. au_events (sn_audit (op_signup st')) = au_events (sn_audit (op_signup st)) @ [e]
             \<and> ev_action e = ''operator.change'' \<and> ev_actorEmail e = Some ''operator (command line)''
             \<and> ev_targetLabel e = Some m \<and> ev_occurredAt e = oe_now env
      else sn_audit (op_signup st') = sn_audit (op_signup st))"

lemma record_change_noted:
  "wu_email u = m \<Longrightarrow> sn_audit (op_signup st') = sn_audit (op_signup st) \<Longrightarrow>
     noted_change env m st (record_change env u command detail st')"
  by (simp add: noted_change_def record_change_def log_event_def write_event_def change_record_def OPERATOR_def)

lemma others_recorded: "others i st' = others i st \<Longrightarrow> others i (record_change env u command detail st') = others i st"
  by (simp add: others_def record_change_def log_event_def)

lemma touched:
  assumes "existing st m = Inr u" "others (wu_id u) st1 = others (wu_id u) st" "sn_audit (op_signup st1) = sn_audit (op_signup st)"
  shows "\<exists>v. existing st m = Inr v \<and> others (wu_id v) (record_change env u command detail st1) = others (wu_id v) st
    \<and> noted_change env m st (record_change env u command detail st1)"
  using assms existing_InrD [OF assms(1)] by (auto intro!: others_recorded record_change_noted)

lemma others_update:
  "(\<And>x. wu_id (f x) = wu_id x) \<Longrightarrow> others u (st\<lparr>op_auth := update_auth u f (op_auth st)\<rparr>) = others u st"
  by (simp add: others_def update_auth_def filter_update_where)

lemma others_delete: "others u (st\<lparr>op_auth := delete_sessions u (op_auth st)\<rparr>) = others u st"
  by (simp add: others_def delete_sessions_def)

lemma others_store:
  "(\<And>x. u_id (f x) = u_id x) \<Longrightarrow> others u (set_store (update_user u f) st) = others u st"
  by (simp add: others_def set_store_def update_user_def filter_update_where)

lemma others_disabled: "others u (set_disabled u at st) = others u st"
  by (simp add: set_disabled_def others_store others_update)

lemma others_codes: "others u (st\<lparr>op_auth := snd (replaceAll hash u draws (op_auth st))\<rparr>) = others u st"
  by (auto simp: others_def replaceAll_def Let_def filter_empty_conv)

lemma others_password:
  assumes "logins_ok (ce_uuid_text (oe_server env)) st" "ad_accounts (op_auth st) = map lg_user (op_logins st)"
  shows "others u (replacePasswordAndEndSessions env u h st) = others u st"
  using assms(2) upsert_others [OF assms(1), of u h]
  by (simp add: others_def replacePasswordAndEndSessions_def Let_def update_auth_def delete_sessions_def filter_update_where)

lemma others_profile:
  "(\<And>x. pf_user (f x) = pf_user x) \<Longrightarrow>
     others u (st\<lparr>op_profiles := update_where (\<lambda>x. pf_user x = u) f (op_profiles st)\<rparr>) = others u st"
  by (simp add: others_def filter_update_where)

lemma unaudited [simp]:
  "sn_audit (op_signup (set_disabled u at st)) = sn_audit (op_signup st)"
  "sn_audit (op_signup (replacePasswordAndEndSessions env u h st)) = sn_audit (op_signup st)"
  by (simp_all add: set_disabled_def replacePasswordAndEndSessions_def Let_def)

text \<open>
  A command about an account that is refused, or has nothing to do, changes nothing.
  Otherwise it changes rows of that account only, no check, project, membership, key or
  subscription among them, and the trail has one entry more: an operator's change, at that
  moment, of that address.
\<close>

theorem commands_touch_one_account:
  assumes "one_table st" and "logins_ok (ce_uuid_text (oe_server env)) st"
    and "target c = Some m" and "execute env c st = (r, st')"
  shows "st' = st \<or> (\<exists>text u. r = Inr text \<and> existing st m = Inr u \<and> others (wu_id u) st' = others (wu_id u) st
    \<and> noted_change env m st st')"
proof -
  have acc: "ad_accounts (op_auth st) = map lg_user (op_logins st)" using assms(1) by (simp add: one_table_def)
  note moves = others_update others_delete others_store others_disabled others_codes others_profile
    others_password [OF assms(2) acc]
  show ?thesis
  proof (cases "existing st m")
    case (Inl e)
    then show ?thesis using assms(3,4)
      by (cases c) (auto simp: show_account_def unlock_def endSessions_def verifyEmail_def setPlan_def disable_def enable_def
          recoveryCodes_def resetPassword_def split: sum.splits)
  next
    case (Inr u)
    have hit: "\<exists>v. existing st m = Inr v \<and> others (wu_id v) (record_change env u command detail st1) = others (wu_id v) st
        \<and> noted_change env m st (record_change env u command detail st1)"
      if "others (wu_id u) st1 = others (wu_id u) st" "sn_audit (op_signup st1) = sn_audit (op_signup st)" for command detail st1
      using touched [OF Inr that] .
    show ?thesis
    proof (cases c)
      case (Disable m')
      have "others (wu_id u) ((set_disabled (wu_id u) t st)\<lparr>op_auth := delete_sessions (wu_id u) (op_auth (set_disabled (wu_id u) t st))\<rparr>)
          = others (wu_id u) st" for t
        by (simp add: others_delete others_disabled)
      then show ?thesis using Inr hit assms(3,4) Disable by (auto simp: disable_def Let_def split: if_splits)
    next
      case (RecoveryCodes m')
      obtain codes a where ca: "replaceAll (oe_codeHash env) (wu_id u) (oe_draws env) (op_auth st) = (codes, a)" by fastforce
      have "others (wu_id u) (st\<lparr>op_auth := a\<rparr>) = others (wu_id u) st"
        using others_codes [of "wu_id u" "oe_codeHash env" "oe_draws env" st] by (simp add: ca)
      then show ?thesis using Inr hit [of "st\<lparr>op_auth := a\<rparr>"] assms(3,4) RecoveryCodes ca
        by (auto simp: recoveryCodes_def split: sum.splits)
    qed (use Inr hit assms(3,4) moves in \<open>auto simp: show_account_def unlock_def endSessions_def verifyEmail_def setPlan_def
          enable_def resetPassword_def Let_def split: sum.splits if_splits\<close>)
  qed
qed

text \<open>
  What a command hands out once stays with the operator: the trail is the same whatever the new
  password, codes, token and their hashes are; and what \<open>show\<close> prints of an account is the same
  whatever the stored hashes are.
\<close>

theorem secrets_stay_with_operator:
  "sn_audit (op_signup (snd (execute (env\<lparr>oe_password := pw, oe_draws := ds, oe_token := tok, oe_hashPassword := h,
       oe_codeHash := g\<rparr>) c st))) = sn_audit (op_signup (snd (execute env c st)))
   \<and> fst (show_account env m (st\<lparr>op_logins := map (\<lambda>l. l\<lparr>lg_password := f l\<rparr>) (op_logins st),
       op_auth := (op_auth st)\<lparr>ad_codes := codes\<rparr>\<rparr>)) = fst (show_account env m st)"
proof
  let ?env = "env\<lparr>oe_password := pw, oe_draws := ds, oe_token := tok, oe_hashPassword := h, oe_codeHash := g\<rparr>"
  have log: "sn_audit (op_signup (record_change ?env u command detail st1)) = sn_audit (op_signup (record_change env u command detail st2))"
    if "sn_audit (op_signup st1) = sn_audit (op_signup st2)" for u command detail st1 st2
    using that by (simp add: record_change_def log_event_def write_event_def change_record_def OPERATOR_def)
  show "sn_audit (op_signup (snd (execute ?env c st))) = sn_audit (op_signup (snd (execute env c st)))"
  proof (cases c)
    case (Reseal old)
    have "reseal_run ?env old = reseal_run env old" by (simp add: reseal_run_def Let_def)
    moreover obtain n chs where "reseal (reseal_run env old) (channels (op_store st)) = (n, chs)" by fastforce
    ultimately show ?thesis using Reseal by (simp add: resealAll_def log_event_def reseal_record_def Let_def)
  qed (auto intro!: log simp: createAdmin_def issue_link_def recoveryCodes_def resetPassword_def show_account_def verifyEmail_def
      setPlan_def disable_def enable_def unlock_def endSessions_def requireMode_def Let_def split: sum.splits prod.splits)
  show "fst (show_account env m (st\<lparr>op_logins := map (\<lambda>l. l\<lparr>lg_password := f l\<rparr>) (op_logins st),
       op_auth := (op_auth st)\<lparr>ad_codes := codes\<rparr>\<rparr>)) = fst (show_account env m st)"
    by (simp add: show_account_def existing_def account_lines_def Let_def sign_in_methods_def filter_map comp_def
        createdAt_of_def verified_def plan_of_def sessions_of_def split: option.split cong: if_cong)
qed

text \<open>
  Every command that changes something is said to be recorded in the trail. The one that hands out
  the administrator's account is not.
\<close>

theorem setup_link_unrecorded:
  assumes "find (\<lambda>x. wu_email x = sg_adminEmail (oe_signup env)) (ad_users (op_auth st)) = None"
    and "to_lower (sg_adminEmail (oe_signup env)) = sg_adminEmail (oe_signup env)" and "oe_token env \<noteq> []"
    and "identifierOf (oe_server env) (oe_token env) \<notin> vf_identifier ` set (sn_links (op_signup st))"
    and "execute env CreateAdmin st = (r, st')"
  shows "accepts (oe_signup env) (oe_server env) (Some (oe_token env)) (sg_adminEmail (oe_signup env)) (op_signup st')
    \<and> sn_audit (op_signup st') = sn_audit (op_signup st)"
proof -
  have "find (\<lambda>v. vf_identifier v = identifierOf (oe_server env) (oe_token env) \<and> oe_now env < vf_expiresAt v)
      (sn_links (op_signup st)) = None"
    unfolding find_None_iff using assms(4) by (metis image_eqI)
  then have "find (\<lambda>v. vf_identifier v = identifierOf (oe_server env) (oe_token env) \<and> oe_now env < vf_expiresAt v)
      (sn_links (op_signup st) @ [v]) = (if vf_identifier v = identifierOf (oe_server env) (oe_token env) \<and> oe_now env < vf_expiresAt v
        then Some v else None)" for v
    by (simp add: find_append)
  then show ?thesis using assms(1-3,5)
    by (auto simp: createAdmin_def issue_link_def Let_def accepts_def SETUP_LINK_TTL_MS_def)
qed

section \<open>A concrete desk\<close>

definition desk_config :: app_config where
  "desk_config = \<lparr>cf_env = hosted_env, cf_isProduction = True, cf_baseUrl = ''https://w'',
     cf_planLimits = [(''free'', UNLIMITED)], cf_stripePlans = []\<rparr>"

definition desk_env :: operator_env where
  "desk_env = \<lparr>oe_config = desk_config, oe_signup = sample_signup, oe_server = sample_signup_env, oe_reseal = toy_reseal,
     oe_token = ''t'', oe_password = [1, 2, 3], oe_hashPassword = id, oe_codeHash = id, oe_draws = (\<lambda>k g i. k),
     oe_query = id, oe_stringify = (\<lambda>_. ''{}''), oe_sessionEnds = (\<lambda>_. 5000)\<rparr>"

definition desk_user :: auth_user where
  "desk_user = pot_user\<lparr>wu_disabledAt := None\<rparr>"

definition desk :: operator_db where
  "desk = \<lparr>op_signup = nobody_yet\<lparr>sn_db := empty_db\<lparr>users := [\<lparr>u_id = 1, email = ''ada@example.com'', u_plan = None, disabledAt = None\<rparr>],
        members := [\<lparr>m_project = 4, m_user = 1, role = Owner, m_createdAt = 0\<rparr>]\<rparr>\<rparr>,
     op_auth = pot_db\<lparr>ad_users := [desk_user], ad_sessions := [\<lparr>as_id = 6, as_user = 1, as_createdAt = 9\<rparr>]\<rparr>,
     op_subs = [], op_profiles = [\<lparr>pf_user = 1, pf_createdAt = 0, pf_emailVerified = False\<rparr>], op_logins = []\<rparr>"

lemma desk_facts: "one_table desk" "existing desk ''ada@example.com'' = Inr desk_user" "wu_disabledAt desk_user = None"
  "wu_id desk_user = 1" "logins_ok txt desk" "sessions_of 1 (op_auth desk) \<noteq> []"
  by (simp_all add: one_table_def desk_def standing_def user_standing_def nobody_yet_def pot_db_def desk_user_def pot_user_def
      existing_def logins_ok_def sessions_of_def)

theorem disabled_stays_out_witness:
  "sessions_of 1 (op_auth (op_step id (Enters 20 1) (snd (disable desk_env ''ada@example.com'' desk)))) = []
   \<and> fst (createSession 30 1 (op_auth (op_step id (Enters 20 1) (snd (disable desk_env ''ada@example.com'' desk))))) = AccountDisabled"
proof -
  have "\<forall>e \<in> set [Enters 20 1]. \<forall>env. e \<noteq> Operates env (Enable ''ada@example.com'')" by simp
  from disabled_stays_out [OF desk_facts(1-3) this refl, of id desk_env 30]
  show ?thesis unfolding desk_facts(4) by simp
qed

theorem commands_touch_one_account_witness:
  "noted_change desk_env ''ada@example.com'' desk (snd (execute desk_env (EndSessions ''ada@example.com'') desk))
   \<and> others 1 (snd (execute desk_env (EndSessions ''ada@example.com'') desk)) = others 1 desk"
proof -
  obtain r st' where run: "execute desk_env (EndSessions ''ada@example.com'') desk = (r, st')" by fastforce
  have "sessions_of 1 (op_auth st') = []"
    using run desk_facts(2,4) by (auto simp: endSessions_def Let_def sessions_of_def)
  then have "st' \<noteq> desk" using desk_facts(6) by auto
  then show ?thesis
    using commands_touch_one_account [OF desk_facts(1) desk_facts(5) _ run] run desk_facts(2,4) by auto
qed

theorem setup_link_unrecorded_witness:
  "accepts sample_signup sample_signup_env (Some ''t'') ''root@w.io'' (op_signup (snd (execute desk_env CreateAdmin desk)))"
proof -
  have facts: "find (\<lambda>x. wu_email x = sg_adminEmail (oe_signup desk_env)) (ad_users (op_auth desk)) = None"
    "to_lower (sg_adminEmail (oe_signup desk_env)) = sg_adminEmail (oe_signup desk_env)" "oe_token desk_env \<noteq> []"
    "identifierOf (oe_server desk_env) (oe_token desk_env) \<notin> vf_identifier ` set (sn_links (op_signup desk))"
    by (simp_all add: desk_env_def desk_def desk_user_def pot_user_def sample_signup_def nobody_yet_def) code_simp
  obtain r st' where run: "execute desk_env CreateAdmin desk = (r, st')" by fastforce
  show ?thesis using setup_link_unrecorded [OF facts run] run by (simp add: desk_env_def sample_signup_def)
qed

end
