(* ===== verification/AuthGate.thy ===== *)
theory AuthGate
  imports SignIn Signup Config
begin

text \<open>
  The mount of the sign-in endpoints and what surrounds them:
  \<^verbatim>\<open>packages/server/src/auth/better-auth/auth-routes.ts\<close>, \<^verbatim>\<open>auth-paths.ts\<close>, \<^verbatim>\<open>providers.ts\<close>,
  the readers of headers in \<^verbatim>\<open>auth-policy.ts\<close>, and the hooks and the passkey registration of
  \<^verbatim>\<open>auth.factory.ts\<close>. The endpoints themselves are the authentication library's: what it finds
  (the session of a request, whether it failed, the session it opened) is an argument.
  Header names are in lower case and occur once, as the server hands them on.
\<close>

type_synonym headers = "(string \<times> string) list"

record auth_request =
  hq_method :: string
  hq_url :: string
  hq_headers :: headers
  hq_ip :: string
  hq_body :: "json option"

record web_request =
  wq_method :: string
  wq_base :: string
  wq_url :: string
  wq_headers :: headers
  wq_body :: "string option"

record auth_runtime =
  ar_stringify :: "json \<Rightarrow> string"
  ar_form :: "json \<Rightarrow> string"
  ar_decode :: "string \<Rightarrow> string option"
  ar_schemas :: channel_schemas

section \<open>Which endpoints there are\<close>

definition enabledProviders :: "env_vars \<Rightarrow> string list" where
  "enabledProviders env =
     (if en_AUTH_MODE env \<noteq> Full then []
      else (case en_GOOGLE env of (Some _, Some _) \<Rightarrow> [''google''] | _ \<Rightarrow> [])
         @ (case en_MICROSOFT env of (Some _, Some _) \<Rightarrow> [''microsoft''] | _ \<Rightarrow> []))"

definition allowedAuthPaths :: "auth_mode \<Rightarrow> string list \<Rightarrow> string list" where
  "allowedAuthPaths mode providers =
     [''/sign-out'']
     @ (if mode = Password then [''/sign-up/email'', ''/sign-in/email'', ''/change-password'']
        else [''/passkey/generate-register-options'', ''/passkey/generate-authenticate-options'', ''/passkey/verify-registration'',
          ''/passkey/verify-authentication'', ''/passkey/list-user-passkeys'', ''/passkey/update-passkey'', ''/passkey/delete-passkey''])
     @ (if mode = Passkey then [''/recovery-codes/generate'', ''/recovery-codes/remaining'', ''/recovery-codes/sign-in''] else [])
     @ (if mode = Full \<and> providers \<noteq> [] then ''/sign-in/social'' # map (\<lambda>p. ''/callback/'' @ p) providers else [])"

section \<open>The mount\<close>

definition AUTH_BASE_PATH :: string where "AUTH_BASE_PATH = ''/api/auth''"

definition CLIENT_IP_HEADER :: string where "CLIENT_IP_HEADER = ''x-sw-client-ip''"

definition trustedOriginsOf :: "app_config \<Rightarrow> string list" where
  "trustedOriginsOf c = cf_baseUrl c # en_AUTH_TRUSTED_ORIGINS (cf_env c)"

definition pathWithinAuth :: "string \<Rightarrow> string" where
  "pathWithinAuth url = strip_slashes (drop (length AUTH_BASE_PATH) (takeWhile (\<lambda>c. c \<noteq> CHR ''?'') url))"

definition isProviderCallback :: "string \<Rightarrow> string list \<Rightarrow> bool" where
  "isProviderCallback path paths \<longleftrightarrow> starts_with ''/callback/'' path \<and> path \<in> set paths"

definition bodyOf :: "auth_runtime \<Rightarrow> headers \<Rightarrow> json \<Rightarrow> string" where
  "bodyOf rt hs b =
     (case b of
        JStr s \<Rightarrow> s
      | _ \<Rightarrow> if sublist ''application/x-www-form-urlencoded'' (case map_of hs ''content-type'' of None \<Rightarrow> [] | Some t \<Rightarrow> t)
             then ar_form rt b else ar_stringify rt b)"

definition toWebRequest :: "auth_runtime \<Rightarrow> app_config \<Rightarrow> auth_request \<Rightarrow> web_request" where
  "toWebRequest rt c rq =
     (let hs = filter (\<lambda>h. fst h \<noteq> CLIENT_IP_HEADER) (hq_headers rq) @ [(CLIENT_IP_HEADER, hq_ip rq)]
      in \<lparr>wq_method = hq_method rq, wq_base = cf_baseUrl c, wq_url = hq_url rq, wq_headers = hs,
          wq_body = (if hq_method rq \<noteq> ''GET'' \<and> hq_method rq \<noteq> ''HEAD'' then map_option (bodyOf rt hs) (hq_body rq) else None)\<rparr>)"

datatype mount_answer =
    Unknown404
  | CrossOrigin403
  | HandedOver web_request

definition auth_mount :: "auth_runtime \<Rightarrow> app_config \<Rightarrow> auth_request \<Rightarrow> mount_answer" where
  "auth_mount rt c rq =
     (let paths = allowedAuthPaths (en_AUTH_MODE (cf_env c)) (enabledProviders (cf_env c)); path = pathWithinAuth (hq_url rq)
      in if path \<notin> set paths \<and> \<not> isProviderCallback path paths then Unknown404
         else if hq_method rq \<noteq> ''GET''
           \<and> (case map_of (hq_headers rq) ''origin'' of None \<Rightarrow> False | Some o' \<Rightarrow> o' \<notin> set (trustedOriginsOf c))
         then CrossOrigin403
         else HandedOver (toWebRequest rt c rq))"

text \<open>What is sent back of the library's response; \<open>set-cookie\<close> has a line per cookie.\<close>

record web_response =
  wr_status :: nat
  wr_headers :: headers
  wr_cookies :: "string list"
  wr_body :: string

definition answer_headers :: "web_response \<Rightarrow> (string \<times> string list) list" where
  "answer_headers r =
     map (\<lambda>(n, v). (n, [v])) (filter (\<lambda>(n, _). n \<noteq> ''set-cookie'' \<and> n \<noteq> ''cache-control'') (wr_headers r))
     @ (if wr_cookies r \<noteq> [] then [(''set-cookie'', wr_cookies r)] else [])
     @ [(''cache-control'', [''no-store''])]"

section \<open>Reading headers\<close>

definition SETUP_TOKEN_COOKIE :: string where "SETUP_TOKEN_COOKIE = ''sw_setup''"

definition cookie_parts :: "string \<Rightarrow> string list" where
  "cookie_parts part = split_on CHR ''='' (trim part)"

text \<open>The left side is the error \<open>decodeURIComponent\<close> throws at a malformed escape.\<close>

fun setup_cookie :: "auth_runtime \<Rightarrow> string list \<Rightarrow> unit + string option" where
  "setup_cookie rt [] = Inr None"
| "setup_cookie rt (part # parts) =
     (if hd (cookie_parts part) = SETUP_TOKEN_COOKIE
      then (case ar_decode rt (join ''='' (tl (cookie_parts part))) of
              None \<Rightarrow> Inl () | Some v \<Rightarrow> Inr (if v = [] then None else Some v))
      else setup_cookie rt parts)"

definition setupTokenOfHeaders :: "auth_runtime \<Rightarrow> headers \<Rightarrow> unit + string option" where
  "setupTokenOfHeaders rt hs =
     (case map_of hs ''cookie'' of None \<Rightarrow> Inr None | Some c \<Rightarrow> setup_cookie rt (split_on CHR '';'' c))"

definition originOfHeaders :: "headers \<Rightarrow> string option \<times> string option" where
  "originOfHeaders hs =
     (case map_of hs CLIENT_IP_HEADER of None \<Rightarrow> None | Some a \<Rightarrow> if a = [] then None else Some a,
      map_option (take 300) (map_of hs ''user-agent''))"

section \<open>The hooks\<close>

record hook_context =
  cx_path :: string
  cx_email :: string
  cx_headers :: headers
  cx_session :: "(uuid \<times> string \<times> millis) option"

datatype api_error = InvalidCredentials | SessionNotFresh | LastPasskey

definition RECENT_SIGN_IN_PATHS :: "string list" where
  "RECENT_SIGN_IN_PATHS = [''/passkey/generate-register-options'', ''/passkey/verify-registration'', ''/passkey/delete-passkey'']"

definition countPasskeys :: "uuid \<Rightarrow> auth_db \<Rightarrow> nat" where
  "countPasskeys u a = length (filter (\<lambda>i. i = u) (ad_passkeys a))"

definition hook_actor :: "hook_context \<Rightarrow> uuid option \<Rightarrow> string \<Rightarrow> audit_actor" where
  "hook_actor ctx u m = (let (ip, agent) = originOfHeaders (cx_headers ctx)
     in \<lparr>a_userId = u, a_email = Some m, a_apiKeyId = None, a_ip = ip, a_userAgent = agent\<rparr>)"

text \<open>Before an endpoint: a refusal, or the audit records made on the way.\<close>

definition before_hook :: "auth_mode \<Rightarrow> millis \<Rightarrow> hook_context \<Rightarrow> auth_db \<Rightarrow> api_error + audit_record list" where
  "before_hook mode now ctx a =
     (if cx_path ctx = ''/sign-in/email''
         \<and> (case find (\<lambda>x. wu_email x = to_lower (cx_email ctx)) (ad_users a) of None \<Rightarrow> False | Some u \<Rightarrow> isLocked now u)
      then Inl InvalidCredentials
      else if cx_path ctx \<in> set RECENT_SIGN_IN_PATHS
         \<and> (case cx_session ctx of None \<Rightarrow> False | Some (_, _, signedInAt) \<Rightarrow> FRESH_SESSION_SECONDS * 1000 \<le> now - signedInAt)
      then Inl SessionNotFresh
      else if cx_path ctx = ''/passkey/delete-passkey'' \<and> mode = Passkey
         \<and> (case cx_session ctx of None \<Rightarrow> False | Some (u, _, _) \<Rightarrow> countPasskeys u a \<le> 1)
      then Inl LastPasskey
      else Inr (case cx_session ctx of
                  Some (u, m, _) \<Rightarrow> if cx_path ctx = ''/sign-out'' then [plain_record ''auth.logout'' (hook_actor ctx (Some u) m) None] else []
                | None \<Rightarrow> []))"

definition isSignIn :: "string \<Rightarrow> bool" where
  "isSignIn path \<longleftrightarrow> path \<in> {''/sign-in/email'', ''/sign-up/email'', ''/passkey/verify-authentication'', ''/recovery-codes/sign-in''}
     \<or> starts_with ''/callback/'' path"

definition methodOf :: "string \<Rightarrow> string" where
  "methodOf path =
     (if starts_with ''/callback/'' path then drop (length ''/callback/'') path
      else if starts_with ''/passkey'' path then ''passkey'' else ''password'')"

definition failed_sign_in :: "millis \<Rightarrow> hook_context \<Rightarrow> auth_db \<Rightarrow> audit_record \<times> auth_db" where
  "failed_sign_in now ctx a =
     (let m = to_lower (cx_email ctx)
      in case find (\<lambda>x. wu_email x = m) (ad_users a) of
           None \<Rightarrow> (plain_record ''auth.login_failed'' (hook_actor ctx None m) (Some ''{\"reason\":\"unknown_account\"}''), a)
         | Some u \<Rightarrow>
             (let (n, a') = recordFailure now u a
              in (plain_record ''auth.login_failed'' (hook_actor ctx (Some (wu_id u)) m)
                    (Some (''{\"reason\":\"bad_password\",\"consecutiveFailures\":'' @ show_nat n @ ''}'')), a')))"

text \<open>After an endpoint: the records made and the count of failures. \<open>opened\<close> is the session it opened.\<close>

definition after_hook ::
  "millis \<Rightarrow> hook_context \<Rightarrow> bool \<Rightarrow> (uuid \<times> string) option \<Rightarrow> auth_db \<Rightarrow> audit_record list \<times> auth_db" where
  "after_hook now ctx failed opened a =
     (let (wrong, a1) = (if cx_path ctx = ''/sign-in/email'' \<and> failed
                         then (let (r, a') = failed_sign_in now ctx a in ([r], a')) else ([], a));
          current = map_option (\<lambda>(u, m, _). (u, m)) (cx_session ctx);
          either = (case opened of None \<Rightarrow> current | Some s \<Rightarrow> Some s);
          noted = (\<lambda>action who. case who of None \<Rightarrow> [] | Some (u, m) \<Rightarrow> [plain_record action (hook_actor ctx (Some u) m) None])
      in (wrong
          @ (case opened of
               Some (u, m) \<Rightarrow> if \<not> failed \<and> isSignIn (cx_path ctx)
                 then [plain_record ''auth.login'' (hook_actor ctx (Some u) m)
                   (Some (''{\"method\":\"'' @ methodOf (cx_path ctx) @ ''\"}''))] else []
             | None \<Rightarrow> [])
          @ (if \<not> failed \<and> cx_path ctx = ''/change-password'' then noted ''auth.password_changed'' either else [])
          @ (if \<not> failed \<and> cx_path ctx = ''/passkey/verify-registration'' then noted ''passkey.added'' either else [])
          @ (if \<not> failed \<and> cx_path ctx = ''/passkey/delete-passkey'' then noted ''passkey.removed'' current else []),
          a1))"

section \<open>Registering with a passkey\<close>

datatype registration_error =
    BadAddress
  | AddressUnavailable
  | NotAllowed nat
  | Malformed

text \<open>An account with this address that somebody can already get into.\<close>

definition taken :: "string \<Rightarrow> auth_db \<Rightarrow> bool" where
  "taken m a \<longleftrightarrow>
     (case find (\<lambda>x. wu_email x = m) (ad_users a) of None \<Rightarrow> False | Some x \<Rightarrow> \<not> isUnfinishedRegistration (wu_id x) a)"

text \<open>Before the browser is asked; \<open>fresh\<close> is the random identifier of a new account.\<close>

definition resolveUser ::
  "auth_runtime \<Rightarrow> signup_config \<Rightarrow> signup_env \<Rightarrow> uuid \<Rightarrow> headers \<Rightarrow> string option \<Rightarrow> auth_db \<Rightarrow> signup_state \<Rightarrow>
     (registration_error + uuid \<times> string) \<times> signup_state" where
  "resolveUser rt cfg env fresh hs given a st =
     (case Option.bind given (emailSchema (ar_schemas rt)) of
        None \<Rightarrow> (Inl BadAddress, st)
      | Some m \<Rightarrow>
          if taken m a then (Inl AddressUnavailable, st)
          else (case setupTokenOfHeaders rt hs of
                  Inl _ \<Rightarrow> (Inl Malformed, st)
                | Inr tok \<Rightarrow>
                    (let (ip, agent) = originOfHeaders hs
                     in case decide cfg env \<lparr>sq_email = m, sq_ip = ip, sq_userAgent = agent, sq_setupToken = tok\<rparr> st of
                          (Refused n, st1) \<Rightarrow> (Inl (NotAllowed n), st1)
                        | (Allowed _ _, st1) \<Rightarrow>
                            (Inr (case find (\<lambda>x. wu_email x = m) (ad_users a) of None \<Rightarrow> fresh | Some x \<Rightarrow> wu_id x, m), st1))))"

text \<open>
  After the credential was verified: whose it becomes. \<open>createUser\<close> is the library's, with the
  sign-up hooks around it. Without an address it is one more passkey of who is signed in.
\<close>

definition afterVerification ::
  "auth_runtime \<Rightarrow> (string \<Rightarrow> registration_error + uuid) \<Rightarrow> string option \<Rightarrow> auth_db \<Rightarrow> registration_error + uuid option" where
  "afterVerification rt createUser given a =
     (case given of
        None \<Rightarrow> Inr None
      | Some raw \<Rightarrow>
          (case emailSchema (ar_schemas rt) raw of
             None \<Rightarrow> Inl Malformed
           | Some m \<Rightarrow>
               if taken m a then Inl AddressUnavailable
               else (case find (\<lambda>x. wu_email x = m) (ad_users a) of
                       Some x \<Rightarrow> Inr (Some (wu_id x))
                     | None \<Rightarrow> map_sum id Some (createUser m))))"

section \<open>What can be reached\<close>


text \<open>
  The trusted origins are compared with what the browser says, and the first of them is the base URL
  as it was typed, path and all. So a server whose base URL is not just an origin starts, and
  then refuses every sign-in from its own pages.
\<close>

theorem own_pages_refused:
  assumes "loadConfig rt env = Inr c" and "cg_url rt (en_BASE_URL env) = Some (base, own)"
    and "own \<noteq> cf_baseUrl c" and "own \<notin> set (en_AUTH_TRUSTED_ORIGINS env)"
    and "hq_method rq \<noteq> ''GET''" and "map_of (hq_headers rq) ''origin'' = Some own"
  shows "auth_mount art c rq \<in> {Unknown404, CrossOrigin403}"
proof -
  have "cf_env c = env" using assms(1,2) by (auto simp: loadConfig_def Let_def split: if_splits)
  then show ?thesis using assms(3-6) by (simp add: auth_mount_def trustedOriginsOf_def Let_def)
qed

section \<open>Whose passkeys\<close>

text \<open>Removals one after the other; \<open>found\<close>: the named passkey is one of the account of the session.\<close>

fun removals :: "auth_mode \<Rightarrow> (millis \<times> (uuid \<times> string \<times> millis) \<times> bool) list \<Rightarrow> auth_db \<Rightarrow> auth_db" where
  "removals mode [] a = a"
| "removals mode ((now, s, found) # calls) a =
     (case before_hook mode now \<lparr>cx_path = ''/passkey/delete-passkey'', cx_email = [], cx_headers = [], cx_session = Some s\<rparr> a of
        Inr _ \<Rightarrow> removals mode calls (if found then a\<lparr>ad_passkeys := remove1 (fst s) (ad_passkeys a)\<rparr> else a)
      | Inl _ \<Rightarrow> removals mode calls a)"

lemma count_remove1: "length (filter (\<lambda>i. i = u) (remove1 v xs)) = length (filter (\<lambda>i. i = u) xs) - (if u = v then 1 else 0)"
  by (induction xs) auto

text \<open>
  Where a passkey is the only way in, an account that has one keeps one, whatever removals
  are asked for, and nobody whose sign-in is ten minutes old removes any.
\<close>

theorem last_passkey_stays:
  assumes "0 < countPasskeys u a"
  shows "0 < countPasskeys u (removals Passkey calls a)
    \<and> ((\<forall>(now, (v, m, signedInAt), found) \<in> set calls. signedInAt + 600000 \<le> now) \<longrightarrow> removals mode calls a = a)"
proof
  show "0 < countPasskeys u (removals Passkey calls a)"
    using assms
  proof (induction calls arbitrary: a)
    case (Cons x calls)
    obtain now v m at found where x: "x = (now, (v, m, at), found)" by (cases x) auto
    show ?case
    proof (cases "before_hook Passkey now \<lparr>cx_path = ''/passkey/delete-passkey'', cx_email = [], cx_headers = [],
        cx_session = Some (v, m, at)\<rparr> a")
      case (Inr r)
      then have "1 < countPasskeys v a" by (simp add: before_hook_def split: if_splits)
      then have "0 < countPasskeys u (a\<lparr>ad_passkeys := remove1 v (ad_passkeys a)\<rparr>)"
        using Cons.prems by (simp add: countPasskeys_def count_remove1)
      then show ?thesis using Cons.IH Cons.prems Inr by (simp add: x)
    qed (use Cons in \<open>simp add: x\<close>)
  qed simp
  have "before_hook mode now \<lparr>cx_path = ''/passkey/delete-passkey'', cx_email = [], cx_headers = [],
      cx_session = Some (v, m, at)\<rparr> b = Inl SessionNotFresh" if "at + 600000 \<le> now" for now v m at b
    using that by (simp add: before_hook_def RECENT_SIGN_IN_PATHS_def FRESH_SESSION_SECONDS_def)
  then show "(\<forall>(now, (v, m, at), found) \<in> set calls. at + 600000 \<le> now) \<longrightarrow> removals mode calls a = a"
    by (induction calls) auto
qed

text \<open>
  The count is read before the removal: of two passkeys both go when two removals are let
  through before either is carried out.
\<close>

theorem both_passkeys_go:
  assumes "countPasskeys u a = 2" and "at \<le> now" and "now < at + 600000"
    and "ctx = \<lparr>cx_path = ''/passkey/delete-passkey'', cx_email = [], cx_headers = [], cx_session = Some (u, m, at)\<rparr>"
  shows "before_hook Passkey now ctx a = Inr []
    \<and> countPasskeys u (a\<lparr>ad_passkeys := remove1 u (remove1 u (ad_passkeys a))\<rparr>) = 0"
  using assms by (simp add: before_hook_def RECENT_SIGN_IN_PATHS_def FRESH_SESSION_SECONDS_def countPasskeys_def count_remove1)

text \<open>
  A registration with a passkey never leads into an account somebody can already get into:
  the credential becomes that of a new account, or of one that was left before its first sign-in,
  with no passkey, no provider, no code and no session.
\<close>

theorem registration_takes_nothing_over:
  assumes "afterVerification rt createUser (Some raw) a = Inr (Some u)"
  shows "\<exists>m. emailSchema (ar_schemas rt) raw = Some m
    \<and> (createUser m = Inr u \<and> (\<forall>x \<in> set (ad_users a). wu_email x \<noteq> m)
       \<or> (\<exists>x \<in> set (ad_users a). wu_id x = u \<and> wu_email x = m \<and> isUnfinishedRegistration u a))"
  using assms
  by (auto simp: afterVerification_def taken_def map_sum_def find_None_iff split: option.splits if_splits sum.splits dest: find_SomeD)

section \<open>What the trail says\<close>

text \<open>
  Every sign-in that opened a session is in the trail with its account, and every failed password
  with its address, counted against the account it names.
\<close>

theorem sign_ins_recorded:
  assumes "after_hook now ctx failed opened a = (rs, a')"
  shows "(\<not> failed \<and> isSignIn (cx_path ctx) \<longrightarrow> (\<forall>u m. opened = Some (u, m) \<longrightarrow>
        (\<exists>r \<in> set rs. r_action r = ''auth.login'' \<and> a_userId (r_actor r) = Some u \<and> a_email (r_actor r) = Some m)))
    \<and> (failed \<and> cx_path ctx = ''/sign-in/email'' \<longrightarrow>
        (\<exists>r \<in> set rs. r_action r = ''auth.login_failed'' \<and> a_email (r_actor r) = Some (to_lower (cx_email ctx)))
        \<and> (\<forall>x. find (\<lambda>x. wu_email x = to_lower (cx_email ctx)) (ad_users a) = Some x \<longrightarrow> a' = snd (recordFailure now x a)))
    \<and> (failed \<and> cx_path ctx \<noteq> ''/sign-in/email'' \<longrightarrow> rs = [] \<and> a' = a)"
  using assms
  by (auto simp: after_hook_def failed_sign_in_def Let_def plain_record_def hook_actor_def split: option.splits prod.splits if_splits)

text \<open>A sign-in with a recovery code is put down as one with a password, in a mode that has none.\<close>

theorem recovery_sign_in_misnamed:
  "fst (after_hook now \<lparr>cx_path = ''/recovery-codes/sign-in'', cx_email = [], cx_headers = [], cx_session = None\<rparr> False
      (Some (u, m)) a)
   = [plain_record ''auth.login'' \<lparr>a_userId = Some u, a_email = Some m, a_apiKeyId = None, a_ip = None, a_userAgent = None\<rparr>
        (Some ''{\"method\":\"password\"}'')]"
  by (simp add: after_hook_def isSignIn_def methodOf_def starts_with_def hook_actor_def originOfHeaders_def)

section \<open>The setup token\<close>

text \<open>The token in the cookie of the setup page is read back, whatever other cookies come along.\<close>

theorem setup_cookie_read_back:
  assumes "map_of hs ''cookie'' = Some (join '';'' (before @ part # after))"
    and "\<forall>p \<in> set (before @ part # after). CHR '';'' \<notin> set p"
    and "\<forall>p \<in> set before. \<not> starts_with SETUP_TOKEN_COOKIE (trim p)"
    and "trim part = SETUP_TOKEN_COOKIE @ ''='' @ escaped" and "ar_decode rt escaped = Some tok" and "tok \<noteq> []"
  shows "setupTokenOfHeaders rt hs = Inr (Some tok)"
proof -
  have parts: "split_on CHR '';'' (join '';'' (before @ part # after)) = before @ part # after"
    using assms(2) by (intro split_on_join) auto
  have skip: "hd (cookie_parts p) \<noteq> SETUP_TOKEN_COOKIE" if "\<not> starts_with SETUP_TOKEN_COOKIE (trim p)" for p
  proof
    assume "hd (cookie_parts p) = SETUP_TOKEN_COOKIE"
    then obtain ps where "split_on CHR ''='' (trim p) = SETUP_TOKEN_COOKIE # ps"
      by (cases "split_on CHR ''='' (trim p)") (auto simp: cookie_parts_def)
    then have "trim p = join ''='' (SETUP_TOKEN_COOKIE # ps)" using join_split_on [of "CHR ''=''" "trim p"] by simp
    then have "starts_with SETUP_TOKEN_COOKIE (trim p)" by (cases ps) (simp_all add: starts_with_def)
    with that show False by simp
  qed
  have here: "cookie_parts part = SETUP_TOKEN_COOKIE # split_on CHR ''='' escaped"
    using assms(4) split_on_append_sep [of "CHR ''=''" SETUP_TOKEN_COOKIE escaped] by (simp add: cookie_parts_def SETUP_TOKEN_COOKIE_def)
  have "setup_cookie rt (before @ part # after) = Inr (Some tok)"
    using assms(3,5,6) skip here by (induction before) (auto simp: join_split_on)
  then show ?thesis using assms(1) parts by (simp add: setupTokenOfHeaders_def)
qed

section \<open>Concrete requests\<close>

definition gate_config :: app_config where
  "gate_config = \<lparr>cf_env = hosted_env, cf_isProduction = True, cf_baseUrl = ''https://watch.example.org'', cf_planLimits = [],
     cf_stripePlans = []\<rparr>"

definition gate_runtime :: auth_runtime where
  "gate_runtime = \<lparr>ar_stringify = (\<lambda>_. ''{}''), ar_form = (\<lambda>_. []), ar_decode = Some,
     ar_schemas = \<lparr>cs_isEmail = (\<lambda>_. True), cs_url = (\<lambda>_. None)\<rparr>\<rparr>"

definition forged :: auth_request where
  "forged = \<lparr>hq_method = ''POST'', hq_url = ''/api/auth/passkey/verify-authentication?x'',
     hq_headers = [(''x-sw-client-ip'', ''10.0.0.1''), (''origin'', ''https://watch.example.org'')], hq_ip = ''203.0.113.9'',
     hq_body = None\<rparr>"

lemma forged_handed_over: "auth_mount gate_runtime gate_config forged = HandedOver (toWebRequest gate_runtime gate_config forged)"
proof -
  have "pathWithinAuth (hq_url forged) = ''/passkey/verify-authentication''" by code_simp
  then show ?thesis
    by (simp add: auth_mount_def allowedAuthPaths_def gate_config_def hosted_env_def forged_def trustedOriginsOf_def)
qed


definition below_runtime :: config_runtime where
  "below_runtime = hosted_runtime\<lparr>cg_url := (\<lambda>_. Some (\<lparr>ur_protocol = ''https:'', ur_username = [], ur_password = [],
     ur_hostname = ''watch.example.org''\<rparr>, ''https://watch.example.org''))\<rparr>"

definition below_env :: env_vars where
  "below_env = hosted_env\<lparr>en_BASE_URL := ''https://watch.example.org/app''\<rparr>"

theorem own_pages_refused_witness:
  "\<exists>c. loadConfig below_runtime below_env = Inr c \<and> auth_mount gate_runtime c forged \<in> {Unknown404, CrossOrigin403}"
proof -
  have "\<not> isl (loadConfig below_runtime below_env)" by code_simp
  then obtain c where c: "loadConfig below_runtime below_env = Inr c"
    by (cases "loadConfig below_runtime below_env") auto
  have url: "cg_url below_runtime (en_BASE_URL below_env) = Some (\<lparr>ur_protocol = ''https:'', ur_username = [], ur_password = [],
     ur_hostname = ''watch.example.org''\<rparr>, ''https://watch.example.org'')"
    by (simp add: below_runtime_def)
  have "cf_baseUrl c = strip_slashes (en_BASE_URL below_env)"
    using c url by (auto simp: loadConfig_def Let_def split: if_splits)
  then have "''https://watch.example.org'' \<noteq> cf_baseUrl c" by (simp add: below_env_def strip_slashes_def)
  moreover have "''https://watch.example.org'' \<notin> set (en_AUTH_TRUSTED_ORIGINS below_env)" "hq_method forged \<noteq> ''GET''"
    "map_of (hq_headers forged) ''origin'' = Some ''https://watch.example.org''"
    by (simp_all add: below_env_def hosted_env_def forged_def)
  ultimately show ?thesis using own_pages_refused [OF c url] c by blast
qed

definition two_keys :: auth_db where
  "two_keys = \<lparr>ad_users = [], ad_codes = [], ad_sessions = [], ad_passkeys = [1, 2, 1], ad_accounts = [], ad_next = 0\<rparr>"

theorem last_passkey_stays_witness:
  "0 < countPasskeys 1 (removals Passkey [(10, (1, ''a'', 0), True), (11, (1, ''a'', 0), True)] two_keys)"
proof -
  have "0 < countPasskeys 1 two_keys" by (simp add: countPasskeys_def two_keys_def)
  from last_passkey_stays [OF this] show ?thesis by blast
qed

theorem registration_takes_nothing_over_witness:
  "\<exists>m. emailSchema (ar_schemas gate_runtime) ''ada@example.com'' = Some m \<and> (\<forall>x \<in> set (ad_users two_keys). wu_email x \<noteq> m)"
proof -
  have "emailSchema (ar_schemas gate_runtime) ''ada@example.com'' = Some ''ada@example.com''" by code_simp
  then have "afterVerification gate_runtime (\<lambda>_. Inr 9) (Some ''ada@example.com'') two_keys = Inr (Some 9)"
    by (simp add: afterVerification_def taken_def two_keys_def)
  from registration_takes_nothing_over [OF this] show ?thesis by (auto simp: two_keys_def)
qed

theorem setup_cookie_read_back_witness:
  "setupTokenOfHeaders gate_runtime [(''cookie'', ''theme=dark; sw_setup=abc'')] = Inr (Some ''abc'')"
proof -
  have "map_of [(''cookie'', ''theme=dark; sw_setup=abc'')] ''cookie'' = Some (join '';'' ([''theme=dark''] @ '' sw_setup=abc'' # []))"
    "\<forall>p \<in> set ([''theme=dark''] @ '' sw_setup=abc'' # []). CHR '';'' \<notin> set p"
    "\<forall>p \<in> set [''theme=dark'']. \<not> starts_with SETUP_TOKEN_COOKIE (trim p)"
    "trim '' sw_setup=abc'' = SETUP_TOKEN_COOKIE @ ''='' @ ''abc''"
    "ar_decode gate_runtime ''abc'' = Some ''abc''"
    by code_simp+
  from setup_cookie_read_back [OF this] show ?thesis by simp
qed

end
