(* ===== verification/QuotaMail.thy ===== *)
theory QuotaMail
  imports Quotas Messages AuditTrail
begin

text \<open>
  Telling an account that its checks were paused: the audit record and the mail of
  \<^verbatim>\<open>packages/server/src/quotas/quota-enforcer.service.ts\<close>, for each account the pass of the
  reconciler stopped something of. An ellipsis of the texts is written ...
\<close>

record notice =
  nt_owner :: uuid
  nt_plan :: "string option"
  nt_limit :: nat
  nt_names :: "string list"

text \<open>The account a pass over one owner has something to say to, given the database as it is then.\<close>

definition owner_notice :: "quota_settings \<Rightarrow> owner_row \<Rightarrow> reconciliation \<Rightarrow> notice list" where
  "owner_notice cfg ow r =
     (case pl_checks (limitsFor cfg (o_plan ow)) of
        None \<Rightarrow> []
      | Some l \<Rightarrow>
          if l < activeChecks ow
          then (let stopped = fst (pauseExcess (o_user ow) (activeChecks ow - l) (rc_db r))
                in if stopped \<noteq> []
                   then [\<lparr>nt_owner = o_user ow, nt_plan = o_plan ow, nt_limit = l, nt_names = stopped\<rparr>] else [])
          else [])"

fun pass_notices :: "quota_settings \<Rightarrow> owner_row list \<Rightarrow> reconciliation \<Rightarrow> notice list" where
  "pass_notices cfg [] r = []"
| "pass_notices cfg (ow # ows) r = owner_notice cfg ow r @ pass_notices cfg ows (reconcile_owner cfg ow r)"

definition notices :: "quota_settings \<Rightarrow> db \<Rightarrow> notice list" where
  "notices cfg s =
     (if \<not> quotas_enabled cfg then []
      else pass_notices cfg (ownersWithChecks s) \<lparr>rc_paused = 0, rc_resumed = 0, rc_accounts = 0, rc_db = s\<rparr>)"

definition paused_record :: "(json \<Rightarrow> string) \<Rightarrow> string \<Rightarrow> notice \<Rightarrow> audit_record" where
  "paused_record stringify address n =
     \<lparr>r_action = ''quota.checks_paused'',
      r_actor = \<lparr>a_userId = Some (nt_owner n), a_email = Some address, a_apiKeyId = None, a_ip = None, a_userAgent = None\<rparr>,
      r_projectId = None, r_targetType = None, r_targetId = None, r_targetLabel = None,
      r_detail = Some (stringify (JObj [(''plan'', case nt_plan n of None \<Rightarrow> JNull | Some p \<Rightarrow> JStr p),
        (''limit'', JNum (int (nt_limit n))), (''paused'', JNum (int (length (nt_names n)))),
        (''checks'', JArr (map JStr (take 20 (nt_names n))))]))\<rparr>"

definition rest_of :: "notice \<Rightarrow> nat" where
  "rest_of n = length (nt_names n) - length (take 20 (nt_names n))"

definition paused_text :: "string \<Rightarrow> notice \<Rightarrow> string" where
  "paused_text baseUrl n =
     join NL (filter (\<lambda>line. line \<noteq> [])
       [''Your plan includes '' @ show_nat (nt_limit n) @ '' checks, and your account is over that limit.'',
        [],
        ''These checks have been paused and are no longer being watched:'',
        join NL (map (\<lambda>nm. ''  - '' @ nm) (take 20 (nt_names n))),
        (if 0 < rest_of n then ''  ... and '' @ show_nat (rest_of n) @ '' more'' else []),
        [],
        ''They are not deleted and their history is intact. Removing checks you no'',
        ''longer need, or moving to a larger plan, brings them back automatically.'',
        [],
        baseUrl @ ''/checks''])"

definition pausedHtml :: "string \<Rightarrow> notice \<Rightarrow> string" where
  \<open>pausedHtml baseUrl n =
     join NL
     [''<!doctype html>'',
      ''<html lang="en"><body style="margin:0;background:#f4f4f4;padding:24px;font-family:system-ui,-apple-system,'Segoe UI',Roboto,Helvetica,Arial,sans-serif">'',
      ''  <div style="max-width:560px;margin:0 auto;background:#fff;border:1px solid #e2e2e2;border-radius:14px;padding:28px">'',
      ''    <h1 style="margin:0 0 12px;font-size:18px;color:#0a0a0a">Some checks were paused</h1>'',
      ''    <p style="margin:0 0 16px;font-size:14px;line-height:1.55;color:#525252">'',
      ''      Your '' @ escapeHtml (case nt_plan n of None \<Rightarrow> ''current'' | Some p \<Rightarrow> p) @ '' plan includes '' @ show_nat (nt_limit n) @ '' checks and your account is above'',
      ''      that. These are no longer being watched:'',
      ''    </p>'',
      ''    <ul style="margin:0 0 16px;padding-left:20px;font-size:14px;line-height:1.7;color:#0a0a0a">''
        @ concat (map (\<lambda>nm. ''<li>'' @ escapeHtml nm @ ''</li>'') (take 20 (nt_names n))) @ ''</ul>'',
      ''    '' @ (if 0 < rest_of n then ''<p style="margin:0 0 16px;font-size:13px;color:#737373">... and '' @ show_nat (rest_of n) @ '' more.</p>'' else []),
      ''    <p style="margin:0 0 20px;font-size:14px;line-height:1.55;color:#525252">'',
      ''      Nothing was deleted and no history was lost. Remove checks you no longer need, or move to a'',
      ''      larger plan, and they come back on their own.'',
      ''    </p>'',
      ''    <p style="margin:0">'',
      ''      <a href="'' @ escapeHtml baseUrl @ ''/checks" style="display:inline-block;padding:11px 20px;border-radius:8px;background:#0a0a0a;color:#ffffff;font-size:14px;font-weight:600;text-decoration:none">Review my checks</a>'',
      ''    </p>'',
      ''  </div>'',
      ''</body></html>'']\<close>

definition paused_mail :: "string \<Rightarrow> string \<Rightarrow> notice \<Rightarrow> mail" where
  "paused_mail baseUrl address n =
     \<lparr>ml_to = address,
      ml_subject = ''[SilenceWatch] '' @ show_nat (length (nt_names n)) @ '' check(s) paused '' @ EM_DASH @ '' plan limit reached'',
      ml_text = paused_text baseUrl n, ml_html = pausedHtml baseUrl n\<rparr>"

section \<open>Nobody finds out by silence\<close>

lemma owner_step:
  assumes "enforceable (rc_db r)" "c \<in> set (checks (rc_db (reconcile_owner cfg ow r)))" "quota_paused c"
  shows "(\<exists>d \<in> set (checks (rc_db r)). c_id d = c_id c \<and> c_name d = c_name c \<and> projectId d = projectId c \<and> quota_paused d)
    \<or> (\<exists>n \<in> set (owner_notice cfg ow r). nt_owner n = o_user ow \<and> c_name c \<in> set (nt_names n)
         \<and> owns (rc_db r) (o_user ow) (projectId c))"
proof -
  have ids: "distinct (map c_id (checks (rc_db r)))" using assms(1) by (simp add: enforceable_def)
  have quiet: ?thesis if "c \<in> set (checks (rc_db r))" using that assms(3) by blast
  have undone: ?thesis if "c \<in> set (checks (snd (resume u room (rc_db r))))" for u room
  proof (cases "0 < room")
    case True
    then have "c \<in> set (checks (rc_db r))"
      using that assms(3) by (auto simp: resume_checks [OF ids] quota_paused_def split: if_splits)
    then show ?thesis by (rule quiet)
  qed (use that quiet in \<open>simp add: resume_def\<close>)
  show ?thesis
  proof (cases "pl_checks (limitsFor cfg (o_plan ow))")
    case (Some l)
    show ?thesis
    proof (cases "l < activeChecks ow")
      case True
      let ?new = "newest (o_user ow) (activeChecks ow - l) (rc_db r)"
      obtain d where d: "d \<in> set (checks (rc_db r))"
        "c = (if d \<in> set ?new then d\<lparr>state := PAUSED, pausedReason := Some ''quota'', nextDueAt := None\<rparr> else d)"
        using assms(2) Some True by (auto simp: reconcile_owner_db pauseExcess_checks [OF ids])
      show ?thesis
      proof (cases "d \<in> set ?new")
        case True
        then have "owns (rc_db r) (o_user ow) (projectId d)" using newest_rows(1) [OF ids] by fastforce
        moreover have "owner_notice cfg ow r = [\<lparr>nt_owner = o_user ow, nt_plan = o_plan ow, nt_limit = l, nt_names = map c_name ?new\<rparr>]"
          using True Some \<open>l < activeChecks ow\<close> by (auto simp: owner_notice_def pauseExcess_def Let_def)
        ultimately show ?thesis using True d(2) by simp
      qed (use d quiet in simp)
    qed (use Some assms(2) undone quiet in \<open>auto simp: reconcile_owner_db split: if_splits\<close>)
  qed (use assms(2) undone in \<open>simp add: reconcile_owner_db\<close>)
qed

lemma reconcile_owner_members: "members (rc_db (reconcile_owner cfg ow r)) = members (rc_db r)"
  by (simp add: reconcile_owner_db split: option.split)

lemma pass_announces:
  assumes "enforceable (rc_db r)" "c \<in> set (checks (rc_db (fold (reconcile_owner cfg) ows r)))" "quota_paused c"
  shows "(\<exists>d \<in> set (checks (rc_db r)). c_id d = c_id c \<and> c_name d = c_name c \<and> projectId d = projectId c \<and> quota_paused d)
    \<or> (\<exists>n \<in> set (pass_notices cfg ows r). c_name c \<in> set (nt_names n) \<and> owns (rc_db r) (nt_owner n) (projectId c))"
  using assms
proof (induction ows arbitrary: r)
  case (Cons ow ows)
  let ?r = "reconcile_owner cfg ow r"
  have "owns (rc_db ?r) u p = owns (rc_db r) u p" for u p by (rule owns_frame [OF reconcile_owner_members])
  with Cons.IH [OF reconcile_owner_enforceable [OF Cons.prems(1)], of cfg ow] Cons.prems(2,3)
  consider (early) d where "d \<in> set (checks (rc_db ?r))" "c_id d = c_id c" "c_name d = c_name c" "projectId d = projectId c" "quota_paused d"
    | (later) n where "n \<in> set (pass_notices cfg ows ?r)" "c_name c \<in> set (nt_names n)" "owns (rc_db r) (nt_owner n) (projectId c)"
    by auto
  then show ?case
  proof cases
    case early
    from owner_step [OF Cons.prems(1) early(1,5)] early(2-4) show ?thesis by fastforce
  qed auto
qed auto

lemma pass_counts: "rc_paused (fold (reconcile_owner cfg) ows r) = rc_paused r + sum_list (map (length \<circ> nt_names) (pass_notices cfg ows r))"
proof (induction ows arbitrary: r)
  case (Cons ow ows)
  have "rc_paused (reconcile_owner cfg ow r) = rc_paused r + sum_list (map (length \<circ> nt_names) (owner_notice cfg ow r))"
    by (simp add: reconcile_owner_def owner_notice_def Let_def split: option.split prod.split)
  then show ?case using Cons.IH [of "reconcile_owner cfg ow r"] by (simp add: comp_def)
qed simp

lemma sublist_join: "x \<in> set xs \<Longrightarrow> sublist x (join sep xs)"
proof (induction xs rule: induct_list012)
  case (3 y z zs)
  then consider "x = y" | "sublist x (join sep (z # zs))" by auto
  then show ?case
  proof cases
    case 1
    then show ?thesis by simp
  next
    case 2
    then show ?thesis using sublist_appendI [of "join sep (z # zs)" "y @ sep" "[]"] by (auto intro: sublist_order.order_trans)
  qed
qed auto

lemma fourth_line: "x \<noteq> [] \<Longrightarrow> sublist x (join sep (filter (\<lambda>line. line \<noteq> []) (a # b # c # x # r)))"
  by (intro sublist_join) simp

lemma named_in_text: "nm \<in> set (take 20 (nt_names n)) \<Longrightarrow> sublist (''  - '' @ nm) (paused_text baseUrl n)"
proof -
  assume nm: "nm \<in> set (take 20 (nt_names n))"
  let ?names = "map (\<lambda>nm. ''  - '' @ nm) (take 20 (nt_names n))"
  have one: "sublist (''  - '' @ nm) (join NL ?names)" using nm by (intro sublist_join) auto
  then have "join NL ?names \<noteq> []" by auto
  then have "sublist (join NL ?names) (paused_text baseUrl n)"
    unfolding paused_text_def by (rule fourth_line)
  with one show "sublist (''  - '' @ nm) (paused_text baseUrl n)" by (rule sublist_order.order_trans)
qed

text \<open>
  C38. Nobody finds out by silence that a plan stopped a check: each check a pass of the
  enforcer pauses is in the notice to an owner of its project, whose mail says how many stopped and
  names the first twenty; and the notices account for every check paused.
\<close>

theorem pauses_are_announced:
  assumes "quotas_enabled cfg" and "enforceable s"
    and "c \<in> set (checks (rc_db (reconcile cfg s)))" and "quota_paused c"
    and "\<forall>d \<in> set (checks s). c_id d = c_id c \<longrightarrow> \<not> quota_paused d"
  shows "(\<exists>n \<in> set (notices cfg s). c_name c \<in> set (nt_names n) \<and> owns s (nt_owner n) (projectId c)
      \<and> (\<forall>nm \<in> set (take 20 (nt_names n)). sublist (''  - '' @ nm) (ml_text (paused_mail baseUrl address n)))
      \<and> sublist (show_nat (length (nt_names n)) @ '' check(s) paused'') (ml_subject (paused_mail baseUrl address n)))
    \<and> rc_paused (reconcile cfg s) = sum_list (map (length \<circ> nt_names) (notices cfg s))"
proof
  let ?r = "\<lparr>rc_paused = 0, rc_resumed = 0, rc_accounts = 0, rc_db = s\<rparr>"
  obtain n where n: "n \<in> set (notices cfg s)" "c_name c \<in> set (nt_names n)" "owns s (nt_owner n) (projectId c)"
    using pass_announces [of ?r c cfg "ownersWithChecks s"] assms by (auto simp: reconcile_def notices_def)
  have "sublist (show_nat (length (nt_names n)) @ '' check(s) paused'') (ml_subject (paused_mail baseUrl address n))"
    using sublist_appendI [of "show_nat (length (nt_names n)) @ '' check(s) paused''" "''[SilenceWatch] ''" "'' '' @ EM_DASH @ '' plan limit reached''"]
    by (simp add: paused_mail_def)
  then show "\<exists>n \<in> set (notices cfg s). c_name c \<in> set (nt_names n) \<and> owns s (nt_owner n) (projectId c)
      \<and> (\<forall>nm \<in> set (take 20 (nt_names n)). sublist (''  - '' @ nm) (ml_text (paused_mail baseUrl address n)))
      \<and> sublist (show_nat (length (nt_names n)) @ '' check(s) paused'') (ml_subject (paused_mail baseUrl address n))"
    using n named_in_text by (auto simp: paused_mail_def)
  show "rc_paused (reconcile cfg s) = sum_list (map (length \<circ> nt_names) (notices cfg s))"
    using assms(1) pass_counts [of cfg "ownersWithChecks s" ?r] by (simp add: reconcile_def notices_def)
qed

text \<open>
  The mail is said to name every check that stopped. Past the twentieth it does not: two lists
  that differ there make the same mail.
\<close>

theorem twenty_first_unnamed:
  assumes "take 20 xs = take 20 ys" and "length xs = length ys"
  shows "paused_mail baseUrl address (n\<lparr>nt_names := xs\<rparr>) = paused_mail baseUrl address (n\<lparr>nt_names := ys\<rparr>)"
  using assms by (simp add: paused_mail_def paused_text_def pausedHtml_def rest_of_def)

text \<open>Nothing of a name or a plan becomes markup: the layout is that of any other notice of as many checks.\<close>

lemma markup_show_nat: "filter markup (show_nat k) = []"
proof -
  have "filter markup xs = []" if "list_all is_digit xs" for xs
    using that by (induction xs) (auto simp: markup_def is_digit_def)
  then show ?thesis using show_nat_digits by blast
qed

lemma markup_items: "length xs = length ys \<Longrightarrow>
  filter markup (concat (map (\<lambda>nm. ''<li>'' @ escapeHtml nm @ ''</li>'') xs)) = filter markup (concat (map (\<lambda>nm. ''<li>'' @ escapeHtml nm @ ''</li>'') ys))"
  by (induction xs ys rule: list_induct2) simp_all

theorem paused_markup_is_the_layout:
  assumes "length (nt_names n) = length (nt_names n')"
  shows "filter markup (pausedHtml baseUrl n) = filter markup (pausedHtml baseUrl' n')"
proof -
  have "length (take 20 (nt_names n)) = length (take 20 (nt_names n'))" "rest_of n = rest_of n'"
    using assms by (simp_all add: rest_of_def)
  then show ?thesis
    unfolding pausedHtml_def
    by (simp only: markup_join list.map concat.simps filter_append markup_escaped markup_show_nat append_Nil append_Nil2
        markup_items [of "take 20 (nt_names n)" "take 20 (nt_names n')"] if_distrib [of "filter markup"])
qed

theorem pauses_are_announced_witness:
  "\<exists>n \<in> set (notices sample_plans sample_account). nt_owner n = 9"
proof -
  have e: "enforceable sample_account"
    by (simp add: enforceable_def single_owner_def reasons_ok_def sample_account_def sample_alerting_def sample_member_def)
  have q: "quotas_enabled sample_plans" by (simp add: sample_plans_def)
  have "\<exists>c \<in> set (checks (rc_db (reconcile sample_plans sample_account))). quota_paused c" by code_simp
  then obtain c where c: "c \<in> set (checks (rc_db (reconcile sample_plans sample_account)))" "quota_paused c" by blast
  have "\<forall>d \<in> set (checks sample_account). c_id d = c_id c \<longrightarrow> \<not> quota_paused d"
    by (simp add: sample_account_def sample_alerting_def quota_paused_def)
  from pauses_are_announced [OF q e c this] obtain n
    where n: "n \<in> set (notices sample_plans sample_account)" "owns sample_account (nt_owner n) (projectId c)" by blast
  then have "nt_owner n = 9" by (auto simp: owns_def sample_account_def sample_member_def)
  with n show ?thesis by blast
qed

end
