(* ===== verification/Listener.thy ===== *)
theory Listener
  imports Prelude
begin

text \<open>
  The connection that listens for notifications:
  \<^verbatim>\<open>packages/server/src/database/pg-listener.service.ts\<close>, as a machine whose events are the
  calls of other services, the answers of the database and the timer. Connections and handlers
  are numbered; \<open>alive\<close> is what the database sees, the connections opened and not ended.
\<close>

record connecting =
  cn_id :: nat
  cn_done :: "string list"

record listener =
  handlers :: "(string \<times> nat list) list"
  client :: "nat option"
  timer :: "nat option"
  reconnectDelayMs :: nat
  stopped :: bool
  attempts_running :: "connecting list"
  alive :: "nat list"
  called :: "(nat \<times> string) list"
  next_connection :: nat

definition new_listener :: listener where
  "new_listener = \<lparr>handlers = [], client = None, timer = None, reconnectDelayMs = 1000, stopped = False,
     attempts_running = [], alive = [], called = [], next_connection = 0\<rparr>"

definition end_client :: "nat option \<Rightarrow> nat list \<Rightarrow> nat list" where
  "end_client c cs = (case c of None \<Rightarrow> cs | Some i \<Rightarrow> filter (\<lambda>j. j \<noteq> i) cs)"

text \<open>\<open>timer\<close> holds the delay it was set with.\<close>

definition scheduleReconnect :: "listener \<Rightarrow> listener" where
  "scheduleReconnect l =
     (if stopped l \<or> timer l \<noteq> None then l
      else l\<lparr>client := None, alive := end_client (client l) (alive l), timer := Some (reconnectDelayMs l),
             reconnectDelayMs := min (reconnectDelayMs l * 2) 30000\<rparr>)"

definition connect :: "listener \<Rightarrow> listener" where
  "connect l =
     (if stopped l then l
      else l\<lparr>attempts_running := attempts_running l @ [\<lparr>cn_id = next_connection l, cn_done = []\<rparr>],
             alive := alive l @ [next_connection l], next_connection := Suc (next_connection l)\<rparr>)"

definition subscribe :: "string \<Rightarrow> nat \<Rightarrow> listener \<Rightarrow> listener" where
  "subscribe ch h l =
     (case map_of (handlers l) ch of
        Some hs \<Rightarrow> l\<lparr>handlers := map (\<lambda>(c, xs). if c = ch \<and> h \<notin> set xs then (c, xs @ [h]) else (c, xs)) (handlers l)\<rparr>
      | None \<Rightarrow> l\<lparr>handlers := handlers l @ [(ch, [h])]\<rparr>)"

text \<open>
  What is next for an attempt whose last question was answered: the next channel that has
  handlers and was not asked for, or the connection is the client.
\<close>

definition attempt :: "nat \<Rightarrow> listener \<Rightarrow> connecting option" where
  "attempt i l = find (\<lambda>a. cn_id a = i) (attempts_running l)"

definition answered_attempt :: "nat \<Rightarrow> listener \<Rightarrow> listener" where
  "answered_attempt i l =
     (case attempt i l of
        None \<Rightarrow> l
      | Some a \<Rightarrow>
          (case filter (\<lambda>ch. ch \<notin> set (cn_done a)) (map fst (handlers l)) of
             ch # _ \<Rightarrow> l\<lparr>attempts_running := update_where (\<lambda>x. cn_id x = i) (\<lambda>x. x\<lparr>cn_done := cn_done x @ [ch]\<rparr>) (attempts_running l)\<rparr>
           | [] \<Rightarrow> l\<lparr>attempts_running := filter (\<lambda>x. cn_id x \<noteq> i) (attempts_running l), client := Some i, reconnectDelayMs := 1000\<rparr>))"

definition failed_attempt_of :: "nat \<Rightarrow> listener \<Rightarrow> listener" where
  "failed_attempt_of i l =
     (if attempt i l = None then l
      else scheduleReconnect (l\<lparr>attempts_running := filter (\<lambda>x. cn_id x \<noteq> i) (attempts_running l),
             alive := filter (\<lambda>j. j \<noteq> i) (alive l)\<rparr>))"

definition notified :: "string \<Rightarrow> string \<Rightarrow> listener \<Rightarrow> listener" where
  "notified ch payload l =
     (if payload = [] then l
      else l\<lparr>called := called l @ map (\<lambda>h. (h, payload)) (case map_of (handlers l) ch of None \<Rightarrow> [] | Some hs \<Rightarrow> hs)\<rparr>)"

definition timer_fires :: "listener \<Rightarrow> listener" where
  "timer_fires l = (if timer l = None then l else connect (l\<lparr>timer := None\<rparr>))"

definition destroy :: "listener \<Rightarrow> listener" where
  "destroy l = l\<lparr>stopped := True, timer := None, client := None, alive := end_client (client l) (alive l)\<rparr>"

datatype listener_event =
    Init
  | Subscribes string nat
  | ListenFails
  | Answers nat
  | Fails nat
  | ErrorEvent nat
  | Notifies string string
  | TimerFires
  | Destroy

fun listener_step :: "listener_event \<Rightarrow> listener \<Rightarrow> listener" where
  "listener_step Init l = connect l"
| "listener_step (Subscribes ch h) l = subscribe ch h l"
| "listener_step ListenFails l = scheduleReconnect l"
| "listener_step (Answers i) l = answered_attempt i l"
| "listener_step (Fails i) l = failed_attempt_of i l"
| "listener_step (ErrorEvent i) l = scheduleReconnect l"
| "listener_step (Notifies ch payload) l = notified ch payload l"
| "listener_step TimerFires l = timer_fires l"
| "listener_step Destroy l = destroy l"

section \<open>It never gives up\<close>

text \<open>
  Once started and until stopped there is a connection in use, an attempt at one, or a timer that
  leads to one; the delay of the timer is between one and thirty seconds.
\<close>

definition delays_ok :: "listener \<Rightarrow> bool" where
  "delays_ok l \<longleftrightarrow> 1000 \<le> reconnectDelayMs l \<and> reconnectDelayMs l \<le> 30000
     \<and> (\<forall>d. timer l = Some d \<longrightarrow> 1000 \<le> d \<and> d \<le> 30000)"

definition trying :: "listener \<Rightarrow> bool" where
  "trying l \<longleftrightarrow> stopped l \<or> client l \<noteq> None \<or> timer l \<noteq> None \<or> attempts_running l \<noteq> []"

lemmas listener_defs = connect_def subscribe_def scheduleReconnect_def answered_attempt_def failed_attempt_of_def notified_def
  timer_fires_def destroy_def

lemma delays_ok_step: "delays_ok l \<Longrightarrow> delays_ok (listener_step e l)"
  by (cases e) (auto simp: delays_ok_def listener_defs split: option.split list.split)

lemma trying_step: "trying l \<Longrightarrow> trying (listener_step e l)"
  by (cases e) (auto simp: trying_def listener_defs update_where_def split: option.split list.split)

interpretation delays: machine listener_step delays_ok
  by unfold_locales (rule delays_ok_step)

interpretation reconnecting: machine listener_step trying
  by unfold_locales (rule trying_step)

theorem listener_keeps_trying:
  assumes "l = fold listener_step (es @ Init # fs) new_listener"
  shows "(stopped l \<or> client l \<noteq> None \<or> timer l \<noteq> None \<or> attempts_running l \<noteq> [])
    \<and> (\<forall>d. timer l = Some d \<longrightarrow> 1000 \<le> d \<and> d \<le> 30000)"
proof -
  have "delays_ok new_listener" by (simp add: delays_ok_def new_listener_def)
  then have "delays_ok l" unfolding assms by (rule delays.run_keeps)
  moreover have "trying (connect k)" for k by (simp add: trying_def connect_def)
  then have "trying l" unfolding assms by (simp add: reconnecting.run_keeps)
  ultimately show ?thesis by (simp add: trying_def delays_ok_def)
qed

text \<open>
  When the attempt succeeds, every channel that has a handler was asked for on its connection,
  those that came while it went on included.
\<close>

theorem client_listens_to_all:
  assumes "client l \<noteq> Some i" and "client (listener_step (Answers i) l) = Some i"
  shows "\<exists>a \<in> set (attempts_running l). cn_id a = i \<and> set (map fst (handlers l)) \<subseteq> set (cn_done a)"
proof -
  obtain a where a: "attempt i l = Some a" "filter (\<lambda>ch. ch \<notin> set (cn_done a)) (map fst (handlers l)) = []"
    using assms by (auto simp: answered_attempt_def split: option.splits list.splits)
  then have "a \<in> set (attempts_running l)" "cn_id a = i" by (auto simp: attempt_def dest: find_SomeD)
  moreover have "set (map fst (handlers l)) \<subseteq> set (cn_done a)" using a(2) by (auto simp: filter_empty_conv)
  ultimately show ?thesis by blast
qed

text \<open>
  Stopping ends the connection in use and the timer, but not an attempt on its way: it succeeds
  afterwards, and the connection stays open with nobody left to end it.
\<close>

theorem stopped_while_connecting:
  assumes "l = fold listener_step [Init, Destroy, Answers 0] new_listener"
  shows "stopped l \<and> client l = Some 0 \<and> alive l = [0]"
  by (simp add: assms new_listener_def listener_defs end_client_def attempt_def)

theorem listener_keeps_trying_witness:
  "\<forall>d \<in> set_option (timer (fold listener_step ([] @ Init # [Fails 0, TimerFires, Fails 1]) new_listener)). 1000 \<le> d \<and> d \<le> 30000"
  using listener_keeps_trying [OF refl, of "[]" "[Fails 0, TimerFires, Fails 1]"] by (cases "timer (fold listener_step ([] @ Init # [Fails 0, TimerFires, Fails 1]) new_listener)") simp_all

end
