(* ===== verification/Spec2Isabelle.thy ===== *)
theory Spec2Isabelle
  imports CronSyntax Crypto Runner RateLimiter Ingest Monitoring Quotas Slug Checks
    Access ApiKeys AuditTrail Projects Sync Retention Stripe Billing Network Signup SignIn
    Account Api SafeHttp Lifecycle Channels Mailer Edge Config AdminStats Support AuthGate
    QuotaMail Listener
begin

text \<open>
  SilenceWatch is a dead man's switch for scheduled jobs. A job sends a heartbeat to its check;
  a check whose heartbeat is late for longer than its grace period goes DOWN, an incident opens,
  and every enabled channel of its project (e-mail, webhook, chat) gets an alert; the next
  heartbeat closes the incident and announces the recovery. Around this core the server has
  accounts, projects with members and API keys, plans with limits, a payment provider, an audit
  trail and a nightly purge. This development models the server (\<^verbatim>\<open>packages/server/src\<close>)
  and the schemas it shares with its clients (\<^verbatim>\<open>packages/shared/src\<close>).

  \<^bold>\<open>Shared vocabulary.\<close>
  \<^item> \<open>Prelude\<close>: instants, identifiers, errors of a request, insertion-ordered maps, row updates, the locales \<open>bounded_map\<close> and \<open>machine\<close>
  \<^item> \<open>JsText, JsDate, Json\<close>: string operations of JavaScript, toISOString, JSON values
  \<^item> \<open>Store\<close>: \<^verbatim>\<open>prisma/schema.prisma\<close>: the tables as lists of records, with the unique indexes as the invariant \<open>store_inv\<close>

  \<^bold>\<open>Watching jobs.\<close>
  \<^item> \<open>CronSyntax\<close>: \<^verbatim>\<open>shared/src/cron.ts\<close>
  \<^item> \<open>Schedule\<close>: \<^verbatim>\<open>schedule/next-due.ts\<close>, \<^verbatim>\<open>checks/check-schedule.ts\<close>
  \<^item> \<open>RateLimiter\<close>: \<^verbatim>\<open>common/rate-limiter.ts\<close>
  \<^item> \<open>MetadataCache\<close>: \<^verbatim>\<open>ingest/check-metadata.cache.ts\<close>
  \<^item> \<open>Ingest\<close>: \<^verbatim>\<open>ingest/ingest.service.ts\<close> and \<^verbatim>\<open>ingest.plugin.ts\<close>
  \<^item> \<open>Detection\<close>: \<^verbatim>\<open>detection/detection.service.ts\<close>
  \<^item> \<open>Notifications\<close>: \<^verbatim>\<open>notifications/notification-queue.service.ts\<close>
  \<^item> \<open>Runner\<close>: \<^verbatim>\<open>common/interval-runner.ts\<close>, the outbound heartbeat, \<^verbatim>\<open>health/health.controller.ts\<close>
  \<^item> \<open>Listener\<close>: \<^verbatim>\<open>database/pg-listener.service.ts\<close>
  \<^item> \<open>Monitoring\<close>: these together: heartbeats, ticks and deliveries in any order on one database

  \<^bold>\<open>Sending alerts.\<close>
  \<^item> \<open>SafeHttp\<close>: \<^verbatim>\<open>notifications/safe-http.service.ts\<close>
  \<^item> \<open>Vault\<close>: \<^verbatim>\<open>notifications/channel-config.vault.ts\<close>, \<^verbatim>\<open>channel-config.resealer.ts\<close>, \<^verbatim>\<open>channels/channel-config.backfill.ts\<close>
  \<^item> \<open>Messages\<close>: \<^verbatim>\<open>notifications/alert.ts\<close>, \<^verbatim>\<open>templates.ts\<close>, \<^verbatim>\<open>senders/*.ts\<close>, \<^verbatim>\<open>sender.registry.ts\<close>
  \<^item> \<open>Mailer\<close>: \<^verbatim>\<open>notifications/email.service.ts\<close>
  \<^item> \<open>Channels\<close>: \<^verbatim>\<open>channels/*.ts\<close>

  \<^bold>\<open>The API.\<close>
  \<^item> \<open>Slug, Crypto\<close>: \<^verbatim>\<open>common/slug.util.ts\<close>, \<^verbatim>\<open>checks/check-slug.ts\<close>, \<^verbatim>\<open>common/crypto.util.ts\<close>
  \<^item> \<open>Requests\<close>: \<^verbatim>\<open>shared/src/schemas/*.ts\<close>: what the routes accept
  \<^item> \<open>Pagination\<close>: \<^verbatim>\<open>checks/pagination.ts\<close> and the locale \<open>keyset\<close>
  \<^item> \<open>Checks, Sync\<close>: \<^verbatim>\<open>checks/checks.service.ts\<close>, \<^verbatim>\<open>check-sync.service.ts\<close> with their repositories and mappers
  \<^item> \<open>Access\<close>: \<^verbatim>\<open>access/*.ts\<close>, \<^verbatim>\<open>admin/administrator.service.ts\<close>
  \<^item> \<open>Projects, ApiKeys, AuditTrail\<close>: \<^verbatim>\<open>projects/*.ts\<close>, \<^verbatim>\<open>api-keys/*.ts\<close>, \<^verbatim>\<open>audit/*.ts\<close>
  \<^item> \<open>Api\<close>: \<^verbatim>\<open>checks/checks.controller.ts\<close>, \<^verbatim>\<open>projects/projects.controller.ts\<close>
  \<^item> \<open>Edge\<close>: \<^verbatim>\<open>common/rate-limit.guard.ts\<close>, \<^verbatim>\<open>http-exception.filter.ts\<close>, \<^verbatim>\<open>proxy-trust.ts\<close>

  \<^bold>\<open>Accounts and plans.\<close>
  \<^item> \<open>Quotas\<close>: \<^verbatim>\<open>quotas/quota.service.ts\<close>, \<^verbatim>\<open>quota-enforcer.service.ts\<close>
  \<^item> \<open>QuotaMail\<close>: the notices of \<^verbatim>\<open>quota-enforcer.service.ts\<close>
  \<^item> \<open>Network, Signup\<close>: \<^verbatim>\<open>auth/signup/*.ts\<close>
  \<^item> \<open>SignIn\<close>: \<^verbatim>\<open>auth/recovery/*.ts\<close>, \<^verbatim>\<open>auth/lockout/*.ts\<close>, the session hooks of \<^verbatim>\<open>auth/better-auth/*.ts\<close>
  \<^item> \<open>AuthGate\<close>: the mount of the sign-in endpoints, the hooks around them and passkey registration (\<^verbatim>\<open>auth/better-auth/*.ts\<close>)
  \<^item> \<open>Account\<close>: \<^verbatim>\<open>auth/account/*.ts\<close>, \<^verbatim>\<open>auth/users/users.repository.ts\<close>
  \<^item> \<open>Stripe, Billing\<close>: \<^verbatim>\<open>billing/*.ts\<close>
  \<^item> \<open>Retention\<close>: \<^verbatim>\<open>retention/retention.service.ts\<close>
  \<^item> \<open>Config\<close>: \<^verbatim>\<open>config/*.ts\<close>
  \<^item> \<open>AdminStats\<close>: \<^verbatim>\<open>admin/admin-stats.service.ts\<close>, \<^verbatim>\<open>admin.controller.ts\<close>
  \<^item> \<open>Support\<close>: \<^verbatim>\<open>auth/cli/support-commands.ts\<close> and \<^verbatim>\<open>auth/cli.ts\<close>

  \<^bold>\<open>The whole server.\<close>
  \<^item> \<open>Lifecycle\<close>: every operation on checks as one machine over one database, and the life of a check it implements

  \<^bold>\<open>State.\<close> The database is one record, \<open>db\<close>, whose fields are the tables as lists of
  row records; a statement is a function from one database (and the instant \<open>now()\<close>) to the next
  with what it returns, under the name of the constant or method that holds it. Tables only one
  component uses extend it (\<open>billing_db\<close>, the audit service, the recovery codes). What a process
  keeps in memory (limiter windows, the cache of checks, the state of a loop) is a record or an
  insertion-ordered map of its own. An operation that may throw returns a sum, the error on the
  left. Statements that the program runs one after the other are composed that way; where two
  requests may interleave and it matters, the pieces are separate steps (loads of the cache,
  creations under the lock of an account, claims of two workers, failed sign-ins), and properties
  quantify over every order of them. Transactions and row locks are atomic steps.

  \<^bold>\<open>Interfaces.\<close> \<open>bounded_map\<close> is a map that evicts before it grows past its capacity, given by
  the rate limiter and the metadata cache. \<open>machine\<close> is a step function with an invariant that
  every step keeps; limiter, cache, loops, ingestion, detection, creations and the monitoring core
  are instances, and properties of histories rest on it. \<open>keyset\<close> is a listing read page by page
  (checks, incidents, audit trail). \<open>batched\<close> is a statement repeated until it finds less than a
  full batch (pings and incidents of the purge).

  \<^bold>\<open>What the lemmas show.\<close> Ingestion: a heartbeat has the exact effect of the statement, which
  leaves paused checks alone and keeps the indexes. Detection: a tick takes a check DOWN only past
  deadline and grace, and does so for every such check within its batches, with its incident and
  its alerts. Delivery: claims are exclusive within their lease, ceilings hold, failures back off,
  recoveries follow alarms, a delivery that succeeds reached an allowed address with a configuration
  that opened. Channels: configurations are stored sealed, and nothing of a secret influences an
  answer. API: no request changes or reads rows of a project its principal has no role in; pages
  list every row once; sync and deletion have exactly their documented effects. Plans: limits hold
  under every interleaving of creations, and the reconciler restores them. Billing: an event is applied
  once, and only if its signature verifies. Accounts: registration, recovery codes, sessions, deletion.
  The server as a whole: every step moves every check along \<open>lifecycle\<close>, the relation that
  says which actor may move a check from which state, and only a heartbeat brings one UP.

  \<^bold>\<open>Bounds.\<close> A tick takes at most 25 batches (\<open>advance_loop\<close> recurs on that number, as the loop
  does); the limiters hold 100000 or 20000 keys and the cache 100000; reseal and purge work in
  batches (200 rows; 10000 rows, at most 200 times), the purge being complete up to two million
  rows. No definition takes fuel that the code does not have: other loops recur on their data or
  by a proved measure.

  \<^bold>\<open>Parameters.\<close> Code outside the repository is an argument: the cron library and \<open>Intl\<close>, the
  hashes and ciphers, random bytes, the URL parser, DNS, the HTTP and SMTP exchange, JSON texts,
  Unicode decomposition, the payment provider's answers and the session library. Where a property
  needs what they document (that decryption inverts encryption, that parsing inverts printing, that
  equal keys give equal digests) it is a named hypothesis, and a witness instantiates it.

  \<^bold>\<open>Divergences.\<close> Several lemmas record where the code does not do what its documentation says:
  \<open>jul_refused\<close>, \<open>manual_pause_is_undone\<close>, \<open>resume_escapes_the_plan\<close>, \<open>period_alone_is_ignored\<close>,
  \<open>crash_between_loses_alarm\<close>, \<open>late_alarm_without_recovery\<close>, \<open>restart_hides_reported_failure\<close>,
  \<open>stale_load_survives_invalidation\<close>, \<open>long_outage_recovers_silently\<close>,
  \<open>same_second_update_undoes_cancellation\<close>, \<open>refused_after_cancelling\<close>, \<open>removal_strands_other_members\<close>,
  \<open>connection_quota_sequential_only\<close>, \<open>disabled_account_burns_code\<close>, \<open>parallel_failures_count_once\<close>,
  \<open>plain_http_in_production\<close>, \<open>inherited_name_is_unlimited\<close>, \<open>setup_link_unrecorded\<close>, \<open>own_pages_refused\<close>, \<open>both_passkeys_go\<close>, \<open>recovery_sign_in_misnamed\<close>, \<open>twenty_first_unnamed\<close>, \<open>stopped_while_connecting\<close> and others beside them.

  \<^bold>\<open>Not modelled.\<close> The web interface and the site (presentation of this API and texts), the
  libraries for other languages, the connection pools (\<^verbatim>\<open>database/pg.service.ts\<close>,
  \<^verbatim>\<open>prisma.service.ts\<close>),
  the bootstrap of the server and its log lines, the options given to the authentication library
  (\<^verbatim>\<open>auth.factory.ts\<close> beyond its hooks), whose behaviour is not in this repository, the support bundle, and the numeric ranges of single environment variables.
\<close>

end
